(* ===== verification/Prelude.thy ===== *)
theory Prelude
  imports Main "HOL-Library.Finite_Map" "HOL-Library.Char_ord" "HOL-Library.List_Lexorder"
    "HOL-Library.Monad_Syntax" "HOL-Library.Multiset"
begin

section \<open>Vocabulary shared by the components\<close>

text \<open>
  What every component needs: Go maps as finite maps, the order of a Go range loop over a map,
  Go slices of strings as lists, and the string functions of Go's standard library that the
  controller calls. Strings are byte strings, as in Go; \<open>'a option\<close> is the type of a call
  that may panic, with None for the panic.
\<close>

named_theorems map_simps \<open>what the map operations do to look-ups and key sets\<close>

subsection \<open>Maps\<close>

text \<open>
  A Go map is a finite map. Reading a missing key of a string map gives the zero value, and
  \<^verbatim>\<open>len(m)\<close> counts the keys.
\<close>

abbreviation keys :: "('k, 'v) fmap \<Rightarrow> 'k set" where
  "keys m \<equiv> fmdom' m"

definition map_get :: "('k, string) fmap \<Rightarrow> 'k \<Rightarrow> string" where
  "map_get m k = (case fmlookup m k of None \<Rightarrow> '''' | Some v \<Rightarrow> v)"

definition map_len :: "('k, 'v) fmap \<Rightarrow> nat" where
  "map_len m = fcard (fmdom m)"

lemma map_len_0 [simp]: "map_len m = 0 \<longleftrightarrow> m = fmempty"
proof -
  have "fmdom m = {||} \<longleftrightarrow> m = fmempty"
    by (metis fmdom_empty fmrestrict_fset_dom fmrestrict_fset_null)
  then show ?thesis by (simp add: map_len_def)
qed

lemma fmempty_keys: "m = fmempty \<longleftrightarrow> keys m = {}"
  by (metis fmdom'_empty fmrestrict_set_dom fmrestrict_set_null)

lemma keys_iff: "k \<in> keys m \<longleftrightarrow> fmlookup m k \<noteq> None"
  by (simp add: fmlookup_dom'_iff)

lemma fset_fmdom [simp]: "fset (fmdom m) = keys m"
  by (simp add: fmdom'_alt_def)

lemma fmlookup_eqI: "(\<And>k. fmlookup m k = fmlookup n k) \<Longrightarrow> m = n"
  by (rule fmap_ext)

lemma map_get_upd [map_simps]: "map_get (fmupd k v m) k' = (if k = k' then v else map_get m k')"
  by (simp add: map_get_def)

lemma map_get_drop [map_simps]: "map_get (fmdrop k m) k' = (if k = k' then '''' else map_get m k')"
  by (simp add: map_get_def)

lemmas map_ops [map_simps] = fmupd_lookup fmlookup_drop fmdom'_fmupd fmdom'_drop fmempty_lookup

subsection \<open>The order of a range loop\<close>

text \<open>
  Go visits the entries of a map in an order it does not specify and that may differ from one
  loop to the next. A model of such a loop takes the list of keys it visits. Where an operation
  runs many loops the orders come from one function of the loop (its site \<open>'s\<close>) and the
  key set; Go promises that it visits each key exactly once, and nothing else.
\<close>

definition enumerates :: "'k list \<Rightarrow> ('k, 'v) fmap \<Rightarrow> bool" where
  "enumerates ks m \<longleftrightarrow> distinct ks \<and> set ks = keys m"

definition fair_range :: "('s \<Rightarrow> 'k fset \<Rightarrow> 'k list) \<Rightarrow> bool" where
  "fair_range ord \<longleftrightarrow> (\<forall>s K. distinct (ord s K) \<and> set (ord s K) = fset K)"

locale go_range =
  fixes ord :: "'s \<Rightarrow> 'k fset \<Rightarrow> 'k list"
  assumes fair: "fair_range ord"
begin

lemma range_distinct [simp]: "distinct (ord s K)"
  using fair by (simp add: fair_range_def)

lemma range_set [simp]: "set (ord s K) = fset K"
  using fair by (simp add: fair_range_def)

lemma range_enumerates [simp]: "enumerates (ord s (fmdom m)) m"
  by (simp add: enumerates_def)

end

text \<open>One such order: ascending keys. The witnesses run the operations with it.\<close>

definition ascending :: "'s \<Rightarrow> 'k::linorder fset \<Rightarrow> 'k list" where
  "ascending s K = sorted_list_of_fset K"

lemma fair_ascending: "fair_range ascending"
  by (simp add: fair_range_def ascending_def sorted_list_of_fset.rep_eq)

interpretation asc: go_range ascending
  by unfold_locales (rule fair_ascending)

lemma enumerates_distinct: "enumerates ks m \<Longrightarrow> distinct ks"
  by (simp add: enumerates_def)

lemma enumerates_set: "enumerates ks m \<Longrightarrow> set ks = keys m"
  by (simp add: enumerates_def)

lemma enumerates_lookup: "enumerates ks m \<Longrightarrow> k \<in> set ks \<Longrightarrow> \<exists>v. fmlookup m k = Some v"
  by (simp add: enumerates_def fmlookup_dom'_iff)

text \<open>What a loop that collects a list per entry has collected at the end.\<close>

definition range_concat :: "('v \<Rightarrow> 'a list) \<Rightarrow> ('k, 'v) fmap \<Rightarrow> 'k list \<Rightarrow> 'a list" where
  "range_concat f m ks = concat (map (\<lambda>k. case fmlookup m k of None \<Rightarrow> [] | Some v \<Rightarrow> f v) ks)"

lemma range_concat_simps [simp]:
  "range_concat f m [] = []"
  "range_concat f m (k # ks) = (case fmlookup m k of None \<Rightarrow> [] | Some v \<Rightarrow> f v) @ range_concat f m ks"
  by (simp_all add: range_concat_def)

lemma enumerates_Ex:
  "enumerates ks m \<Longrightarrow>
     (\<exists>k \<in> set ks. \<exists>v. fmlookup m k = Some v \<and> P k v) \<longleftrightarrow> (\<exists>k v. fmlookup m k = Some v \<and> P k v)"
  by (auto simp: enumerates_def fmdom'I)

lemma set_range_concat:
  assumes "enumerates ks m"
  shows "x \<in> set (range_concat f m ks) \<longleftrightarrow> (\<exists>k v. fmlookup m k = Some v \<and> x \<in> set (f v))"
proof -
  have "x \<in> set (range_concat f m ks) \<longleftrightarrow> (\<exists>k \<in> set ks. \<exists>v. fmlookup m k = Some v \<and> x \<in> set (f v))"
    by (induction ks) (auto split: option.splits)
  then show ?thesis using enumerates_Ex [OF assms] by simp
qed

lemma enumerates_mset:
  "enumerates ks m \<Longrightarrow> enumerates ks' m \<Longrightarrow> mset ks = mset ks'"
  using set_eq_iff_mset_eq_distinct [of ks ks'] by (simp add: enumerates_def)

lemma mset_range_concat:
  "mset ks = mset ks' \<Longrightarrow> mset (range_concat f m ks) = mset (range_concat f m ks')"
  by (simp add: range_concat_def mset_concat flip: sum_mset_sum_list)

subsection \<open>Slices of strings\<close>

text \<open>\<open>contains\<close> is written out three times in the source, in the packages
  orchestration, store and controller.\<close>

fun contains :: "string list \<Rightarrow> string \<Rightarrow> bool" where
  "contains [] val = False"
| "contains (s # slice) val = (if s = val then True else contains slice val)"

lemma contains_iff [simp]: "contains slice val \<longleftrightarrow> val \<in> set slice"
  by (induction slice) auto

text \<open>\<^verbatim>\<open>sort.Strings\<close>: ascending by bytes.\<close>

definition sort_strings :: "string list \<Rightarrow> string list" where
  "sort_strings xs = sort xs"

lemma set_sort_strings [simp]: "set (sort_strings xs) = set xs"
  by (simp add: sort_strings_def)

lemma sort_strings_cong: "mset xs = mset ys \<Longrightarrow> sort_strings xs = sort_strings ys"
  unfolding sort_strings_def by (metis properties_for_sort sorted_sort mset_sort)

text \<open>A sorted slice does not depend on the order in which its elements were collected.\<close>

lemma sort_strings_unique:
  "distinct xs \<Longrightarrow> distinct ys \<Longrightarrow> set xs = set ys \<Longrightarrow> sort_strings xs = sort_strings ys"
  by (simp add: sort_strings_def sorted_distinct_set_unique)

end
