(* ===== verification/Store.thy ===== *)
theory Store
  imports Prelude
begin

section \<open>The controller's record store (pkg/store/store.go)\<close>

text \<open>
  The store maps an IP address to the host names that share it (each with the type of its DNS
  record) and to the network view and CIDR it was allocated from. The operations follow
  store.go; where one ranges over \<open>Records\<close> the visited addresses are an argument. The
  abstract view of a store is \<open>entry\<close>: the record type a host has at an address. The laws of
  the section on the abstract view say what each operation does to it, and
  \<open>store_wf\<close> is the invariant that ties the three maps together.
\<close>

subsection \<open>State\<close>

type_synonym HostSet = "(string, string) fmap"

record Store =
  Records :: "(string, HostSet) fmap"
  Netviews :: "(string, string) fmap"
  Cidrs :: "(string, string) fmap"

definition NewStore :: Store where
  "NewStore = \<lparr>Records = fmempty, Netviews = fmempty, Cidrs = fmempty\<rparr>"

subsection \<open>Operations\<close>

definition overwriteRecord ::
    "Store \<Rightarrow> string \<Rightarrow> string \<Rightarrow> string \<Rightarrow> string \<Rightarrow> string \<Rightarrow> Store" where
  "overwriteRecord st ip host recordType netview cidr =
     st\<lparr>Records := fmupd ip (fmupd host recordType fmempty) (Records st),
        Netviews := fmupd ip netview (Netviews st),
        Cidrs := fmupd ip cidr (Cidrs st)\<rparr>"

definition AddRecord ::
    "Store \<Rightarrow> string \<Rightarrow> string \<Rightarrow> string \<Rightarrow> string \<Rightarrow> string \<Rightarrow> Store" where
  "AddRecord st ip host recordType netview cidr =
     (case fmlookup (Records st) ip of
        Some hosts \<Rightarrow>
          (case fmlookup hosts host of
             None \<Rightarrow>
               st\<lparr>Records := fmupd ip (fmupd host recordType hosts) (Records st),
                  Netviews := fmupd ip netview (Netviews st),
                  Cidrs := fmupd ip cidr (Cidrs st)\<rparr>
           | Some _ \<Rightarrow> st)
      | None \<Rightarrow> overwriteRecord st ip host recordType netview cidr)"

definition deleteRecord :: "Store \<Rightarrow> string \<Rightarrow> Store" where
  "deleteRecord st ip =
     st\<lparr>Records := fmdrop ip (Records st),
        Netviews := fmdrop ip (Netviews st),
        Cidrs := fmdrop ip (Cidrs st)\<rparr>"

text \<open>The last argument lists the addresses in the order the range loop visits them.\<close>

fun deleteHost :: "Store \<Rightarrow> string \<Rightarrow> string list \<Rightarrow> Store" where
  "deleteHost st delHost [] = st"
| "deleteHost st delHost (ip # ips) =
     (case fmlookup (Records st) ip of
        None \<Rightarrow> deleteHost st delHost ips
      | Some hosts \<Rightarrow>
          (case fmlookup hosts delHost of
             None \<Rightarrow> deleteHost st delHost ips
           | Some _ \<Rightarrow>
               (let hosts' = fmdrop delHost hosts;
                    st' = st\<lparr>Records := fmupd ip hosts' (Records st)\<rparr>
                in if map_len hosts' = 0 then deleteRecord st' ip else st')))"

text \<open>\<open>ord n\<close> is the order of the range loop that deletes the n-th host.\<close>

fun DeleteHosts :: "(nat \<Rightarrow> string fset \<Rightarrow> string list) \<Rightarrow> Store \<Rightarrow> string list \<Rightarrow> Store" where
  "DeleteHosts ord st [] = st"
| "DeleteHosts ord st (delHost # delHosts) =
     DeleteHosts (\<lambda>n. ord (Suc n))
       (deleteHost st delHost (ord 0 (fmdom (Records st)))) delHosts"

definition getHosts :: "Store \<Rightarrow> string \<Rightarrow> (HostSet \<Rightarrow> string list) \<Rightarrow> string list" where
  "getHosts st ip ord =
     (case fmlookup (Records st) ip of
        Some hosts \<Rightarrow> sort_strings (ord hosts)
      | None \<Rightarrow> [])"

fun GetIP :: "Store \<Rightarrow> string \<Rightarrow> string list \<Rightarrow> string" where
  "GetIP st host [] = ''''"
| "GetIP st host (ip # ips) =
     (case fmlookup (Records st) ip of
        None \<Rightarrow> GetIP st host ips
      | Some hosts \<Rightarrow>
          (case fmlookup hosts host of
             Some _ \<Rightarrow> ip
           | None \<Rightarrow> GetIP st host ips))"

subsection \<open>The abstract view\<close>

text \<open>\<open>entry st ip host\<close> is the type of the record that ties the host to the address.\<close>

definition entry :: "Store \<Rightarrow> string \<Rightarrow> string \<Rightarrow> string option" where
  "entry st ip host =
     (case fmlookup (Records st) ip of None \<Rightarrow> None | Some hosts \<Rightarrow> fmlookup hosts host)"

definition stored_at :: "Store \<Rightarrow> string \<Rightarrow> string \<Rightarrow> bool" where
  "stored_at st host ip \<longleftrightarrow> entry st ip host \<noteq> None"

definition stored :: "Store \<Rightarrow> string \<Rightarrow> bool" where
  "stored st host \<longleftrightarrow> fBex (fmdom (Records st)) (\<lambda>ip. stored_at st host ip)"

text \<open>Every address has a view and a CIDR, and at least one host.\<close>

definition store_wf :: "Store \<Rightarrow> bool" where
  "store_wf st \<longleftrightarrow>
     fmdom (Netviews st) = fmdom (Records st) \<and> fmdom (Cidrs st) = fmdom (Records st) \<and>
     fmpred (\<lambda>ip hosts. hosts \<noteq> fmempty) (Records st)"

text \<open>No host is stored at two addresses.\<close>

definition hosts_unique :: "Store \<Rightarrow> bool" where
  "hosts_unique st \<longleftrightarrow>
     fmpred (\<lambda>ip hosts.
       fmpred (\<lambda>ip' hosts'. ip = ip' \<or> fmdom hosts |\<inter>| fmdom hosts' = {||}) (Records st))
     (Records st)"

named_theorems entry_simps \<open>the record types after each operation\<close>

lemma entry_NewStore [entry_simps]: "entry NewStore ip host = None"
  by (simp add: entry_def NewStore_def)

lemma entry_AddRecord [entry_simps]:
  "entry (AddRecord st ip host t nv c) ip' host' =
     (if ip' = ip \<and> host' = host \<and> entry st ip host = None then Some t else entry st ip' host')"
  by (auto simp: entry_def AddRecord_def overwriteRecord_def split: option.splits)

lemma entry_overwriteRecord [entry_simps]:
  "entry (overwriteRecord st ip host t nv c) ip' host' =
     (if ip' = ip then if host' = host then Some t else None else entry st ip' host')"
  by (auto simp: entry_def overwriteRecord_def)

lemma entry_deleteRecord [entry_simps]:
  "entry (deleteRecord st ip) ip' host = (if ip' = ip then None else entry st ip' host)"
  by (auto simp: entry_def deleteRecord_def)

lemma stored_at_iff: "stored_at st host ip \<longleftrightarrow> (\<exists>t. entry st ip host = Some t)"
  by (auto simp: stored_at_def)

lemma stored_at_key: "stored_at st host ip \<Longrightarrow> ip \<in> keys (Records st)"
  by (auto simp: stored_at_def entry_def keys_iff split: option.splits)

lemma stored_iff: "stored st host \<longleftrightarrow> (\<exists>ip. stored_at st host ip)"
  using stored_at_key by (auto simp: stored_def)

lemma hosts_unique_iff:
  "hosts_unique st \<longleftrightarrow>
     (\<forall>host ip ip'. stored_at st host ip \<longrightarrow> stored_at st host ip' \<longrightarrow> ip = ip')"
    (is "_ \<longleftrightarrow> ?U")
proof
  assume u: "hosts_unique st"
  show ?U
  proof (intro allI impI)
    fix host ip ip' assume "stored_at st host ip" "stored_at st host ip'"
    then obtain hs hs' t t' where "fmlookup (Records st) ip = Some hs" "fmlookup hs host = Some t"
        "fmlookup (Records st) ip' = Some hs'" "fmlookup hs' host = Some t'"
      by (auto simp: stored_at_iff entry_def split: option.splits)
    moreover from this have "host |\<in>| fmdom hs |\<inter>| fmdom hs'" by (auto simp: fmdom'I)
    ultimately show "ip = ip'" using u unfolding hosts_unique_def fmpred_iff by fastforce
  qed
next
  assume u: ?U
  show "hosts_unique st"
    unfolding hosts_unique_def fmpred_iff
  proof (intro allI impI)
    fix ip hs ip' hs'
    assume *: "fmlookup (Records st) ip = Some hs" "fmlookup (Records st) ip' = Some hs'"
    then have "stored_at st h ip" if "h |\<in>| fmdom hs" for h
      using that by (auto simp: stored_at_iff entry_def fmlookup_dom'_iff)
    moreover have "stored_at st h ip'" if "h |\<in>| fmdom hs'" for h
      using that * by (auto simp: stored_at_iff entry_def fmlookup_dom'_iff)
    ultimately show "ip = ip' \<or> fmdom hs |\<inter>| fmdom hs' = {||}"
      using u by blast
  qed
qed

lemma hosts_uniqueD: "hosts_unique st \<Longrightarrow> stored_at st host ip \<Longrightarrow> stored_at st host ip' \<Longrightarrow> ip = ip'"
  by (auto simp: hosts_unique_iff)

subsection \<open>The range loops\<close>

text \<open>Both loops stop at the first address that holds the host.\<close>

definition holder :: "Store \<Rightarrow> string \<Rightarrow> string list \<Rightarrow> string option" where
  "holder st host ips = find (stored_at st host) ips"

lemma holder_Some: "holder st host ips = Some ip \<Longrightarrow> stored_at st host ip \<and> ip \<in> set ips"
  by (auto simp: holder_def find_Some_iff in_set_conv_nth)

lemma holder_None: "holder st host ips = None \<longleftrightarrow> (\<forall>ip \<in> set ips. \<not> stored_at st host ip)"
  by (auto simp: holder_def find_None_iff)

lemma holder_enum_None:
  "enumerates ips (Records st) \<Longrightarrow> holder st host ips = None \<longleftrightarrow> \<not> stored st host"
  using stored_at_key by (auto simp: holder_None stored_iff enumerates_set)

lemma holder_unique:
  assumes "hosts_unique st" and "enumerates ips (Records st)"
  shows "holder st host ips = Some ip \<longleftrightarrow> stored_at st host ip"
proof
  assume "stored_at st host ip"
  then have "stored st host" by (auto simp: stored_iff)
  then obtain ip' where "holder st host ips = Some ip'"
    using holder_enum_None [OF assms(2)] by blast
  with \<open>stored_at st host ip\<close> assms(1) show "holder st host ips = Some ip"
    using holder_Some hosts_uniqueD by blast
qed (use holder_Some in blast)

lemma GetIP_holder: "GetIP st host ips = (case holder st host ips of None \<Rightarrow> '''' | Some ip \<Rightarrow> ip)"
  by (induction ips) (auto simp: holder_def stored_at_def entry_def split: option.splits)

lemma deleteHost_none: "holder st host ips = None \<Longrightarrow> deleteHost st host ips = st"
  by (induction ips)
     (auto simp: holder_def stored_at_def entry_def split: option.splits if_splits)

text \<open>What the loop does once it has found its address.\<close>

definition removeAt :: "Store \<Rightarrow> string \<Rightarrow> string \<Rightarrow> Store" where
  "removeAt st host ip =
     (case fmlookup (Records st) ip of
        None \<Rightarrow> st
      | Some hosts \<Rightarrow>
          (let st' = st\<lparr>Records := fmupd ip (fmdrop host hosts) (Records st)\<rparr>
           in if fmdrop host hosts = fmempty then deleteRecord st' ip else st'))"

lemma deleteHost_some: "holder st host ips = Some ip \<Longrightarrow> deleteHost st host ips = removeAt st host ip"
  by (induction ips)
     (auto simp: holder_def stored_at_def entry_def removeAt_def Let_def
       split: option.splits if_splits)

lemma entry_removeAt [entry_simps]:
  "entry (removeAt st host ip) ip' host' =
     (if ip' = ip \<and> host' = host then None else entry st ip' host')"
proof (cases "fmlookup (Records st) ip")
  case None
  then show ?thesis by (simp add: removeAt_def entry_def)
next
  case (Some hs)
  have "fmlookup hs host' = None" if "fmdrop host hs = fmempty" "host' \<noteq> host"
    using that by (metis fmempty_lookup fmlookup_drop)
  with Some show ?thesis
    by (auto simp: removeAt_def entry_def deleteRecord_def Let_def)
qed

lemma deleteHost_cases:
  "deleteHost st host ips =
     (case holder st host ips of None \<Rightarrow> st | Some ip \<Rightarrow> removeAt st host ip)"
  by (auto simp: deleteHost_none deleteHost_some split: option.splits)

subsection \<open>The well-formedness invariant\<close>

named_theorems wf_intros \<open>operations that keep a store well-formed\<close>

lemma store_wf_New [wf_intros]: "store_wf NewStore"
  by (simp add: store_wf_def NewStore_def)

lemma store_wf_overwrite [wf_intros]: "store_wf st \<Longrightarrow> store_wf (overwriteRecord st ip host t nv c)"
  by (auto simp: store_wf_def overwriteRecord_def fmpred_iff fmempty_keys)

lemma store_wf_Add [wf_intros]: "store_wf st \<Longrightarrow> store_wf (AddRecord st ip host t nv c)"
  by (auto simp: AddRecord_def store_wf_overwrite split: option.splits)
     (auto simp: store_wf_def fmpred_iff fmempty_keys)

lemma store_wf_deleteRecord [wf_intros]: "store_wf st \<Longrightarrow> store_wf (deleteRecord st ip)"
  by (auto simp: store_wf_def deleteRecord_def fmpred_iff split: if_splits)

lemma store_wf_removeAt [wf_intros]: "store_wf st \<Longrightarrow> store_wf (removeAt st host ip)"
  by (auto simp: removeAt_def store_wf_def deleteRecord_def fmpred_iff Let_def fmdom'I
      finsert_absorb split: option.splits if_splits)

lemma store_wf_deleteHost [wf_intros]: "store_wf st \<Longrightarrow> store_wf (deleteHost st host ips)"
  by (auto simp: deleteHost_cases store_wf_removeAt split: option.splits)

lemma store_wf_DeleteHosts [wf_intros]: "store_wf st \<Longrightarrow> store_wf (DeleteHosts ord st hosts)"
  by (induction hosts arbitrary: ord st) (auto intro: store_wf_deleteHost)

lemma store_wf_key_iff: "store_wf st \<Longrightarrow> ip \<in> keys (Records st) \<longleftrightarrow> (\<exists>host. stored_at st host ip)"
  by (auto simp: store_wf_def stored_at_iff entry_def fmpred_iff fmempty_keys keys_iff
      split: option.splits) (metis fmdom'_notI fmdom'_notD ex_in_conv option.collapse)

subsection \<open>Deleting hosts\<close>

lemma entry_deleteHost:
  "entry (deleteHost st host ips) ip host' =
     (if host' = host \<and> holder st host ips = Some ip then None else entry st ip host')"
  by (auto simp: deleteHost_cases entry_simps split: option.splits)

lemma entry_DeleteHosts_other:
  "host \<notin> set hosts \<Longrightarrow> entry (DeleteHosts ord st hosts) ip host = entry st ip host"
  by (induction hosts arbitrary: ord st) (auto simp: entry_deleteHost)

lemma entry_DeleteHosts_le:
  "entry (DeleteHosts ord st hosts) ip host = Some t \<Longrightarrow> entry st ip host = Some t"
  by (induction hosts arbitrary: ord st) (fastforce simp: entry_deleteHost split: if_splits)+

lemma DeleteHosts_append:
  "DeleteHosts ord st (xs @ ys) =
     DeleteHosts (\<lambda>n. ord (n + length xs)) (DeleteHosts ord st xs) ys"
  by (induction xs arbitrary: ord st) auto

text \<open>Each turn of the loop removes the host from one more address.\<close>

definition places :: "Store \<Rightarrow> string \<Rightarrow> string set" where
  "places st host = {ip. stored_at st host ip}"

lemma finite_places [simp]: "finite (places st host)"
  by (rule finite_subset [of _ "keys (Records st)"]) (auto simp: places_def stored_at_key)

lemma places_empty: "places st host = {} \<longleftrightarrow> \<not> stored st host"
  by (auto simp: places_def stored_iff)

lemma card_places_deleteHost:
  assumes "enumerates ips (Records st)"
  shows "card (places (deleteHost st host ips) host) = card (places st host) - 1"
proof (cases "holder st host ips")
  case None
  then have "places st host = {}"
    using holder_enum_None [OF assms] by (simp add: places_empty)
  with None show ?thesis by (simp add: deleteHost_none)
next
  case (Some ip)
  then have "places (deleteHost st host ips) host = places st host - {ip}"
    by (auto simp: places_def stored_at_def entry_deleteHost)
  moreover have "ip \<in> places st host" using Some holder_Some by (auto simp: places_def)
  ultimately show ?thesis by simp
qed

lemma places_deleteHost_other:
  "host \<noteq> host' \<Longrightarrow> places (deleteHost st host ips) host' = places st host'"
  by (auto simp: places_def stored_at_def entry_deleteHost)

lemma fair_range_shift: "fair_range ord \<Longrightarrow> fair_range (\<lambda>n. ord (Suc n))"
  by (simp add: fair_range_def)

lemma fair_enumerates: "fair_range ord \<Longrightarrow> enumerates (ord s (fmdom m)) m"
  by (simp add: fair_range_def enumerates_def)

lemma DeleteHosts_all:
  assumes "fair_range ord" and "card (places st host) \<le> count_list hosts host"
  shows "\<not> stored (DeleteHosts ord st hosts) host"
  using assms
proof (induction hosts arbitrary: ord st)
  case Nil
  then show ?case by (simp add: places_empty [symmetric])
next
  case (Cons h hosts)
  let ?st = "deleteHost st h (ord 0 (fmdom (Records st)))"
  have "card (places ?st host) \<le> count_list hosts host"
  proof (cases "h = host")
    case True
    with Cons.prems card_places_deleteHost [OF fair_enumerates [OF Cons.prems(1)]]
    show ?thesis by simp
  next
    case False
    with Cons.prems(2) show ?thesis by (simp add: places_deleteHost_other)
  qed
  with Cons.IH [OF fair_range_shift [OF Cons.prems(1)]] show ?case by simp
qed

lemma card_places_unique: "hosts_unique st \<Longrightarrow> card (places st host) \<le> 1"
  by (simp add: card_le_Suc0_iff_eq) (auto simp: places_def hosts_uniqueD)

lemma DeleteHosts_unique:
  assumes "fair_range ord" and "hosts_unique st" and "host \<in> set hosts"
  shows "entry (DeleteHosts ord st hosts) ip host = None"
proof -
  have "1 \<le> count_list hosts host" using assms(3) by (metis count_list_0_iff less_one not_le)
  then have "\<not> stored (DeleteHosts ord st hosts) host"
    using DeleteHosts_all assms(1) card_places_unique [OF assms(2)] order_trans by blast
  then show ?thesis by (auto simp: stored_iff stored_at_def)
qed

end
