(* ===== verification/IP_Groups.thy ===== *)
theory IP_Groups
  imports Prelude "HOL-Library.Product_Lexorder"
begin

section \<open>Groups of resources that share an address (pkg/orchestration)\<close>

text \<open>
  The orchestration client collects the watched resources in groups (types.go,
  orchestration.go). A group is named by a \<open>GroupKey\<close> and lists one \<open>Spec\<close> for each of its
  resources. The mutex of the Go struct makes every operation atomic, so the model is the map
  alone. Range loops over the map take the visited keys as their last argument.
\<close>

subsection \<open>Data (types.go)\<close>

record resourceKey =
  rkKind :: string
  rkName :: string
  rkNamespace :: string

record GroupKey =
  gkName :: string
  gkNetview :: string
  gkCidr :: string

record Spec =
  Kind :: string
  Name :: string
  Namespace :: string
  Hosts :: "string list"
  Netview :: string
  Cidr :: string

type_synonym IPGroups = "(GroupKey, Spec list) fmap"

text \<open>Group keys are ordered by their fields, so that the groups have an ascending order too.\<close>

definition key_tuple :: "'a GroupKey_ext \<Rightarrow> string \<times> string \<times> string \<times> 'a" where
  "key_tuple k = (gkName k, gkNetview k, gkCidr k, GroupKey.more k)"

instantiation GroupKey_ext :: (linorder) linorder
begin

definition less_eq_GroupKey_ext :: "'a GroupKey_ext \<Rightarrow> 'a GroupKey_ext \<Rightarrow> bool" where
  "less_eq_GroupKey_ext k k' \<longleftrightarrow> key_tuple k \<le> key_tuple k'"

definition less_GroupKey_ext :: "'a GroupKey_ext \<Rightarrow> 'a GroupKey_ext \<Rightarrow> bool" where
  "less_GroupKey_ext k k' \<longleftrightarrow> key_tuple k < key_tuple k'"

instance
proof
  fix x y z :: "'a GroupKey_ext"
  show "x = y" if "x \<le> y" "y \<le> x"
  proof -
    from that have "key_tuple x = key_tuple y" by (simp add: less_eq_GroupKey_ext_def)
    then show ?thesis by (simp add: key_tuple_def)
  qed
qed (auto simp: less_eq_GroupKey_ext_def less_GroupKey_ext_def)

end

text \<open>Go's zero value of a \<open>Spec\<close>.\<close>

definition zeroSpec :: Spec where
  "zeroSpec = \<lparr>Kind = '''', Name = '''', Namespace = '''', Hosts = [], Netview = '''', Cidr = ''''\<rparr>"

subsection \<open>Comparing specs\<close>

definition equalsKey :: "Spec \<Rightarrow> resourceKey \<Rightarrow> bool" where
  "equalsKey spec key \<longleftrightarrow>
     Kind spec = rkKind key \<and> Name spec = rkName key \<and> Namespace spec = rkNamespace key"

definition spec_equals :: "Spec \<Rightarrow> Spec \<Rightarrow> bool" where
  "spec_equals spec newSpec \<longleftrightarrow>
     Kind spec = Kind newSpec \<and> Name spec = Name newSpec \<and> Namespace spec = Namespace newSpec"

subsection \<open>Adding a resource\<close>

text \<open>The inner loop of \<open>addToIPGroup\<close>: append the hosts the spec does not have yet.\<close>

fun add_hosts :: "string list \<Rightarrow> string list \<Rightarrow> bool \<Rightarrow> string list \<times> bool" where
  "add_hosts have_hosts [] updated = (have_hosts, updated)"
| "add_hosts have_hosts (host # hosts) updated =
     (if \<not> contains have_hosts host then add_hosts (have_hosts @ [host]) hosts True
      else add_hosts have_hosts hosts updated)"

text \<open>The loop over the group: the new group, \<open>haveSpec\<close> and \<open>updated\<close>.\<close>

fun add_to_specs :: "Spec \<Rightarrow> Spec list \<Rightarrow> bool \<Rightarrow> bool \<Rightarrow> Spec list \<times> bool \<times> bool" where
  "add_to_specs newSpec [] haveSpec updated = ([], haveSpec, updated)"
| "add_to_specs newSpec (spec # grp) haveSpec updated =
     (if spec_equals spec newSpec then
        (let (hosts', updated') = add_hosts (Hosts spec) (Hosts newSpec) updated;
             (grp', haveSpec', updated'') = add_to_specs newSpec grp True updated'
         in (spec\<lparr>Hosts := hosts'\<rparr> # grp', haveSpec', updated''))
      else
        (let (grp', haveSpec', updated') = add_to_specs newSpec grp haveSpec updated
         in (spec # grp', haveSpec', updated')))"

definition addToIPGroup ::
    "IPGroups \<Rightarrow> GroupKey \<Rightarrow> string \<Rightarrow> string \<Rightarrow> string \<Rightarrow> string list \<Rightarrow> bool \<times> IPGroups" where
  "addToIPGroup groups gKey kind rsName namespace hosts =
     (let newSpec = \<lparr>Kind = kind, Name = rsName, Namespace = namespace, Hosts = hosts,
                      Netview = gkNetview gKey, Cidr = gkCidr gKey\<rparr>
      in case fmlookup groups gKey of
           Some grp \<Rightarrow>
             (let (grp', haveSpec, updated) = add_to_specs newSpec grp False False
              in if \<not> haveSpec then (True, fmupd gKey (grp' @ [newSpec]) groups)
                 else (updated, fmupd gKey grp' groups))
         | None \<Rightarrow> (True, fmupd gKey [newSpec] groups))"

subsection \<open>Removing a resource\<close>

text \<open>The first matching spec is cut out of the slice; None when there is none.\<close>

fun cut_spec :: "Spec \<Rightarrow> Spec list \<Rightarrow> Spec list option" where
  "cut_spec rmSpec [] = None"
| "cut_spec rmSpec (spec # grp) =
     (if spec_equals spec rmSpec then Some grp else map_option ((#) spec) (cut_spec rmSpec grp))"

text \<open>
  After the cut the Go variable \<open>grp\<close> still has its old length: it shows the shortened slice
  followed by the zeroed last cell, which is what the emptiness test reads. A group is deleted
  when that view is a single zero spec. The test is \<^verbatim>\<open>reflect.DeepEqual\<close>, which tells a nil slice of hosts from
  an empty one, as lists do not: the zeroed cell has the nil slice, and a stored spec is never zero otherwise,
  because it has the kind and name of its resource.
\<close>

fun removeFromIPGroup :: "IPGroups \<Rightarrow> Spec \<Rightarrow> GroupKey list \<Rightarrow> IPGroups" where
  "removeFromIPGroup groups rmSpec [] = groups"
| "removeFromIPGroup groups rmSpec (grpName # rest) =
     (case fmlookup groups grpName of
        None \<Rightarrow> removeFromIPGroup groups rmSpec rest
      | Some grp \<Rightarrow>
          (case cut_spec rmSpec grp of
             Some grp' \<Rightarrow>
               (let groups' = fmupd grpName grp' groups; view = grp' @ [zeroSpec]
                in if length view = 1 \<and> hd view = zeroSpec then fmdrop grpName groups'
                   else groups')
           | None \<Rightarrow>
               (let groups' = (if length grp = 1 \<and> hd grp = zeroSpec then fmdrop grpName groups
                               else groups)
                in removeFromIPGroup groups' rmSpec rest)))"

text \<open>
  \<open>removeHost\<close> never resets \<open>deleted\<close>: once it is set, the first spec of every later group
  is still examined before the loop over that group breaks.
\<close>

fun removeHost_specs :: "string \<Rightarrow> resourceKey \<Rightarrow> Spec list \<Rightarrow> bool \<Rightarrow> Spec list \<times> bool" where
  "removeHost_specs rmHost key [] deleted = ([], deleted)"
| "removeHost_specs rmHost key (spec # grp) deleted =
     (let (spec', deleted') =
            (if equalsKey spec key \<and> contains (Hosts spec) rmHost
             then (spec\<lparr>Hosts := remove1 rmHost (Hosts spec)\<rparr>, True) else (spec, deleted))
      in if deleted' then (spec' # grp, True)
         else (let (grp', deleted'') = removeHost_specs rmHost key grp deleted'
               in (spec' # grp', deleted'')))"

fun removeHost_groups :: "string \<Rightarrow> resourceKey \<Rightarrow> IPGroups \<Rightarrow> bool \<Rightarrow> GroupKey list \<Rightarrow> IPGroups" where
  "removeHost_groups rmHost key groups deleted [] = groups"
| "removeHost_groups rmHost key groups deleted (gKey # rest) =
     (case fmlookup groups gKey of
        None \<Rightarrow> removeHost_groups rmHost key groups deleted rest
      | Some grp \<Rightarrow>
          (let (grp', deleted') = removeHost_specs rmHost key grp deleted
           in removeHost_groups rmHost key (fmupd gKey grp' groups) deleted' rest))"

definition removeHost :: "IPGroups \<Rightarrow> string \<Rightarrow> resourceKey \<Rightarrow> GroupKey list \<Rightarrow> IPGroups" where
  "removeHost groups rmHost key gKeys = removeHost_groups rmHost key groups False gKeys"

subsection \<open>Queries\<close>

text \<open>\<open>spec.Hosts[0]\<close> panics when a spec has no host.\<close>

fun specs_with_hosts :: "string list \<Rightarrow> Spec list \<Rightarrow> Spec list option" where
  "specs_with_hosts hosts [] = Some []"
| "specs_with_hosts hosts (spec # grp) =
     (case Hosts spec of
        [] \<Rightarrow> None
      | host # _ \<Rightarrow>
          (if contains hosts host then map_option ((#) spec) (specs_with_hosts hosts grp)
           else specs_with_hosts hosts grp))"

fun getSpecsWithHosts :: "IPGroups \<Rightarrow> string list \<Rightarrow> GroupKey list \<Rightarrow> Spec list option" where
  "getSpecsWithHosts groups hosts [] = Some []"
| "getSpecsWithHosts groups hosts (gKey # rest) =
     (case fmlookup groups gKey of
        None \<Rightarrow> getSpecsWithHosts groups hosts rest
      | Some grp \<Rightarrow> do {
          specs \<leftarrow> specs_with_hosts hosts grp;
          specs' \<leftarrow> getSpecsWithHosts groups hosts rest;
          Some (specs @ specs')
        })"

fun collect_hosts :: "IPGroups \<Rightarrow> GroupKey list \<Rightarrow> string list" where
  "collect_hosts groups [] = []"
| "collect_hosts groups (gKey # rest) =
     (case fmlookup groups gKey of
        None \<Rightarrow> collect_hosts groups rest
      | Some grp \<Rightarrow> concat (map Hosts grp) @ collect_hosts groups rest)"

definition GetAllHosts :: "IPGroups \<Rightarrow> GroupKey list \<Rightarrow> string list" where
  "GetAllHosts groups gKeys = sort_strings (collect_hosts groups gKeys)"

text \<open>Where \<open>getSpec\<close> finds the resource: the group and the position in its slice.\<close>

fun spec_index :: "resourceKey \<Rightarrow> Spec list \<Rightarrow> nat option" where
  "spec_index key [] = None"
| "spec_index key (spec # grp) =
     (if equalsKey spec key then Some 0 else map_option Suc (spec_index key grp))"

fun locate :: "IPGroups \<Rightarrow> resourceKey \<Rightarrow> GroupKey list \<Rightarrow> (GroupKey \<times> nat) option" where
  "locate groups key [] = None"
| "locate groups key (gKey # rest) =
     (case fmlookup groups gKey of
        None \<Rightarrow> locate groups key rest
      | Some grp \<Rightarrow>
          (case spec_index key grp of
             Some i \<Rightarrow> Some (gKey, i)
           | None \<Rightarrow> locate groups key rest))"

definition spec_at :: "IPGroups \<Rightarrow> GroupKey \<Rightarrow> nat \<Rightarrow> Spec" where
  "spec_at groups gKey i =
     (case fmlookup groups gKey of
        Some grp \<Rightarrow> if i < length grp then grp ! i else zeroSpec
      | None \<Rightarrow> zeroSpec)"

definition getSpec :: "IPGroups \<Rightarrow> resourceKey \<Rightarrow> GroupKey list \<Rightarrow> bool \<times> Spec \<times> string" where
  "getSpec groups key gKeys =
     (case locate groups key gKeys of
        Some (gKey, i) \<Rightarrow> (True, spec_at groups gKey i, gkName gKey)
      | None \<Rightarrow> (False, zeroSpec, ''''))"

fun NumHosts :: "IPGroups \<Rightarrow> GroupKey list \<Rightarrow> nat" where
  "NumHosts groups [] = 0"
| "NumHosts groups (gKey # rest) =
     (case fmlookup groups gKey of
        None \<Rightarrow> NumHosts groups rest
      | Some grp \<Rightarrow> sum_list (map (length \<circ> Hosts) grp) + NumHosts groups rest)"

subsection \<open>The abstract view\<close>

definition spec_key :: "Spec \<Rightarrow> resourceKey" where
  "spec_key spec = \<lparr>rkKind = Kind spec, rkName = Name spec, rkNamespace = Namespace spec\<rparr>"

lemma equalsKey_iff: "equalsKey spec key \<longleftrightarrow> spec_key spec = key"
  by (cases key) (auto simp: equalsKey_def spec_key_def)

lemma spec_equals_iff: "spec_equals spec spec' \<longleftrightarrow> spec_key spec = spec_key spec'"
  by (auto simp: spec_equals_def spec_key_def)

lemma spec_key_Hosts [simp]: "spec_key (spec\<lparr>Hosts := hs\<rparr>) = spec_key spec"
  by (simp add: spec_key_def)

text \<open>\<open>hosts_of groups gKey key\<close> lists the hosts the group has for the resource.\<close>

definition group_hosts :: "Spec list \<Rightarrow> resourceKey \<Rightarrow> string list option" where
  "group_hosts grp key = map_option Hosts (find (\<lambda>spec. spec_key spec = key) grp)"

definition hosts_of :: "IPGroups \<Rightarrow> GroupKey \<Rightarrow> resourceKey \<Rightarrow> string list option" where
  "hosts_of groups gKey key =
     (case fmlookup groups gKey of None \<Rightarrow> None | Some grp \<Rightarrow> group_hosts grp key)"

text \<open>No group is empty or lists a resource twice, and every spec has a kind.\<close>

definition groups_wf :: "IPGroups \<Rightarrow> bool" where
  "groups_wf groups \<longleftrightarrow>
     fmpred (\<lambda>gKey grp. grp \<noteq> [] \<and> distinct (map spec_key grp) \<and>
       (\<forall>spec \<in> set grp. Kind spec \<noteq> '''')) groups"

text \<open>No resource is in two groups.\<close>

definition resources_unique :: "IPGroups \<Rightarrow> bool" where
  "resources_unique groups \<longleftrightarrow>
     fmpred (\<lambda>gKey grp. fmpred (\<lambda>gKey' grp'.
       gKey = gKey' \<or> set (map spec_key grp) \<inter> set (map spec_key grp') = {}) groups) groups"

definition in_group :: "IPGroups \<Rightarrow> resourceKey \<Rightarrow> GroupKey \<Rightarrow> bool" where
  "in_group groups key gKey \<longleftrightarrow> hosts_of groups gKey key \<noteq> None"

lemma group_hosts_simps [simp]:
  "group_hosts [] key = None"
  "group_hosts (spec # grp) key =
     (if spec_key spec = key then Some (Hosts spec) else group_hosts grp key)"
  by (simp_all add: group_hosts_def)

lemma group_hosts_None: "group_hosts grp key = None \<longleftrightarrow> key \<notin> spec_key ` set grp"
  by (induction grp) auto

lemma group_hosts_append:
  "group_hosts (xs @ ys) key =
     (case group_hosts xs key of None \<Rightarrow> group_hosts ys key | Some hs \<Rightarrow> Some hs)"
  by (induction xs) auto

lemma hosts_of_upd:
  "hosts_of (fmupd gKey grp groups) gKey' key =
     (if gKey = gKey' then group_hosts grp key else hosts_of groups gKey' key)"
  by (simp add: hosts_of_def)

lemma hosts_of_drop:
  "hosts_of (fmdrop gKey groups) gKey' key =
     (if gKey = gKey' then None else hosts_of groups gKey' key)"
  by (simp add: hosts_of_def)

lemma in_group_iff:
  "in_group groups key gKey \<longleftrightarrow>
     (\<exists>grp. fmlookup groups gKey = Some grp \<and> key \<in> spec_key ` set grp)"
  by (cases "fmlookup groups gKey")
     (simp_all add: in_group_def hosts_of_def group_hosts_None del: not_None_eq)

lemma resources_unique_iff:
  "resources_unique groups \<longleftrightarrow>
     (\<forall>key gKey gKey'. in_group groups key gKey \<longrightarrow> in_group groups key gKey' \<longrightarrow> gKey = gKey')"
  unfolding resources_unique_def fmpred_iff in_group_iff by (simp add: disjoint_iff image_iff) blast

lemma groups_wfD:
  assumes "groups_wf groups" and "fmlookup groups gKey = Some grp"
  shows "grp \<noteq> []" "distinct (map spec_key grp)" "\<And>spec. spec \<in> set grp \<Longrightarrow> Kind spec \<noteq> ''''"
  using assms by (auto simp: groups_wf_def)

lemma groups_wf_upd:
  "groups_wf groups \<Longrightarrow> grp \<noteq> [] \<Longrightarrow> distinct (map spec_key grp) \<Longrightarrow>
     (\<And>spec. spec \<in> set grp \<Longrightarrow> Kind spec \<noteq> '''') \<Longrightarrow> groups_wf (fmupd gKey grp groups)"
  by (auto simp: groups_wf_def fmpred_iff)

lemma groups_wf_drop: "groups_wf groups \<Longrightarrow> groups_wf (fmdrop gKey groups)"
  by (auto simp: groups_wf_def fmpred_iff split: if_splits)

subsection \<open>Adding\<close>

lemma set_add_hosts [simp]: "set (fst (add_hosts hs new u)) = set hs \<union> set new"
  by (induction hs new u rule: add_hosts.induct) auto

lemma add_hosts_updated [simp]: "snd (add_hosts hs new u) \<longleftrightarrow> u \<or> \<not> set new \<subseteq> set hs"
  by (induction hs new u rule: add_hosts.induct) auto

lemma add_hosts_flag: "fst (add_hosts hs new u) = fst (add_hosts hs new u')"
proof (induction new arbitrary: hs u u')
  case (Cons host new)
  show ?case using Cons.IH by (cases "host \<in> set hs") simp_all
qed simp

lemma add_hosts_same: "set new \<subseteq> set hs \<Longrightarrow> add_hosts hs new u = (hs, u)"
  by (induction hs new u rule: add_hosts.induct) auto

lemma add_hosts_prefix: "\<exists>ext. fst (add_hosts hs new u) = hs @ ext \<and> set ext \<subseteq> set new - set hs"
proof (induction hs new u rule: add_hosts.induct)
  case (2 hs host hosts u)
  then show ?case by (cases "host \<in> set hs") fastforce+
qed simp

lemma add_hosts_distinct: "distinct hs \<Longrightarrow> distinct (fst (add_hosts hs new u))"
  by (induction hs new u rule: add_hosts.induct) auto

lemma add_to_specs_absent:
  "spec_key new \<notin> spec_key ` set grp \<Longrightarrow> add_to_specs new grp haveS u = (grp, haveS, u)"
  by (induction grp arbitrary: haveS u) (auto simp: spec_equals_iff)

lemma add_to_specs_keys: "map spec_key (fst (add_to_specs new grp haveS u)) = map spec_key grp"
  by (induction grp arbitrary: haveS u) (auto simp: Let_def case_prod_beta)

lemma add_to_specs_kinds: "map Kind (fst (add_to_specs new grp haveS u)) = map Kind grp"
  by (induction grp arbitrary: haveS u) (auto simp: Let_def case_prod_beta)

lemma add_to_specs_have:
  "fst (snd (add_to_specs new grp haveS u)) \<longleftrightarrow> haveS \<or> spec_key new \<in> spec_key ` set grp"
  by (induction grp arbitrary: haveS u) (auto simp: Let_def spec_equals_iff case_prod_beta)

lemma add_to_specs_updated:
  "snd (snd (add_to_specs new grp haveS u)) \<longleftrightarrow> u \<or> fst (add_to_specs new grp haveS u) \<noteq> grp"
proof (induction grp arbitrary: haveS u)
  case (Cons spec grp)
  have "fst (add_hosts (Hosts spec) (Hosts new) u) = Hosts spec \<longleftrightarrow> set (Hosts new) \<subseteq> set (Hosts spec)"
    by (metis add_hosts_same fst_conv le_sup_iff order_refl set_add_hosts)
  moreover have "spec\<lparr>Hosts := hs\<rparr> = spec \<longleftrightarrow> hs = Hosts spec" for hs
    by (cases spec) auto
  ultimately show ?case
    using Cons.IH [of True "snd (add_hosts (Hosts spec) (Hosts new) u)"] Cons.IH [of haveS u]
      add_hosts_updated [of "Hosts spec" "Hosts new" u]
    by (auto simp: Let_def case_prod_beta)
qed simp

lemma add_to_specs_hosts:
  "distinct (map spec_key grp) \<Longrightarrow>
     group_hosts (fst (add_to_specs new grp haveS u)) key =
       (if key = spec_key new
        then map_option (\<lambda>hs. fst (add_hosts hs (Hosts new) False)) (group_hosts grp key)
        else group_hosts grp key)"
proof (induction grp arbitrary: haveS u)
  case (Cons spec grp)
  show ?case
  proof (cases "spec_key spec = spec_key new")
    case True
    then have "add_to_specs new grp True v = (grp, True, v)" for v
      using Cons.prems by (intro add_to_specs_absent) auto
    with True show ?thesis
      using add_hosts_flag [of "Hosts spec" "Hosts new" u False]
      by (auto simp: Let_def spec_equals_iff case_prod_beta)
  next
    case False
    with Cons.IH [of haveS u] Cons.prems show ?thesis
      by (auto simp: Let_def spec_equals_iff case_prod_beta)
  qed
qed simp

lemma addToIPGroup_hosts_of:
  assumes "groups_wf groups"
  shows "hosts_of (snd (addToIPGroup groups gKey kind name ns hosts)) gKey' key =
     (if gKey' = gKey \<and> key = \<lparr>rkKind = kind, rkName = name, rkNamespace = ns\<rparr>
      then Some (case hosts_of groups gKey key of
                   None \<Rightarrow> hosts
                 | Some hs \<Rightarrow> fst (add_hosts hs hosts False))
      else hosts_of groups gKey' key)"
proof (cases "fmlookup groups gKey")
  case None
  then show ?thesis by (auto simp: addToIPGroup_def hosts_of_upd hosts_of_def spec_key_def)
next
  case (Some grp)
  let ?new = "\<lparr>Kind = kind, Name = name, Namespace = ns, Hosts = hosts,
      Netview = gkNetview gKey, Cidr = gkCidr gKey\<rparr>"
  have new: "spec_key \<lparr>Kind = kind, Name = name, Namespace = ns, Hosts = hosts,
      Netview = nv, Cidr = c\<rparr> = \<lparr>rkKind = kind, rkName = name, rkNamespace = ns\<rparr>" for nv c
    by (simp add: spec_key_def)
  show ?thesis
  proof (cases "spec_key ?new \<in> spec_key ` set grp")
    case True
    then have "group_hosts grp (spec_key ?new) \<noteq> None" by (simp del: not_None_eq add: group_hosts_None)
    with True Some show ?thesis
      using add_to_specs_have [of ?new grp False False]
        add_to_specs_hosts [OF groups_wfD(2) [OF assms Some], of ?new False False]
      by (auto simp: addToIPGroup_def Let_def case_prod_beta hosts_of_upd hosts_of_def new)
  next
    case False
    then have "group_hosts grp (spec_key ?new) = None" by (simp del: not_None_eq add: group_hosts_None)
    with False Some show ?thesis
      by (auto simp: addToIPGroup_def Let_def add_to_specs_absent hosts_of_upd hosts_of_def
          group_hosts_append new split: option.splits)
  qed
qed

lemma addToIPGroup_changed:
  "fst (addToIPGroup groups gKey kind name ns hosts) \<longleftrightarrow>
     snd (addToIPGroup groups gKey kind name ns hosts) \<noteq> groups"
proof (cases "fmlookup groups gKey")
  case None
  then have "fmupd gKey g groups \<noteq> groups" for g by (metis fmupd_lookup option.distinct(1))
  with None show ?thesis by (simp add: addToIPGroup_def)
next
  case (Some grp)
  let ?new = "\<lparr>Kind = kind, Name = name, Namespace = ns, Hosts = hosts,
      Netview = gkNetview gKey, Cidr = gkCidr gKey\<rparr>"
  have upd: "fmupd gKey g groups = groups \<longleftrightarrow> g = grp" for g
    using Some by (metis fmap_ext fmupd_lookup option.inject)
  have "fst (add_to_specs ?new grp False False) @ [?new] \<noteq> grp"
    by (metis add_to_specs_keys append_eq_conv_conj length_append_singleton length_map n_not_Suc_n)
  with Some show ?thesis
    using add_to_specs_updated [of ?new grp False False]
    by (auto simp: addToIPGroup_def Let_def case_prod_beta upd)
qed

lemma addToIPGroup_wf:
  assumes "groups_wf groups" and "kind \<noteq> ''''"
  shows "groups_wf (snd (addToIPGroup groups gKey kind name ns hosts))"
proof (cases "fmlookup groups gKey")
  case None
  with assms show ?thesis by (auto simp: addToIPGroup_def intro!: groups_wf_upd)
next
  case (Some grp)
  let ?new = "\<lparr>Kind = kind, Name = name, Namespace = ns, Hosts = hosts,
      Netview = gkNetview gKey, Cidr = gkCidr gKey\<rparr>"
  let ?grp = "fst (add_to_specs ?new grp False False)"
  note wf = groups_wfD [OF assms(1) Some]
  have keys: "map spec_key ?grp = map spec_key grp" by (rule add_to_specs_keys)
  then have ne: "?grp \<noteq> []" using wf(1) by (metis map_is_Nil_conv)
  have kinds: "Kind spec \<noteq> ''''" if "spec \<in> set ?grp" for spec
  proof -
    from that have "Kind spec \<in> set (map Kind ?grp)" by simp
    then obtain x where "x \<in> set grp" "Kind spec = Kind x" by (auto simp: add_to_specs_kinds)
    with wf(3) show ?thesis by metis
  qed
  have "spec_key ?new \<notin> set (map spec_key ?grp)"
    if "\<not> fst (snd (add_to_specs ?new grp False False))"
    using that by (simp only: keys set_map add_to_specs_have simp_thms)
  with Some ne kinds wf(2) assms show ?thesis
    by (auto simp: addToIPGroup_def Let_def case_prod_beta keys intro!: groups_wf_upd)
qed

lemma addToIPGroup_unique:
  assumes "groups_wf groups" and "resources_unique groups"
    and "\<And>gKey'. in_group groups \<lparr>rkKind = kind, rkName = name, rkNamespace = ns\<rparr> gKey' \<Longrightarrow> gKey' = gKey"
  shows "resources_unique (snd (addToIPGroup groups gKey kind name ns hosts))"
  using assms
  by (auto simp: resources_unique_iff in_group_def addToIPGroup_hosts_of split: if_splits)

subsection \<open>Removing\<close>

lemma cut_spec_None: "cut_spec rm grp = None \<longleftrightarrow> spec_key rm \<notin> spec_key ` set grp"
  by (induction grp) (auto simp: spec_equals_iff)

lemma cut_spec_Some:
  assumes "cut_spec rm grp = Some grp'" and "distinct (map spec_key grp)"
  shows "group_hosts grp' key = (if key = spec_key rm then None else group_hosts grp key)"
    and "distinct (map spec_key grp')" and "set grp' \<subseteq> set grp"
    and "length grp = Suc (length grp')"
proof -
  have "group_hosts grp' key = (if key = spec_key rm then None else group_hosts grp key) \<and>
      distinct (map spec_key grp') \<and> set grp' \<subseteq> set grp \<and> length grp = Suc (length grp')"
    using assms
  proof (induction grp arbitrary: grp')
    case (Cons spec grp)
    show ?case
    proof (cases "spec_key spec = spec_key rm")
      case True
      with Cons.prems have "grp' = grp" "spec_key rm \<notin> spec_key ` set grp"
        by (auto simp: spec_equals_iff image_iff)
      with Cons.prems True show ?thesis by (auto simp: group_hosts_None)
    next
      case False
      with Cons.prems obtain g where "grp' = spec # g" "cut_spec rm grp = Some g"
        by (auto simp: spec_equals_iff)
      with Cons.IH [of g] Cons.prems False show ?thesis by (auto simp: image_iff)
    qed
  qed simp
  then show "group_hosts grp' key = (if key = spec_key rm then None else group_hosts grp key)"
    and "distinct (map spec_key grp')" and "set grp' \<subseteq> set grp"
    and "length grp = Suc (length grp')" by auto
qed

lemma removeFromIPGroup_skip:
  assumes "groups_wf groups" and "\<not> in_group groups (spec_key rm) gKey"
  shows "removeFromIPGroup groups rm (gKey # rest) = removeFromIPGroup groups rm rest"
proof (cases "fmlookup groups gKey")
  case (Some grp)
  then have "cut_spec rm grp = None" using assms(2) by (simp only: cut_spec_None) (auto simp: in_group_iff)
  moreover have "hd grp \<noteq> zeroSpec"
    using groups_wfD(1,3) [OF assms(1) Some] by (metis Spec.select_convs(1) hd_in_set zeroSpec_def)
  ultimately show ?thesis using Some by simp
qed simp

lemma removeFromIPGroup_hit:
  assumes "groups_wf groups" and "in_group groups (spec_key rm) gKey"
  shows "hosts_of (removeFromIPGroup groups rm (gKey # rest)) gKey' key =
           (if gKey' = gKey \<and> key = spec_key rm then None else hosts_of groups gKey' key)" (is ?A)
    and "groups_wf (removeFromIPGroup groups rm (gKey # rest))" (is ?B)
proof -
  from assms(2) obtain grp where grp: "fmlookup groups gKey = Some grp" "spec_key rm \<in> spec_key ` set grp"
    by (auto simp: in_group_iff)
  then obtain grp' where cut: "cut_spec rm grp = Some grp'"
    using cut_spec_None by (metis option.exhaust)
  note wf = groups_wfD [OF assms(1) grp(1)] and c = cut_spec_Some [OF cut wf(2)]
  have hd: "hd (grp' @ [zeroSpec]) = zeroSpec" if "grp' = []" using that by simp
  show ?A using grp(1) cut hd c(1)
    by (cases "grp' = []") (auto simp: hosts_of_upd hosts_of_drop Let_def hosts_of_def
        dest: meta_spec [of _ key])
  show ?B using grp(1) cut hd c(2,3) wf(3) assms(1)
    by (cases "grp' = []") (auto simp: Let_def fmdrop_fmupd_same intro!: groups_wf_drop groups_wf_upd)
qed

lemma removeFromIPGroup_spec:
  assumes "groups_wf groups" and "resources_unique groups" and "enumerates gKeys groups"
  shows "hosts_of (removeFromIPGroup groups rm gKeys) gKey key =
           (if key = spec_key rm then None else hosts_of groups gKey key)" (is ?A)
    and "groups_wf (removeFromIPGroup groups rm gKeys)" (is ?B)
proof -
  have *: "(hosts_of (removeFromIPGroup groups rm ks) gKey key =
           (if key = spec_key rm \<and> gKey \<in> set ks then None else hosts_of groups gKey key)) \<and>
       groups_wf (removeFromIPGroup groups rm ks)" for ks
  proof (induction ks)
    case (Cons k ks)
    show ?case
    proof (cases "in_group groups (spec_key rm) k")
      case True
      then have "hosts_of groups gKey (spec_key rm) = None" if "gKey \<noteq> k"
        using assms(2) that True unfolding resources_unique_iff in_group_def by blast
      with True show ?thesis using removeFromIPGroup_hit [OF assms(1) True] by auto
    next
      case False
      then have "hosts_of groups k (spec_key rm) = None" by (simp add: in_group_def)
      with Cons.IH show ?thesis
        using removeFromIPGroup_skip [OF assms(1) False, of ks]
        by (auto simp del: removeFromIPGroup.simps)
    qed
  qed (use assms(1) in simp)
  have "hosts_of groups gKey key = None" if "gKey \<notin> set gKeys"
    using that enumerates_set [OF assms(3)] by (auto simp: hosts_of_def keys_iff)
  with * [of gKeys] show ?A and ?B by auto
qed

lemma removeFromIPGroup_unique:
  assumes "groups_wf groups" and "resources_unique groups" and "enumerates gKeys groups"
  shows "resources_unique (removeFromIPGroup groups rm gKeys)"
  using assms(2) by (auto simp: resources_unique_iff in_group_def removeFromIPGroup_spec [OF assms])

lemma removeHost_specs_keys:
  "map spec_key (fst (removeHost_specs h key grp d)) = map spec_key grp"
  "map Kind (fst (removeHost_specs h key grp d)) = map Kind grp"
  by (induction h key grp d rule: removeHost_specs.induct) (auto simp: Let_def case_prod_beta)

lemma removeHost_specs_absent:
  "key \<notin> spec_key ` set grp \<Longrightarrow> removeHost_specs h key grp d = (grp, d)"
  by (induction h key grp d rule: removeHost_specs.induct)
     (auto simp: Let_def case_prod_beta equalsKey_iff)

lemma removeHost_specs_hosts:
  "distinct (map spec_key grp) \<Longrightarrow>
     group_hosts (fst (removeHost_specs h key grp False)) key' =
       (if key' = key then map_option (remove1 h) (group_hosts grp key) else group_hosts grp key')"
proof (induction grp)
  case (Cons spec grp)
  show ?case
  proof (cases "spec_key spec = key")
    case True
    then have "removeHost_specs h key grp False = (grp, False)"
      using Cons.prems by (intro removeHost_specs_absent) auto
    with True show ?thesis by (auto simp: Let_def equalsKey_iff remove1_idem)
  next
    case False
    with Cons.IH Cons.prems show ?thesis by (auto simp: Let_def equalsKey_iff case_prod_beta)
  qed
qed simp

lemma removeHost_groups_skip:
  assumes "\<not> in_group groups key gKey"
  shows "removeHost_groups h key groups d (gKey # rest) = removeHost_groups h key groups d rest"
proof (cases "fmlookup groups gKey")
  case (Some grp)
  then have "removeHost_specs h key grp d = (grp, d)"
    using assms by (intro removeHost_specs_absent) (auto simp: in_group_iff)
  moreover have "fmupd gKey grp groups = groups"
    using Some by (auto intro!: fmap_ext)
  ultimately show ?thesis using Some by simp
qed simp

lemma removeHost_groups_absent:
  "(\<And>gKey. gKey \<in> set gKeys \<Longrightarrow> \<not> in_group groups key gKey) \<Longrightarrow>
     removeHost_groups h key groups d gKeys = groups"
  by (induction gKeys) (auto simp: removeHost_groups_skip simp del: removeHost_groups.simps(2))

lemma removeHost_cases:
  assumes "groups_wf groups" and "resources_unique groups" and "enumerates gKeys groups"
  obtains "\<And>gKey. \<not> in_group groups key gKey" "removeHost groups h key gKeys = groups"
  | gKey grp where "fmlookup groups gKey = Some grp" "in_group groups key gKey"
      "removeHost groups h key gKeys = fmupd gKey (fst (removeHost_specs h key grp False)) groups"
proof (cases "\<exists>gKey. in_group groups key gKey")
  case False
  then show ?thesis using that(1) removeHost_groups_absent by (simp add: removeHost_def)
next
  case True
  then obtain gKey grp where g: "in_group groups key gKey" "fmlookup groups gKey = Some grp"
    by (auto simp: in_group_iff)
  then have "gKey \<in> set gKeys" using enumerates_set [OF assms(3)] by (auto simp: keys_iff)
  then obtain xs ys where ks: "gKeys = xs @ gKey # ys" "gKey \<notin> set xs"
    by (auto dest: split_list_first)
  have others: "\<not> in_group groups key k" if "k \<noteq> gKey" for k
    using assms(2) g(1) that unfolding resources_unique_iff by blast
  have skip: "removeHost_groups h key groups d (xs @ zs) = removeHost_groups h key groups d zs" for d zs
    using ks(2) by (induction xs) (auto simp: removeHost_groups_skip others
        simp del: removeHost_groups.simps(2))
  let ?r = "removeHost_specs h key grp False"
  have "\<not> in_group (fmupd gKey (fst ?r) groups) key k" if "k \<noteq> gKey" for k
    using others [OF that] that by (auto simp: in_group_def hosts_of_upd)
  moreover have "gKey \<notin> set ys"
    using enumerates_distinct [OF assms(3)] ks by auto
  ultimately have "removeHost_groups h key (fmupd gKey (fst ?r) groups) d ys = fmupd gKey (fst ?r) groups" for d
    by (intro removeHost_groups_absent) metis
  with ks g(2) skip have "removeHost groups h key gKeys = fmupd gKey (fst ?r) groups"
    by (simp add: removeHost_def case_prod_beta)
  with g that(2) show ?thesis by blast
qed

lemma removeHost_spec:
  assumes "groups_wf groups" and "resources_unique groups" and "enumerates gKeys groups"
  shows "hosts_of (removeHost groups h key gKeys) gKey key' =
           (if key' = key then map_option (remove1 h) (hosts_of groups gKey key)
            else hosts_of groups gKey key')" (is ?A)
    and "groups_wf (removeHost groups h key gKeys)" (is ?B)
    and "keys (removeHost groups h key gKeys) = keys groups" (is ?C)
proof -
  have "?A \<and> ?B \<and> ?C"
  proof (cases rule: removeHost_cases [OF assms, of key h])
    case 1
    then have "hosts_of groups gKey key = None" by (simp add: in_group_def)
    with 1 assms(1) show ?thesis by simp
  next
    case (2 k grp)
    note wf = groups_wfD [OF assms(1) 2(1)]
    have k: "hosts_of groups k' key = None" if "k' \<noteq> k" for k'
      using assms(2) 2(2) that unfolding resources_unique_iff in_group_def by blast
    have "hosts_of groups k' key' = group_hosts grp key'" if "k' = k" for k' key'
      using 2(1) that by (simp add: hosts_of_def)
    then have ?A using 2(3) k removeHost_specs_hosts [OF wf(2)] by (auto simp: hosts_of_upd)
    moreover have "Kind spec \<noteq> ''''" if "spec \<in> set (fst (removeHost_specs h key grp False))" for spec
    proof -
      from that have "Kind spec \<in> set (map Kind (fst (removeHost_specs h key grp False)))" by simp
      then have "Kind spec \<in> Kind ` set grp" by (simp only: removeHost_specs_keys set_map)
      with wf(3) show ?thesis by (metis imageE)
    qed
    moreover have "fst (removeHost_specs h key grp False) \<noteq> []"
      using wf(1) removeHost_specs_keys(1) by (metis map_is_Nil_conv)
    ultimately show ?thesis
      using 2(1,3) assms(1) wf(2)
      by (auto simp: removeHost_specs_keys fmdom'I insert_absorb intro!: groups_wf_upd)
  qed
  then show ?A ?B ?C by auto
qed

lemma removeHost_unique:
  assumes "groups_wf groups" and "resources_unique groups" and "enumerates gKeys groups"
  shows "resources_unique (removeHost groups h key gKeys)"
  using assms(2)
  by (auto simp: resources_unique_iff in_group_def removeHost_spec [OF assms] split: if_splits)

subsection \<open>Queries\<close>

text \<open>All specs, and all hosts, of the groups.\<close>

definition all_specs :: "IPGroups \<Rightarrow> Spec set" where
  "all_specs groups = (\<Union>grp \<in> fset (fmran groups). set grp)"

definition all_hosts :: "IPGroups \<Rightarrow> string set" where
  "all_hosts groups = (\<Union>spec \<in> all_specs groups. set (Hosts spec))"

lemma all_specs_iff:
  "spec \<in> all_specs groups \<longleftrightarrow> (\<exists>gKey grp. fmlookup groups gKey = Some grp \<and> spec \<in> set grp)"
  unfolding all_specs_def using fmlookup_ran_iff by fastforce

lemma all_hosts_iff:
  "host \<in> all_hosts groups \<longleftrightarrow>
     (\<exists>gKey grp. fmlookup groups gKey = Some grp \<and> host \<in> set (concat (map Hosts grp)))"
  unfolding all_hosts_def by (simp add: all_specs_iff Bex_def) blast

lemma specs_with_hosts_eq:
  "specs_with_hosts hosts grp =
     (if \<exists>spec \<in> set grp. Hosts spec = [] then None
      else Some (filter (\<lambda>spec. hd (Hosts spec) \<in> set hosts) grp))"
  by (induction grp) (auto split: list.splits)

lemma getSpecsWithHosts_eq:
  "getSpecsWithHosts groups hosts gKeys =
     (if \<exists>spec \<in> set (range_concat (\<lambda>grp. grp) groups gKeys). Hosts spec = [] then None
      else Some (filter (\<lambda>spec. hd (Hosts spec) \<in> set hosts) (range_concat (\<lambda>grp. grp) groups gKeys)))"
  by (induction gKeys) (auto simp: specs_with_hosts_eq split: option.splits)

lemma set_range_specs: "enumerates gKeys groups \<Longrightarrow> set (range_concat (\<lambda>grp. grp) groups gKeys) = all_specs groups"
  by (auto simp: set_range_concat all_specs_iff)

lemma getSpecsWithHosts_panics:
  "enumerates gKeys groups \<Longrightarrow>
     getSpecsWithHosts groups hosts gKeys = None \<longleftrightarrow> (\<exists>spec \<in> all_specs groups. Hosts spec = [])"
  by (simp add: getSpecsWithHosts_eq set_range_specs)

lemma getSpecsWithHosts_set:
  "enumerates gKeys groups \<Longrightarrow> getSpecsWithHosts groups hosts gKeys = Some specs \<Longrightarrow>
     set specs = {spec \<in> all_specs groups. hd (Hosts spec) \<in> set hosts}"
  by (auto simp: getSpecsWithHosts_eq set_range_specs split: if_splits)

lemma collect_hosts_eq:
  "collect_hosts groups gKeys = range_concat (\<lambda>grp. concat (map Hosts grp)) groups gKeys"
  by (induction gKeys) (auto split: option.splits)

lemma set_GetAllHosts: "enumerates gKeys groups \<Longrightarrow> set (GetAllHosts groups gKeys) = all_hosts groups"
  by (intro set_eqI) (simp add: GetAllHosts_def collect_hosts_eq set_range_concat all_hosts_iff)

lemma GetAllHosts_order:
  "enumerates gKeys groups \<Longrightarrow> enumerates gKeys' groups \<Longrightarrow>
     GetAllHosts groups gKeys = GetAllHosts groups gKeys'"
  unfolding GetAllHosts_def collect_hosts_eq
  by (intro sort_strings_cong mset_range_concat enumerates_mset)

lemma spec_index_None: "spec_index key grp = None \<longleftrightarrow> key \<notin> spec_key ` set grp"
  by (induction grp) (auto simp: equalsKey_iff)

lemma spec_index_Some:
  "spec_index key grp = Some i \<Longrightarrow> i < length grp \<and> spec_key (grp ! i) = key \<and>
     group_hosts grp key = Some (Hosts (grp ! i))"
  by (induction grp arbitrary: i) (auto simp: equalsKey_iff split: if_splits)

lemma locate_Some:
  "locate groups key gKeys = Some (gKey, i) \<Longrightarrow>
     gKey \<in> set gKeys \<and> (\<exists>grp. fmlookup groups gKey = Some grp \<and> spec_index key grp = Some i)"
  by (induction gKeys) (auto split: option.splits)

lemma locate_None:
  "locate groups key gKeys = None \<longleftrightarrow> (\<forall>gKey \<in> set gKeys. \<not> in_group groups key gKey)"
proof (induction gKeys)
  case (Cons gKey gKeys)
  then show ?case
    by (cases "fmlookup groups gKey")
       (auto simp: in_group_iff split: option.splits simp flip: spec_index_None)
qed simp

lemma getSpec_found:
  assumes "enumerates gKeys groups"
  shows "fst (getSpec groups key gKeys) \<longleftrightarrow> (\<exists>gKey. in_group groups key gKey)"
proof -
  have "(\<exists>gKey \<in> set gKeys. in_group groups key gKey) \<longleftrightarrow> (\<exists>gKey. in_group groups key gKey)"
    unfolding in_group_iff by (rule enumerates_Ex [OF assms])
  then have "locate groups key gKeys = None \<longleftrightarrow> \<not> (\<exists>gKey. in_group groups key gKey)"
    by (auto simp: locate_None)
  then show ?thesis by (auto simp: getSpec_def split: option.splits)
qed

lemma getSpec_spec:
  assumes "getSpec groups key gKeys = (True, spec, name)"
  shows "\<exists>gKey. gKey \<in> set gKeys \<and> name = gkName gKey \<and> spec_key spec = key \<and>
     hosts_of groups gKey key = Some (Hosts spec)"
proof -
  from assms obtain gKey i where "locate groups key gKeys = Some (gKey, i)"
      and s: "spec = spec_at groups gKey i" "name = gkName gKey"
    by (auto simp: getSpec_def split: option.splits)
  then obtain grp where "gKey \<in> set gKeys" "fmlookup groups gKey = Some grp" "spec_index key grp = Some i"
    using locate_Some by blast
  with s spec_index_Some [of key grp i] show ?thesis
    by (intro exI [of _ gKey]) (auto simp: spec_at_def hosts_of_def)
qed

end
