(* ===== verification/Manager_Client.thy ===== *)
theory Manager_Client
  imports Store
begin

section \<open>The IPAM interface (pkg/manager/manager.go)\<close>

text \<open>
  \<open>Client\<close> is the Go interface the controller talks to. Each method is a function on the state
  \<open>'w\<close> of the IPAM side; None is a panic inside the method. \<open>CNAMEToA\<close> returns Go's pair of a
  name and an error.

  The locale \<open>ipam_client\<close> is what the controller relies on beyond the types: on success
  \<open>CNAMEToA\<close> promotes the first of the hosts it is given and on failure returns the empty name,
  and the store that \<open>GetRecords\<close> builds is well-formed. The Infoblox client provides both.
\<close>

record 'w Client =
  iCreateARecord :: "string \<Rightarrow> string \<Rightarrow> string \<Rightarrow> 'w \<Rightarrow> (bool \<times> 'w) option"
  iDeleteARecord :: "string \<Rightarrow> string \<Rightarrow> string \<Rightarrow> string \<Rightarrow> 'w \<Rightarrow> 'w option"
  iCreateCNAMERecord :: "string \<Rightarrow> string \<Rightarrow> string \<Rightarrow> 'w \<Rightarrow> 'w option"
  iDeleteCNAMERecord :: "string \<Rightarrow> string \<Rightarrow> string \<Rightarrow> string \<Rightarrow> 'w \<Rightarrow> 'w option"
  iCNAMEToA :: "string list \<Rightarrow> string \<Rightarrow> string \<Rightarrow> string \<Rightarrow> string \<Rightarrow> 'w \<Rightarrow>
                  ((string \<times> string option) \<times> 'w) option"
  iGetNextAddr :: "string \<Rightarrow> string \<Rightarrow> 'w \<Rightarrow> (string \<times> 'w) option"
  iReleaseAddr :: "string \<Rightarrow> string \<Rightarrow> string \<Rightarrow> 'w \<Rightarrow> 'w option"
  iGetRecords :: "'w \<Rightarrow> (Store \<times> 'w) option"

definition client_contract :: "'w Client \<Rightarrow> bool" where
  "client_contract cl \<longleftrightarrow>
     (\<forall>avail delHost ip nv cidr w newA err w'.
        avail \<noteq> [] \<longrightarrow> iCNAMEToA cl avail delHost ip nv cidr w = Some ((newA, err), w') \<longrightarrow>
        newA = (if err = None then hd avail else '''')) \<and>
     (\<forall>w st w'. iGetRecords cl w = Some (st, w') \<longrightarrow> store_wf st)"

locale ipam_client =
  fixes cl :: "'w Client"
  assumes contract: "client_contract cl"
begin

lemma CNAMEToA_result:
  "avail \<noteq> [] \<Longrightarrow> iCNAMEToA cl avail delHost ip nv cidr w = Some ((newA, err), w') \<Longrightarrow>
     newA = (if err = None then hd avail else '''')"
  using contract unfolding client_contract_def by blast

lemma GetRecords_wf: "iGetRecords cl w = Some (st, w') \<Longrightarrow> store_wf st"
  using contract unfolding client_contract_def by blast

end

text \<open>
  Further behaviour that single theorems ask for: no method panics; no promotion fails; no
  request for an A record is refused; and every reservation yields an address.
\<close>

definition never_panics :: "'w Client \<Rightarrow> bool" where
  "never_panics cl \<longleftrightarrow>
     (\<forall>a b c w. iCreateARecord cl a b c w \<noteq> None) \<and>
     (\<forall>a b c d w. iDeleteARecord cl a b c d w \<noteq> None) \<and>
     (\<forall>a b c w. iCreateCNAMERecord cl a b c w \<noteq> None) \<and>
     (\<forall>a b c d w. iDeleteCNAMERecord cl a b c d w \<noteq> None) \<and>
     (\<forall>hs a b c d w. hs \<noteq> [] \<longrightarrow> iCNAMEToA cl hs a b c d w \<noteq> None) \<and>
     (\<forall>a b w. iGetNextAddr cl a b w \<noteq> None) \<and>
     (\<forall>a b c w. iReleaseAddr cl a b c w \<noteq> None) \<and>
     (\<forall>w. iGetRecords cl w \<noteq> None)"

lemma never_panics_returns:
  assumes "never_panics cl"
  shows "\<exists>ok w'. iCreateARecord cl host ip nv w = Some (ok, w')"
    and "\<exists>w'. iDeleteARecord cl host ip nv cidr w = Some w'"
    and "\<exists>w'. iCreateCNAMERecord cl host alias nv w = Some w'"
    and "\<exists>w'. iDeleteCNAMERecord cl host ip nv cidr w = Some w'"
    and "avail \<noteq> [] \<Longrightarrow> \<exists>newA err w'. iCNAMEToA cl avail host ip nv cidr w = Some ((newA, err), w')"
    and "\<exists>addr w'. iGetNextAddr cl nv cidr w = Some (addr, w')"
    and "\<exists>w'. iReleaseAddr cl nv cidr ip w = Some w'"
    and "\<exists>st w'. iGetRecords cl w = Some (st, w')"
  using assms unfolding never_panics_def by (metis not_None_eq surj_pair)+

definition promotions_succeed :: "'w Client \<Rightarrow> bool" where
  "promotions_succeed cl \<longleftrightarrow>
     (\<forall>avail delHost ip nv cidr w newA err w'.
        iCNAMEToA cl avail delHost ip nv cidr w = Some ((newA, err), w') \<longrightarrow> err = None)"

definition grants_records :: "'w Client \<Rightarrow> bool" where
  "grants_records cl \<longleftrightarrow>
     (\<forall>host ip nv w ok w'. iCreateARecord cl host ip nv w = Some (ok, w') \<longrightarrow> ok)"

definition yields_addresses :: "'w Client \<Rightarrow> bool" where
  "yields_addresses cl \<longleftrightarrow>
     (\<forall>nv cidr w addr w'. iGetNextAddr cl nv cidr w = Some (addr, w') \<longrightarrow> addr \<noteq> '''')"

end
