(* ===== verification/Controller.thy ===== *)
theory Controller
  imports Manager_Client IP_Groups
begin

section \<open>The controller (pkg/controller/controller.go)\<close>

text \<open>
  \<open>processIPGroups\<close> as the code has it: a first loop over groups, specs and hosts that reserves
  addresses and creates DNS records, and a second loop over the store that deletes the records
  of hosts no group lists any more. The Go variables that live across iterations are the fields
  of \<open>alloc\<close> and \<open>sweep\<close>. The method calls on the IPAM client go through the \<open>Client\<close>
  argument and thread its state; None is a panic.

  Every range loop over a map is a \<open>site\<close>; \<open>ord\<close> gives its order. Loops that run once per
  visited host carry the number of hosts visited so far (\<open>visits\<close>), so that each run of such a
  loop has an order of its own.
\<close>

definition recA :: string where "recA = ''A''"
definition recCNAME :: string where "recCNAME = ''CNAME''"

datatype site =
    CheckIP nat | UseIP nat
  | RecordsRange | MapKeys string | HostsRange string | DeleteRange nat
  | WriteRange | WriteKeys string

datatype gsite = GroupsRange | AllHostsRange

subsection \<open>Helpers\<close>

definition mapKeys :: "(string fset \<Rightarrow> string list) \<Rightarrow> (string, string) fmap \<Rightarrow> string list" where
  "mapKeys ord m = ord (fmdom m)"

fun removeElement :: "string list \<Rightarrow> string \<Rightarrow> string list" where
  "removeElement [] val = []"
| "removeElement (ele # s) val = (if ele = val then s else ele # removeElement s val)"

lemma removeElement_remove1: "removeElement s val = remove1 val s"
  by (induction s) auto

subsection \<open>First loop: addresses and records for the hosts of the groups\<close>

record 'w alloc =
  lStore :: Store
  lWorld :: 'w
  lUniqueIP :: bool
  lAddrUsed :: bool
  lNextAddr :: string
  lCurAddr :: string
  lNetview :: string
  lCidr :: string
  lFirstHost :: string
  visits :: nat

text \<open>The body of the innermost loop, for the host at index \<open>i\<close>.\<close>

definition alloc_host ::
    "'w Client \<Rightarrow> (site \<Rightarrow> string fset \<Rightarrow> string list) \<Rightarrow> nat \<Rightarrow> string \<Rightarrow> 'w alloc \<Rightarrow> 'w alloc option" where
  "alloc_host cl ord i host s0 =
     (let s1 = (if i = 0 then
                  (if \<not> lUniqueIP s0 \<and> lFirstHost s0 = '''' then s0\<lparr>lFirstHost := host\<rparr>
                   else if lUniqueIP s0 then s0\<lparr>lFirstHost := host\<rparr> else s0)
                else s0);
          n = visits s1; st = lStore s1; ips = fmdom (Records st);
          s = s1\<lparr>visits := Suc n\<rparr>
      in if GetIP st host (ord (CheckIP n) ips) \<noteq> ''''
         then Some (s\<lparr>lCurAddr := GetIP st host (ord (UseIP n) ips)\<rparr>)
         else if host = lFirstHost s then do {
           (ok, w) \<leftarrow> iCreateARecord cl host (lNextAddr s) (lNetview s) (lWorld s);
           if ok
           then Some (s\<lparr>lWorld := w, lAddrUsed := True,
                   lStore := AddRecord st (lCurAddr s) host recA (lNetview s) (lCidr s)\<rparr>)
           else Some (s\<lparr>lWorld := w\<rparr>)
         }
         else do {
           w \<leftarrow> iCreateCNAMERecord cl host (lFirstHost s) (lNetview s) (lWorld s);
           Some (s\<lparr>lWorld := w,
                   lStore := AddRecord st (lCurAddr s) host recCNAME (lNetview s) (lCidr s)\<rparr>)
         })"

fun alloc_hosts ::
    "'w Client \<Rightarrow> (site \<Rightarrow> string fset \<Rightarrow> string list) \<Rightarrow> nat \<Rightarrow> string list \<Rightarrow> 'w alloc \<Rightarrow> 'w alloc option" where
  "alloc_hosts cl ord i [] s = Some s"
| "alloc_hosts cl ord i (host # hosts) s = do {
     s' \<leftarrow> alloc_host cl ord i host s;
     alloc_hosts cl ord (Suc i) hosts s'
   }"

text \<open>Reserving the next address for a group or for a spec, and giving it back when unused.\<close>

definition reserve :: "'w Client \<Rightarrow> string \<Rightarrow> string \<Rightarrow> 'w alloc \<Rightarrow> 'w alloc option" where
  "reserve cl nv cidr s = do {
     (addr, w) \<leftarrow> iGetNextAddr cl nv cidr (lWorld s);
     Some (s\<lparr>lAddrUsed := False, lNetview := nv, lCidr := cidr,
             lNextAddr := addr, lCurAddr := addr, lWorld := w\<rparr>)
   }"

definition release_unused :: "'w Client \<Rightarrow> 'w alloc \<Rightarrow> 'w alloc option" where
  "release_unused cl s =
     (if \<not> lAddrUsed s then do {
        w \<leftarrow> iReleaseAddr cl (lNetview s) (lCidr s) (lNextAddr s) (lWorld s);
        Some (s\<lparr>lWorld := w\<rparr>)
      } else Some s)"

definition alloc_spec ::
    "'w Client \<Rightarrow> (site \<Rightarrow> string fset \<Rightarrow> string list) \<Rightarrow> Spec \<Rightarrow> 'w alloc \<Rightarrow> 'w alloc option" where
  "alloc_spec cl ord spec s = do {
     s1 \<leftarrow> (if lUniqueIP s then reserve cl (Netview spec) (Cidr spec) s else Some s);
     s2 \<leftarrow> alloc_hosts cl ord 0 (Hosts spec) s1;
     if lUniqueIP s2 then release_unused cl s2 else Some s2
   }"

fun alloc_specs ::
    "'w Client \<Rightarrow> (site \<Rightarrow> string fset \<Rightarrow> string list) \<Rightarrow> Spec list \<Rightarrow> 'w alloc \<Rightarrow> 'w alloc option" where
  "alloc_specs cl ord [] s = Some s"
| "alloc_specs cl ord (spec # specs) s = do {
     s' \<leftarrow> alloc_spec cl ord spec s;
     alloc_specs cl ord specs s'
   }"

definition alloc_group ::
    "'w Client \<Rightarrow> (site \<Rightarrow> string fset \<Rightarrow> string list) \<Rightarrow> GroupKey \<Rightarrow> Spec list \<Rightarrow> 'w alloc \<Rightarrow>
     'w alloc option" where
  "alloc_group cl ord gKey specs s0 =
     (let s = s0\<lparr>lFirstHost := '''', lUniqueIP := (gkName gKey = '''')\<rparr>
      in do {
        s1 \<leftarrow> (if \<not> lUniqueIP s then reserve cl (gkNetview gKey) (gkCidr gKey) s else Some s);
        s2 \<leftarrow> alloc_specs cl ord specs s1;
        if \<not> lUniqueIP s2 then release_unused cl s2 else Some s2
      })"

fun alloc_groups ::
    "'w Client \<Rightarrow> (site \<Rightarrow> string fset \<Rightarrow> string list) \<Rightarrow> IPGroups \<Rightarrow> GroupKey list \<Rightarrow> 'w alloc \<Rightarrow>
     'w alloc option" where
  "alloc_groups cl ord groups [] s = Some s"
| "alloc_groups cl ord groups (gKey # gKeys) s =
     (case fmlookup groups gKey of
        None \<Rightarrow> alloc_groups cl ord groups gKeys s
      | Some specs \<Rightarrow> do {
          s' \<leftarrow> alloc_group cl ord gKey specs s;
          alloc_groups cl ord groups gKeys s'
        })"

definition alloc_start :: "Store \<Rightarrow> 'w \<Rightarrow> 'w alloc" where
  "alloc_start st w =
     \<lparr>lStore = st, lWorld = w, lUniqueIP = False, lAddrUsed = False, lNextAddr = '''',
      lCurAddr = '''', lNetview = '''', lCidr = '''', lFirstHost = '''', visits = 0\<rparr>"

subsection \<open>Second loop: records to delete\<close>

record 'w sweep =
  sStore :: Store
  sWorld :: 'w
  availHosts :: "string list"
  toRemove :: "string list"

text \<open>\<^verbatim>\<open>ctlr.store.Records[ip][newA] = A\<close>; writing to the nil map of a missing address panics.\<close>

definition put_host :: "Store \<Rightarrow> string \<Rightarrow> string \<Rightarrow> string \<Rightarrow> Store option" where
  "put_host st ip host recordType =
     (case fmlookup (Records st) ip of
        None \<Rightarrow> None
      | Some hosts \<Rightarrow> Some (st\<lparr>Records := fmupd ip (fmupd host recordType hosts) (Records st)\<rparr>))"

text \<open>
  The body of the inner loop. The loop ranges over the host set it writes to (when a CNAME is
  promoted): a host is visited with the type it has at that moment, and a name that is not in
  the set when its turn comes is not visited.
\<close>

definition sweep_host ::
    "'w Client \<Rightarrow> string list \<Rightarrow> string \<Rightarrow> string \<Rightarrow> string \<Rightarrow> string \<Rightarrow> 'w sweep \<Rightarrow> 'w sweep option" where
  "sweep_host cl ipGroupHosts ip nv cidr host s =
     (case entry (sStore s) ip host of
        None \<Rightarrow> Some s
      | Some recordType \<Rightarrow>
          (if \<not> contains ipGroupHosts host then
             (let avail = removeElement (availHosts s) host in do {
                s' \<leftarrow> (if recordType = recA then
                         (if 0 < length avail then do {
                            ((newA, err), w) \<leftarrow> iCNAMEToA cl avail host ip nv cidr (sWorld s);
                            st \<leftarrow> put_host (sStore s) ip newA recA;
                            Some (s\<lparr>sWorld := w, sStore := st\<rparr>)
                          }
                          else do {
                            w \<leftarrow> iDeleteARecord cl host ip nv cidr (sWorld s);
                            Some (s\<lparr>sWorld := w\<rparr>)
                          })
                       else if recordType = recCNAME then do {
                         w \<leftarrow> iDeleteCNAMERecord cl host ip nv cidr (sWorld s);
                         Some (s\<lparr>sWorld := w\<rparr>)
                       }
                       else Some s);
                Some (s'\<lparr>availHosts := avail, toRemove := toRemove s' @ [host]\<rparr>)
              })
           else Some s))"

fun sweep_hosts ::
    "'w Client \<Rightarrow> string list \<Rightarrow> string \<Rightarrow> string \<Rightarrow> string \<Rightarrow> string list \<Rightarrow> 'w sweep \<Rightarrow> 'w sweep option" where
  "sweep_hosts cl ipGroupHosts ip nv cidr [] s = Some s"
| "sweep_hosts cl ipGroupHosts ip nv cidr (host # hosts) s = do {
     s' \<leftarrow> sweep_host cl ipGroupHosts ip nv cidr host s;
     sweep_hosts cl ipGroupHosts ip nv cidr hosts s'
   }"

text \<open>
  A failed promotion adds the empty name to the set the loop ranges over; Go may or may not
  visit it. The order therefore ranges over the hosts and the empty name: coming before the
  insertion it is not visited, coming after it is.
\<close>

fun sweep_ips ::
    "'w Client \<Rightarrow> (site \<Rightarrow> string fset \<Rightarrow> string list) \<Rightarrow> string list \<Rightarrow> string list \<Rightarrow> 'w sweep \<Rightarrow>
     'w sweep option" where
  "sweep_ips cl ord ipGroupHosts [] s = Some s"
| "sweep_ips cl ord ipGroupHosts (ip # ips) s =
     (case fmlookup (Records (sStore s)) ip of
        None \<Rightarrow> sweep_ips cl ord ipGroupHosts ips s
      | Some hosts \<Rightarrow> do {
          s' \<leftarrow> sweep_hosts cl ipGroupHosts ip (map_get (Netviews (sStore s)) ip)
                 (map_get (Cidrs (sStore s)) ip)
                 (ord (HostsRange ip) (finsert '''' (fmdom hosts)))
                 (s\<lparr>availHosts := mapKeys (ord (MapKeys ip)) hosts\<rparr>);
          sweep_ips cl ord ipGroupHosts ips s'
        })"

text \<open>The loop over the store and the deletion that follows it, and the whole pass.\<close>

definition sweep_store ::
    "'w Client \<Rightarrow> (site \<Rightarrow> string fset \<Rightarrow> string list) \<Rightarrow> string list \<Rightarrow> Store \<Rightarrow> 'w \<Rightarrow>
     (Store \<times> 'w) option" where
  "sweep_store cl ord ipGroupHosts st w = do {
     s \<leftarrow> sweep_ips cl ord ipGroupHosts (ord RecordsRange (fmdom (Records st)))
            \<lparr>sStore = st, sWorld = w, availHosts = [], toRemove = []\<rparr>;
     Some (DeleteHosts (\<lambda>n. ord (DeleteRange n)) (sStore s) (toRemove s), sWorld s)
   }"

definition processIPGroups ::
    "'w Client \<Rightarrow> (gsite \<Rightarrow> GroupKey fset \<Rightarrow> GroupKey list) \<Rightarrow> (site \<Rightarrow> string fset \<Rightarrow> string list) \<Rightarrow>
     IPGroups \<Rightarrow> Store \<Rightarrow> 'w \<Rightarrow> (Store \<times> 'w) option" where
  "processIPGroups cl gord ord groups st w = do {
     a \<leftarrow> alloc_groups cl ord groups (gord GroupsRange (fmdom groups)) (alloc_start st w);
     let ipGroupHosts = GetAllHosts groups (gord AllHostsRange (fmdom groups));
     sweep_store cl ord ipGroupHosts (lStore a) (lWorld a)
   }"

end
