(* ===== verification/Controller_Alloc.thy ===== *)
theory Controller_Alloc
  imports Controller
begin

section \<open>The allocation loop\<close>

text \<open>
  Facts about the first loop of \<open>processIPGroups\<close>. The rule \<open>alloc_groups_rule\<close> lifts what one
  host, one reservation and one release keep to the whole loop; the invariants of the store,
  that nothing stored is lost, and that every host gets an entry follow from it.
\<close>

lemmas bind_Some = bind_eq_Some_conv

lemma alloc_host_unique: "alloc_host cl ord i h s = Some s' \<Longrightarrow> lUniqueIP s' = lUniqueIP s"
  by (auto simp: alloc_host_def Let_def bind_Some split: if_splits)

lemma alloc_hosts_unique: "alloc_hosts cl ord i hs s = Some s' \<Longrightarrow> lUniqueIP s' = lUniqueIP s"
  by (induction hs arbitrary: i s) (auto simp: bind_Some dest: alloc_host_unique)

lemma reserve_unique: "reserve cl nv cidr s = Some s' \<Longrightarrow> lUniqueIP s' = lUniqueIP s"
  by (auto simp: reserve_def bind_Some)

lemma release_unique: "release_unused cl s = Some s' \<Longrightarrow> lUniqueIP s' = lUniqueIP s"
  by (auto simp: release_unused_def bind_Some split: if_splits)

lemma alloc_spec_unique: "alloc_spec cl ord spec s = Some s' \<Longrightarrow> lUniqueIP s' = lUniqueIP s"
  by (auto simp: alloc_spec_def bind_Some dest!: alloc_hosts_unique reserve_unique release_unique
      split: if_splits)

lemma alloc_specs_unique: "alloc_specs cl ord specs s = Some s' \<Longrightarrow> lUniqueIP s' = lUniqueIP s"
  by (induction specs arbitrary: s) (auto simp: bind_Some dest: alloc_spec_unique)

text \<open>\<open>host_keeps cl ord H Q\<close>: visiting any host of \<open>H\<close> keeps \<open>Q\<close>.\<close>

definition host_keeps ::
    "'w Client \<Rightarrow> (site \<Rightarrow> string fset \<Rightarrow> string list) \<Rightarrow> string set \<Rightarrow> ('w alloc \<Rightarrow> bool) \<Rightarrow> bool" where
  "host_keeps cl ord H Q \<longleftrightarrow>
     (\<forall>i. \<forall>h \<in> H. \<forall>s s'. Q s \<longrightarrow> alloc_host cl ord i h s = Some s' \<longrightarrow> Q s')"

lemma host_keepsI:
  "(\<And>i h s s'. h \<in> H \<Longrightarrow> Q s \<Longrightarrow> alloc_host cl ord i h s = Some s' \<Longrightarrow> Q s') \<Longrightarrow> host_keeps cl ord H Q"
  unfolding host_keeps_def by blast

lemma host_keepsD:
  "host_keeps cl ord H Q \<Longrightarrow> h \<in> H \<Longrightarrow> Q s \<Longrightarrow> alloc_host cl ord i h s = Some s' \<Longrightarrow> Q s'"
  unfolding host_keeps_def by blast

lemma host_keeps_mono: "host_keeps cl ord H Q \<Longrightarrow> H' \<subseteq> H \<Longrightarrow> host_keeps cl ord H' Q"
  unfolding host_keeps_def by blast

definition spec_hosts :: "Spec list \<Rightarrow> string set" where
  "spec_hosts specs = (\<Union>spec \<in> set specs. set (Hosts spec))"

lemma spec_hosts_Cons [simp]: "spec_hosts (spec # specs) = set (Hosts spec) \<union> spec_hosts specs"
  by (simp add: spec_hosts_def)

lemma spec_hosts_all: "fmlookup groups gKey = Some specs \<Longrightarrow> spec_hosts specs \<subseteq> all_hosts groups"
  unfolding spec_hosts_def by (simp add: all_hosts_iff subset_iff) blast

lemma alloc_hosts_rule:
  "alloc_hosts cl ord i hs s = Some s' \<Longrightarrow> Q s \<Longrightarrow> host_keeps cl ord (set hs) Q \<Longrightarrow> Q s'"
proof (induction hs arbitrary: i s)
  case (Cons h hs)
  from Cons.prems(1) obtain s1 where s1: "alloc_host cl ord i h s = Some s1"
      and rest: "alloc_hosts cl ord (Suc i) hs s1 = Some s'"
    by (auto simp: bind_Some)
  have "Q s1" using host_keepsD [OF Cons.prems(3) _ Cons.prems(2) s1] by simp
  with rest show ?case
    by (rule Cons.IH) (rule host_keeps_mono [OF Cons.prems(3)], auto)
qed simp

lemma alloc_specs_shared_rule:
  "alloc_specs cl ord specs s = Some s' \<Longrightarrow> \<not> lUniqueIP s \<Longrightarrow> Q s \<Longrightarrow>
     host_keeps cl ord (spec_hosts specs) Q \<Longrightarrow> Q s'"
proof (induction specs arbitrary: s)
  case (Cons spec specs)
  from Cons.prems(1) obtain s1 where s1: "alloc_spec cl ord spec s = Some s1"
      and rest: "alloc_specs cl ord specs s1 = Some s'"
    by (auto simp: bind_Some)
  from s1 Cons.prems(2) have hosts: "alloc_hosts cl ord 0 (Hosts spec) s = Some s1"
    by (auto simp: alloc_spec_def bind_Some dest: alloc_hosts_unique split: if_splits)
  have "\<not> lUniqueIP s1" using alloc_hosts_unique [OF hosts] Cons.prems(2) by simp
  moreover have "Q s1"
    by (rule alloc_hosts_rule [where Q = Q, OF hosts Cons.prems(3)]) (rule host_keeps_mono [OF Cons.prems(4)], simp)
  moreover have "host_keeps cl ord (spec_hosts specs) Q"
    by (rule host_keeps_mono [OF Cons.prems(4)]) simp
  ultimately show ?case by (rule Cons.IH [OF rest])
qed simp

lemma alloc_specs_unique_rule:
  assumes reserve: "\<And>nv c s s'. P s \<Longrightarrow> reserve cl nv c s = Some s' \<Longrightarrow> Q s'"
    and release: "\<And>s s'. Q s \<Longrightarrow> release_unused cl s = Some s' \<Longrightarrow> P s'"
  shows "alloc_specs cl ord specs s = Some s' \<Longrightarrow> lUniqueIP s \<Longrightarrow> P s \<Longrightarrow>
     host_keeps cl ord (spec_hosts specs) Q \<Longrightarrow> P s'"
proof (induction specs arbitrary: s)
  case (Cons spec specs)
  from Cons.prems(1) obtain s1 where s1: "alloc_spec cl ord spec s = Some s1"
      and rest: "alloc_specs cl ord specs s1 = Some s'"
    by (auto simp: bind_Some)
  from s1 Cons.prems(2) obtain r t where r: "reserve cl (Netview spec) (Cidr spec) s = Some r"
      and t: "alloc_hosts cl ord 0 (Hosts spec) r = Some t"
      and l: "(if lUniqueIP t then release_unused cl t else Some t) = Some s1"
    by (auto simp: alloc_spec_def bind_Some)
  have "lUniqueIP t" using alloc_hosts_unique [OF t] reserve_unique [OF r] Cons.prems(2) by simp
  with l have l': "release_unused cl t = Some s1" by simp
  have "Q t"
    by (rule alloc_hosts_rule [where Q = Q, OF t reserve [OF Cons.prems(3) r]])
       (rule host_keeps_mono [OF Cons.prems(4)], simp)
  then have "P s1" using l' by (rule release)
  moreover have "lUniqueIP s1" using alloc_spec_unique [OF s1] Cons.prems(2) by simp
  moreover have "host_keeps cl ord (spec_hosts specs) Q"
    by (rule host_keeps_mono [OF Cons.prems(4)]) simp
  ultimately show ?case by (intro Cons.IH [OF rest])
qed simp

text \<open>
  \<open>P\<close> holds between groups, \<open>Q\<close> while an address is reserved. The hosts visited are those of
  the group.
\<close>

lemma alloc_group_rule:
  assumes "alloc_group cl ord gKey specs s = Some s'" and "P s"
    and frame: "\<And>s f u. P s \<Longrightarrow> P (s\<lparr>lFirstHost := f, lUniqueIP := u\<rparr>)"
    and reserve: "\<And>nv c s s'. P s \<Longrightarrow> reserve cl nv c s = Some s' \<Longrightarrow> Q s'"
    and host: "host_keeps cl ord (spec_hosts specs) Q"
    and release: "\<And>s s'. Q s \<Longrightarrow> release_unused cl s = Some s' \<Longrightarrow> P s'"
  shows "P s'"
proof (cases "gkName gKey = ''''")
  case True
  let ?s = "s\<lparr>lFirstHost := '''', lUniqueIP := True\<rparr>"
  from True assms(1) obtain t where t: "alloc_specs cl ord specs ?s = Some t"
      and l: "(if \<not> lUniqueIP t then release_unused cl t else Some t) = Some s'"
    by (auto simp: alloc_group_def bind_Some)
  have "lUniqueIP t" using alloc_specs_unique [OF t] by simp
  with t l have "alloc_specs cl ord specs ?s = Some s'" by simp
  then show ?thesis
    using alloc_specs_unique_rule [where P = P and Q = Q, OF reserve release] frame [OF assms(2)] host
    by simp
next
  case False
  let ?s = "s\<lparr>lFirstHost := '''', lUniqueIP := False\<rparr>"
  from False assms(1) obtain r t where
      r: "reserve cl (gkNetview gKey) (gkCidr gKey) ?s = Some r"
      and t: "alloc_specs cl ord specs r = Some t"
      and l: "(if \<not> lUniqueIP t then release_unused cl t else Some t) = Some s'"
    by (auto simp: alloc_group_def bind_Some)
  have u: "\<not> lUniqueIP r" using reserve_unique [OF r] by simp
  then have l': "release_unused cl t = Some s'" using l alloc_specs_unique [OF t] by simp
  have "Q t"
    using t u reserve [OF frame [OF assms(2)] r] host by (rule alloc_specs_shared_rule)
  then show ?thesis using l' by (rule release)
qed

lemma alloc_groups_rule:
  assumes frame: "\<And>s f u. P s \<Longrightarrow> P (s\<lparr>lFirstHost := f, lUniqueIP := u\<rparr>)"
    and reserve: "\<And>nv c s s'. P s \<Longrightarrow> reserve cl nv c s = Some s' \<Longrightarrow> Q s'"
    and host: "host_keeps cl ord (all_hosts groups) Q"
    and release: "\<And>s s'. Q s \<Longrightarrow> release_unused cl s = Some s' \<Longrightarrow> P s'"
  shows "alloc_groups cl ord groups gKeys s = Some s' \<Longrightarrow> P s \<Longrightarrow> P s'"
proof (induction gKeys arbitrary: s)
  case (Cons gKey gKeys)
  show ?case
  proof (cases "fmlookup groups gKey")
    case None
    with Cons show ?thesis by simp
  next
    case (Some specs)
    with Cons.prems(1) obtain s1 where s1: "alloc_group cl ord gKey specs s = Some s1"
        and rest: "alloc_groups cl ord groups gKeys s1 = Some s'"
      by (auto simp: bind_Some)
    have "P s1"
      by (rule alloc_group_rule [where P = P and Q = Q, OF s1 Cons.prems(2) frame reserve
            host_keeps_mono [OF host spec_hosts_all [OF Some]] release])
    with rest show ?thesis by (rule Cons.IH)
  qed
qed simp

subsection \<open>What one step does to the store\<close>

lemma alloc_host_frame:
  "alloc_host cl ord i h s = Some s' \<Longrightarrow>
     lNetview s' = lNetview s \<and> lCidr s' = lCidr s \<and> lNextAddr s' = lNextAddr s \<and>
     visits s' = Suc (visits s)"
  by (auto simp: alloc_host_def Let_def bind_Some split: if_splits)

definition select_first :: "nat \<Rightarrow> string \<Rightarrow> 'w alloc \<Rightarrow> 'w alloc" where
  "select_first i h s = (if i = 0 \<and> (lUniqueIP s \<or> lFirstHost s = '''') then s\<lparr>lFirstHost := h\<rparr> else s)"

lemma select_first_fields [simp]:
  "lStore (select_first i h s) = lStore s" "lWorld (select_first i h s) = lWorld s"
  "lAddrUsed (select_first i h s) = lAddrUsed s" "lCurAddr (select_first i h s) = lCurAddr s"
  "lNextAddr (select_first i h s) = lNextAddr s" "lNetview (select_first i h s) = lNetview s"
  "lCidr (select_first i h s) = lCidr s" "visits (select_first i h s) = visits s"
  by (simp_all add: select_first_def)

lemma alloc_host_eq:
  "alloc_host cl ord i h s =
     (let t = select_first i h s; ip = (\<lambda>o'. GetIP (lStore s) h (ord (o' (visits s)) (fmdom (Records (lStore s)))))
      in if ip CheckIP \<noteq> '''' then Some (t\<lparr>visits := Suc (visits s), lCurAddr := ip UseIP\<rparr>)
         else if h = lFirstHost t then do {
           (ok, w) \<leftarrow> iCreateARecord cl h (lNextAddr s) (lNetview s) (lWorld s);
           if ok then Some (t\<lparr>visits := Suc (visits s), lWorld := w, lAddrUsed := True,
                  lStore := AddRecord (lStore s) (lCurAddr s) h recA (lNetview s) (lCidr s)\<rparr>)
           else Some (t\<lparr>visits := Suc (visits s), lWorld := w\<rparr>)
         }
         else do {
           w \<leftarrow> iCreateCNAMERecord cl h (lFirstHost t) (lNetview s) (lWorld s);
           Some (t\<lparr>visits := Suc (visits s), lWorld := w,
                  lStore := AddRecord (lStore s) (lCurAddr s) h recCNAME (lNetview s) (lCidr s)\<rparr>)
         })"
  unfolding alloc_host_def Let_def select_first_def by (auto cong: if_cong)

lemma alloc_host_cases:
  assumes "alloc_host cl ord i h s = Some s'"
  obtains (known) "GetIP (lStore s) h (ord (CheckIP (visits s)) (fmdom (Records (lStore s)))) \<noteq> ''''"
      "lStore s' = lStore s" "lWorld s' = lWorld s" "lAddrUsed s' = lAddrUsed s"
      "lCurAddr s' = GetIP (lStore s) h (ord (UseIP (visits s)) (fmdom (Records (lStore s))))"
  | (granted) w where "GetIP (lStore s) h (ord (CheckIP (visits s)) (fmdom (Records (lStore s)))) = ''''"
      "h = lFirstHost s'" "lCurAddr s' = lCurAddr s" "lAddrUsed s'"
      "iCreateARecord cl h (lNextAddr s) (lNetview s) (lWorld s) = Some (True, w)" "lWorld s' = w"
      "lStore s' = AddRecord (lStore s) (lCurAddr s) h recA (lNetview s) (lCidr s)"
  | (refused) w where "GetIP (lStore s) h (ord (CheckIP (visits s)) (fmdom (Records (lStore s)))) = ''''"
      "h = lFirstHost s'" "lCurAddr s' = lCurAddr s" "lAddrUsed s' = lAddrUsed s"
      "iCreateARecord cl h (lNextAddr s) (lNetview s) (lWorld s) = Some (False, w)" "lWorld s' = w"
      "lStore s' = lStore s"
  | (cname) w where "GetIP (lStore s) h (ord (CheckIP (visits s)) (fmdom (Records (lStore s)))) = ''''"
      "h \<noteq> lFirstHost s'" "lCurAddr s' = lCurAddr s" "lAddrUsed s' = lAddrUsed s"
      "iCreateCNAMERecord cl h (lFirstHost s') (lNetview s) (lWorld s) = Some w" "lWorld s' = w"
      "lStore s' = AddRecord (lStore s) (lCurAddr s) h recCNAME (lNetview s) (lCidr s)"
proof -
  let ?s = "select_first i h s"
  let ?ip = "\<lambda>o'. GetIP (lStore s) h (ord (o' (visits s)) (fmdom (Records (lStore s))))"
  note eq = alloc_host_eq [of cl ord i h s, unfolded Let_def]
  note f = select_first_fields
  show thesis
  proof (cases "?ip CheckIP = ''''")
    case False
    with assms have "s' = ?s\<lparr>visits := Suc (visits s), lCurAddr := ?ip UseIP\<rparr>"
      unfolding eq by simp
    with False f show ?thesis by (intro known) auto
  next
    case ip: True
    show ?thesis
    proof (cases "h = lFirstHost ?s")
      case True
      with ip assms obtain ok w where
        c: "iCreateARecord cl h (lNextAddr s) (lNetview s) (lWorld s) = Some (ok, w)"
        and "s' = (if ok then ?s\<lparr>visits := Suc (visits s), lWorld := w, lAddrUsed := True,
               lStore := AddRecord (lStore s) (lCurAddr s) h recA (lNetview s) (lCidr s)\<rparr>
             else ?s\<lparr>visits := Suc (visits s), lWorld := w\<rparr>)"
        unfolding eq by (auto simp: bind_Some split: if_splits)
      then show ?thesis using ip True f by (cases ok) (auto intro: granted refused)
    next
      case False
      with ip assms obtain w where
        "iCreateCNAMERecord cl h (lFirstHost ?s) (lNetview s) (lWorld s) = Some w"
        and "s' = ?s\<lparr>visits := Suc (visits s), lWorld := w,
               lStore := AddRecord (lStore s) (lCurAddr s) h recCNAME (lNetview s) (lCidr s)\<rparr>"
        unfolding eq by (auto simp: bind_Some)
      then show ?thesis using ip False f by (intro cname) auto
    qed
  qed
qed

lemma alloc_host_store:
  assumes "alloc_host cl ord i h s = Some s'"
  shows "lStore s' = lStore s \<or>
     (\<exists>t. lStore s' = AddRecord (lStore s) (lCurAddr s) h t (lNetview s) (lCidr s) \<and>
       GetIP (lStore s) h (ord (CheckIP (visits s)) (fmdom (Records (lStore s)))) = '''')"
  using assms by (cases rule: alloc_host_cases) auto

lemma reserve_fields:
  assumes "reserve cl nv cidr s = Some s'"
  shows "lStore s' = lStore s" "\<not> lAddrUsed s'" "lNetview s' = nv" "lCidr s' = cidr"
    "lCurAddr s' = lNextAddr s'" "visits s' = visits s"
    "iGetNextAddr cl nv cidr (lWorld s) = Some (lNextAddr s', lWorld s')"
  using assms by (auto simp: reserve_def bind_Some)

lemma release_fields:
  assumes "release_unused cl s = Some s'"
  shows "lStore s' = lStore s" "lNextAddr s' = lNextAddr s" "lCurAddr s' = lCurAddr s"
    "lAddrUsed s' = lAddrUsed s"
  using assms by (auto simp: release_unused_def bind_Some split: if_splits)

text \<open>A property of the store alone is kept by reservations and releases.\<close>

lemma alloc_groups_store_rule:
  assumes "alloc_groups cl ord groups gKeys s = Some s'" and "I (lStore s)"
    and host: "\<And>st h ip t nv cidr. h \<in> all_hosts groups \<Longrightarrow> I st \<Longrightarrow> I (AddRecord st ip h t nv cidr)"
  shows "I (lStore s')"
proof (rule alloc_groups_rule [where P = "\<lambda>s. I (lStore s)" and Q = "\<lambda>s. I (lStore s)", OF _ _ _ _ assms(1,2)])
  show "host_keeps cl ord (all_hosts groups) (\<lambda>s. I (lStore s))"
    by (rule host_keepsI) (use host alloc_host_store in fastforce)
qed (auto simp: reserve_fields release_fields)

lemma alloc_groups_wf:
  "alloc_groups cl ord groups gKeys s = Some s' \<Longrightarrow> store_wf (lStore s) \<Longrightarrow> store_wf (lStore s')"
  by (rule alloc_groups_store_rule [where I = store_wf]) (auto intro: store_wf_Add)

text \<open>Nothing stored is lost or changes its type.\<close>

lemma alloc_groups_entry:
  "alloc_groups cl ord groups gKeys s = Some s' \<Longrightarrow> entry (lStore s) ip h = Some t \<Longrightarrow>
     entry (lStore s') ip h = Some t"
  by (rule alloc_groups_store_rule [where I = "\<lambda>st. entry st ip h = Some t"]) (auto simp: entry_AddRecord)

lemma alloc_groups_only_adds:
  "alloc_groups cl ord groups gKeys s = Some s' \<Longrightarrow> h \<notin> all_hosts groups \<Longrightarrow>
     entry (lStore s') ip h = entry (lStore s) ip h"
  by (rule alloc_groups_store_rule [where I = "\<lambda>st. entry st ip h = entry (lStore s) ip h"])
     (auto simp: entry_AddRecord)

subsection \<open>One address per host\<close>

text \<open>Stores whose hosts have one address each, and no host the empty one.\<close>

definition store_sound :: "Store \<Rightarrow> bool" where
  "store_sound st \<longleftrightarrow> hosts_unique st \<and> '''' \<notin> keys (Records st)"

lemma store_sound_GetIP:
  assumes "store_sound st" and "fair_range ord"
  shows "GetIP st h (ord x (fmdom (Records st))) = '''' \<longleftrightarrow> \<not> stored st h"
    and "GetIP st h (ord x (fmdom (Records st))) = ip \<and> ip \<noteq> '''' \<longleftrightarrow> stored_at st h ip"
proof -
  let ?ips = "ord x (fmdom (Records st))"
  have e: "enumerates ?ips (Records st)" using assms(2) by (rule fair_enumerates)
  have u: "hosts_unique st" using assms(1) by (simp add: store_sound_def)
  have ne: "ip \<noteq> ''''" if "stored_at st h ip" for ip
    using assms(1) stored_at_key [OF that] by (auto simp: store_sound_def)
  show "GetIP st h ?ips = '''' \<longleftrightarrow> \<not> stored st h"
    using holder_enum_None [OF e, of h] holder_Some [of st h ?ips] ne
    by (auto simp: GetIP_holder split: option.splits)
  show "GetIP st h ?ips = ip \<and> ip \<noteq> '''' \<longleftrightarrow> stored_at st h ip"
    using holder_unique [OF u e, of h] ne hosts_uniqueD [OF u]
    by (auto simp: GetIP_holder split: option.splits)
qed

lemma store_sound_Add:
  assumes "store_sound st" and "\<not> stored st h" and "ip \<noteq> ''''"
  shows "store_sound (AddRecord st ip h t nv cidr)"
proof -
  have "hosts_unique (AddRecord st ip h t nv cidr)"
    using assms(1,2) unfolding store_sound_def hosts_unique_iff
    by (auto simp: stored_at_def entry_AddRecord stored_iff split: if_splits)
  moreover have "keys (Records (AddRecord st ip h t nv cidr)) \<subseteq> insert ip (keys (Records st))"
    by (auto simp: AddRecord_def overwriteRecord_def split: option.splits)
  ultimately show ?thesis using assms(1,3) by (auto simp: store_sound_def)
qed

lemma alloc_groups_sound:
  assumes "yields_addresses cl" and "fair_range ord"
    and "alloc_groups cl ord groups gKeys s = Some s'" and "store_sound (lStore s)"
  shows "store_sound (lStore s')"
proof (rule alloc_groups_rule [where P = "\<lambda>s. store_sound (lStore s)"
      and Q = "\<lambda>s. store_sound (lStore s) \<and> lCurAddr s \<noteq> ''''", OF _ _ _ _ assms(3,4)])
  show "store_sound (lStore s') \<and> lCurAddr s' \<noteq> ''''"
    if "store_sound (lStore s)" "reserve cl nv c s = Some s'" for nv c s s'
    using that(1) assms(1) reserve_fields(1,5,7) [OF that(2)] unfolding yields_addresses_def by metis
  show "host_keeps cl ord (all_hosts groups) (\<lambda>s. store_sound (lStore s) \<and> lCurAddr s \<noteq> '''')"
  proof (rule host_keepsI)
    fix i h s s'
    assume q: "store_sound (lStore s) \<and> lCurAddr s \<noteq> ''''" and a: "alloc_host cl ord i h s = Some s'"
    note g = store_sound_GetIP [OF conjunct1 [OF q] assms(2)]
    from a show "store_sound (lStore s') \<and> lCurAddr s' \<noteq> ''''"
    proof (cases rule: alloc_host_cases)
      case known
      then show ?thesis using q g by metis
    qed (use q g(1) store_sound_Add in auto)
  qed
qed (auto simp: release_fields)

subsection \<open>Every listed host gets an entry\<close>

lemma stored_AddRecord: "stored (AddRecord st ip h t nv cidr) h' \<longleftrightarrow> h' = h \<or> stored st h'"
  by (auto simp: stored_iff stored_at_def entry_AddRecord)

lemma alloc_host_mono:
  "alloc_host cl ord i h s = Some s' \<Longrightarrow> stored (lStore s) h' \<Longrightarrow> stored (lStore s') h'"
  using alloc_host_store [of cl ord i h s s'] by (auto simp: stored_AddRecord)

lemma alloc_hosts_mono:
  "alloc_hosts cl ord i hs s = Some s' \<Longrightarrow> stored (lStore s) h \<Longrightarrow> stored (lStore s') h"
  by (rule alloc_hosts_rule [where Q = "\<lambda>s. stored (lStore s) h"])
     (assumption, assumption, rule host_keepsI, rule alloc_host_mono)

lemma alloc_host_covers:
  assumes "grants_records cl" and "fair_range ord" and "alloc_host cl ord i h s = Some s'"
  shows "stored (lStore s') h"
  using assms(3)
proof (cases rule: alloc_host_cases)
  case known
  then obtain ip where "holder (lStore s) h (ord (CheckIP (visits s)) (fmdom (Records (lStore s)))) = Some ip"
    by (auto simp: GetIP_holder split: option.splits)
  then show ?thesis using known(2) by (auto simp: stored_iff dest!: holder_Some)
next
  case (refused w)
  then show ?thesis using assms(1) unfolding grants_records_def by blast
qed (auto simp: stored_AddRecord)

lemma alloc_hosts_cover:
  assumes "grants_records cl" and "fair_range ord"
  shows "alloc_hosts cl ord i hs s = Some s' \<Longrightarrow> h \<in> set hs \<Longrightarrow> stored (lStore s') h"
proof (induction hs arbitrary: i s)
  case (Cons h0 hs)
  then obtain s1 where s1: "alloc_host cl ord i h0 s = Some s1"
      and rest: "alloc_hosts cl ord (Suc i) hs s1 = Some s'"
    by (auto simp: bind_Some)
  show ?case
  proof (cases "h = h0")
    case True
    with alloc_host_covers [OF assms s1] alloc_hosts_mono [OF rest] show ?thesis by simp
  next
    case False
    with Cons.IH [OF rest] Cons.prems(2) show ?thesis by simp
  qed
qed simp

lemma alloc_spec_hosts:
  assumes "alloc_spec cl ord spec s = Some s'"
  obtains r t where "alloc_hosts cl ord 0 (Hosts spec) r = Some t"
    "lStore r = lStore s" "lStore t = lStore s'" "lUniqueIP r = lUniqueIP s"
proof -
  from assms obtain r t where
      r: "(if lUniqueIP s then reserve cl (Netview spec) (Cidr spec) s else Some s) = Some r"
      and t: "alloc_hosts cl ord 0 (Hosts spec) r = Some t"
      and l: "(if lUniqueIP t then release_unused cl t else Some t) = Some s'"
    by (auto simp: alloc_spec_def bind_Some)
  moreover have "lStore r = lStore s" "lUniqueIP r = lUniqueIP s"
    using r by (auto dest: reserve_fields(1) reserve_unique split: if_splits)
  moreover have "lStore t = lStore s'" using l by (auto dest: release_fields(1) split: if_splits)
  ultimately show thesis using that by blast
qed

lemma alloc_spec_mono:
  assumes "alloc_spec cl ord spec s = Some s'" and "stored (lStore s) h"
  shows "stored (lStore s') h"
  using assms(1) by (rule alloc_spec_hosts) (use assms(2) alloc_hosts_mono in metis)

lemma alloc_specs_mono:
  "alloc_specs cl ord specs s = Some s' \<Longrightarrow> stored (lStore s) h \<Longrightarrow> stored (lStore s') h"
  by (induction specs arbitrary: s) (auto simp: bind_Some dest: alloc_spec_mono)

lemma alloc_specs_cover:
  assumes "grants_records cl" and "fair_range ord"
  shows "alloc_specs cl ord specs s = Some s' \<Longrightarrow> h \<in> spec_hosts specs \<Longrightarrow> stored (lStore s') h"
proof (induction specs arbitrary: s)
  case (Cons spec specs)
  then obtain s1 where s1: "alloc_spec cl ord spec s = Some s1"
      and rest: "alloc_specs cl ord specs s1 = Some s'"
    by (auto simp: bind_Some)
  show ?case
  proof (cases "h \<in> set (Hosts spec)")
    case True
    have "stored (lStore s1) h"
      by (rule alloc_spec_hosts [OF s1]) (use True alloc_hosts_cover [OF assms] in metis)
    with rest show ?thesis by (rule alloc_specs_mono)
  next
    case False
    with Cons.IH [OF rest] Cons.prems(2) show ?thesis by simp
  qed
qed (simp add: spec_hosts_def)

lemma alloc_group_specs:
  assumes "alloc_group cl ord gKey specs s = Some s'"
  obtains r t where "alloc_specs cl ord specs r = Some t"
    "lStore r = lStore s" "lStore t = lStore s'"
proof -
  let ?s = "s\<lparr>lFirstHost := '''', lUniqueIP := (gkName gKey = '''')\<rparr>"
  from assms obtain r t where
      r: "(if \<not> lUniqueIP ?s then reserve cl (gkNetview gKey) (gkCidr gKey) ?s else Some ?s) = Some r"
      and t: "alloc_specs cl ord specs r = Some t"
      and l: "(if \<not> lUniqueIP t then release_unused cl t else Some t) = Some s'"
    unfolding alloc_group_def Let_def bind_Some by blast
  moreover have "lStore r = lStore s" using r by (auto dest: reserve_fields(1) split: if_splits)
  moreover have "lStore t = lStore s'" using l by (auto dest: release_fields(1) split: if_splits)
  ultimately show thesis using that by blast
qed

lemma alloc_groups_mono:
  "alloc_groups cl ord groups gKeys s = Some s' \<Longrightarrow> stored (lStore s) h \<Longrightarrow> stored (lStore s') h"
  by (auto simp: stored_iff stored_at_iff dest: alloc_groups_entry)

lemma alloc_groups_cover:
  assumes "grants_records cl" and "fair_range ord"
  shows "alloc_groups cl ord groups gKeys s = Some s' \<Longrightarrow> gKey \<in> set gKeys \<Longrightarrow>
    fmlookup groups gKey = Some specs \<Longrightarrow> h \<in> spec_hosts specs \<Longrightarrow> stored (lStore s') h"
proof (induction gKeys arbitrary: s)
  case (Cons k gKeys)
  show ?case
  proof (cases "fmlookup groups k")
    case None
    with Cons show ?thesis by auto
  next
    case (Some sp)
    with Cons.prems(1) obtain s1 where s1: "alloc_group cl ord k sp s = Some s1"
        and rest: "alloc_groups cl ord groups gKeys s1 = Some s'"
      by (auto simp: bind_Some)
    show ?thesis
    proof (cases "k = gKey")
      case True
      with Some Cons.prems have "sp = specs" by simp
      moreover obtain r t where "alloc_specs cl ord sp r = Some t" "lStore t = lStore s1"
        using alloc_group_specs [OF s1] by blast
      ultimately have "stored (lStore s1) h"
        using alloc_specs_cover [OF assms, of specs r t h] Cons.prems(4) by simp
      with rest show ?thesis by (rule alloc_groups_mono)
    next
      case False
      with Cons.IH [OF rest] Cons.prems show ?thesis by simp
    qed
  qed
qed simp

lemma alloc_groups_covers_all:
  assumes "grants_records cl" and "fair_range ord" and "enumerates gKeys groups"
    and "alloc_groups cl ord groups gKeys s = Some s'" and "h \<in> all_hosts groups"
  shows "stored (lStore s') h"
proof -
  from assms(5) obtain gKey specs where g: "fmlookup groups gKey = Some specs" "h \<in> spec_hosts specs"
    by (auto simp: all_hosts_iff spec_hosts_def)
  moreover from g(1) have "gKey \<in> set gKeys" using enumerates_set [OF assms(3)] by (simp add: fmdom'I)
  ultimately show ?thesis using alloc_groups_cover [OF assms(1,2,4)] by blast
qed

subsection \<open>The loop returns\<close>

lemma alloc_host_returns:
  assumes "never_panics cl"
  shows "\<exists>s'. alloc_host cl ord i h s = Some s'"
proof -
  note ret = never_panics_returns [OF assms]
  define fa where "fa a b c w = the (iCreateARecord cl a b c w)" for a b c w
  define fc where "fc a b c w = the (iCreateCNAMERecord cl a b c w)" for a b c w
  have "iCreateARecord cl a b c w = Some (fa a b c w)"
      "iCreateCNAMERecord cl a b c w = Some (fc a b c w)" for a b c w
    using ret(1) [of a b c w] ret(3) [of a b c w] by (auto simp: fa_def fc_def)
  then show ?thesis unfolding alloc_host_def Let_def by (simp split: prod.split)
qed

lemma reserve_returns:
  assumes "never_panics cl"
  shows "\<exists>s'. reserve cl nv cidr s = Some s'"
proof -
  have "iGetNextAddr cl nv cidr (lWorld s) \<noteq> None"
    using assms unfolding never_panics_def by blast
  then show ?thesis by (auto simp: reserve_def)
qed

lemma release_returns:
  assumes "never_panics cl"
  shows "\<exists>s'. release_unused cl s = Some s'"
proof -
  have "iReleaseAddr cl (lNetview s) (lCidr s) (lNextAddr s) (lWorld s) \<noteq> None"
    using assms unfolding never_panics_def by blast
  then show ?thesis by (auto simp: release_unused_def)
qed

lemma alloc_hosts_returns: "never_panics cl \<Longrightarrow> \<exists>s'. alloc_hosts cl ord i hs s = Some s'"
  by (induction hs arbitrary: i s) (auto simp: bind_Some, metis alloc_host_returns)

lemma alloc_spec_returns: "never_panics cl \<Longrightarrow> \<exists>s'. alloc_spec cl ord spec s = Some s'"
  unfolding alloc_spec_def bind_Some by (metis alloc_hosts_returns reserve_returns release_returns)

lemma alloc_specs_returns: "never_panics cl \<Longrightarrow> \<exists>s'. alloc_specs cl ord specs s = Some s'"
  by (induction specs arbitrary: s) (auto simp: bind_Some, metis alloc_spec_returns)

lemma alloc_group_returns: "never_panics cl \<Longrightarrow> \<exists>s'. alloc_group cl ord gKey specs s = Some s'"
  unfolding alloc_group_def Let_def bind_Some
  by (metis alloc_specs_returns reserve_returns release_returns)

lemma alloc_groups_returns: "never_panics cl \<Longrightarrow> \<exists>s'. alloc_groups cl ord groups gKeys s = Some s'"
proof (induction gKeys arbitrary: s)
  case (Cons k gKeys)
  then show ?case
    by (cases "fmlookup groups k") (auto simp: bind_Some, metis alloc_group_returns)
qed simp

end
