(* ===== verification/Controller_Sweep.thy ===== *)
theory Controller_Sweep
  imports Controller_Alloc
begin

section \<open>The deletion loop\<close>

text \<open>
  Facts about the second loop of \<open>processIPGroups\<close>, proved for every IPAM client that keeps the
  contract and every order of the range loops: it marks exactly the hosts no group lists, once
  per address, keeps the others where they are, and its promotions keep one A record per
  address.
\<close>

lemma put_host_some:
  assumes "put_host st ip h t = Some st'"
  obtains hosts where "fmlookup (Records st) ip = Some hosts"
    "st' = st\<lparr>Records := fmupd ip (fmupd h t hosts) (Records st)\<rparr>"
  using assms by (auto simp: put_host_def split: option.splits)

lemma entry_put_host:
  assumes "put_host st ip h t = Some st'"
  shows "entry st' ip' h' = (if ip' = ip \<and> h' = h then Some t else entry st ip' h')"
  using assms by (rule put_host_some) (auto simp: entry_def)

lemma put_host_frame:
  assumes "put_host st ip h t = Some st'"
  shows "fmdom (Records st') = fmdom (Records st) \<and> Netviews st' = Netviews st \<and> Cidrs st' = Cidrs st"
  using assms by (rule put_host_some) (auto simp: fmdom'I finsert_absorb)

lemma put_host_wf:
  assumes "put_host st ip h t = Some st'" and "store_wf st"
  shows "store_wf st'"
  using assms(1)
proof (rule put_host_some)
  fix hosts assume *: "fmlookup (Records st) ip = Some hosts"
    "st' = st\<lparr>Records := fmupd ip (fmupd h t hosts) (Records st)\<rparr>"
  have "finsert ip (fmdom (Records st)) = fmdom (Records st)"
    using *(1) by (auto simp: fmdom'I finsert_absorb)
  with * assms(2) show ?thesis by (auto simp: store_wf_def fmpred_iff fmempty_keys split: if_splits)
qed

lemma put_host_returns: "stored_at st h' ip \<Longrightarrow> \<exists>st'. put_host st ip h t = Some st'"
  by (auto simp: put_host_def stored_at_def entry_def split: option.splits)

locale sweeping = ipam_client cl + ranges: go_range ord
  for cl :: "'w Client" and ord :: "site \<Rightarrow> string fset \<Rightarrow> string list"
begin

lemma sweep_host_cases:
  assumes "sweep_host cl G ip nv cidr h s = Some s'"
  obtains (absent) "\<not> stored_at (sStore s) h ip" "s' = s"
  | (wanted) "stored_at (sStore s) h ip" "h \<in> set G" "s' = s"
  | (promoted) newA err w where "entry (sStore s) ip h = Some recA" "h \<notin> set G"
      "availHosts s' = remove1 h (availHosts s)" "availHosts s' \<noteq> []"
      "newA = (if err = None then hd (availHosts s') else '''')"
      "iCNAMEToA cl (availHosts s') h ip nv cidr (sWorld s) = Some ((newA, err), w)"
      "put_host (sStore s) ip newA recA = Some (sStore s')" "toRemove s' = toRemove s @ [h]"
  | (dropped) t where "entry (sStore s) ip h = Some t" "h \<notin> set G"
      "availHosts s' = remove1 h (availHosts s)" "t = recA \<longrightarrow> availHosts s' = []"
      "sStore s' = sStore s" "toRemove s' = toRemove s @ [h]"
proof (cases "entry (sStore s) ip h")
  case None
  with assms show ?thesis by (intro absent) (auto simp: sweep_host_def stored_at_def)
next
  case (Some t)
  show ?thesis
  proof (cases "h \<in> set G")
    case True
    with assms Some show ?thesis by (intro wanted) (auto simp: sweep_host_def stored_at_def)
  next
    case False
    let ?avail = "remove1 h (availHosts s)"
    consider (prom) "t = recA" "?avail \<noteq> []" | (drop) "t \<noteq> recA \<or> ?avail = []" by blast
    then show ?thesis
    proof cases
      case prom
      with assms Some False obtain newA err w st where
          *: "iCNAMEToA cl ?avail h ip nv cidr (sWorld s) = Some ((newA, err), w)"
          "put_host (sStore s) ip newA recA = Some st"
          "s' = s\<lparr>sWorld := w, sStore := st, availHosts := ?avail, toRemove := toRemove s @ [h]\<rparr>"
        by (auto simp: sweep_host_def removeElement_remove1 bind_Some Let_def)
      with prom Some False CNAMEToA_result [OF prom(2) *(1)] show ?thesis by (intro promoted) auto
    next
      case drop
      with assms Some False show ?thesis
        by (intro dropped) (auto simp: sweep_host_def removeElement_remove1 bind_Some Let_def split: if_splits)
    qed
  qed
qed

text \<open>
  Only the empty name can appear at an address, and only when a promotion fails:
  \<open>regular h\<close> excludes that.
\<close>

definition regular :: "string \<Rightarrow> bool" where
  "regular h \<longleftrightarrow> h \<noteq> '''' \<or> promotions_succeed cl"

definition avail_stored :: "string \<Rightarrow> 'w sweep \<Rightarrow> bool" where
  "avail_stored ip s \<longleftrightarrow> (\<forall>h \<in> set (availHosts s). stored_at (sStore s) h ip)"

lemma sweep_host_store:
  assumes "sweep_host cl G ip nv cidr h s = Some s'" and "avail_stored ip s"
  shows "sStore s' = sStore s \<or>
    (\<exists>newA. put_host (sStore s) ip newA recA = Some (sStore s') \<and>
       (regular newA \<longrightarrow> stored_at (sStore s) newA ip))"
  using assms(1)
proof (cases rule: sweep_host_cases)
  case (promoted newA err w)
  have "stored_at (sStore s) newA ip" if "regular newA"
  proof -
    have "err = None"
    proof (rule ccontr)
      assume "err \<noteq> None"
      with promoted(5) that have "promotions_succeed cl" by (simp add: regular_def)
      with promoted(6) \<open>err \<noteq> None\<close> show False unfolding promotions_succeed_def by blast
    qed
    with promoted(4,5) have "newA \<in> set (availHosts s')" by simp
    then have "newA \<in> set (availHosts s)"
      unfolding promoted(3) by (rule subsetD [OF set_remove1_subset])
    with assms(2) show ?thesis by (auto simp: avail_stored_def)
  qed
  with promoted(7) show ?thesis by blast
qed auto

lemma sweep_host_effect:
  assumes "sweep_host cl G ip nv cidr h s = Some s'" and "avail_stored ip s"
  shows "y \<noteq> ip \<Longrightarrow> entry (sStore s') y x = entry (sStore s) y x"
    and "stored_at (sStore s) x y \<Longrightarrow> stored_at (sStore s') x y"
    and "regular x \<Longrightarrow> stored_at (sStore s') x y \<longleftrightarrow> stored_at (sStore s) x y"
    and "avail_stored ip s'"
    and "fmdom (Records (sStore s')) = fmdom (Records (sStore s)) \<and>
         Netviews (sStore s') = Netviews (sStore s) \<and> Cidrs (sStore s') = Cidrs (sStore s)"
    and "store_wf (sStore s) \<Longrightarrow> store_wf (sStore s')"
    and "toRemove s' = toRemove s @ (if stored_at (sStore s) h ip \<and> h \<notin> set G then [h] else [])"
proof -
  note store = sweep_host_store [OF assms]
  show mono: "stored_at (sStore s) x y \<Longrightarrow> stored_at (sStore s') x y" for x y
    using store by (auto simp: stored_at_def entry_put_host)
  show "y \<noteq> ip \<Longrightarrow> entry (sStore s') y x = entry (sStore s) y x"
    using store by (auto simp: entry_put_host)
  show "regular x \<Longrightarrow> stored_at (sStore s') x y \<longleftrightarrow> stored_at (sStore s) x y"
    using store by (auto simp: stored_at_def entry_put_host split: if_splits)
  show "fmdom (Records (sStore s')) = fmdom (Records (sStore s)) \<and>
         Netviews (sStore s') = Netviews (sStore s) \<and> Cidrs (sStore s') = Cidrs (sStore s)"
    using store put_host_frame by auto
  show "store_wf (sStore s) \<Longrightarrow> store_wf (sStore s')" using store put_host_wf by auto
  have "set (availHosts s') \<subseteq> set (availHosts s)"
    using assms(1) by (cases rule: sweep_host_cases) (auto dest: subsetD [OF set_remove1_subset])
  then show "avail_stored ip s'" using assms(2) mono by (auto simp: avail_stored_def)
  show "toRemove s' = toRemove s @ (if stored_at (sStore s) h ip \<and> h \<notin> set G then [h] else [])"
    using assms(1) by (cases rule: sweep_host_cases) (auto simp: stored_at_def)
qed

lemma sweep_hosts_effect:
  assumes "sweep_hosts cl G ip nv cidr hs s = Some s'" and "avail_stored ip s"
  shows "y \<noteq> ip \<Longrightarrow> entry (sStore s') y x = entry (sStore s) y x"
    and "stored_at (sStore s) x y \<Longrightarrow> stored_at (sStore s') x y"
    and "regular x \<Longrightarrow> stored_at (sStore s') x y \<longleftrightarrow> stored_at (sStore s) x y"
    and "avail_stored ip s'"
    and "fmdom (Records (sStore s')) = fmdom (Records (sStore s)) \<and>
         Netviews (sStore s') = Netviews (sStore s) \<and> Cidrs (sStore s') = Cidrs (sStore s)"
    and "store_wf (sStore s) \<Longrightarrow> store_wf (sStore s')"
    and "set (toRemove s') \<subseteq> set (toRemove s) \<union> - set G"
    and "count_list (toRemove s) x \<le> count_list (toRemove s') x"
    and "x \<in> set hs \<Longrightarrow> x \<notin> set G \<Longrightarrow> stored_at (sStore s) x ip \<Longrightarrow>
           count_list (toRemove s) x < count_list (toRemove s') x"
proof -
  have "(y \<noteq> ip \<longrightarrow> entry (sStore s') y x = entry (sStore s) y x) \<and>
    (stored_at (sStore s) x y \<longrightarrow> stored_at (sStore s') x y) \<and>
    (regular x \<longrightarrow> stored_at (sStore s') x y = stored_at (sStore s) x y) \<and> avail_stored ip s' \<and>
    fmdom (Records (sStore s')) = fmdom (Records (sStore s)) \<and>
    Netviews (sStore s') = Netviews (sStore s) \<and> Cidrs (sStore s') = Cidrs (sStore s) \<and>
    (store_wf (sStore s) \<longrightarrow> store_wf (sStore s')) \<and>
    set (toRemove s') \<subseteq> set (toRemove s) \<union> - set G \<and>
    count_list (toRemove s) x \<le> count_list (toRemove s') x \<and>
    (x \<in> set hs \<longrightarrow> x \<notin> set G \<longrightarrow> stored_at (sStore s) x ip \<longrightarrow>
       count_list (toRemove s) x < count_list (toRemove s') x)"
    using assms
  proof (induction hs arbitrary: s)
    case (Cons h hs)
    from Cons.prems(1) obtain s1 where s1: "sweep_host cl G ip nv cidr h s = Some s1"
        and rest: "sweep_hosts cl G ip nv cidr hs s1 = Some s'"
      by (auto simp: bind_Some)
    note e = sweep_host_effect [OF s1 Cons.prems(2)]
    note IH = Cons.IH [OF rest e(4)]
    have "count_list (toRemove s) x \<le> count_list (toRemove s1) x" by (simp add: e(7))
    moreover have "count_list (toRemove s) x < count_list (toRemove s1) x"
      if "h = x" "x \<notin> set G" "stored_at (sStore s) x ip" using that by (simp add: e(7))
    moreover have "set (toRemove s1) \<subseteq> set (toRemove s) \<union> - set G" by (auto simp: e(7))
    ultimately show ?case using IH e(1-6)
      by (intro conjI impI) (auto intro: order.strict_trans1 order.strict_trans2 order.trans)
  qed simp
  then show "y \<noteq> ip \<Longrightarrow> entry (sStore s') y x = entry (sStore s) y x"
    and "stored_at (sStore s) x y \<Longrightarrow> stored_at (sStore s') x y"
    and "regular x \<Longrightarrow> stored_at (sStore s') x y \<longleftrightarrow> stored_at (sStore s) x y"
    and "avail_stored ip s'"
    and "fmdom (Records (sStore s')) = fmdom (Records (sStore s)) \<and>
         Netviews (sStore s') = Netviews (sStore s) \<and> Cidrs (sStore s') = Cidrs (sStore s)"
    and "store_wf (sStore s) \<Longrightarrow> store_wf (sStore s')"
    and "set (toRemove s') \<subseteq> set (toRemove s) \<union> - set G"
    and "count_list (toRemove s) x \<le> count_list (toRemove s') x"
    and "x \<in> set hs \<Longrightarrow> x \<notin> set G \<Longrightarrow> stored_at (sStore s) x ip \<Longrightarrow>
           count_list (toRemove s) x < count_list (toRemove s') x"
    by blast+
qed

text \<open>The loop over the addresses: one mark per address that holds an unwanted host.\<close>

lemma avail_stored_start:
  "fmlookup (Records (sStore s)) ip = Some hosts \<Longrightarrow>
     avail_stored ip (s\<lparr>availHosts := mapKeys (ord l) hosts\<rparr>)"
  by (auto simp: avail_stored_def mapKeys_def stored_at_def entry_def fmlookup_dom'_iff)

lemma sweep_ips_step:
  assumes "sweep_ips cl ord G (ip # ips) s = Some s'"
  obtains (absent) "\<And>x. \<not> stored_at (sStore s) x ip" "sweep_ips cl ord G ips s = Some s'"
  | (present) hosts s1 where "fmlookup (Records (sStore s)) ip = Some hosts"
      "sweep_hosts cl G ip (map_get (Netviews (sStore s)) ip) (map_get (Cidrs (sStore s)) ip)
         (ord (HostsRange ip) (finsert '''' (fmdom hosts)))
         (s\<lparr>availHosts := mapKeys (ord (MapKeys ip)) hosts\<rparr>) = Some s1"
      "sweep_ips cl ord G ips s1 = Some s'"
proof (cases "fmlookup (Records (sStore s)) ip")
  case None
  with assms show ?thesis by (intro absent) (auto simp: stored_at_def entry_def)
next
  case (Some hosts)
  with assms show ?thesis by (auto simp: bind_Some intro: present)
qed

lemma sweep_ips_store:
  assumes "sweep_ips cl ord G ips s = Some s'"
  shows "stored_at (sStore s) x y \<Longrightarrow> stored_at (sStore s') x y"
    and "regular x \<Longrightarrow> stored_at (sStore s') x y \<longleftrightarrow> stored_at (sStore s) x y"
    and "fmdom (Records (sStore s')) = fmdom (Records (sStore s)) \<and>
         Netviews (sStore s') = Netviews (sStore s) \<and> Cidrs (sStore s') = Cidrs (sStore s)"
    and "store_wf (sStore s) \<Longrightarrow> store_wf (sStore s')"
    and "set (toRemove s') \<subseteq> set (toRemove s) \<union> - set G"
proof -
  have "(stored_at (sStore s) x y \<longrightarrow> stored_at (sStore s') x y) \<and>
    (regular x \<longrightarrow> stored_at (sStore s') x y = stored_at (sStore s) x y) \<and>
    fmdom (Records (sStore s')) = fmdom (Records (sStore s)) \<and>
    Netviews (sStore s') = Netviews (sStore s) \<and> Cidrs (sStore s') = Cidrs (sStore s) \<and>
    (store_wf (sStore s) \<longrightarrow> store_wf (sStore s')) \<and>
    set (toRemove s') \<subseteq> set (toRemove s) \<union> - set G"
    using assms
  proof (induction ips arbitrary: s)
    case (Cons ip ips)
    from Cons.prems show ?case
    proof (cases rule: sweep_ips_step)
      case absent
      with Cons.IH show ?thesis by blast
    next
      case (present hosts s1)
      note e = sweep_hosts_effect [OF present(2) avail_stored_start [OF present(1)], simplified]
      note IH = Cons.IH [OF present(3)]
      show ?thesis using e(2,3,5,6,7) IH by (intro conjI impI) (simp_all, blast)
    qed
  qed simp
  then show "stored_at (sStore s) x y \<Longrightarrow> stored_at (sStore s') x y"
    and "regular x \<Longrightarrow> stored_at (sStore s') x y \<longleftrightarrow> stored_at (sStore s) x y"
    and "fmdom (Records (sStore s')) = fmdom (Records (sStore s)) \<and>
         Netviews (sStore s') = Netviews (sStore s) \<and> Cidrs (sStore s') = Cidrs (sStore s)"
    and "store_wf (sStore s) \<Longrightarrow> store_wf (sStore s')"
    and "set (toRemove s') \<subseteq> set (toRemove s) \<union> - set G"
    by blast+
qed

lemma sweep_ips_count:
  assumes "sweep_ips cl ord G ips s = Some s'" and "distinct ips" and "x \<notin> set G"
  shows "count_list (toRemove s) x + card {ip \<in> set ips. stored_at (sStore s) x ip}
           \<le> count_list (toRemove s') x"
  using assms(1,2)
proof (induction ips arbitrary: s)
  case (Cons ip ips)
  let ?at = "\<lambda>s ips. {ip \<in> set ips. stored_at (sStore s) x ip}"
  have split: "?at s (ip # ips) = (if stored_at (sStore s) x ip then insert ip (?at s ips) else ?at s ips)"
    by auto
  from Cons.prems(1) show ?case
  proof (cases rule: sweep_ips_step)
    case absent
    with Cons.IH [OF absent(2)] Cons.prems(2) show ?thesis unfolding split by simp
  next
    case (present hosts s1)
    note e = sweep_hosts_effect [OF present(2) avail_stored_start [OF present(1)], simplified]
    have "?at s ips \<subseteq> ?at s1 ips" using e(2) by blast
    then have "card (?at s ips) \<le> card (?at s1 ips)" by (intro card_mono) auto
    moreover have "count_list (toRemove s1) x + card (?at s1 ips) \<le> count_list (toRemove s') x"
      using Cons.IH [OF present(3)] Cons.prems(2) by simp
    moreover have "count_list (toRemove s) x \<le> count_list (toRemove s1) x" by (rule e(8))
    moreover have "count_list (toRemove s) x < count_list (toRemove s1) x" if "stored_at (sStore s) x ip"
    proof -
      from that present(1) have "x \<in> keys hosts"
        by (auto simp: stored_at_def entry_def fmdom'I)
      with that assms(3) show ?thesis by (intro e(9)) auto
    qed
    ultimately show ?thesis using Cons.prems(2) unfolding split by (cases "stored_at (sStore s) x ip") auto
  qed
qed simp

subsection \<open>The store after the deletion\<close>

lemma sweep_store_split:
  assumes "sweep_store cl ord G st w = Some (st', w')"
  obtains s where
    "sweep_ips cl ord G (ord RecordsRange (fmdom (Records st)))
       \<lparr>sStore = st, sWorld = w, availHosts = [], toRemove = []\<rparr> = Some s"
    "st' = DeleteHosts (\<lambda>n. ord (DeleteRange n)) (sStore s) (toRemove s)" "w' = sWorld s"
  using assms by (auto simp: sweep_store_def bind_Some)

lemma fair_delete: "fair_range (\<lambda>n. ord (DeleteRange n))"
  using ranges.fair by (simp add: fair_range_def)

lemma sweep_store_unwanted:
  assumes "sweep_store cl ord G st w = Some (st', w')" and "x \<notin> set G" and "regular x"
  shows "\<not> stored st' x"
proof -
  from assms(1) obtain s where s: "sweep_ips cl ord G (ord RecordsRange (fmdom (Records st)))
       \<lparr>sStore = st, sWorld = w, availHosts = [], toRemove = []\<rparr> = Some s"
    and st': "st' = DeleteHosts (\<lambda>n. ord (DeleteRange n)) (sStore s) (toRemove s)"
    by (rule sweep_store_split)
  have "places (sStore s) x = {ip \<in> set (ord RecordsRange (fmdom (Records st))). stored_at st x ip}"
    using sweep_ips_store(2) [OF s assms(3)] stored_at_key by (auto simp: places_def)
  then have "card (places (sStore s) x) \<le> count_list (toRemove s) x"
    using sweep_ips_count [OF s ranges.range_distinct assms(2)] by simp
  then show ?thesis unfolding st' by (rule DeleteHosts_all [OF fair_delete])
qed

lemma sweep_store_wanted:
  assumes "sweep_store cl ord G st w = Some (st', w')" and "x \<in> set G"
  shows "stored_at st x ip \<Longrightarrow> stored_at st' x ip"
    and "regular x \<Longrightarrow> stored_at st' x ip \<longleftrightarrow> stored_at st x ip"
proof -
  from assms(1) obtain s where s: "sweep_ips cl ord G (ord RecordsRange (fmdom (Records st)))
       \<lparr>sStore = st, sWorld = w, availHosts = [], toRemove = []\<rparr> = Some s"
    and st': "st' = DeleteHosts (\<lambda>n. ord (DeleteRange n)) (sStore s) (toRemove s)"
    by (rule sweep_store_split)
  have "x \<notin> set (toRemove s)" using sweep_ips_store(5) [OF s] assms(2) by auto
  then have e: "stored_at st' x ip = stored_at (sStore s) x ip" for ip
    unfolding st' stored_at_def by (simp add: entry_DeleteHosts_other)
  show "stored_at st x ip \<Longrightarrow> stored_at st' x ip" using sweep_ips_store(1) [OF s] by (simp add: e)
  show "regular x \<Longrightarrow> stored_at st' x ip \<longleftrightarrow> stored_at st x ip"
    using sweep_ips_store(2) [OF s] by (simp add: e)
qed

lemma sweep_store_wf:
  "sweep_store cl ord G st w = Some (st', w') \<Longrightarrow> store_wf st \<Longrightarrow> store_wf st'"
  by (erule sweep_store_split) (use sweep_ips_store(4) in \<open>auto intro: store_wf_DeleteHosts\<close>)

lemma sweep_store_only_deletes:
  assumes "sweep_store cl ord G st w = Some (st', w')" and "regular x" and "stored_at st' x ip"
  shows "stored_at st x ip"
proof -
  from assms(1) obtain s where s: "sweep_ips cl ord G (ord RecordsRange (fmdom (Records st)))
       \<lparr>sStore = st, sWorld = w, availHosts = [], toRemove = []\<rparr> = Some s"
    and st': "st' = DeleteHosts (\<lambda>n. ord (DeleteRange n)) (sStore s) (toRemove s)"
    by (rule sweep_store_split)
  from assms(3) have "stored_at (sStore s) x ip"
    unfolding st' by (auto simp: stored_at_iff dest: entry_DeleteHosts_le)
  then show ?thesis using sweep_ips_store(2) [OF s assms(2)] by simp
qed

subsection \<open>The loop returns\<close>

lemma sweep_host_returns:
  assumes "never_panics cl" and "stored_at (sStore s) z ip"
  shows "\<exists>s'. sweep_host cl G ip nv cidr h s = Some s'"
proof (cases "entry (sStore s) ip h")
  case None
  then show ?thesis by (simp add: sweep_host_def)
next
  case (Some t)
  let ?a = "removeElement (availHosts s) h"
  note ret = never_panics_returns [OF assms(1)]
  show ?thesis
  proof (cases "?a = []")
    case True
    with Some ret(2) [of h ip nv cidr "sWorld s"] ret(4) [of h ip nv cidr "sWorld s"]
    show ?thesis by (auto simp: sweep_host_def Let_def bind_Some)
  next
    case False
    then obtain newA err w where "iCNAMEToA cl ?a h ip nv cidr (sWorld s) = Some ((newA, err), w)"
      using ret(5) by blast
    moreover obtain st where "put_host (sStore s) ip newA recA = Some st"
      using put_host_returns [OF assms(2)] by blast
    ultimately show ?thesis using False Some ret(4) [of h ip nv cidr "sWorld s"]
      by (auto simp: sweep_host_def Let_def bind_Some)
  qed
qed

lemma sweep_hosts_returns:
  "never_panics cl \<Longrightarrow> avail_stored ip s \<Longrightarrow> stored_at (sStore s) z ip \<Longrightarrow>
     \<exists>s'. sweep_hosts cl G ip nv cidr hs s = Some s'"
proof (induction hs arbitrary: s)
  case (Cons h hs)
  then obtain s1 where s1: "sweep_host cl G ip nv cidr h s = Some s1"
    using sweep_host_returns by blast
  note e = sweep_host_effect [OF s1 Cons.prems(2)]
  have "\<exists>s'. sweep_hosts cl G ip nv cidr hs s1 = Some s'"
    by (rule Cons.IH [OF Cons.prems(1) e(4) e(2) [OF Cons.prems(3)]])
  with s1 show ?case by simp
qed simp

lemma sweep_ips_returns:
  "never_panics cl \<Longrightarrow> store_wf (sStore s) \<Longrightarrow> \<exists>s'. sweep_ips cl ord G ips s = Some s'"
proof (induction ips arbitrary: s)
  case (Cons ip ips)
  show ?case
  proof (cases "fmlookup (Records (sStore s)) ip")
    case None
    with Cons show ?thesis by simp
  next
    case (Some hosts)
    let ?s = "s\<lparr>availHosts := mapKeys (ord (MapKeys ip)) hosts\<rparr>"
    note av = avail_stored_start [OF Some]
    have "ip \<in> keys (Records (sStore s))" using Some by (simp add: fmdom'I)
    then obtain z where "stored_at (sStore ?s) z ip"
      using store_wf_key_iff [OF Cons.prems(2)] by auto
    then obtain s1 where s1: "sweep_hosts cl G ip (map_get (Netviews (sStore s)) ip)
        (map_get (Cidrs (sStore s)) ip) (ord (HostsRange ip) (finsert '''' (fmdom hosts))) ?s = Some s1"
      using sweep_hosts_returns [OF Cons.prems(1) av] by blast
    have "store_wf (sStore s1)" using sweep_hosts_effect(6) [OF s1 av] Cons.prems(2) by simp
    then obtain s' where "sweep_ips cl ord G ips s1 = Some s'" using Cons.IH [OF Cons.prems(1)] by blast
    with s1 Some show ?thesis by simp
  qed
qed simp

lemma sweep_store_returns:
  assumes "never_panics cl" and "store_wf st"
  shows "\<exists>st' w'. sweep_store cl ord G st w = Some (st', w')"
proof -
  let ?s = "\<lparr>sStore = st, sWorld = w, availHosts = [], toRemove = []\<rparr>"
  obtain s where "sweep_ips cl ord G (ord RecordsRange (fmdom (Records st))) ?s = Some s"
    using sweep_ips_returns [OF assms(1), of ?s] assms(2) by auto
  then show ?thesis by (simp add: sweep_store_def)
qed

end

end
