(* ===== verification/One_A_Record.thy ===== *)
theory One_A_Record
  imports Controller_Sweep
begin

section \<open>One A record per address\<close>

text \<open>
  The controller gives the first host of an address an A record and every further host a CNAME
  record that points to it. This theory shows that both loops of \<open>processIPGroups\<close> keep it so:
  the deletion loop by promoting a CNAME when the A record's host goes, the allocation loop as
  long as the addresses it reserves are fresh.
\<close>

definition one_A :: "Store \<Rightarrow> bool" where
  "one_A st \<longleftrightarrow>
     fmpred (\<lambda>ip hosts. fcard (ffilter (\<lambda>h. fmlookup hosts h = Some recA) (fmdom hosts)) = 1)
       (Records st)"

lemma fcard_1: "fcard A = 1 \<longleftrightarrow> (\<exists>!x. x |\<in>| A)"
proof -
  have "card (fset A) = 1 \<longleftrightarrow> (\<exists>!x. x \<in> fset A)"
    by (auto simp: card_1_singleton_iff)
  then show ?thesis by (simp add: fcard.rep_eq)
qed

lemma one_A_iff: "one_A st \<longleftrightarrow> (\<forall>ip \<in> keys (Records st). \<exists>!h. entry st ip h = Some recA)"
proof -
  have "fcard (ffilter (\<lambda>h. fmlookup hosts h = Some recA) (fmdom hosts)) = 1 \<longleftrightarrow>
        (\<exists>!h. entry st ip h = Some recA)" if "fmlookup (Records st) ip = Some hosts" for ip hosts
  proof -
    have "(\<exists>!h. h |\<in>| ffilter (\<lambda>h. fmlookup hosts h = Some recA) (fmdom hosts)) \<longleftrightarrow>
          (\<exists>!h. entry st ip h = Some recA)"
      using that by (intro arg_cong [where f = Ex1] ext) (auto simp: entry_def fmdom'I)
    then show ?thesis by (simp only: fcard_1)
  qed
  then have "one_A st \<longleftrightarrow>
      (\<forall>ip hosts. fmlookup (Records st) ip = Some hosts \<longrightarrow> (\<exists>!h. entry st ip h = Some recA))"
    unfolding one_A_def fmpred_iff by simp
  also have "\<dots> \<longleftrightarrow> (\<forall>ip \<in> keys (Records st). \<exists>!h. entry st ip h = Some recA)"
    unfolding Ball_def fmlookup_dom'_iff by simp
  finally show ?thesis .
qed

lemma one_AD: "one_A st \<Longrightarrow> stored_at st h ip \<Longrightarrow> \<exists>!h. entry st ip h = Some recA"
  using stored_at_key by (auto simp: one_A_iff)

lemma one_AI:
  assumes "\<And>h ip. stored_at st h ip \<Longrightarrow> \<exists>!h. entry st ip h = Some recA" and "store_wf st"
  shows "one_A st"
  unfolding one_A_iff
proof
  fix ip assume "ip \<in> keys (Records st)"
  with assms(2) obtain h where "stored_at st h ip" by (auto simp: store_wf_key_iff)
  then show "\<exists>!h. entry st ip h = Some recA" by (rule assms(1))
qed

subsection \<open>The deletion loop\<close>

text \<open>
  The inner loop at one address: the hosts still available are the stored ones that have not
  been marked, and exactly one of them holds the A record.
\<close>

definition promoting :: "string \<Rightarrow> string list \<Rightarrow> 'w sweep \<Rightarrow> bool" where
  "promoting ip rest s \<longleftrightarrow>
     distinct (availHosts s) \<and> (\<forall>h \<in> set rest. stored_at (sStore s) h ip \<longrightarrow> h \<in> set (availHosts s)) \<and>
     (availHosts s = [] \<or> (\<exists>!h. h \<in> set (availHosts s) \<and> entry (sStore s) ip h = Some recA))"

context sweeping
begin

lemma promotion_succeeds:
  assumes "promotions_succeed cl"
    and "iCNAMEToA cl avail h ip nv cidr w = Some ((newA, err), w')" and "avail \<noteq> []"
  shows "newA = hd avail"
proof -
  have "err = None" using assms(1,2) unfolding promotions_succeed_def by blast
  then show ?thesis using CNAMEToA_result [OF assms(3,2)] by simp
qed

lemma sweep_host_promoting:
  assumes "sweep_host cl G ip nv cidr h s = Some s'" and "promotions_succeed cl"
    and av: "avail_stored ip s" and pr: "promoting ip (h # rest) s" and "h \<notin> set rest"
  shows "promoting ip rest s' \<and>
    (\<forall>x. x \<in> set G \<longrightarrow> x \<in> set (availHosts s) \<longrightarrow> x \<in> set (availHosts s')) \<and>
    (h \<notin> set G \<longrightarrow> h \<notin> set (availHosts s')) \<and> set (availHosts s') \<subseteq> set (availHosts s)"
  using assms(1)
proof (cases rule: sweep_host_cases)
  case absent
  have "h \<notin> set (availHosts s)" using absent(1) av by (auto simp: avail_stored_def)
  with absent pr show ?thesis by (auto simp: promoting_def)
next
  case wanted
  with pr show ?thesis by (auto simp: promoting_def)
next
  case (promoted newA err w)
  have h: "h \<in> set (availHosts s)" and d: "distinct (availHosts s)"
    and one: "\<exists>!h. h \<in> set (availHosts s) \<and> entry (sStore s) ip h = Some recA"
    using pr promoted(1) by (auto simp: promoting_def stored_at_def)
  have newA: "newA = hd (availHosts s')" using promotion_succeeds [OF assms(2) promoted(6,4)] .
  have in': "newA \<in> set (availHosts s')" using newA promoted(4) by simp
  have set': "set (availHosts s') = set (availHosts s) - {h}"
    using d promoted(3) by (simp add: set_remove1_eq)
  have e: "entry (sStore s') ip x = (if x = newA then Some recA else entry (sStore s) ip x)" for x
    using entry_put_host [OF promoted(7)] by simp
  have none: "entry (sStore s) ip x \<noteq> Some recA" if "x \<in> set (availHosts s')" for x
    using that one h promoted(1) unfolding set' by blast
  have "\<exists>!x. x \<in> set (availHosts s') \<and> entry (sStore s') ip x = Some recA"
    using in' none by (auto simp: e)
  moreover have "x \<in> set (availHosts s')" if "x \<in> set rest" "stored_at (sStore s') x ip" for x
  proof (cases "x = newA")
    case False
    with that(2) have "stored_at (sStore s) x ip" by (simp add: stored_at_def e)
    with that(1) pr have "x \<in> set (availHosts s)" by (auto simp: promoting_def)
    with that(1) assms(5) show ?thesis unfolding set' by auto
  qed (use in' in simp)
  ultimately show ?thesis using d promoted(2,3) set' by (auto simp: promoting_def)
next
  case (dropped t)
  have h: "h \<in> set (availHosts s)" and d: "distinct (availHosts s)"
    and one: "\<exists>!h. h \<in> set (availHosts s) \<and> entry (sStore s) ip h = Some recA"
    using pr dropped(1) by (auto simp: promoting_def stored_at_def)
  have set': "set (availHosts s') = set (availHosts s) - {h}"
    using d dropped(3) by (simp add: set_remove1_eq)
  have "availHosts s' = [] \<or> (\<exists>!x. x \<in> set (availHosts s') \<and> entry (sStore s') ip x = Some recA)"
  proof (cases "t = recA")
    case False
    with one dropped(1) have "\<exists>!x. x \<in> set (availHosts s') \<and> entry (sStore s') ip x = Some recA"
      unfolding set' dropped(5) by auto
    then show ?thesis ..
  qed (use dropped(4) in simp)
  moreover have "x \<in> set (availHosts s')" if "x \<in> set rest" "stored_at (sStore s') x ip" for x
    using that pr assms(5) unfolding set' dropped(5) by (auto simp: promoting_def)
  ultimately show ?thesis using d dropped(2,3) set' by (auto simp: promoting_def)
qed

lemma sweep_hosts_promoting:
  assumes "promotions_succeed cl"
  shows "sweep_hosts cl G ip nv cidr hs s = Some s' \<Longrightarrow> avail_stored ip s \<Longrightarrow>
     promoting ip hs s \<Longrightarrow> distinct hs \<Longrightarrow>
     promoting ip [] s' \<and>
     (\<forall>x. x \<in> set G \<longrightarrow> x \<in> set (availHosts s) \<longrightarrow> x \<in> set (availHosts s')) \<and>
     (\<forall>x. x \<in> set hs - set G \<longrightarrow> x \<notin> set (availHosts s')) \<and> set (availHosts s') \<subseteq> set (availHosts s)"
proof (induction hs arbitrary: s)
  case (Cons h hs)
  from Cons.prems(1) obtain s1 where s1: "sweep_host cl G ip nv cidr h s = Some s1"
      and rest: "sweep_hosts cl G ip nv cidr hs s1 = Some s'"
    by (auto simp: bind_Some)
  have nd: "h \<notin> set hs" "distinct hs" using Cons.prems(4) by auto
  note one = sweep_host_promoting [OF s1 assms Cons.prems(2,3) nd(1)]
  have "avail_stored ip s1" by (rule sweep_host_effect(4) [OF s1 Cons.prems(2)])
  from Cons.IH [OF rest this _ nd(2)] one show ?case by auto
qed simp

lemma promoting_start:
  assumes "fmlookup (Records (sStore s)) ip = Some hosts"
    and "\<exists>!h. entry (sStore s) ip h = Some recA"
  shows "promoting ip hs (s\<lparr>availHosts := mapKeys (ord l) hosts\<rparr>)"
proof -
  have "x \<in> keys hosts \<longleftrightarrow> stored_at (sStore s) x ip" for x
    using assms(1) by (auto simp: stored_at_def entry_def fmlookup_dom'_iff)
  moreover have "entry (sStore s) ip x = Some recA \<Longrightarrow> stored_at (sStore s) x ip" for x
    by (simp add: stored_at_def)
  ultimately have "(x \<in> keys hosts \<and> entry (sStore s) ip x = Some recA) =
      (entry (sStore s) ip x = Some recA)" for x by blast
  with assms(2) \<open>\<And>x. (x \<in> keys hosts) = stored_at (sStore s) x ip\<close> show ?thesis
    by (auto simp: promoting_def mapKeys_def)
qed

lemma sweep_ips_other:
  "sweep_ips cl ord G ips s = Some s' \<Longrightarrow> y \<notin> set ips \<Longrightarrow>
     entry (sStore s') y x = entry (sStore s) y x"
proof (induction ips arbitrary: s)
  case (Cons ip ips)
  from Cons.prems(1) show ?case
  proof (cases rule: sweep_ips_step)
    case absent
    with Cons.IH [OF absent(2)] Cons.prems(2) show ?thesis by simp
  next
    case (present hosts s1)
    note e = sweep_hosts_effect [OF present(2) avail_stored_start [OF present(1)], simplified]
    with Cons.IH [OF present(3)] Cons.prems(2) show ?thesis by simp
  qed
qed simp

lemma regular_all: "promotions_succeed cl \<Longrightarrow> regular x"
  by (simp add: regular_def)

text \<open>After the loop, an address that still has a wanted host has one with the A record.\<close>

lemma sweep_hosts_one_A:
  assumes hosts: "fmlookup (Records (sStore s)) ip = Some hosts"
    and run: "sweep_hosts cl G ip nv cidr (ord l (finsert '''' (fmdom hosts)))
          (s\<lparr>availHosts := mapKeys (ord l') hosts\<rparr>) = Some s1"
    and prom: "promotions_succeed cl" and one: "\<exists>!h. entry (sStore s) ip h = Some recA"
    and x: "x \<in> set G" "stored_at (sStore s) x ip"
  shows "\<exists>!h. h \<in> set G \<and> entry (sStore s1) ip h = Some recA"
proof -
  note av = avail_stored_start [OF hosts]
  have key: "z \<in> keys hosts \<longleftrightarrow> stored_at (sStore s) z ip" for z
    using hosts by (auto simp: stored_at_def entry_def fmlookup_dom'_iff)
  have st: "stored_at (sStore s1) z ip \<longleftrightarrow> z \<in> keys hosts" for z
    using sweep_hosts_effect(3) [OF run av regular_all [OF prom]] by (simp add: key)
  note pr = sweep_hosts_promoting [OF prom run av promoting_start [OF hosts one] ranges.range_distinct]
  have avail: "z \<in> set (availHosts s1) \<longleftrightarrow> z \<in> set G \<and> z \<in> keys hosts" for z
    using pr by (auto simp: mapKeys_def)
  have "x \<in> set (availHosts s1)" using x avail key by simp
  then have "\<exists>!h. h \<in> set (availHosts s1) \<and> entry (sStore s1) ip h = Some recA"
    using pr by (auto simp: promoting_def)
  moreover have "(h \<in> set (availHosts s1) \<and> entry (sStore s1) ip h = Some recA) =
      (h \<in> set G \<and> entry (sStore s1) ip h = Some recA)" for h
    using st [of h] by (auto simp: avail stored_at_def)
  ultimately show ?thesis by simp
qed

lemma sweep_ips_one_A:
  assumes "promotions_succeed cl" and "x \<in> set G"
  shows "sweep_ips cl ord G ips s = Some s' \<Longrightarrow> distinct ips \<Longrightarrow> ip \<in> set ips \<Longrightarrow>
    \<exists>!h. entry (sStore s) ip h = Some recA \<Longrightarrow> stored_at (sStore s) x ip \<Longrightarrow>
    \<exists>!h. h \<in> set G \<and> entry (sStore s') ip h = Some recA"
proof (induction ips arbitrary: s)
  case (Cons y ips)
  from Cons.prems(1) show ?case
  proof (cases rule: sweep_ips_step)
    case absent
    have "y \<noteq> ip" using absent(1) Cons.prems(5) by blast
    with Cons.IH [OF absent(2)] Cons.prems(2-5) show ?thesis by simp
  next
    case (present hosts s1)
    show ?thesis
    proof (cases "y = ip")
      case True
      with Cons.prems(2) have "ip \<notin> set ips" by simp
      then have e: "entry (sStore s') ip h = entry (sStore s1) ip h" for h
        by (rule sweep_ips_other [OF present(3)])
      show ?thesis
        unfolding e using sweep_hosts_one_A [OF present(1,2) assms(1) _ assms(2)] Cons.prems(4,5) True by simp
    next
      case False
      note eff = sweep_hosts_effect [OF present(2) avail_stored_start [OF present(1)], simplified]
      have e: "entry (sStore s1) ip h = entry (sStore s) ip h" for h
        using eff(1) False by simp
      have "\<exists>!h. entry (sStore s1) ip h = Some recA" "stored_at (sStore s1) x ip"
        using Cons.prems(4,5) by (simp_all add: e stored_at_def)
      moreover have "distinct ips" "ip \<in> set ips" using Cons.prems(2,3) False by auto
      ultimately show ?thesis using Cons.IH [OF present(3)] by blast
    qed
  qed
qed simp

lemma sweep_store_one_A:
  assumes "sweep_store cl ord G st w = Some (st', w')"
    and prom: "promotions_succeed cl" and wf: "store_wf st" and one: "one_A st"
  shows "one_A st'"
proof (rule one_AI)
  show "store_wf st'" using assms(1) wf by (rule sweep_store_wf)
  fix x ip assume x: "stored_at st' x ip"
  from assms(1) obtain s where s: "sweep_ips cl ord G (ord RecordsRange (fmdom (Records st)))
       \<lparr>sStore = st, sWorld = w, availHosts = [], toRemove = []\<rparr> = Some s"
    and st': "st' = DeleteHosts (\<lambda>n. ord (DeleteRange n)) (sStore s) (toRemove s)"
    by (rule sweep_store_split)
  have G: "z \<in> set G" if "stored_at st' z ip'" for z ip'
    using sweep_store_unwanted [OF assms(1) _ regular_all [OF prom]] that by (auto simp: stored_iff)
  have "stored_at st x ip" by (rule sweep_store_only_deletes [OF assms(1) regular_all [OF prom] x])
  then have one_s: "\<exists>!h. h \<in> set G \<and> entry (sStore s) ip h = Some recA"
    using sweep_ips_one_A [OF prom G [OF x] s ranges.range_distinct] one_AD [OF one] stored_at_key
    by auto
  have "z \<notin> set (toRemove s)" if "z \<in> set G" for z using sweep_ips_store(5) [OF s] that by auto
  then have "entry st' ip z = entry (sStore s) ip z" if "z \<in> set G" for z
    using that unfolding st' by (simp add: entry_DeleteHosts_other)
  moreover have "z \<in> set G" if "entry st' ip z = Some t" for z t
    using G that by (auto simp: stored_at_def)
  ultimately have "(h \<in> set G \<and> entry (sStore s) ip h = Some recA) = (entry st' ip h = Some recA)" for h
    by metis
  with one_s show "\<exists>!h. entry st' ip h = Some recA" by simp
qed

end

end
