(* ===== verification/Fresh_Addresses.thy ===== *)
theory Fresh_Addresses
  imports One_A_Record
begin

section \<open>Allocation from fresh addresses\<close>

text \<open>
  \<open>fresh_pool cl used\<close> says that the IPAM system hands out an address only once: \<open>used w\<close> are
  the addresses in use, a reservation takes one that is not among them, and only a release or
  the deletion of an A record gives it back. Nothing is asked of a release of the empty address.
  Under this hypothesis the allocation loop keeps one A record per address: a host gets the A record
  exactly when its address has no host yet.
\<close>

definition fresh_pool :: "'w Client \<Rightarrow> ('w \<Rightarrow> string set) \<Rightarrow> bool" where
  "fresh_pool cl used \<longleftrightarrow>
     (\<forall>nv cidr w addr w'. iGetNextAddr cl nv cidr w = Some (addr, w') \<longrightarrow>
        addr \<noteq> '''' \<and> addr \<notin> used w \<and> insert addr (used w) \<subseteq> used w') \<and>
     (\<forall>nv cidr ip w w'. iReleaseAddr cl nv cidr ip w = Some w' \<longrightarrow> ip \<noteq> '''' \<longrightarrow> used w - {ip} \<subseteq> used w') \<and>
     (\<forall>h ip nv w ok w'. iCreateARecord cl h ip nv w = Some (ok, w') \<longrightarrow> used w \<subseteq> used w') \<and>
     (\<forall>h a nv w w'. iCreateCNAMERecord cl h a nv w = Some w' \<longrightarrow> used w \<subseteq> used w') \<and>
     (\<forall>h ip nv cidr w w'. iDeleteARecord cl h ip nv cidr w = Some w' \<longrightarrow> ip \<noteq> '''' \<longrightarrow> used w - {ip} \<subseteq> used w') \<and>
     (\<forall>h ip nv cidr w w'. iDeleteCNAMERecord cl h ip nv cidr w = Some w' \<longrightarrow> used w \<subseteq> used w') \<and>
     (\<forall>avail h ip nv cidr w newA w'.
        iCNAMEToA cl avail h ip nv cidr w = Some ((newA, None), w') \<longrightarrow> used w \<subseteq> used w')"

lemma fresh_poolD:
  assumes "fresh_pool cl used"
  shows "iGetNextAddr cl nv cidr w = Some (addr, w') \<Longrightarrow>
      addr \<noteq> '''' \<and> addr \<notin> used w \<and> insert addr (used w) \<subseteq> used w'"
    and "iReleaseAddr cl nv cidr ip w = Some w' \<Longrightarrow> ip \<noteq> '''' \<Longrightarrow> used w - {ip} \<subseteq> used w'"
    and "iCreateARecord cl h ip nv w = Some (ok, w') \<Longrightarrow> used w \<subseteq> used w'"
    and "iCreateCNAMERecord cl h a nv w = Some w' \<Longrightarrow> used w \<subseteq> used w'"
    and "iDeleteARecord cl h ip nv cidr w = Some w' \<Longrightarrow> ip \<noteq> '''' \<Longrightarrow> used w - {ip} \<subseteq> used w'"
    and "iDeleteCNAMERecord cl h ip nv cidr w = Some w' \<Longrightarrow> used w \<subseteq> used w'"
    and "iCNAMEToA cl avail h ip nv cidr w = Some ((newA, None), w') \<Longrightarrow> used w \<subseteq> used w'"
  using assms unfolding fresh_pool_def by metis+

subsection \<open>The states of an allocation\<close>

text \<open>Between groups; with an address reserved; before the first host; and after it.\<close>

definition pool_ok :: "('w \<Rightarrow> string set) \<Rightarrow> 'w alloc \<Rightarrow> bool" where
  "pool_ok used s \<longleftrightarrow>
     store_sound (lStore s) \<and> one_A (lStore s) \<and> keys (Records (lStore s)) \<subseteq> used (lWorld s)"

definition open_ok :: "('w \<Rightarrow> string set) \<Rightarrow> 'w alloc \<Rightarrow> bool" where
  "open_ok used s \<longleftrightarrow> pool_ok used s \<and> lNextAddr s \<in> used (lWorld s) \<and> lNextAddr s \<noteq> '''' \<and>
     (lAddrUsed s \<or> lNextAddr s \<notin> keys (Records (lStore s)))"

definition untouched :: "('w \<Rightarrow> string set) \<Rightarrow> 'w alloc \<Rightarrow> bool" where
  "untouched used s \<longleftrightarrow> open_ok used s \<and> lCurAddr s = lNextAddr s \<and>
     lNextAddr s \<notin> keys (Records (lStore s)) \<and> (lUniqueIP s \<or> lFirstHost s = '''')"

definition settled :: "('w \<Rightarrow> string set) \<Rightarrow> 'w alloc \<Rightarrow> bool" where
  "settled used s \<longleftrightarrow> open_ok used s \<and> lCurAddr s \<in> keys (Records (lStore s)) \<and>
     stored (lStore s) (lFirstHost s) \<and> (lUniqueIP s \<or> lFirstHost s \<noteq> '''')"

lemma alloc_host_first:
  "alloc_host cl ord i h s = Some s' \<Longrightarrow>
     lFirstHost s' = (if i = 0 \<and> (lUniqueIP s \<or> lFirstHost s = '''') then h else lFirstHost s)"
  by (auto simp: alloc_host_def Let_def bind_Some split: if_splits)

lemma keys_AddRecord:
  "keys (Records (AddRecord st ip h t nv cidr)) = insert ip (keys (Records st))"
  by (auto simp: AddRecord_def overwriteRecord_def fmdom'I split: option.splits)

lemma one_A_AddRecord_new:
  assumes "one_A st" and "ip \<notin> keys (Records st)"
  shows "one_A (AddRecord st ip h recA nv cidr)"
proof -
  have "entry st ip x = None" for x
    using assms(2) stored_at_key [of st x ip] unfolding stored_at_def by blast
  with assms show ?thesis by (auto simp: one_A_iff keys_AddRecord entry_AddRecord)
qed

lemma one_A_AddRecord_alias:
  assumes "one_A st" and "ip \<in> keys (Records st)"
  shows "one_A (AddRecord st ip h recCNAME nv cidr)"
proof -
  have "entry (AddRecord st ip h recCNAME nv cidr) ip' x = Some recA \<longleftrightarrow> entry st ip' x = Some recA"
    for ip' x by (auto simp: entry_AddRecord recA_def recCNAME_def)
  with assms show ?thesis by (simp add: one_A_iff keys_AddRecord insert_absorb)
qed

lemma store_sound_known:
  assumes "store_sound st" and "fair_range ord" and "stored st h"
  shows "GetIP st h (ord x (fmdom (Records st))) \<in> keys (Records st)"
  using assms store_sound_GetIP [OF assms(1,2)] stored_at_key by blast

text \<open>The first host either is known already or takes the reserved address with an A record.\<close>

lemma alloc_host_untouched:
  assumes run: "alloc_host cl ord 0 h s = Some s'" and pool: "fresh_pool cl used"
    and grants: "grants_records cl" and fair: "fair_range ord"
    and s: "untouched used s" and h: "h \<noteq> ''''"
  shows "settled used s'"
proof -
  have sound: "store_sound (lStore s)" and one: "one_A (lStore s)"
    and sub: "keys (Records (lStore s)) \<subseteq> used (lWorld s)"
    and next': "lNextAddr s \<in> used (lWorld s)" "lNextAddr s \<noteq> ''''"
      "lNextAddr s \<notin> keys (Records (lStore s))" "lCurAddr s = lNextAddr s"
    using s by (auto simp: untouched_def open_ok_def pool_ok_def)
  have first: "lFirstHost s' = h" using alloc_host_first [OF run] s by (auto simp: untouched_def)
  note get = store_sound_GetIP [OF sound fair] and frame = alloc_host_frame [OF run]
  from run show ?thesis
  proof (cases rule: alloc_host_cases)
    case known
    have st: "stored (lStore s) h" using known(1) get(1) by blast
    have "lCurAddr s' \<in> keys (Records (lStore s))"
      unfolding known(5) by (rule store_sound_known [OF sound fair st])
    with st known(2-4) frame next' sound one sub first h show ?thesis
      by (simp add: settled_def open_ok_def pool_ok_def)
  next
    case (granted w)
    have "\<not> stored (lStore s) h" using granted(1) get(1) by blast
    then have "store_sound (lStore s')" unfolding granted(7)
      using store_sound_Add [OF sound] next' by simp
    moreover have "one_A (lStore s')" unfolding granted(7) next'(4)
      by (rule one_A_AddRecord_new [OF one next'(3)])
    moreover have "used (lWorld s) \<subseteq> used w" by (rule fresh_poolD(3) [OF pool granted(5)])
    ultimately show ?thesis using granted(3,4,6,7) next' sub frame first h
      by (auto simp: settled_def open_ok_def pool_ok_def keys_AddRecord stored_AddRecord)
  next
    case (refused w)
    with grants show ?thesis unfolding grants_records_def by blast
  next
    case (cname w)
    with first show ?thesis by simp
  qed
qed

text \<open>Every later host is known already or joins an address that has its A record.\<close>

lemma alloc_host_settled:
  assumes run: "alloc_host cl ord i h s = Some s'" and pool: "fresh_pool cl used"
    and fair: "fair_range ord" and s: "settled used s" and i: "i \<noteq> 0 \<or> \<not> lUniqueIP s"
  shows "settled used s'"
proof -
  have sound: "store_sound (lStore s)" and one: "one_A (lStore s)"
    and sub: "keys (Records (lStore s)) \<subseteq> used (lWorld s)"
    and cur: "lCurAddr s \<in> keys (Records (lStore s))" and st: "stored (lStore s) (lFirstHost s)"
    using s by (auto simp: settled_def open_ok_def pool_ok_def)
  have first: "lFirstHost s' = lFirstHost s"
    using alloc_host_first [OF run] s i by (auto simp: settled_def)
  note get = store_sound_GetIP [OF sound fair] and frame = alloc_host_frame [OF run]
    and uniq = alloc_host_unique [OF run]
  from run show ?thesis
  proof (cases rule: alloc_host_cases)
    case known
    have "stored (lStore s) h" using known(1) get(1) by blast
    then have "lCurAddr s' \<in> keys (Records (lStore s))"
      unfolding known(5) by (rule store_sound_known [OF sound fair])
    with known(2-4) frame first uniq s show ?thesis
      by (auto simp: settled_def open_ok_def pool_ok_def)
  next
    case (granted w)
    with get(1) st first show ?thesis by simp
  next
    case (refused w)
    with get(1) st first show ?thesis by simp
  next
    case (cname w)
    have "\<not> stored (lStore s) h" using cname(1) get(1) by blast
    moreover have "lCurAddr s \<noteq> ''''" using cur sound by (auto simp: store_sound_def)
    ultimately have "store_sound (lStore s')" unfolding cname(7)
      using store_sound_Add [OF sound] by simp
    moreover have "one_A (lStore s')" unfolding cname(7) by (rule one_A_AddRecord_alias [OF one cur])
    moreover have "used (lWorld s) \<subseteq> used w" by (rule fresh_poolD(4) [OF pool cname(5)])
    moreover have "keys (Records (lStore s')) = keys (Records (lStore s))"
      unfolding cname(7) keys_AddRecord using cur by (rule insert_absorb)
    moreover have "stored (lStore s') (lFirstHost s')"
      unfolding cname(7) first using st by (simp add: stored_AddRecord)
    ultimately show ?thesis using cname(3,4,6) sub frame first uniq s cur
      by (auto simp: settled_def open_ok_def pool_ok_def)
  qed
qed

lemma alloc_hosts_settled:
  assumes pool: "fresh_pool cl used" and fair: "fair_range ord"
  shows "alloc_hosts cl ord i hs s = Some s' \<Longrightarrow> settled used s \<Longrightarrow> i \<noteq> 0 \<or> \<not> lUniqueIP s \<Longrightarrow>
     settled used s'"
proof (induction hs arbitrary: i s)
  case (Cons h hs)
  from Cons.prems(1) obtain s1 where s1: "alloc_host cl ord i h s = Some s1"
      and rest: "alloc_hosts cl ord (Suc i) hs s1 = Some s'"
    by (auto simp: bind_Some)
  have "settled used s1" by (rule alloc_host_settled [OF s1 pool fair Cons.prems(2,3)])
  with rest show ?case by (rule Cons.IH) simp
qed simp

definition resting :: "('w \<Rightarrow> string set) \<Rightarrow> 'w alloc \<Rightarrow> bool" where
  "resting used s \<longleftrightarrow> untouched used s \<or> settled used s"

lemma alloc_hosts_resting:
  assumes "alloc_hosts cl ord 0 hs s = Some s'" and "fresh_pool cl used"
    and "grants_records cl" and "fair_range ord" and "'''' \<notin> set hs"
    and "untouched used s \<or> (\<not> lUniqueIP s \<and> settled used s)"
  shows "resting used s'"
proof (cases hs)
  case Nil
  with assms(1,6) show ?thesis by (auto simp: resting_def)
next
  case (Cons h hs')
  with assms(1) obtain s1 where s1: "alloc_host cl ord 0 h s = Some s1"
      and rest: "alloc_hosts cl ord (Suc 0) hs' s1 = Some s'"
    by (auto simp: bind_Some)
  have "settled used s1"
    using alloc_host_untouched [OF s1 assms(2-4)] alloc_host_settled [OF s1 assms(2,4)] assms(5,6) Cons
    by auto
  then show ?thesis using alloc_hosts_settled [OF assms(2,4) rest] by (simp add: resting_def)
qed

lemma resting_open: "resting used s \<Longrightarrow> open_ok used s"
  by (auto simp: resting_def untouched_def settled_def)

lemma reserve_untouched:
  assumes "reserve cl nv cidr s = Some s'" and "fresh_pool cl used" and "pool_ok used s"
    and "lUniqueIP s \<or> lFirstHost s = ''''"
  shows "untouched used s'"
proof -
  note f = reserve_fields [OF assms(1)]
  have "lNextAddr s' \<noteq> ''''" "lNextAddr s' \<notin> used (lWorld s)"
      and u: "insert (lNextAddr s') (used (lWorld s)) \<subseteq> used (lWorld s')"
    using fresh_poolD(1) [OF assms(2) f(7)] by blast+
  moreover have "lUniqueIP s' \<or> lFirstHost s' = ''''"
    using assms(1,4) by (auto simp: reserve_def bind_Some)
  ultimately show ?thesis
    using assms(3) f(1,2,5) by (auto simp: untouched_def open_ok_def pool_ok_def)
qed

lemma release_pool_ok:
  assumes "release_unused cl s = Some s'" and "fresh_pool cl used" and "open_ok used s"
  shows "pool_ok used s'"
proof (cases "lAddrUsed s")
  case True
  with assms(1,3) show ?thesis by (auto simp: release_unused_def open_ok_def)
next
  case False
  with assms(1) obtain w where w: "iReleaseAddr cl (lNetview s) (lCidr s) (lNextAddr s) (lWorld s) = Some w"
      and s': "s' = s\<lparr>lWorld := w\<rparr>"
    by (auto simp: release_unused_def bind_Some)
  have "used (lWorld s) - {lNextAddr s} \<subseteq> used w"
    by (rule fresh_poolD(2) [OF assms(2) w]) (use assms(3) in \<open>simp add: open_ok_def\<close>)
  with False assms(3) show ?thesis by (auto simp: s' open_ok_def pool_ok_def)
qed

lemma alloc_specs_resting:
  assumes "fresh_pool cl used" and "grants_records cl" and "fair_range ord"
  shows "alloc_specs cl ord specs s = Some s' \<Longrightarrow> \<not> lUniqueIP s \<Longrightarrow> resting used s \<Longrightarrow>
     '''' \<notin> spec_hosts specs \<Longrightarrow> resting used s'"
proof (induction specs arbitrary: s)
  case (Cons spec specs)
  from Cons.prems(1) obtain s1 where s1: "alloc_spec cl ord spec s = Some s1"
      and rest: "alloc_specs cl ord specs s1 = Some s'"
    by (auto simp: bind_Some)
  from s1 Cons.prems(2) have hosts: "alloc_hosts cl ord 0 (Hosts spec) s = Some s1"
    by (auto simp: alloc_spec_def bind_Some dest: alloc_hosts_unique split: if_splits)
  have "resting used s1"
    by (rule alloc_hosts_resting [OF hosts assms]) (use Cons.prems(2-4) in \<open>auto simp: resting_def\<close>)
  moreover have "\<not> lUniqueIP s1" using alloc_spec_unique [OF s1] Cons.prems(2) by simp
  ultimately show ?case using Cons.IH [OF rest] Cons.prems(4) by simp
qed simp

lemma alloc_specs_pool_ok:
  assumes "fresh_pool cl used" and "grants_records cl" and "fair_range ord"
  shows "alloc_specs cl ord specs s = Some s' \<Longrightarrow> lUniqueIP s \<Longrightarrow> pool_ok used s \<Longrightarrow>
     '''' \<notin> spec_hosts specs \<Longrightarrow> pool_ok used s'"
proof (induction specs arbitrary: s)
  case (Cons spec specs)
  from Cons.prems(1) obtain s1 where s1: "alloc_spec cl ord spec s = Some s1"
      and rest: "alloc_specs cl ord specs s1 = Some s'"
    by (auto simp: bind_Some)
  from s1 Cons.prems(2) obtain r t where r: "reserve cl (Netview spec) (Cidr spec) s = Some r"
      and t: "alloc_hosts cl ord 0 (Hosts spec) r = Some t"
      and l: "(if lUniqueIP t then release_unused cl t else Some t) = Some s1"
    by (auto simp: alloc_spec_def bind_Some)
  have "lUniqueIP t" using alloc_hosts_unique [OF t] reserve_unique [OF r] Cons.prems(2) by simp
  with l have l': "release_unused cl t = Some s1" by simp
  have "untouched used r" by (rule reserve_untouched [OF r assms(1) Cons.prems(3)]) (use Cons.prems(2) in simp)
  then have "resting used t" using alloc_hosts_resting [OF t assms] Cons.prems(4) by simp
  then have "pool_ok used s1" by (rule release_pool_ok [OF l' assms(1) resting_open])
  moreover have "lUniqueIP s1" using alloc_spec_unique [OF s1] Cons.prems(2) by simp
  ultimately show ?case using Cons.IH [OF rest] Cons.prems(4) by simp
qed simp

lemma alloc_group_pool_ok:
  assumes "fresh_pool cl used" and "grants_records cl" and "fair_range ord"
    and run: "alloc_group cl ord gKey specs s = Some s'" and ok: "pool_ok used s"
    and ne: "'''' \<notin> spec_hosts specs"
  shows "pool_ok used s'"
proof -
  let ?s = "s\<lparr>lFirstHost := '''', lUniqueIP := (gkName gKey = '''')\<rparr>"
  from run obtain r t where
      r: "(if \<not> lUniqueIP ?s then reserve cl (gkNetview gKey) (gkCidr gKey) ?s else Some ?s) = Some r"
      and t: "alloc_specs cl ord specs r = Some t"
      and l: "(if \<not> lUniqueIP t then release_unused cl t else Some t) = Some s'"
    unfolding alloc_group_def Let_def bind_Some by blast
  have ok': "pool_ok used ?s" using ok by (simp add: pool_ok_def)
  have u: "lUniqueIP t = lUniqueIP r" by (rule alloc_specs_unique [OF t])
  show ?thesis
  proof (cases "gkName gKey = ''''")
    case True
    with r have "r = ?s" by simp
    with True t l u alloc_specs_pool_ok [OF assms(1-3), of specs r t] ok' ne show ?thesis by simp
  next
    case False
    with r have r': "reserve cl (gkNetview gKey) (gkCidr gKey) ?s = Some r" by simp
    with False have ur: "\<not> lUniqueIP r" using reserve_unique [OF r'] by simp
    have "untouched used r" by (rule reserve_untouched [OF r' assms(1) ok']) simp
    then have "resting used t"
      using alloc_specs_resting [OF assms(1-3) t ur] ne by (simp add: resting_def)
    moreover have "release_unused cl t = Some s'" using l u ur by simp
    ultimately show ?thesis using release_pool_ok [OF _ assms(1)] resting_open by blast
  qed
qed

lemma alloc_groups_pool_ok:
  assumes "fresh_pool cl used" and "grants_records cl" and "fair_range ord" and "'''' \<notin> all_hosts groups"
  shows "alloc_groups cl ord groups gKeys s = Some s' \<Longrightarrow> pool_ok used s \<Longrightarrow> pool_ok used s'"
proof (induction gKeys arbitrary: s)
  case (Cons gKey gKeys)
  show ?case
  proof (cases "fmlookup groups gKey")
    case None
    with Cons show ?thesis by simp
  next
    case (Some specs)
    with Cons.prems(1) obtain s1 where s1: "alloc_group cl ord gKey specs s = Some s1"
        and rest: "alloc_groups cl ord groups gKeys s1 = Some s'"
      by (auto simp: bind_Some)
    have "'''' \<notin> spec_hosts specs" using spec_hosts_all [OF Some] assms(4) by blast
    then have "pool_ok used s1" by (rule alloc_group_pool_ok [OF assms(1-3) s1 Cons.prems(2)])
    with rest show ?thesis by (rule Cons.IH)
  qed
qed simp


subsection \<open>The deletion loop gives back unused addresses only\<close>

context sweeping
begin

lemma sweep_host_used:
  assumes run: "sweep_host cl G ip nv cidr h s = Some s'"
    and pool: "fresh_pool cl used" and prom: "promotions_succeed cl" and ip: "ip \<noteq> ''''"
    and avail: "\<forall>x \<in> set G. stored_at (sStore s) x ip \<longrightarrow> x \<in> set (availHosts s)"
    and y: "y \<in> used (sWorld s)" "y = ip \<longrightarrow> (\<exists>x \<in> set G. stored_at (sStore s) x ip)"
  shows "y \<in> used (sWorld s')"
proof (cases "entry (sStore s) ip h")
  case None
  with run y(1) show ?thesis by (simp add: sweep_host_def)
next
  case (Some t)
  let ?a = "removeElement (availHosts s) h"
  show ?thesis
  proof (cases "h \<in> set G")
    case True
    with Some run y(1) show ?thesis by (simp add: sweep_host_def)
  next
    case False
    consider (promote) "t = recA" "?a \<noteq> []" | (delA) "t = recA" "?a = []"
      | (delC) "t = recCNAME" "t \<noteq> recA" | (other) "t \<noteq> recA" "t \<noteq> recCNAME" by blast
    then show ?thesis
    proof cases
      case promote
      with Some run False obtain newA err w where
          c: "iCNAMEToA cl ?a h ip nv cidr (sWorld s) = Some ((newA, err), w)" and w: "sWorld s' = w"
        by (auto simp: sweep_host_def Let_def bind_Some)
      have "err = None" using c prom unfolding promotions_succeed_def by blast
      with c have "used (sWorld s) \<subseteq> used w" using fresh_poolD(7) [OF pool] by blast
      with w y(1) show ?thesis by blast
    next
      case delA
      with Some run False obtain w where
          d: "iDeleteARecord cl h ip nv cidr (sWorld s) = Some w" and w: "sWorld s' = w"
        by (auto simp: sweep_host_def Let_def bind_Some)
      have "y \<noteq> ip"
      proof
        assume "y = ip"
        with y(2) avail obtain x where "x \<in> set G" "x \<in> set (availHosts s)" by blast
        moreover have "x \<noteq> h" using False \<open>x \<in> set G\<close> by blast
        ultimately have "x \<in> set ?a" by (simp add: removeElement_remove1)
        with delA(2) show False by simp
      qed
      with fresh_poolD(5) [OF pool d ip] w y(1) show ?thesis by blast
    next
      case delC
      with Some run False obtain w where
          d: "iDeleteCNAMERecord cl h ip nv cidr (sWorld s) = Some w" and w: "sWorld s' = w"
        by (auto simp: sweep_host_def Let_def bind_Some)
      with fresh_poolD(6) [OF pool d] y(1) show ?thesis by blast
    next
      case other
      with Some run False y(1) show ?thesis by (auto simp: sweep_host_def Let_def)
    qed
  qed
qed

lemma sweep_hosts_used:
  assumes pool: "fresh_pool cl used" and prom: "promotions_succeed cl" and ip: "ip \<noteq> ''''"
  shows "sweep_hosts cl G ip nv cidr hs s = Some s' \<Longrightarrow> avail_stored ip s \<Longrightarrow>
    promoting ip hs s \<Longrightarrow> distinct hs \<Longrightarrow>
    \<forall>x \<in> set G. stored_at (sStore s) x ip \<longrightarrow> x \<in> set (availHosts s) \<Longrightarrow>
    y \<in> used (sWorld s) \<Longrightarrow> y = ip \<longrightarrow> (\<exists>x \<in> set G. stored_at (sStore s) x ip) \<Longrightarrow>
    y \<in> used (sWorld s')"
proof (induction hs arbitrary: s)
  case (Cons h hs)
  from Cons.prems(1) obtain s1 where s1: "sweep_host cl G ip nv cidr h s = Some s1"
      and rest: "sweep_hosts cl G ip nv cidr hs s1 = Some s'"
    by (auto simp: bind_Some)
  have nd: "h \<notin> set hs" "distinct hs" using Cons.prems(4) by auto
  note eff = sweep_host_effect [OF s1 Cons.prems(2)]
  have st: "stored_at (sStore s1) x z = stored_at (sStore s) x z" for x z
    by (rule eff(3) [OF regular_all [OF prom]])
  have "y \<in> used (sWorld s1)"
    by (rule sweep_host_used [where used = used, OF s1 pool prom ip Cons.prems(5-7)])
  moreover note one = sweep_host_promoting [OF s1 prom Cons.prems(2,3) nd(1)]
  ultimately show ?case
    using Cons.IH [OF rest eff(4) _ nd(2)] Cons.prems(5,7) st by blast
qed simp

lemma sweep_ips_used:
  assumes pool: "fresh_pool cl used" and prom: "promotions_succeed cl"
  shows "sweep_ips cl ord G ips s = Some s' \<Longrightarrow> distinct ips \<and> '''' \<notin> set ips \<Longrightarrow>
    \<forall>ip \<in> set ips. fmlookup (Records (sStore s)) ip \<noteq> None \<longrightarrow> (\<exists>!h. entry (sStore s) ip h = Some recA) \<Longrightarrow>
    y \<in> used (sWorld s) \<Longrightarrow> x \<in> set G \<Longrightarrow> stored_at (sStore s) x y \<Longrightarrow> y \<in> used (sWorld s')"
proof (induction ips arbitrary: s)
  case (Cons ip ips)
  from Cons.prems(1) show ?case
  proof (cases rule: sweep_ips_step)
    case absent
    with Cons.IH [OF absent(2)] Cons.prems show ?thesis by simp
  next
    case (present hosts s1)
    note av = avail_stored_start [OF present(1)]
    note eff = sweep_hosts_effect [OF present(2) av, simplified]
    have st: "stored_at (sStore s1) a b = stored_at (sStore s) a b" for a b
      by (rule eff(3) [OF regular_all [OF prom]])
    have one: "\<exists>!h. entry (sStore s) ip h = Some recA" using Cons.prems(3) present(1) by simp
    have e: "entry (sStore s1) b a = entry (sStore s) b a" if "b \<in> set ips" for a b
      by (rule eff(1)) (use Cons.prems(2) that in auto)
    have dom: "fmdom (Records (sStore s1)) = fmdom (Records (sStore s))" using eff(5) by simp
    have "y = ip \<longrightarrow> (\<exists>x \<in> set G. stored_at (sStore s) x ip)" using Cons.prems(5,6) by blast
    then have "y \<in> used (sWorld s1)"
      using Cons.prems(4) present(1)
      by (intro sweep_hosts_used [OF pool prom _ present(2) av promoting_start [OF present(1) one]])
         (use Cons.prems(2) in \<open>auto simp: mapKeys_def stored_at_def entry_def fmdom'I\<close>)
    moreover have "fmlookup (Records (sStore s1)) b \<noteq> None \<longleftrightarrow> fmlookup (Records (sStore s)) b \<noteq> None" for b
      using dom by (metis fmdom_notD fmdom_notI)
    ultimately show ?thesis
      using Cons.IH [OF present(3)] Cons.prems(2,3,5,6) by (simp add: st e)
  qed
qed simp

lemma sweep_store_used:
  assumes "sweep_store cl ord G st w = Some (st', w')" and pool: "fresh_pool cl used"
    and prom: "promotions_succeed cl" and "one_A st" and "store_wf st"
    and "keys (Records st) \<subseteq> used w" and "'''' \<notin> keys (Records st)"
  shows "keys (Records st') \<subseteq> used w'"
proof
  fix y assume "y \<in> keys (Records st')"
  moreover have "store_wf st'" by (rule sweep_store_wf [OF assms(1,5)])
  ultimately obtain x where x: "stored_at st' x y" by (auto simp: store_wf_key_iff)
  from assms(1) obtain s where s: "sweep_ips cl ord G (ord RecordsRange (fmdom (Records st)))
       \<lparr>sStore = st, sWorld = w, availHosts = [], toRemove = []\<rparr> = Some s" and w': "w' = sWorld s"
    by (rule sweep_store_split)
  have "x \<in> set G"
    using sweep_store_unwanted [OF assms(1) _ regular_all [OF prom]] x by (auto simp: stored_iff)
  moreover have st: "stored_at st x y" by (rule sweep_store_only_deletes [OF assms(1) regular_all [OF prom] x])
  moreover have "y \<in> used w" using stored_at_key [OF st] assms(6) by blast
  ultimately show "y \<in> used w'"
    unfolding w' using assms(4,7)
    by (intro sweep_ips_used [OF pool prom s]) (auto simp: one_A_iff)
qed

lemma sweep_store_sound:
  assumes "sweep_store cl ord G st w = Some (st', w')" and "promotions_succeed cl"
    and "store_sound st" and "store_wf st"
  shows "store_sound st'"
proof -
  have sub: "stored_at st x ip" if "stored_at st' x ip" for x ip
    by (rule sweep_store_only_deletes [OF assms(1) regular_all [OF assms(2)] that])
  then have "hosts_unique st'" using assms(3) unfolding store_sound_def hosts_unique_iff by blast
  moreover have "'''' \<notin> keys (Records st')"
  proof
    assume "'''' \<in> keys (Records st')"
    then obtain x where "stored_at st' x ''''"
      using store_wf_key_iff [OF sweep_store_wf [OF assms(1,4)]] by blast
    then have "'''' \<in> keys (Records st)" by (intro stored_at_key sub)
    with assms(3) show False by (simp add: store_sound_def)
  qed
  ultimately show ?thesis by (simp add: store_sound_def)
qed

end

end
