(* ===== verification/Strict_Client.thy ===== *)
theory Strict_Client
  imports Controller
begin

section \<open>Runs without refusals\<close>

text \<open>
  \<open>strict cl\<close> is the client \<open>cl\<close> that gives up (None) where \<open>cl\<close> refuses an A record or fails a
  promotion. A pass that returns with the strict client is therefore a pass in which neither
  happened, and the loops are monotone in the client: it is the run of \<open>cl\<close> itself. Theorems
  about well-behaved runs are stated of \<open>strict cl\<close> and so apply to a client that can refuse.
\<close>

definition strict :: "'w Client \<Rightarrow> 'w Client" where
  "strict cl = cl
     \<lparr>iCreateARecord := (\<lambda>h ip nv w.
        case iCreateARecord cl h ip nv w of Some (True, w') \<Rightarrow> Some (True, w') | _ \<Rightarrow> None),
      iCNAMEToA := (\<lambda>hs d ip nv c w.
        case iCNAMEToA cl hs d ip nv c w of Some ((newA, None), w') \<Rightarrow> Some ((newA, None), w') | _ \<Rightarrow> None)\<rparr>"

lemma strict_grants: "grants_records (strict cl)"
  by (auto simp: grants_records_def strict_def split: option.splits bool.splits prod.splits)

lemma strict_promotes: "promotions_succeed (strict cl)"
  by (auto simp: promotions_succeed_def strict_def split: option.splits prod.splits)

lemma strict_CNAMEToA:
  "iCNAMEToA (strict cl) hs d ip nv c w = Some r \<Longrightarrow>
     iCNAMEToA cl hs d ip nv c w = Some r \<and> snd (fst r) = None"
  by (auto simp: strict_def split: option.splits prod.splits)

lemma strict_CreateARecord:
  "iCreateARecord (strict cl) h ip nv w = Some r \<Longrightarrow>
     iCreateARecord cl h ip nv w = Some r \<and> fst r"
  by (auto simp: strict_def split: option.splits prod.splits bool.splits)

lemma strict_contract:
  assumes "client_contract cl"
  shows "client_contract (strict cl)"
proof -
  have "iGetRecords (strict cl) = iGetRecords cl" by (simp add: strict_def)
  then show ?thesis
    using assms strict_CNAMEToA [of cl] unfolding client_contract_def by metis
qed

subsection \<open>The order on clients\<close>

definition client_le :: "'w Client \<Rightarrow> 'w Client \<Rightarrow> bool" where
  "client_le cl cl' \<longleftrightarrow>
     (\<forall>h ip nv w r. iCreateARecord cl h ip nv w = Some r \<longrightarrow> iCreateARecord cl' h ip nv w = Some r) \<and>
     (\<forall>h ip nv c w r. iDeleteARecord cl h ip nv c w = Some r \<longrightarrow> iDeleteARecord cl' h ip nv c w = Some r) \<and>
     (\<forall>h a nv w r. iCreateCNAMERecord cl h a nv w = Some r \<longrightarrow> iCreateCNAMERecord cl' h a nv w = Some r) \<and>
     (\<forall>h ip nv c w r. iDeleteCNAMERecord cl h ip nv c w = Some r \<longrightarrow>
        iDeleteCNAMERecord cl' h ip nv c w = Some r) \<and>
     (\<forall>hs d ip nv c w r. iCNAMEToA cl hs d ip nv c w = Some r \<longrightarrow> iCNAMEToA cl' hs d ip nv c w = Some r) \<and>
     (\<forall>nv c w r. iGetNextAddr cl nv c w = Some r \<longrightarrow> iGetNextAddr cl' nv c w = Some r) \<and>
     (\<forall>nv c ip w r. iReleaseAddr cl nv c ip w = Some r \<longrightarrow> iReleaseAddr cl' nv c ip w = Some r) \<and>
     (\<forall>w r. iGetRecords cl w = Some r \<longrightarrow> iGetRecords cl' w = Some r)"

lemma client_leD:
  assumes "client_le cl cl'"
  shows "iCreateARecord cl h ip nv w = Some a \<Longrightarrow> iCreateARecord cl' h ip nv w = Some a"
    and "iDeleteARecord cl h ip nv c w = Some b \<Longrightarrow> iDeleteARecord cl' h ip nv c w = Some b"
    and "iCreateCNAMERecord cl h ip nv w = Some b \<Longrightarrow> iCreateCNAMERecord cl' h ip nv w = Some b"
    and "iDeleteCNAMERecord cl h ip nv c w = Some b \<Longrightarrow> iDeleteCNAMERecord cl' h ip nv c w = Some b"
    and "iCNAMEToA cl hs h ip nv c w = Some d \<Longrightarrow> iCNAMEToA cl' hs h ip nv c w = Some d"
    and "iGetNextAddr cl nv c w = Some e \<Longrightarrow> iGetNextAddr cl' nv c w = Some e"
    and "iReleaseAddr cl nv c ip w = Some b \<Longrightarrow> iReleaseAddr cl' nv c ip w = Some b"
    and "iGetRecords cl w = Some f \<Longrightarrow> iGetRecords cl' w = Some f"
  using assms unfolding client_le_def by metis+

lemma strict_le: "client_le (strict cl) cl"
  unfolding client_le_def
  by (intro conjI allI impI; (drule strict_CNAMEToA | drule strict_CreateARecord | simp add: strict_def); simp?)

lemma bind_mono:
  "x \<bind> f = Some y \<Longrightarrow> (\<And>a. x = Some a \<Longrightarrow> x' = Some a) \<Longrightarrow> (\<And>a. f a = Some y \<Longrightarrow> g a = Some y) \<Longrightarrow>
     x' \<bind> g = Some y"
  by (cases x) auto

locale client_order =
  fixes cl cl' :: "'w Client"
  assumes le: "client_le cl cl'"
begin

lemma alloc_host_le: "alloc_host cl ord i h s = Some s' \<Longrightarrow> alloc_host cl' ord i h s = Some s'"
  unfolding alloc_host_def Let_def
  by (auto split: if_splits elim!: bind_mono dest: client_leD [OF le] cong: if_cong)

lemma alloc_hosts_le: "alloc_hosts cl ord i hs s = Some s' \<Longrightarrow> alloc_hosts cl' ord i hs s = Some s'"
  by (induction hs arbitrary: i s) (auto elim!: bind_mono dest: alloc_host_le)

lemma reserve_le: "reserve cl nv c s = Some s' \<Longrightarrow> reserve cl' nv c s = Some s'"
  unfolding reserve_def by (auto elim!: bind_mono dest: client_leD [OF le])

lemma release_le: "release_unused cl s = Some s' \<Longrightarrow> release_unused cl' s = Some s'"
  unfolding release_unused_def by (auto elim!: bind_mono dest: client_leD [OF le] split: if_splits)

lemma alloc_spec_le: "alloc_spec cl ord spec s = Some s' \<Longrightarrow> alloc_spec cl' ord spec s = Some s'"
  unfolding alloc_spec_def
  by (erule bind_mono; (erule bind_mono)?)
     (auto dest: alloc_hosts_le reserve_le release_le split: if_splits)

lemma alloc_specs_le: "alloc_specs cl ord specs s = Some s' \<Longrightarrow> alloc_specs cl' ord specs s = Some s'"
  by (induction specs arbitrary: s) (auto elim!: bind_mono dest: alloc_spec_le)

lemma alloc_group_le:
  "alloc_group cl ord gKey specs s = Some s' \<Longrightarrow> alloc_group cl' ord gKey specs s = Some s'"
  unfolding alloc_group_def Let_def
  by (erule bind_mono; (erule bind_mono)?)
     (auto dest: alloc_specs_le reserve_le release_le split: if_splits)

lemma alloc_groups_le:
  "alloc_groups cl ord groups gKeys s = Some s' \<Longrightarrow> alloc_groups cl' ord groups gKeys s = Some s'"
  by (induction gKeys arbitrary: s) (auto elim!: bind_mono dest: alloc_group_le split: option.splits)

lemma sweep_host_le:
  assumes "sweep_host cl G ip nv cidr h s = Some s'"
  shows "sweep_host cl' G ip nv cidr h s = Some s'"
proof (cases "entry (sStore s) ip h = None \<or> h \<in> set G")
  case True
  with assms show ?thesis by (auto simp: sweep_host_def split: option.splits)
next
  case False
  then obtain t where t: "entry (sStore s) ip h = Some t" "h \<notin> set G" by auto
  let ?a = "removeElement (availHosts s) h"
  consider "t = recA" "?a \<noteq> []" | "t = recA" "?a = []" | "t \<noteq> recA" by blast
  then show ?thesis
    using assms t by cases (auto simp: sweep_host_def Let_def elim!: bind_mono
        dest: client_leD [OF le] split: if_splits)
qed

lemma sweep_hosts_le:
  "sweep_hosts cl G ip nv cidr hs s = Some s' \<Longrightarrow> sweep_hosts cl' G ip nv cidr hs s = Some s'"
  by (induction hs arbitrary: s) (auto elim!: bind_mono dest: sweep_host_le)

lemma sweep_ips_le: "sweep_ips cl ord G ips s = Some s' \<Longrightarrow> sweep_ips cl' ord G ips s = Some s'"
  by (induction ips arbitrary: s) (auto elim!: bind_mono dest: sweep_hosts_le split: option.splits)

lemma sweep_store_le: "sweep_store cl ord G st w = Some r \<Longrightarrow> sweep_store cl' ord G st w = Some r"
  unfolding sweep_store_def by (auto elim!: bind_mono dest: sweep_ips_le)

lemma pass_le:
  "processIPGroups cl gord ord groups st w = Some r \<Longrightarrow> processIPGroups cl' gord ord groups st w = Some r"
  unfolding processIPGroups_def Let_def
  by (erule bind_mono) (auto dest: alloc_groups_le sweep_store_le)

end

text \<open>A run of the strict client is a run of the client.\<close>

interpretation strict: client_order "strict cl" cl for cl
  by unfold_locales (rule strict_le)

end
