(* ===== verification/Controller_Pass.thy ===== *)
theory Controller_Pass
  imports Fresh_Addresses Strict_Client
begin

section \<open>One pass of the controller\<close>

text \<open>
  What \<open>processIPGroups\<close> as a whole does to the store. Every theorem holds for every order of
  the range loops and for every IPAM client that keeps \<open>client_contract\<close>; what else it needs of
  the client is a hypothesis. The witnesses run the pass on \<open>counter_client\<close>, an IPAM system
  that numbers its addresses and grants every request.
\<close>

definition counter_client :: "nat Client" where
  "counter_client =
     \<lparr>iCreateARecord = (\<lambda>h ip nv w. Some (True, w)),
      iDeleteARecord = (\<lambda>h ip nv c w. Some w),
      iCreateCNAMERecord = (\<lambda>h a nv w. Some w),
      iDeleteCNAMERecord = (\<lambda>h ip nv c w. Some w),
      iCNAMEToA = (\<lambda>hs d ip nv c w. if hs = [] then None else Some ((hd hs, None), w)),
      iGetNextAddr = (\<lambda>nv c w. Some (replicate (Suc w) (CHR ''1''), Suc w)),
      iReleaseAddr = (\<lambda>nv c ip w. Some w),
      iGetRecords = (\<lambda>w. Some (NewStore, w))\<rparr>"

definition counter_used :: "nat \<Rightarrow> string set" where
  "counter_used w = (\<lambda>n. replicate (Suc n) (CHR ''1'')) ` {..<w}"

lemma counter_client_contract: "client_contract counter_client"
  by (auto simp: client_contract_def counter_client_def store_wf_New split: if_splits)

lemma counter_client_never_panics: "never_panics counter_client"
  by (simp add: never_panics_def counter_client_def)

lemma counter_client_promotes: "promotions_succeed counter_client"
  by (auto simp: promotions_succeed_def counter_client_def split: if_splits)

lemma counter_client_grants: "grants_records counter_client"
  by (simp add: grants_records_def counter_client_def)

lemma counter_client_yields: "yields_addresses counter_client"
  by (auto simp: yields_addresses_def counter_client_def)

lemma counter_client_fresh: "fresh_pool counter_client counter_used"
proof -
  have "n = w" if "CHR ''1'' # replicate w (CHR ''1'') = CHR ''1'' # replicate n (CHR ''1'')" for w n
    using that by (metis length_replicate list.inject)
  then show ?thesis
    by (auto simp: fresh_pool_def counter_client_def counter_used_def less_Suc_eq split: if_splits)
qed

lemmas counter_client_facts = counter_client_contract counter_client_never_panics
  counter_client_promotes counter_client_grants counter_client_yields counter_client_fresh

text \<open>Two resources: one on its own, and one that shares its address by a group name.\<close>

definition demo_groups :: IPGroups where
  "demo_groups = fmap_of_list
     [(\<lparr>gkName = '''', gkNetview = ''default'', gkCidr = ''10.0.0.0/8''\<rparr>,
       [\<lparr>Kind = ''Ingress'', Name = ''web'', Namespace = ''ns'', Hosts = [''a.com'', ''b.com''],
         Netview = ''default'', Cidr = ''10.0.0.0/8''\<rparr>]),
      (\<lparr>gkName = ''shared'', gkNetview = ''default'', gkCidr = ''10.0.0.0/8''\<rparr>,
       [\<lparr>Kind = ''ConfigMap'', Name = ''vs'', Namespace = ''ns'', Hosts = [''c.com''],
         Netview = ''default'', Cidr = ''10.0.0.0/8''\<rparr>])]"

text \<open>A store left by an earlier pass: an address with two hosts, of which one is still listed.\<close>

definition demo_store :: Store where
  "demo_store = AddRecord (AddRecord NewStore ''9'' ''old.com'' recA ''default'' ''10.0.0.0/8'')
     ''9'' ''c.com'' recCNAME ''default'' ''10.0.0.0/8''"

subsection \<open>Composing the two loops\<close>

lemma sweepingI: "client_contract cl \<Longrightarrow> fair_range ord \<Longrightarrow> sweeping cl ord"
  by (simp add: sweeping_def ipam_client_def go_range_def)

context sweeping
begin

lemma sweep_store_listed:
  assumes "sweep_store cl ord G st w = Some (st', w')" and "stored st' x"
    and "x \<noteq> '''' \<or> promotions_succeed cl"
  shows "x \<in> set G"
  using sweep_store_unwanted [OF assms(1)] assms(2,3) by (auto simp: regular_def)

end

lemma pass_split:
  assumes "processIPGroups cl gord ord groups st w = Some (st', w')" and "fair_range gord"
  obtains a G where "enumerates (gord GroupsRange (fmdom groups)) groups"
    "alloc_groups cl ord groups (gord GroupsRange (fmdom groups)) (alloc_start st w) = Some a"
    "set G = all_hosts groups" "sweep_store cl ord G (lStore a) (lWorld a) = Some (st', w')"
proof -
  note e = fair_enumerates [OF assms(2)]
  from assms(1) obtain a where
      "alloc_groups cl ord groups (gord GroupsRange (fmdom groups)) (alloc_start st w) = Some a"
      "sweep_store cl ord (GetAllHosts groups (gord AllHostsRange (fmdom groups)))
         (lStore a) (lWorld a) = Some (st', w')"
    by (auto simp: processIPGroups_def bind_Some)
  then show ?thesis using that [OF e _ set_GetAllHosts [OF e]] by blast
qed

lemma alloc_start_store [simp]: "lStore (alloc_start st w) = st" "lWorld (alloc_start st w) = w"
  by (simp_all add: alloc_start_def)

lemma pass_returns:
  assumes "client_contract cl" and "fair_range gord" and "fair_range ord"
    and "never_panics cl" and "store_wf st"
  shows "\<exists>st' w'. processIPGroups cl gord ord groups st w = Some (st', w')"
proof -
  obtain a where a: "alloc_groups cl ord groups (gord GroupsRange (fmdom groups)) (alloc_start st w) = Some a"
    using alloc_groups_returns [OF assms(4)] by blast
  have "store_wf (lStore a)" by (rule alloc_groups_wf [OF a]) (simp add: assms(5))
  then obtain st' w' where "sweep_store cl ord (GetAllHosts groups (gord AllHostsRange (fmdom groups)))
      (lStore a) (lWorld a) = Some (st', w')"
    using sweeping.sweep_store_returns [OF sweepingI [OF assms(1,3)] assms(4)] by blast
  with a show ?thesis by (simp add: processIPGroups_def)
qed

lemma pass_wf:
  assumes "client_contract cl" and "fair_range gord" and "fair_range ord"
    and "processIPGroups cl gord ord groups st w = Some (st', w')" and "store_wf st"
  shows "store_wf st'"
  using assms(4,2)
proof (rule pass_split)
  fix a G
  assume a: "alloc_groups cl ord groups (gord GroupsRange (fmdom groups)) (alloc_start st w) = Some a"
    and s: "sweep_store cl ord G (lStore a) (lWorld a) = Some (st', w')"
  have "store_wf (lStore a)" by (rule alloc_groups_wf [OF a]) (simp add: assms(5))
  then show ?thesis by (rule sweeping.sweep_store_wf [OF sweepingI [OF assms(1,3)] s])
qed

lemma pass_stored_listed:
  assumes "client_contract cl" and "fair_range gord" and "fair_range ord"
    and "processIPGroups cl gord ord groups st w = Some (st', w')"
    and "stored st' h" and "h \<noteq> '''' \<or> promotions_succeed cl"
  shows "h \<in> all_hosts groups"
  using assms(4,2)
proof (rule pass_split)
  fix a G
  assume G: "set G = all_hosts groups"
    and s: "sweep_store cl ord G (lStore a) (lWorld a) = Some (st', w')"
  show ?thesis
    using sweeping.sweep_store_listed [OF sweepingI [OF assms(1,3)] s assms(5,6)] G by simp
qed

lemma pass_listed_stored:
  assumes "client_contract cl" and "fair_range gord" and "fair_range ord"
    and "processIPGroups cl gord ord groups st w = Some (st', w')"
    and "grants_records cl" and "h \<in> all_hosts groups"
  shows "stored st' h"
  using assms(4,2)
proof (rule pass_split)
  fix a G
  assume e: "enumerates (gord GroupsRange (fmdom groups)) groups"
    and a: "alloc_groups cl ord groups (gord GroupsRange (fmdom groups)) (alloc_start st w) = Some a"
    and G: "set G = all_hosts groups"
    and s: "sweep_store cl ord G (lStore a) (lWorld a) = Some (st', w')"
  have "stored (lStore a) h" by (rule alloc_groups_covers_all [OF assms(5,3) e a assms(6)])
  then show ?thesis
    using sweeping.sweep_store_wanted(1) [OF sweepingI [OF assms(1,3)] s] assms(6) G
    by (auto simp: stored_iff)
qed

lemma demo_store_wf: "store_wf demo_store"
  unfolding demo_store_def by (intro store_wf_Add store_wf_New)

lemma pass_keeps:
  assumes "client_contract cl" and "fair_range gord" and "fair_range ord"
    and "processIPGroups cl gord ord groups st w = Some (st', w')"
    and "h \<in> all_hosts groups" and "stored_at st h ip"
  shows "stored_at st' h ip"
  using assms(4,2)
proof (rule pass_split)
  fix a G
  assume a: "alloc_groups cl ord groups (gord GroupsRange (fmdom groups)) (alloc_start st w) = Some a"
    and G: "set G = all_hosts groups"
    and s: "sweep_store cl ord G (lStore a) (lWorld a) = Some (st', w')"
  have "stored_at (lStore a) h ip"
    using assms(6) alloc_groups_entry [OF a] by (auto simp: stored_at_iff)
  then show ?thesis
    using sweeping.sweep_store_wanted(1) [OF sweepingI [OF assms(1,3)] s] assms(5) G by simp
qed

subsection \<open>A second pass changes nothing\<close>

lemma alloc_groups_still:
  assumes "alloc_groups cl ord groups gKeys s = Some s'" and "fair_range ord"
    and "store_sound (lStore s)" and "\<forall>h \<in> all_hosts groups. stored (lStore s) h"
  shows "lStore s' = lStore s"
proof (rule alloc_groups_rule [where P = "\<lambda>t. lStore t = lStore s" and Q = "\<lambda>t. lStore t = lStore s",
      OF _ _ _ _ assms(1)])
  show "host_keeps cl ord (all_hosts groups) (\<lambda>t. lStore t = lStore s)"
  proof (rule host_keepsI)
    fix i h t t'
    assume h: "h \<in> all_hosts groups" and t: "lStore t = lStore s"
      and run: "alloc_host cl ord i h t = Some t'"
    have "stored (lStore t) h" using assms(4) h t by simp
    then have "GetIP (lStore t) h (ord x (fmdom (Records (lStore t)))) \<noteq> ''''" for x
      using store_sound_GetIP(1) [OF _ assms(2)] assms(3) t by simp
    with run t show "lStore t' = lStore s" by (cases rule: alloc_host_cases) auto
  qed
qed (simp_all add: reserve_fields release_fields)

context sweeping
begin

lemma sweep_host_still:
  assumes "sweep_host cl G ip nv cidr h s = Some s'"
    and "\<forall>x y. stored_at (sStore s) x y \<longrightarrow> x \<in> set G"
  shows "s' = s"
  using assms(1)
proof (cases rule: sweep_host_cases)
  case (promoted newA err w)
  with assms(2) show ?thesis by (auto simp: stored_at_def)
next
  case (dropped t)
  with assms(2) show ?thesis by (auto simp: stored_at_def)
qed

lemma sweep_hosts_still:
  "sweep_hosts cl G ip nv cidr hs s = Some s' \<Longrightarrow>
     \<forall>x y. stored_at (sStore s) x y \<longrightarrow> x \<in> set G \<Longrightarrow> s' = s"
proof (induction hs arbitrary: s)
  case (Cons h hs)
  from Cons.prems(1) obtain s1 where s1: "sweep_host cl G ip nv cidr h s = Some s1"
      and rest: "sweep_hosts cl G ip nv cidr hs s1 = Some s'"
    by (auto simp: bind_Some)
  have "s1 = s" by (rule sweep_host_still [OF s1 Cons.prems(2)])
  with Cons.IH [OF rest] Cons.prems(2) show ?case by simp
qed simp

lemma sweep_ips_still:
  "sweep_ips cl ord G ips s = Some s' \<Longrightarrow>
     \<forall>x y. stored_at (sStore s) x y \<longrightarrow> x \<in> set G \<Longrightarrow>
     sStore s' = sStore s \<and> sWorld s' = sWorld s \<and> toRemove s' = toRemove s"
proof (induction ips arbitrary: s)
  case (Cons ip ips)
  from Cons.prems(1) show ?case
  proof (cases rule: sweep_ips_step)
    case absent
    with Cons.IH [OF absent(2)] Cons.prems(2) show ?thesis by simp
  next
    case (present hosts s1)
    have "s1 = s\<lparr>availHosts := mapKeys (ord (MapKeys ip)) hosts\<rparr>"
      by (rule sweep_hosts_still [OF present(2)]) (use Cons.prems(2) in simp)
    with Cons.IH [OF present(3)] Cons.prems(2) show ?thesis by simp
  qed
qed simp

lemma sweep_store_still:
  assumes "sweep_store cl ord G st w = Some (st', w')"
    and "\<forall>x. stored st x \<longrightarrow> x \<in> set G"
  shows "st' = st \<and> w' = w"
  using assms(1)
proof (rule sweep_store_split)
  fix s
  assume s: "sweep_ips cl ord G (ord RecordsRange (fmdom (Records st)))
       \<lparr>sStore = st, sWorld = w, availHosts = [], toRemove = []\<rparr> = Some s"
    and st': "st' = DeleteHosts (\<lambda>n. ord (DeleteRange n)) (sStore s) (toRemove s)" and "w' = sWorld s"
  have "\<forall>x y. stored_at st x y \<longrightarrow> x \<in> set G" using assms(2) by (auto simp: stored_iff)
  with sweep_ips_still [OF s] st' \<open>w' = sWorld s\<close> show ?thesis by simp
qed

end

lemma pass_still:
  assumes "client_contract cl" and "fair_range gord" and "fair_range ord"
    and "processIPGroups cl gord ord groups st w = Some (st', w')" and "store_sound st"
    and "\<forall>h. stored st h \<longleftrightarrow> h \<in> all_hosts groups"
  shows "st' = st"
  using assms(4,2)
proof (rule pass_split)
  fix a G
  assume a: "alloc_groups cl ord groups (gord GroupsRange (fmdom groups)) (alloc_start st w) = Some a"
    and G: "set G = all_hosts groups"
    and s: "sweep_store cl ord G (lStore a) (lWorld a) = Some (st', w')"
  have "lStore a = st" using alloc_groups_still [OF a assms(3)] assms(5,6) by simp
  then show ?thesis
    using sweeping.sweep_store_still [OF sweepingI [OF assms(1,3)] s] assms(6) G by simp
qed

lemma pass_sound:
  assumes "client_contract cl" and "fair_range gord" and "fair_range ord"
    and "processIPGroups cl gord ord groups st w = Some (st', w')"
    and "yields_addresses cl" and "promotions_succeed cl" and "store_sound st" and "store_wf st"
  shows "store_sound st'"
  using assms(4,2)
proof (rule pass_split)
  fix a G
  assume a: "alloc_groups cl ord groups (gord GroupsRange (fmdom groups)) (alloc_start st w) = Some a"
    and s: "sweep_store cl ord G (lStore a) (lWorld a) = Some (st', w')"
  have "store_sound (lStore a)" by (rule alloc_groups_sound [OF assms(5,3) a]) (simp add: assms(7))
  moreover have "store_wf (lStore a)" by (rule alloc_groups_wf [OF a]) (simp add: assms(8))
  ultimately show ?thesis by (rule sweeping.sweep_store_sound [OF sweepingI [OF assms(1,3)] s assms(6)])
qed

lemma demo_run:
  obtains st' w' where
    "processIPGroups counter_client ascending ascending demo_groups demo_store 0 = Some (st', w')"
  using pass_returns [OF counter_client_contract fair_ascending fair_ascending
      counter_client_never_panics demo_store_wf] by blast

lemma demo_hosts: "''a.com'' \<in> all_hosts demo_groups \<and> ''c.com'' \<in> all_hosts demo_groups"
proof -
  have "''a.com'' \<in> set (GetAllHosts demo_groups (ascending () (fmdom demo_groups))) \<and>
        ''c.com'' \<in> set (GetAllHosts demo_groups (ascending () (fmdom demo_groups)))"
    by code_simp
  then show ?thesis
    using set_GetAllHosts [OF fair_enumerates [OF fair_ascending], of demo_groups "()"] by blast
qed

lemma demo_unlisted: "''old.com'' \<notin> all_hosts demo_groups \<and> [] \<notin> all_hosts demo_groups"
proof -
  have "''old.com'' \<notin> set (GetAllHosts demo_groups (ascending () (fmdom demo_groups))) \<and>
        [] \<notin> set (GetAllHosts demo_groups (ascending () (fmdom demo_groups)))"
    by code_simp
  then show ?thesis
    using set_GetAllHosts [OF fair_enumerates [OF fair_ascending], of demo_groups "()"] by blast
qed

lemma fresh_pool_le:
  assumes "client_le cl cl'" and "fresh_pool cl' used"
  shows "fresh_pool cl used"
proof -
  note le = client_leD [OF assms(1)] and d = fresh_poolD [OF assms(2)]
  show ?thesis
    unfolding fresh_pool_def
  proof (intro conjI allI impI)
    fix nv cidr w addr w' assume "iGetNextAddr cl nv cidr w = Some (addr, w')"
    from d(1) [OF le(6) [OF this]] show "addr \<noteq> []" "addr \<notin> used w" "insert addr (used w) \<subseteq> used w'"
      by blast+
  qed (fact d(2) [OF le(7)] d(3) [OF le(1)] d(4) [OF le(3)] d(5) [OF le(2)] d(6) [OF le(4)] d(7) [OF le(5)])+
qed

lemmas strict_fresh = fresh_pool_le [OF strict_le]

lemma GetIP_stored_at:
  assumes "enumerates ips (Records st)" and "stored st h" and "\<not> stored_at st h ''''"
  shows "GetIP st h ips \<noteq> ''''"
  using assms holder_enum_None [OF assms(1), of h] holder_Some [of st h ips]
  by (auto simp: GetIP_holder split: option.splits)

lemma pass_keeps_exact:
  assumes "client_contract cl" and "fair_range gord" and "fair_range ord"
    and "processIPGroups cl gord ord groups st w = Some (st', w')"
    and "h \<in> all_hosts groups" and "stored st h" and "h \<noteq> ''''" and "\<not> stored_at st h ''''"
  shows "stored_at st' h ip \<longleftrightarrow> stored_at st h ip"
  using assms(4,2)
proof (rule pass_split)
  fix a G
  assume a: "alloc_groups cl ord groups (gord GroupsRange (fmdom groups)) (alloc_start st w) = Some a"
    and G: "set G = all_hosts groups"
    and s: "sweep_store cl ord G (lStore a) (lWorld a) = Some (st', w')"
  let ?I = "\<lambda>t. \<forall>x. stored_at (lStore t) h x \<longleftrightarrow> stored_at st h x"
  have "?I a"
  proof (rule alloc_groups_rule [where P = ?I and Q = ?I, OF _ _ _ _ a])
    show "host_keeps cl ord (all_hosts groups) ?I"
    proof (rule host_keepsI)
      fix i x t t'
      assume I: "?I t" and run: "alloc_host cl ord i x t = Some t'"
      show "?I t'"
      proof (cases "x = h")
        case False
        with I alloc_host_store [OF run] show ?thesis by (auto simp: stored_at_def entry_AddRecord)
      next
        case True
        have "GetIP (lStore t) h (ord y (fmdom (Records (lStore t)))) \<noteq> ''''" for y
          using GetIP_stored_at [OF fair_enumerates [OF assms(3)]] I assms(6,8) by (auto simp: stored_iff)
        with run True have "lStore t' = lStore t" by (cases rule: alloc_host_cases) auto
        with I show ?thesis by simp
      qed
    qed
  qed (simp_all add: reserve_fields release_fields)
  then show ?thesis
    using sweeping.sweep_store_wanted(2) [OF sweepingI [OF assms(1,3)] s, of h ip]
      sweeping.regular_def [OF sweepingI [OF assms(1,3)], of h] assms(5,7) G by simp
qed

subsection \<open>Passes in which all goes well\<close>

text \<open>
  \<open>sure cl\<close> is the client \<open>cl\<close> that gives up also where a reservation yields no address (a failed
  reservation answers the empty string) and where the records read from the IPAM system have a host
  at two addresses or an empty address. A pass that returns with it is a pass of \<open>cl\<close> in which no
  A record is refused, no promotion fails and every reservation yields an address.
\<close>

definition sure :: "'w Client \<Rightarrow> 'w Client" where
  "sure cl = (strict cl)
     \<lparr>iGetNextAddr := (\<lambda>nv c w. case iGetNextAddr cl nv c w of
        None \<Rightarrow> None | Some (addr, w') \<Rightarrow> if addr = '''' then None else Some (addr, w')),
      iGetRecords := (\<lambda>w. case iGetRecords cl w of
        None \<Rightarrow> None | Some (st, w') \<Rightarrow> if store_sound st then Some (st, w') else None)\<rparr>"

lemma client_le_trans:
  assumes "client_le cl cl'" and "client_le cl' cl''"
  shows "client_le cl cl''"
  unfolding client_le_def
  by (intro conjI allI impI; (drule client_leD [OF assms(1)], erule client_leD [OF assms(2)]))

lemma sure_le_strict: "client_le (sure cl) (strict cl)"
  unfolding client_le_def by (auto simp: sure_def strict_def split: option.splits if_splits)

interpretation sure: client_order "sure cl" cl for cl
  by unfold_locales (rule client_le_trans [OF sure_le_strict strict_le])

lemma sure_contract:
  assumes "client_contract cl"
  shows "client_contract (sure cl)"
proof -
  have "iGetRecords (sure cl) w = Some r \<Longrightarrow> iGetRecords (strict cl) w = Some r" for w r
    by (rule client_leD(8) [OF sure_le_strict])
  moreover have "iCNAMEToA (sure cl) = iCNAMEToA (strict cl)" by (simp add: sure_def)
  ultimately show ?thesis using strict_contract [OF assms] unfolding client_contract_def by metis
qed

lemma sure_yields: "yields_addresses (sure cl)"
  by (auto simp: yields_addresses_def sure_def split: option.splits if_splits)

lemma sure_grants: "grants_records (sure cl)"
  using strict_grants [of cl] by (simp add: grants_records_def sure_def)

lemma sure_promotes: "promotions_succeed (sure cl)"
  using strict_promotes [of cl] by (simp add: promotions_succeed_def sure_def)

lemma sure_reads: "iGetRecords (sure cl) w = Some (st, w') \<Longrightarrow> store_sound st"
  by (auto simp: sure_def split: option.splits if_splits)

text \<open>Hosts with one address each, and a real one.\<close>

definition at_one_address :: "Store \<Rightarrow> string \<Rightarrow> bool" where
  "at_one_address st h \<longleftrightarrow> (\<exists>ip. ip \<noteq> '''' \<and> (\<forall>ip'. stored_at st h ip' \<longleftrightarrow> ip' = ip))"

lemma sound_at_one:
  assumes "store_sound st" and "stored st h"
  shows "at_one_address st h"
proof -
  from assms(2) obtain ip where ip: "stored_at st h ip" by (auto simp: stored_iff)
  with assms(1) show ?thesis
    unfolding at_one_address_def store_sound_def hosts_unique_iff by (metis stored_at_key)
qed

lemma sure_pass:
  assumes "client_contract cl" and "fair_range gord" and "fair_range ord"
    and "processIPGroups (sure cl) gord ord groups st w = Some (st', w')" and "store_wf st" and "store_sound st"
  shows "store_sound st'" and "h \<in> all_hosts groups \<Longrightarrow> at_one_address st' h"
proof -
  note c = sure_contract [OF assms(1)]
  show sound: "store_sound st'"
    by (rule pass_sound [OF c assms(2-4) sure_yields sure_promotes assms(6,5)])
  show "at_one_address st' h" if "h \<in> all_hosts groups"
    by (rule sound_at_one [OF sound pass_listed_stored [OF c assms(2-4) sure_grants that]])
qed

subsection \<open>The properties of a pass\<close>

lemma strict_pass_exact:
  assumes "client_contract cl" and "fair_range gord" and "fair_range ord"
    and "processIPGroups (strict cl) gord ord groups st w = Some (st', w')" and "store_wf st"
  shows "processIPGroups cl gord ord groups st w = Some (st', w') \<and> store_wf st' \<and>
           (\<forall>h. stored st' h \<longleftrightarrow> h \<in> all_hosts groups)"
proof (intro conjI allI)
  note c = strict_contract [OF assms(1)]
  show "processIPGroups cl gord ord groups st w = Some (st', w')" by (rule strict.pass_le [OF assms(4)])
  show "store_wf st'" by (rule pass_wf [OF c assms(2-5)])
  show "stored st' h \<longleftrightarrow> h \<in> all_hosts groups" for h
    using pass_stored_listed [OF c assms(2-4)] pass_listed_stored [OF c assms(2-4) strict_grants]
      strict_promotes by blast
qed

text \<open>C3. A pass over a well-formed store in which the IPAM system refuses no A record and fails no
  promotion leaves in the store exactly the hosts that the groups list, and the store stays
  well-formed. If in addition every reservation of the pass yields an address (a failed one answers
  the empty string, which the controller stores like an address) and no host of the old store has
  two addresses or the empty one, then every listed host has exactly one address, a non-empty one.\<close>

theorem pass_exact:
  assumes "client_contract cl" and "fair_range gord" and "fair_range ord"
    and "processIPGroups (strict cl) gord ord groups st w = Some (st', w')" and "store_wf st"
  shows "processIPGroups cl gord ord groups st w = Some (st', w') \<and> store_wf st' \<and>
           (\<forall>h. stored st' h \<longleftrightarrow> h \<in> all_hosts groups) \<and>
           (processIPGroups (sure cl) gord ord groups st w = Some (st', w') \<longrightarrow> store_sound st \<longrightarrow>
              (\<forall>h \<in> all_hosts groups. \<exists>ip. ip \<noteq> '''' \<and> (\<forall>ip'. stored_at st' h ip' \<longleftrightarrow> ip' = ip)))"
  using strict_pass_exact [OF assms] sure_pass(2) [OF assms(1-3) _ assms(5)]
  unfolding at_one_address_def by blast

lemma counter_strict: "strict counter_client = counter_client"
  by (auto simp: strict_def counter_client_def intro!: ext)

lemma store_sound_New: "store_sound NewStore"
  by (simp add: store_sound_def hosts_unique_iff stored_at_def entry_NewStore) (simp add: NewStore_def)

lemma counter_sure: "sure counter_client = counter_client"
  unfolding sure_def counter_strict by (auto simp: counter_client_def store_sound_New intro!: ext)

lemma demo_store_sound: "store_sound demo_store"
  unfolding demo_store_def
  by (intro store_sound_Add store_sound_New) (simp_all add: stored_iff stored_at_def entry_AddRecord entry_NewStore)

theorem pass_exact_witness:
  "\<exists>st' w' ip. processIPGroups counter_client ascending ascending demo_groups demo_store 0 = Some (st', w') \<and>
     ip \<noteq> '''' \<and> stored_at st' ''a.com'' ip \<and> \<not> stored st' ''old.com''"
proof -
  obtain st' w' where run:
      "processIPGroups counter_client ascending ascending demo_groups demo_store 0 = Some (st', w')"
    by (rule demo_run)
  have "processIPGroups (strict counter_client) ascending ascending demo_groups demo_store 0 = Some (st', w')"
    using run by (simp only: counter_strict)
  from pass_exact [OF counter_client_contract fair_ascending fair_ascending this demo_store_wf]
  have "\<not> stored st' ''old.com''"
    and "\<forall>h \<in> all_hosts demo_groups. \<exists>ip. ip \<noteq> '''' \<and> (\<forall>ip'. stored_at st' h ip' \<longleftrightarrow> ip' = ip)"
    using run demo_store_sound demo_unlisted by (simp_all only: counter_sure) blast+
  with run demo_hosts show ?thesis by blast
qed

text \<open>C15. A pass over a well-formed store always returns when no IPAM call panics, and the store
  it returns is well-formed: in particular the loop that promotes CNAMEs while it ranges over
  them never writes to the host set of an address that is not in the store.\<close>

theorem pass_total:
  assumes "client_contract cl" and "fair_range gord" and "fair_range ord"
    and "never_panics cl" and "store_wf st"
  shows "\<exists>st' w'. processIPGroups cl gord ord groups st w = Some (st', w') \<and> store_wf st'"
  using pass_returns [OF assms] pass_wf [OF assms(1-3) _ assms(5)] by blast

theorem pass_total_witness:
  "\<exists>st' w'. processIPGroups counter_client ascending ascending demo_groups demo_store 0 = Some (st', w') \<and>
     store_wf st'"
  by (rule pass_total [OF counter_client_contract fair_ascending fair_ascending
        counter_client_never_panics demo_store_wf])

text \<open>C8. A host that the groups still list keeps the address it has, whatever the IPAM system
  answers, failures included. If the host has a name and is not stored at the empty address, the
  pass also gives it no other address: it is stored at the same addresses as before.\<close>

theorem pass_keeps_address:
  assumes "client_contract cl" and "fair_range gord" and "fair_range ord"
    and "processIPGroups cl gord ord groups st w = Some (st', w')"
    and "h \<in> all_hosts groups" and "stored_at st h ip"
  shows "stored_at st' h ip \<and>
    (h \<noteq> '''' \<and> \<not> stored_at st h '''' \<longrightarrow> (\<forall>ip'. stored_at st' h ip' \<longleftrightarrow> stored_at st h ip'))"
  using pass_keeps [OF assms] pass_keeps_exact [OF assms(1-5)] assms(6) by (auto simp: stored_iff)

theorem pass_keeps_address_witness:
  "\<exists>st' w'. processIPGroups counter_client ascending ascending demo_groups demo_store 0 = Some (st', w') \<and>
     (\<forall>ip. stored_at st' ''c.com'' ip \<longleftrightarrow> ip = ''9'')"
proof -
  obtain st' w' where run:
      "processIPGroups counter_client ascending ascending demo_groups demo_store 0 = Some (st', w')"
    by (rule demo_run)
  have at: "stored_at demo_store ''c.com'' ip \<longleftrightarrow> ip = ''9''" for ip
    by (auto simp: demo_store_def stored_at_def entry_AddRecord entry_NewStore)
  have "''c.com'' \<noteq> ''''" by simp
  with at show ?thesis
    using pass_keeps_address [OF counter_client_contract fair_ascending fair_ascending run, of "''c.com''" "''9''"] run
      demo_hosts by auto
qed

text \<open>A host that no group lists is gone from the store after a pass, whatever the IPAM
  system answers. The one exception is the empty name, which a failed promotion leaves behind.\<close>

lemma pass_deletes_unlisted:
  assumes "client_contract cl" and "fair_range gord" and "fair_range ord"
    and "processIPGroups cl gord ord groups st w = Some (st', w')"
    and "h \<notin> all_hosts groups" and "h \<noteq> ''''"
  shows "\<not> stored st' h"
  using pass_stored_listed [OF assms(1-4)] assms(5,6) by blast

text \<open>The invariant of the controller's state: the three maps agree, every host has one
  address, every address has one A record, and every address is reserved in the IPAM system.\<close>

definition ctl_inv :: "('w \<Rightarrow> string set) \<Rightarrow> Store \<Rightarrow> 'w \<Rightarrow> bool" where
  "ctl_inv used st w \<longleftrightarrow>
     store_wf st \<and> store_sound st \<and> one_A st \<and> keys (Records st) \<subseteq> used w"

lemma strict_pass_inv:
  assumes "client_contract cl" and "fair_range gord" and "fair_range ord" and "fresh_pool cl used"
    and "processIPGroups (strict cl) gord ord groups st w = Some (st', w')"
    and "'''' \<notin> all_hosts groups" and "ctl_inv used st w"
  shows "ctl_inv used st' w'"
  using assms(5,2)
proof (rule pass_split)
  fix a G
  assume a: "alloc_groups (strict cl) ord groups (gord GroupsRange (fmdom groups)) (alloc_start st w) = Some a"
    and s: "sweep_store (strict cl) ord G (lStore a) (lWorld a) = Some (st', w')"
  note sw = sweepingI [OF strict_contract [OF assms(1)] assms(3)]
  note pool = strict_fresh [OF assms(4)] and prom = strict_promotes [of cl]
  have ok: "pool_ok used a"
    by (rule alloc_groups_pool_ok [OF pool strict_grants assms(3,6) a])
       (use assms(7) in \<open>simp add: pool_ok_def ctl_inv_def\<close>)
  have wf: "store_wf (lStore a)" by (rule alloc_groups_wf [OF a]) (use assms(7) in \<open>simp add: ctl_inv_def\<close>)
  from ok have *: "one_A (lStore a)" "store_sound (lStore a)" "keys (Records (lStore a)) \<subseteq> used (lWorld a)"
    by (simp_all add: pool_ok_def)
  show ?thesis unfolding ctl_inv_def
    using sweeping.sweep_store_wf [OF sw s wf] sweeping.sweep_store_sound [OF sw s prom *(2) wf]
      sweeping.sweep_store_one_A [OF sw s prom wf *(1)]
      sweeping.sweep_store_used [OF sw s pool prom *(1) wf *(3)] *(2) by (simp add: store_sound_def)
qed

text \<open>C18. With an IPAM system that hands out each address once and answers every reservation with
  an address, a pass over groups that do not list the empty name, in which the IPAM system refuses
  no A record and fails no promotion, keeps the controller's invariant: the store's maps agree, no
  host has two addresses, no address is empty, every address has exactly one A record, and every
  stored address is still reserved. (An Ingress rule without a host does list the empty name.)\<close>

theorem pass_invariant:
  assumes "client_contract cl" and "fair_range gord" and "fair_range ord" and "fresh_pool cl used"
    and "processIPGroups (strict cl) gord ord groups st w = Some (st', w')"
    and "'''' \<notin> all_hosts groups" and "ctl_inv used st w"
  shows "ctl_inv used st' w'"
  by (rule strict_pass_inv [OF assms])

theorem pass_invariant_witness:
  "\<exists>st' w'. processIPGroups counter_client ascending ascending demo_groups NewStore 0 = Some (st', w') \<and>
     ctl_inv counter_used st' w'"
proof -
  obtain st' w' where run:
      "processIPGroups (strict counter_client) ascending ascending demo_groups NewStore 0 = Some (st', w')"
    unfolding counter_strict
    using pass_returns [OF counter_client_contract fair_ascending fair_ascending
        counter_client_never_panics store_wf_New] by blast
  have "ctl_inv counter_used NewStore 0"
    by (auto simp: ctl_inv_def store_wf_New store_sound_def hosts_unique_iff one_A_iff stored_at_def
        entry_NewStore) (simp_all add: NewStore_def)
  with run show ?thesis
    using pass_invariant [OF counter_client_contract fair_ascending fair_ascending
        counter_client_fresh run conjunct2 [OF demo_unlisted]] by (simp add: counter_strict)
qed

end
