(* ===== verification/World_Map.thy ===== *)
theory World_Map
  imports Controller_Alloc
begin

section \<open>One client in the place of another\<close>

text \<open>
  Two IPAM clients, over states of different types, that do the same up to a map of the states: every call
  commutes with the map, panics included. Then a pass of the controller and its refresh do. The
  contract is used for a client with a log of its calls, whose map forgets the log, and for the
  client over HTTP.
\<close>

locale world_map =
  fixes cl :: "'w Client" and cl' :: "'v Client" and f :: "'w \<Rightarrow> 'v"
  assumes map_CreateA: "iCreateARecord cl' h ip nv (f w) = map_option (map_prod id f) (iCreateARecord cl h ip nv w)"
    and map_DeleteA: "iDeleteARecord cl' h ip nv c (f w) = map_option f (iDeleteARecord cl h ip nv c w)"
    and map_CreateCNAME: "iCreateCNAMERecord cl' h a nv (f w) = map_option f (iCreateCNAMERecord cl h a nv w)"
    and map_DeleteCNAME: "iDeleteCNAMERecord cl' h ip nv c (f w) = map_option f (iDeleteCNAMERecord cl h ip nv c w)"
    and map_CNAMEToA: "iCNAMEToA cl' hs d ip nv c (f w) = map_option (map_prod id f) (iCNAMEToA cl hs d ip nv c w)"
    and map_GetNextAddr: "iGetNextAddr cl' nv c (f w) = map_option (map_prod id f) (iGetNextAddr cl nv c w)"
    and map_Release: "iReleaseAddr cl' nv c ip (f w) = map_option f (iReleaseAddr cl nv c ip w)"
    and map_GetRecords: "iGetRecords cl' (f w) = map_option (map_prod id f) (iGetRecords cl w)"
begin

lemmas map_calls = map_CreateA map_DeleteA map_CreateCNAME map_DeleteCNAME map_CNAMEToA map_GetNextAddr map_Release

definition map_alloc :: "'w alloc \<Rightarrow> 'v alloc" where
  "map_alloc s =
     \<lparr>lStore = lStore s, lWorld = f (lWorld s), lUniqueIP = lUniqueIP s, lAddrUsed = lAddrUsed s,
      lNextAddr = lNextAddr s, lCurAddr = lCurAddr s, lNetview = lNetview s, lCidr = lCidr s,
      lFirstHost = lFirstHost s, visits = visits s\<rparr>"

lemma map_alloc_fields [simp]:
  "lStore (map_alloc s) = lStore s" "lWorld (map_alloc s) = f (lWorld s)"
  "lUniqueIP (map_alloc s) = lUniqueIP s" "lAddrUsed (map_alloc s) = lAddrUsed s"
  "lNextAddr (map_alloc s) = lNextAddr s" "lCurAddr (map_alloc s) = lCurAddr s"
  "lNetview (map_alloc s) = lNetview s" "lCidr (map_alloc s) = lCidr s"
  "lFirstHost (map_alloc s) = lFirstHost s" "visits (map_alloc s) = visits s"
  by (simp_all add: map_alloc_def)

lemma map_alloc_updates:
  "(map_alloc s)\<lparr>lFirstHost := h\<rparr> = map_alloc (s\<lparr>lFirstHost := h\<rparr>)"
  "(map_alloc s)\<lparr>lUniqueIP := u\<rparr> = map_alloc (s\<lparr>lUniqueIP := u\<rparr>)"
  by (simp_all add: map_alloc_def)

lemma map_bind:
  "(\<And>y. x = Some y \<Longrightarrow> g (k y) = map_option k' (h y)) \<Longrightarrow> x' = map_option k x \<Longrightarrow>
     x' \<bind> g = map_option k' (x \<bind> h)"
  by (cases x) auto

lemma select_first_map: "select_first i h (map_alloc s) = map_alloc (select_first i h s)"
  by (simp add: select_first_def map_alloc_updates)

lemma alloc_host_map: "alloc_host cl' ord i h (map_alloc s) = map_option map_alloc (alloc_host cl ord i h s)"
proof -
  have granted: "(\<And>p. g (map_prod id f p) = map_option map_alloc (g' p)) \<Longrightarrow>
      iCreateARecord cl' h a nv (f w) \<bind> g = map_option map_alloc (iCreateARecord cl h a nv w \<bind> g')" for g g' a nv w
    by (rule map_bind [where k = "map_prod id f"]) (auto simp: map_CreateA)
  have named: "(\<And>v. g (f v) = map_option map_alloc (g' v)) \<Longrightarrow>
      iCreateCNAMERecord cl' h a nv (f w) \<bind> g = map_option map_alloc (iCreateCNAMERecord cl h a nv w \<bind> g')"
    for g g' a nv w
    by (rule map_bind [where k = f]) (auto simp: map_CreateCNAME)
  let ?ip = "GetIP (lStore s) h (ord (CheckIP (visits s)) (fmdom (Records (lStore s))))"
  have first: "lFirstHost (map_alloc (select_first i h s)) = lFirstHost (select_first i h s)" by simp
  show ?thesis
  proof (cases "?ip = ''''")
    case False
    then show ?thesis by (simp add: alloc_host_eq Let_def select_first_map)
  next
    case ip: True
    show ?thesis
    proof (cases "h = lFirstHost (select_first i h s)")
      case True
      show ?thesis
        by (simp add: alloc_host_eq Let_def select_first_map ip True [symmetric])
           (rule granted, auto simp: map_alloc_def)
    next
      case False
      then show ?thesis
        by (simp add: alloc_host_eq Let_def select_first_map ip)
           (rule named, auto simp: map_alloc_def)
    qed
  qed
qed

lemma alloc_hosts_map: "alloc_hosts cl' ord i hs (map_alloc s) = map_option map_alloc (alloc_hosts cl ord i hs s)"
  by (induction hs arbitrary: i s) (auto simp: alloc_host_map intro!: map_bind)

lemma reserve_map: "reserve cl' nv c (map_alloc s) = map_option map_alloc (reserve cl nv c s)"
  by (auto simp: reserve_def map_calls map_alloc_def split: Option.bind_splits)

lemma release_map: "release_unused cl' (map_alloc s) = map_option map_alloc (release_unused cl s)"
  by (auto simp: release_unused_def map_calls map_alloc_def split: Option.bind_splits)

lemma alloc_spec_map: "alloc_spec cl' ord spec (map_alloc s) = map_option map_alloc (alloc_spec cl ord spec s)"
  unfolding alloc_spec_def
  by (intro map_bind [where k = map_alloc]) (auto simp: alloc_hosts_map reserve_map release_map)

lemma alloc_specs_map: "alloc_specs cl' ord specs (map_alloc s) = map_option map_alloc (alloc_specs cl ord specs s)"
  by (induction specs arbitrary: s) (auto simp: alloc_spec_map intro!: map_bind)

lemma alloc_group_map:
  "alloc_group cl' ord gKey specs (map_alloc s) = map_option map_alloc (alloc_group cl ord gKey specs s)"
  unfolding alloc_group_def Let_def
  by (intro map_bind [where k = map_alloc]) (auto simp: alloc_specs_map reserve_map release_map map_alloc_updates)

lemma alloc_groups_map:
  "alloc_groups cl' ord groups gKeys (map_alloc s) = map_option map_alloc (alloc_groups cl ord groups gKeys s)"
  by (induction gKeys arbitrary: s) (auto simp: alloc_group_map intro!: map_bind split: option.splits)

definition map_sweep :: "'w sweep \<Rightarrow> 'v sweep" where
  "map_sweep s = \<lparr>sStore = sStore s, sWorld = f (sWorld s), availHosts = availHosts s, toRemove = toRemove s\<rparr>"

lemma map_sweep_fields [simp]:
  "sStore (map_sweep s) = sStore s" "sWorld (map_sweep s) = f (sWorld s)"
  "availHosts (map_sweep s) = availHosts s" "toRemove (map_sweep s) = toRemove s"
  by (simp_all add: map_sweep_def)

lemma map_sweep_avail: "(map_sweep s)\<lparr>availHosts := a\<rparr> = map_sweep (s\<lparr>availHosts := a\<rparr>)"
  by (simp add: map_sweep_def)

lemma sweep_host_map:
  "sweep_host cl' G ip nv cidr h (map_sweep s) = map_option map_sweep (sweep_host cl G ip nv cidr h s)"
  unfolding sweep_host_def Let_def
  by (auto simp: map_calls map_sweep_def put_host_def split: Option.bind_splits option.splits)

lemma sweep_hosts_map:
  "sweep_hosts cl' G ip nv cidr hs (map_sweep s) = map_option map_sweep (sweep_hosts cl G ip nv cidr hs s)"
  by (induction hs arbitrary: s) (auto simp: sweep_host_map intro!: map_bind)

lemma sweep_ips_map: "sweep_ips cl' ord G ips (map_sweep s) = map_option map_sweep (sweep_ips cl ord G ips s)"
  by (induction ips arbitrary: s)
     (auto simp: sweep_hosts_map map_sweep_avail intro!: map_bind split: option.splits)

lemma sweep_store_map: "sweep_store cl' ord G st (f w) = map_option (map_prod id f) (sweep_store cl ord G st w)"
proof -
  have start: "\<lparr>sStore = st, sWorld = f w, availHosts = [], toRemove = []\<rparr> =
      map_sweep \<lparr>sStore = st, sWorld = w, availHosts = [], toRemove = []\<rparr>"
    by (simp add: map_sweep_def)
  show ?thesis unfolding sweep_store_def start
    by (intro map_bind [where k = map_sweep]) (auto simp: sweep_ips_map)
qed

theorem pass_map:
  "processIPGroups cl' gord ord groups st (f w) = map_option (map_prod id f) (processIPGroups cl gord ord groups st w)"
proof -
  have start: "alloc_start st (f w) = map_alloc (alloc_start st w)"
    by (simp add: alloc_start_def map_alloc_def)
  show ?thesis unfolding processIPGroups_def start Let_def
    by (intro map_bind [where k = map_alloc]) (auto simp: alloc_groups_map sweep_store_map)
qed

end

end
