(* ===== verification/Address_Ledger.thy ===== *)
theory Address_Ledger
  imports Controller_Pass World_Map
begin

section \<open>The protocol of IPAM calls\<close>

text \<open>
  \<open>traced cl\<close> is the client \<open>cl\<close> with a log of the calls it answers. A bookkeeper reads the log:
  every address that was reserved must get a granted A record or be given back exactly
  once, with the view and CIDR it came from, before the next reservation or deletion. The
  theorem of this theory is that a pass of the controller leaves the books balanced.
\<close>

datatype call =
    CallGetNextAddr string string string
  | CallReleaseAddr string string string
  | CallCreateA string string string bool
  | CallCreateCNAME string string string
  | CallDeleteA string string string string
  | CallDeleteCNAME string string string string
  | CallCNAMEToA "string list" string string string string
  | CallGetRecords

definition traced :: "'w Client \<Rightarrow> ('w \<times> call list) Client" where
  "traced cl =
     \<lparr>iCreateARecord = (\<lambda>h ip nv (w, l). do {
        (ok, w') \<leftarrow> iCreateARecord cl h ip nv w; Some (ok, (w', l @ [CallCreateA h ip nv ok])) }),
      iDeleteARecord = (\<lambda>h ip nv c (w, l). do {
        w' \<leftarrow> iDeleteARecord cl h ip nv c w; Some (w', l @ [CallDeleteA h ip nv c]) }),
      iCreateCNAMERecord = (\<lambda>h a nv (w, l). do {
        w' \<leftarrow> iCreateCNAMERecord cl h a nv w; Some (w', l @ [CallCreateCNAME h a nv]) }),
      iDeleteCNAMERecord = (\<lambda>h ip nv c (w, l). do {
        w' \<leftarrow> iDeleteCNAMERecord cl h ip nv c w; Some (w', l @ [CallDeleteCNAME h ip nv c]) }),
      iCNAMEToA = (\<lambda>hs d ip nv c (w, l). do {
        (r, w') \<leftarrow> iCNAMEToA cl hs d ip nv c w; Some (r, (w', l @ [CallCNAMEToA hs d ip nv c])) }),
      iGetNextAddr = (\<lambda>nv c (w, l). do {
        (a, w') \<leftarrow> iGetNextAddr cl nv c w; Some (a, (w', l @ [CallGetNextAddr nv c a])) }),
      iReleaseAddr = (\<lambda>nv c ip (w, l). do {
        w' \<leftarrow> iReleaseAddr cl nv c ip w; Some (w', l @ [CallReleaseAddr nv c ip]) }),
      iGetRecords = (\<lambda>(w, l). do {
        (st, w') \<leftarrow> iGetRecords cl w; Some (st, (w', l @ [CallGetRecords])) })\<rparr>"

subsection \<open>The bookkeeper\<close>

text \<open>\<open>Open nv cidr addr used\<close>: the address is reserved, and \<open>used\<close> if it has an A record.\<close>

datatype ledger = Closed | Open string string string bool | Broken

fun book :: "ledger \<Rightarrow> call \<Rightarrow> ledger" where
  "book Closed (CallGetNextAddr nv c a) = Open nv c a False"
| "book (Open _ _ _ True) (CallGetNextAddr nv c a) = Open nv c a False"
| "book (Open nv c a u) (CallCreateA h ip nv' ok) =
     (if ip = a \<and> nv' = nv then Open nv c a (u \<or> ok) else Broken)"
| "book (Open nv c a u) (CallCreateCNAME h al nv') =
     (if nv' = nv then Open nv c a u else Broken)"
| "book (Open nv c a False) (CallReleaseAddr nv' c' a') =
     (if nv' = nv \<and> c' = c \<and> a' = a then Closed else Broken)"
| "book Closed (CallDeleteA _ _ _ _) = Closed"
| "book Closed (CallDeleteCNAME _ _ _ _) = Closed"
| "book Closed (CallCNAMEToA _ _ _ _ _) = Closed"
| "book (Open _ _ _ True) (CallDeleteA _ _ _ _) = Closed"
| "book (Open _ _ _ True) (CallDeleteCNAME _ _ _ _) = Closed"
| "book (Open _ _ _ True) (CallCNAMEToA _ _ _ _ _) = Closed"
| "book Closed CallGetRecords = Closed"
| "book (Open _ _ _ True) CallGetRecords = Closed"
| "book _ _ = Broken"

definition ledger_of :: "call list \<Rightarrow> ledger" where
  "ledger_of l = foldl book Closed l"

fun balanced :: "ledger \<Rightarrow> bool" where
  "balanced Closed = True"
| "balanced (Open _ _ _ used) = used"
| "balanced Broken = False"

lemma ledger_of_snoc [simp]: "ledger_of (l @ [c]) = book (ledger_of l) c"
  by (simp add: ledger_of_def)

lemma balanced_cases: "balanced b \<Longrightarrow> b = Closed \<or> (\<exists>nv c a. b = Open nv c a True)"
  by (cases b) auto

subsection \<open>The first loop\<close>

definition in_hand :: "('w \<times> call list) alloc \<Rightarrow> bool" where
  "in_hand s \<longleftrightarrow>
     ledger_of (snd (lWorld s)) = Open (lNetview s) (lCidr s) (lNextAddr s) (lAddrUsed s)"

lemma traced_GetNextAddr:
  "iGetNextAddr (traced cl) nv c w = Some (a, w') \<Longrightarrow> snd w' = snd w @ [CallGetNextAddr nv c a]"
  by (cases w) (auto simp: traced_def bind_Some)

lemma traced_CreateA:
  "iCreateARecord (traced cl) h ip nv w = Some (ok, w') \<Longrightarrow> snd w' = snd w @ [CallCreateA h ip nv ok]"
  by (cases w) (auto simp: traced_def bind_Some)

lemma traced_CreateCNAME:
  "iCreateCNAMERecord (traced cl) h a nv w = Some w' \<Longrightarrow> snd w' = snd w @ [CallCreateCNAME h a nv]"
  by (cases w) (auto simp: traced_def bind_Some)

lemma traced_Release:
  "iReleaseAddr (traced cl) nv c a w = Some w' \<Longrightarrow> snd w' = snd w @ [CallReleaseAddr nv c a]"
  by (cases w) (auto simp: traced_def bind_Some)

lemma traced_DeleteA:
  "iDeleteARecord (traced cl) h ip nv c w = Some w' \<Longrightarrow> snd w' = snd w @ [CallDeleteA h ip nv c]"
  by (cases w) (auto simp: traced_def bind_Some)

lemma traced_DeleteCNAME:
  "iDeleteCNAMERecord (traced cl) h ip nv c w = Some w' \<Longrightarrow> snd w' = snd w @ [CallDeleteCNAME h ip nv c]"
  by (cases w) (auto simp: traced_def bind_Some)

lemma traced_CNAMEToA:
  "iCNAMEToA (traced cl) hs d ip nv c w = Some (r, w') \<Longrightarrow> snd w' = snd w @ [CallCNAMEToA hs d ip nv c]"
  by (cases w) (auto simp: traced_def bind_Some)

lemma alloc_host_in_hand:
  assumes "alloc_host (traced cl) ord i h s = Some s'" and "in_hand s"
  shows "in_hand s'"
proof -
  note frame = alloc_host_frame [OF assms(1)]
  from assms(1) show ?thesis
  proof (cases rule: alloc_host_cases)
    case known
    with frame assms(2) show ?thesis by (simp add: in_hand_def)
  next
    case (granted w)
    with frame assms(2) traced_CreateA [OF granted(5)] show ?thesis by (simp add: in_hand_def)
  next
    case (refused w)
    with frame assms(2) traced_CreateA [OF refused(5)] show ?thesis by (simp add: in_hand_def)
  next
    case (cname w)
    with frame assms(2) traced_CreateCNAME [OF cname(5)] show ?thesis by (simp add: in_hand_def)
  qed
qed

lemma alloc_groups_balanced:
  assumes "alloc_groups (traced cl) ord groups gKeys s = Some s'"
    and "balanced (ledger_of (snd (lWorld s)))"
  shows "balanced (ledger_of (snd (lWorld s')))"
proof (rule alloc_groups_rule [where P = "\<lambda>s. balanced (ledger_of (snd (lWorld s)))" and Q = in_hand,
      OF _ _ _ _ assms])
  fix nv c s s'
  assume b: "balanced (ledger_of (snd (lWorld s)))" and r: "reserve (traced cl) nv c s = Some s'"
  note f = reserve_fields [OF r]
  show "in_hand s'"
    using balanced_cases [OF b] traced_GetNextAddr [OF f(7)] f(2-4) by (auto simp: in_hand_def)
next
  show "host_keeps (traced cl) ord (all_hosts groups) in_hand"
    by (rule host_keepsI) (rule alloc_host_in_hand)
next
  fix s s' assume h: "in_hand s" and r: "release_unused (traced cl) s = Some s'"
  show "balanced (ledger_of (snd (lWorld s')))"
  proof (cases "lAddrUsed s")
    case True
    with h r show ?thesis by (simp add: release_unused_def in_hand_def)
  next
    case False
    with r obtain w where
        "iReleaseAddr (traced cl) (lNetview s) (lCidr s) (lNextAddr s) (lWorld s) = Some w"
        and "s' = s\<lparr>lWorld := w\<rparr>"
      by (auto simp: release_unused_def bind_Some)
    with False h show ?thesis by (simp add: traced_Release in_hand_def)
  qed
qed simp

subsection \<open>The second loop\<close>

text \<open>What the three deletion calls keep, the second loop keeps.\<close>

definition sweep_keeps :: "'w Client \<Rightarrow> ('w \<Rightarrow> bool) \<Rightarrow> bool" where
  "sweep_keeps cl W \<longleftrightarrow>
     (\<forall>h ip nv c w w'. W w \<longrightarrow> iDeleteARecord cl h ip nv c w = Some w' \<longrightarrow> W w') \<and>
     (\<forall>h ip nv c w w'. W w \<longrightarrow> iDeleteCNAMERecord cl h ip nv c w = Some w' \<longrightarrow> W w') \<and>
     (\<forall>hs d ip nv c w r w'. W w \<longrightarrow> iCNAMEToA cl hs d ip nv c w = Some (r, w') \<longrightarrow> W w')"

lemma sweep_host_world:
  assumes "sweep_keeps cl W" and "sweep_host cl G ip nv cidr h s = Some s'" and "W (sWorld s)"
  shows "W (sWorld s')"
proof (cases "entry (sStore s) ip h = None \<or> h \<in> set G")
  case True
  with assms(2,3) show ?thesis by (auto simp: sweep_host_def split: option.splits)
next
  case False
  then obtain t where t: "entry (sStore s) ip h = Some t" "h \<notin> set G" by auto
  let ?a = "removeElement (availHosts s) h"
  have "sWorld s' = sWorld s \<or>
      (\<exists>r. iCNAMEToA cl ?a h ip nv cidr (sWorld s) = Some (r, sWorld s')) \<or>
      iDeleteARecord cl h ip nv cidr (sWorld s) = Some (sWorld s') \<or>
      iDeleteCNAMERecord cl h ip nv cidr (sWorld s) = Some (sWorld s')"
  proof (cases "t = recA")
    case True
    with t assms(2) show ?thesis by (cases "?a = []") (auto simp: sweep_host_def Let_def bind_Some)
  next
    case False
    with t assms(2) show ?thesis
      by (cases "t = recCNAME") (auto simp: sweep_host_def Let_def bind_Some)
  qed
  then show ?thesis using assms(1,3) unfolding sweep_keeps_def by metis
qed

lemma sweep_hosts_world:
  "sweep_keeps cl W \<Longrightarrow> sweep_hosts cl G ip nv cidr hs s = Some s' \<Longrightarrow> W (sWorld s) \<Longrightarrow> W (sWorld s')"
proof (induction hs arbitrary: s)
  case (Cons h hs)
  from Cons.prems(2) obtain s1 where s1: "sweep_host cl G ip nv cidr h s = Some s1"
      and rest: "sweep_hosts cl G ip nv cidr hs s1 = Some s'"
    by (auto simp: bind_Some)
  have "W (sWorld s1)" by (rule sweep_host_world [OF Cons.prems(1) s1 Cons.prems(3)])
  with Cons.IH [OF Cons.prems(1) rest] show ?case .
qed simp

lemma sweep_ips_world:
  "sweep_keeps cl W \<Longrightarrow> sweep_ips cl ord G ips s = Some s' \<Longrightarrow> W (sWorld s) \<Longrightarrow> W (sWorld s')"
proof (induction ips arbitrary: s)
  case (Cons ip ips)
  show ?case
  proof (cases "fmlookup (Records (sStore s)) ip")
    case None
    with Cons show ?thesis by simp
  next
    case (Some hosts)
    with Cons.prems(2) obtain s1 where
        s1: "sweep_hosts cl G ip (map_get (Netviews (sStore s)) ip) (map_get (Cidrs (sStore s)) ip)
         (ord (HostsRange ip) (finsert '''' (fmdom hosts)))
         (s\<lparr>availHosts := mapKeys (ord (MapKeys ip)) hosts\<rparr>) = Some s1"
        and rest: "sweep_ips cl ord G ips s1 = Some s'"
      by (auto simp: bind_Some)
    have "W (sWorld s1)" by (rule sweep_hosts_world [OF Cons.prems(1) s1]) (simp add: Cons.prems(3))
    with Cons.IH [OF Cons.prems(1) rest] show ?thesis .
  qed
qed simp

lemma sweep_store_world:
  "sweep_keeps cl W \<Longrightarrow> sweep_store cl ord G st w = Some (st', w') \<Longrightarrow> W w \<Longrightarrow> W w'"
  by (auto simp: sweep_store_def bind_Some elim!: sweep_ips_world)

lemma traced_sweep_balanced: "sweep_keeps (traced cl) (\<lambda>w. balanced (ledger_of (snd w)))"
  unfolding sweep_keeps_def
  by (auto simp: traced_DeleteA traced_DeleteCNAME traced_CNAMEToA dest!: balanced_cases)

subsection \<open>The log changes nothing\<close>

interpretation erased: world_map "traced cl" cl fst for cl
  by unfold_locales (auto simp: traced_def split: Option.bind_splits)

lemma erase_pass:
  "processIPGroups cl gord ord groups st (fst w) =
     map_option (map_prod id fst) (processIPGroups (traced cl) gord ord groups st w)"
  by (rule erased.pass_map)

subsection \<open>The books balance\<close>

text \<open>C4. The controller never leaks a reservation. Over a pass, each address reserved in the IPAM
  system either has an A record granted and is not released, or has none granted and is released
  exactly once (with the view and CIDR it was reserved from) before the next reservation and before
  any deletion; A records are requested only for the address that is reserved at that moment; and
  the logged run is the run of the pass itself. What counts as using an address is a granted A
  record: when the A record is refused, the address is released even if other hosts have been stored
  there with CNAMEs.\<close>

theorem pass_ledger:
  assumes "processIPGroups (traced cl) gord ord groups st (w, l) = Some (st', (w', l'))"
    and "balanced (ledger_of l)"
  shows "balanced (ledger_of l') \<and> processIPGroups cl gord ord groups st w = Some (st', w')"
proof -
  from assms(1) obtain a where
      a: "alloc_groups (traced cl) ord groups (gord GroupsRange (fmdom groups)) (alloc_start st (w, l)) = Some a"
      and s: "sweep_store (traced cl) ord (GetAllHosts groups (gord AllHostsRange (fmdom groups)))
        (lStore a) (lWorld a) = Some (st', (w', l'))"
    by (auto simp: processIPGroups_def bind_Some)
  have "balanced (ledger_of (snd (lWorld a)))"
    by (rule alloc_groups_balanced [OF a]) (simp add: assms(2))
  then have "balanced (ledger_of l')"
    using sweep_store_world [OF traced_sweep_balanced s] by simp
  moreover have "processIPGroups cl gord ord groups st w = Some (st', w')"
    using erase_pass [of cl gord ord groups st "(w, l)"] assms(1) by simp
  ultimately show ?thesis ..
qed

theorem pass_ledger_witness:
  "\<exists>st' w' l'. processIPGroups (traced counter_client) ascending ascending demo_groups demo_store (0, []) =
       Some (st', (w', l')) \<and> balanced (ledger_of l') \<and> l' \<noteq> []"
proof -
  let ?run = "processIPGroups (traced counter_client) ascending ascending demo_groups demo_store (0, [])"
  have "(case ?run of None \<Rightarrow> False | Some r \<Rightarrow> snd (snd r) \<noteq> [])" by code_simp
  then obtain st' w' l' where "?run = Some (st', (w', l'))" "l' \<noteq> []"
    by (auto split: option.splits)
  then show ?thesis using pass_ledger [of counter_client ascending ascending demo_groups demo_store 0 "[]" st' w' l']
    by (simp add: ledger_of_def)
qed

subsection \<open>A settled store\<close>

fun is_reservation :: "call \<Rightarrow> bool" where
  "is_reservation (CallGetNextAddr _ _ _) = True"
| "is_reservation (CallReleaseAddr _ _ _) = True"
| "is_reservation _ = False"

lemma traced_contract:
  assumes "client_contract cl"
  shows "client_contract (traced cl)"
proof -
  have "newA = (if err = None then hd avail else '''')"
    if "avail \<noteq> []" "iCNAMEToA (traced cl) avail d ip nv c w = Some ((newA, err), w')"
    for avail d ip nv c w newA err w'
  proof -
    from that(2) have "iCNAMEToA cl avail d ip nv c (fst w) = Some ((newA, err), fst w')"
      by (cases w) (auto simp: traced_def bind_Some)
    with that(1) show ?thesis by (rule ipam_client.CNAMEToA_result [OF ipam_client.intro [OF assms]])
  qed
  moreover have "store_wf st" if "iGetRecords (traced cl) w = Some (st, w')" for w st w'
  proof -
    from that have "iGetRecords cl (fst w) = Some (st, fst w')"
      by (cases w) (auto simp: traced_def bind_Some)
    then show ?thesis by (rule ipam_client.GetRecords_wf [OF ipam_client.intro [OF assms]])
  qed
  ultimately show ?thesis unfolding client_contract_def by blast
qed

lemma alloc_groups_still_log:
  assumes "alloc_groups (traced cl) ord groups gKeys s = Some s'" and "fair_range ord"
    and "store_sound (lStore s)" and "\<forall>h \<in> all_hosts groups. stored (lStore s) h"
    and "list_all is_reservation (snd (lWorld s))"
  shows "lStore s' = lStore s \<and> list_all is_reservation (snd (lWorld s'))"
proof (rule alloc_groups_rule [where P = "\<lambda>t. lStore t = lStore s \<and> list_all is_reservation (snd (lWorld t))"
      and Q = "\<lambda>t. lStore t = lStore s \<and> list_all is_reservation (snd (lWorld t))",
      OF _ _ _ _ assms(1)])
  show "host_keeps (traced cl) ord (all_hosts groups)
    (\<lambda>t. lStore t = lStore s \<and> list_all is_reservation (snd (lWorld t)))"
  proof (rule host_keepsI)
    fix i h t t'
    assume h: "h \<in> all_hosts groups" and t: "lStore t = lStore s \<and> list_all is_reservation (snd (lWorld t))"
      and run: "alloc_host (traced cl) ord i h t = Some t'"
    have "stored (lStore t) h" using assms(4) h t by simp
    then have "GetIP (lStore t) h (ord x (fmdom (Records (lStore t)))) \<noteq> ''''" for x
      using store_sound_GetIP(1) [OF _ assms(2)] assms(3) t by simp
    with run t show "lStore t' = lStore s \<and> list_all is_reservation (snd (lWorld t'))"
      by (cases rule: alloc_host_cases) auto
  qed
next
  fix nv c t t'
  assume t: "lStore t = lStore s \<and> list_all is_reservation (snd (lWorld t))"
    and r: "reserve (traced cl) nv c t = Some t'"
  show "lStore t' = lStore s \<and> list_all is_reservation (snd (lWorld t'))"
    using t reserve_fields(1) [OF r] traced_GetNextAddr [OF reserve_fields(7) [OF r]] by simp
next
  fix t t'
  assume t: "lStore t = lStore s \<and> list_all is_reservation (snd (lWorld t))"
    and r: "release_unused (traced cl) t = Some t'"
  then show "lStore t' = lStore s \<and> list_all is_reservation (snd (lWorld t'))"
    by (auto simp: release_unused_def bind_Some dest!: traced_Release split: if_splits)
qed (use assms(5) in auto)

text \<open>C31. A settled store stays: when it holds exactly the listed hosts, each at one address, a
  pass changes nothing in it and asks the IPAM system for nothing but reservations and releases;
  no record is created, promoted or deleted, whatever the system answers and in whatever order
  the loops run.\<close>

theorem pass_settled:
  assumes "client_contract cl" and "fair_range gord" and "fair_range ord"
    and "processIPGroups (traced cl) gord ord groups st (w, []) = Some (st', (w', l))"
    and "store_sound st" and "\<forall>h. stored st h \<longleftrightarrow> h \<in> all_hosts groups"
  shows "st' = st \<and> list_all is_reservation l"
  using assms(4,2)
proof (rule pass_split)
  fix a G
  assume a: "alloc_groups (traced cl) ord groups (gord GroupsRange (fmdom groups)) (alloc_start st (w, [])) = Some a"
    and G: "set G = all_hosts groups"
    and s: "sweep_store (traced cl) ord G (lStore a) (lWorld a) = Some (st', (w', l))"
  have "lStore a = st \<and> list_all is_reservation (snd (lWorld a))"
    using alloc_groups_still_log [OF a assms(3)] assms(5,6) by simp
  moreover from this have "st' = lStore a \<and> (w', l) = lWorld a"
    using sweeping.sweep_store_still [OF sweepingI [OF traced_contract [OF assms(1)] assms(3)] s]
      assms(6) G by simp
  ultimately show ?thesis by (metis snd_conv)
qed

text \<open>The store a first pass over the demonstration groups produces is settled.\<close>

lemma demo_settled:
  obtains st where "store_sound st" and "\<forall>h. stored st h \<longleftrightarrow> h \<in> all_hosts demo_groups" and "store_wf st"
proof -
  obtain st' w' where run:
      "processIPGroups (strict counter_client) ascending ascending demo_groups NewStore 0 = Some (st', w')"
    unfolding counter_strict
    using pass_returns [OF counter_client_contract fair_ascending fair_ascending
        counter_client_never_panics store_wf_New] by blast
  have "store_sound NewStore"
    by (simp add: store_sound_def hosts_unique_iff stored_at_def entry_NewStore)
       (simp add: NewStore_def)
  then have "store_sound st'"
    using pass_sound [OF counter_client_contract fair_ascending fair_ascending _
        counter_client_yields counter_client_promotes] run store_wf_New by (simp add: counter_strict)
  moreover note pass_stored_listed [OF counter_client_contract fair_ascending fair_ascending
      run [unfolded counter_strict]]
    and pass_listed_stored [OF counter_client_contract fair_ascending fair_ascending
      run [unfolded counter_strict] counter_client_grants]
    and pass_wf [OF counter_client_contract fair_ascending fair_ascending
      run [unfolded counter_strict] store_wf_New]
  ultimately show thesis using that counter_client_promotes by blast
qed

theorem pass_settled_witness:
  "\<exists>st w' l. processIPGroups (traced counter_client) ascending ascending demo_groups st (7, []) =
     Some (st, (w', l)) \<and> stored st ''a.com'' \<and> list_all is_reservation l"
proof -
  obtain st where st: "store_sound st" "\<forall>h. stored st h \<longleftrightarrow> h \<in> all_hosts demo_groups" "store_wf st"
    by (rule demo_settled)
  have "never_panics (traced counter_client)"
    by (auto simp: never_panics_def traced_def counter_client_def)
  then obtain st' w' l where run:
      "processIPGroups (traced counter_client) ascending ascending demo_groups st (7, []) = Some (st', (w', l))"
    using pass_returns [OF traced_contract [OF counter_client_contract] fair_ascending fair_ascending _ st(3)]
    by (metis surj_pair)
  then show ?thesis
    using pass_settled [OF counter_client_contract fair_ascending fair_ascending run st(1,2)] run
      st(2) demo_hosts by blast
qed

end
