(* ===== verification/Allocation_Properties.thy ===== *)
theory Allocation_Properties
  imports Address_Ledger
begin

section \<open>How groups share addresses\<close>

text \<open>
  The contract of the allocation loop for one group: the hosts of a named group share one
  reserved address. And its limit: what the loop does when the IPAM system refuses the A record
  that the other hosts' CNAMEs are to point to.
\<close>

lemma GetIP_stored:
  "GetIP st h ips \<noteq> '''' \<Longrightarrow> stored_at st h (GetIP st h ips)"
  by (auto simp: GetIP_holder split: option.splits dest: holder_Some)

text \<open>All hosts visited so far are at the reserved address only.\<close>

definition all_at_next :: "string set \<Rightarrow> 'w alloc \<Rightarrow> bool" where
  "all_at_next H s \<longleftrightarrow> lCurAddr s = lNextAddr s \<and>
     (\<forall>h \<in> H. \<forall>ip. stored_at (lStore s) h ip \<longrightarrow> ip = lNextAddr s)"

lemma all_at_next_keeps:
  assumes "fair_range ord"
  shows "host_keeps cl ord H (all_at_next H)"
proof (rule host_keepsI)
  fix i h s s'
  assume h: "h \<in> H" and q: "all_at_next H s" and run: "alloc_host cl ord i h s = Some s'"
  note frame = alloc_host_frame [OF run]
  from run show "all_at_next H s'"
  proof (cases rule: alloc_host_cases)
    case known
    let ?ips = "ord (UseIP (visits s)) (fmdom (Records (lStore s)))"
    have "stored (lStore s) h" using GetIP_stored [OF known(1)] by (auto simp: stored_iff)
    then obtain ip where ip: "holder (lStore s) h ?ips = Some ip"
      using holder_enum_None [OF fair_enumerates [OF assms]] by blast
    then have "ip = lNextAddr s" using q h holder_Some [OF ip] by (auto simp: all_at_next_def)
    with ip have "lCurAddr s' = lNextAddr s" by (simp add: known(5) GetIP_holder)
    with q known(2) frame show ?thesis by (simp add: all_at_next_def)
  qed (use q h frame in \<open>auto simp: all_at_next_def stored_at_def entry_AddRecord split: if_splits\<close>)
qed

text \<open>C19. A named group shares one address: when none of its hosts is in the store yet and the
  IPAM system refuses no A record, all hosts of all its resources end at the one address that
  was reserved for the group, in the group's view and CIDR, and at no other.\<close>

theorem shared_group_one_address:
  assumes "fair_range ord" and "gkName gKey \<noteq> ''''"
    and "alloc_group (strict cl) ord gKey specs s = Some s'"
    and "\<And>h. h \<in> spec_hosts specs \<Longrightarrow> \<not> stored (lStore s) h"
  shows "\<exists>addr w. iGetNextAddr cl (gkNetview gKey) (gkCidr gKey) (lWorld s) = Some (addr, w) \<and>
    (\<forall>h \<in> spec_hosts specs. \<forall>ip. stored_at (lStore s') h ip \<longleftrightarrow> ip = addr)"
proof -
  let ?s = "s\<lparr>lFirstHost := '''', lUniqueIP := False\<rparr>"
  from assms(2,3) obtain r t where
      r: "reserve (strict cl) (gkNetview gKey) (gkCidr gKey) ?s = Some r"
      and t: "alloc_specs (strict cl) ord specs r = Some t"
      and l: "(if \<not> lUniqueIP t then release_unused (strict cl) t else Some t) = Some s'"
    by (auto simp: alloc_group_def bind_Some)
  note f = reserve_fields [OF r]
  have u: "\<not> lUniqueIP r" using reserve_unique [OF r] by simp
  have start: "all_at_next (spec_hosts specs) r"
    using f(1,5) assms(4) by (auto simp: all_at_next_def stored_iff)
  have q: "all_at_next (spec_hosts specs) t"
    using t u start all_at_next_keeps [OF assms(1)] by (rule alloc_specs_shared_rule)
  have next': "lNextAddr t = lNextAddr r"
  proof -
    have k: "host_keeps (strict cl) ord (spec_hosts specs) (\<lambda>x. lNextAddr x = lNextAddr r)"
      by (rule host_keepsI) (simp add: alloc_host_frame)
    show ?thesis by (rule alloc_specs_shared_rule [where Q = "\<lambda>x. lNextAddr x = lNextAddr r", OF t u refl k])
  qed
  have st: "lStore s' = lStore t" using l by (auto dest: release_fields(1) split: if_splits)
  have "stored_at (lStore s') h ip \<longleftrightarrow> ip = lNextAddr r" if h: "h \<in> spec_hosts specs" for h ip
  proof -
    have "stored (lStore t) h" by (rule alloc_specs_cover [OF strict_grants assms(1) t h])
    with q h show ?thesis unfolding st next' [symmetric] by (auto simp: all_at_next_def stored_iff)
  qed
  moreover have "iGetNextAddr cl (gkNetview gKey) (gkCidr gKey) (lWorld s) = Some (lNextAddr r, lWorld r)"
    using f(7) by (simp add: strict_def)
  ultimately show ?thesis by blast
qed

definition demo_shared :: GroupKey where
  "demo_shared = \<lparr>gkName = ''shared'', gkNetview = ''default'', gkCidr = ''10.0.0.0/8''\<rparr>"

definition demo_spec :: "string list \<Rightarrow> Spec" where
  "demo_spec hosts = \<lparr>Kind = ''ConfigMap'', Name = ''vs'', Namespace = ''ns'', Hosts = hosts,
     Netview = ''default'', Cidr = ''10.0.0.0/8''\<rparr>"

theorem shared_group_one_address_witness:
  "\<exists>s'. alloc_group counter_client ascending demo_shared [demo_spec [''a'', ''b''], demo_spec [''c'']]
     (alloc_start NewStore 0) = Some s' \<and>
     stored_at (lStore s') ''a'' ''1'' \<and> stored_at (lStore s') ''c'' ''1''"
proof -
  let ?specs = "[demo_spec [''a'', ''b''], demo_spec [''c'']]"
  obtain s' where run: "alloc_group (strict counter_client) ascending demo_shared ?specs
      (alloc_start NewStore 0) = Some s'"
    unfolding counter_strict using alloc_group_returns [OF counter_client_never_panics] by blast
  have name: "gkName demo_shared \<noteq> ''''" by (simp add: demo_shared_def)
  have "\<not> stored (lStore (alloc_start NewStore 0)) h" for h
    by (simp add: stored_iff stored_at_def entry_NewStore)
  from shared_group_one_address [OF fair_ascending name run this]
  have "\<forall>h \<in> spec_hosts ?specs. \<forall>ip. stored_at (lStore s') h ip \<longleftrightarrow> ip = ''1''"
    by (auto simp: counter_client_def)
  with run show ?thesis by (auto simp: counter_strict spec_hosts_def demo_spec_def)
qed

subsection \<open>When the A record is refused\<close>

definition refuses :: "'w Client \<Rightarrow> bool" where
  "refuses cl \<longleftrightarrow> (\<forall>h ip nv w ok w'. iCreateARecord cl h ip nv w = Some (ok, w') \<longrightarrow> \<not> ok)"

lemma GetIP_unstored: "\<not> stored st h \<Longrightarrow> GetIP st h ips = ''''"
  by (cases "holder st h ips") (auto simp: GetIP_holder stored_iff dest: holder_Some)

text \<open>Refused A records leave dangling entries: for a resource of its own with two new hosts,
  when the IPAM system refuses the A record of the first, the second is still given a CNAME to
  the first and is stored at the address reserved for the resource, and that address is then
  given back to the IPAM system.\<close>

lemma refused_A_dangles:
  assumes "refuses cl" and "Hosts spec = [h, h']" and "h \<noteq> h'"
    and "\<not> stored (lStore s) h" and "\<not> stored (lStore s) h'" and "lUniqueIP s"
    and "alloc_spec (traced cl) ord spec s = Some s'"
  shows "\<exists>addr. entry (lStore s') addr h' = Some recCNAME \<and> \<not> stored (lStore s') h \<and>
    last (snd (lWorld s')) = CallReleaseAddr (Netview spec) (Cidr spec) addr"
proof -
  from assms(6,7) obtain r t where r: "reserve (traced cl) (Netview spec) (Cidr spec) s = Some r"
      and t: "alloc_hosts (traced cl) ord 0 (Hosts spec) r = Some t"
      and l: "(if lUniqueIP t then release_unused (traced cl) t else Some t) = Some s'"
    by (auto simp: alloc_spec_def bind_Some)
  note f = reserve_fields [OF r]
  from t assms(2) obtain r1 where r1: "alloc_host (traced cl) ord 0 h r = Some r1"
      and t': "alloc_host (traced cl) ord (Suc 0) h' r1 = Some t"
    by (auto simp: bind_Some)
  have ur: "lUniqueIP r" using reserve_unique [OF r] assms(6) by simp
  have first: "lFirstHost r1 = h" using alloc_host_first [OF r1] ur by simp
  have ref: "\<not> ok" if "iCreateARecord (traced cl) a b c w = Some (ok, w')" for a b c w ok w'
  proof -
    from that have "iCreateARecord cl a b c (fst w) = Some (ok, fst w')"
      by (cases w) (auto simp: traced_def bind_Some)
    with assms(1) show ?thesis unfolding refuses_def by blast
  qed
  have step1: "lStore r1 = lStore r \<and> lCurAddr r1 = lCurAddr r \<and> \<not> lAddrUsed r1"
    using r1
  proof (cases rule: alloc_host_cases)
    case known
    with GetIP_unstored assms(4) f(1) show ?thesis by simp
  next
    case (granted w)
    with ref show ?thesis by blast
  next
    case (refused w)
    with f(2) show ?thesis by simp
  next
    case (cname w)
    with first show ?thesis by simp
  qed
  have first': "lFirstHost t = h" using alloc_host_first [OF t'] first by simp
  have step2: "lStore t = AddRecord (lStore r1) (lCurAddr r1) h' recCNAME (lNetview r1) (lCidr r1) \<and>
      \<not> lAddrUsed t"
    using t'
  proof (cases rule: alloc_host_cases)
    case known
    with GetIP_unstored assms(5) f(1) step1 show ?thesis by simp
  next
    case (granted w)
    with first' assms(3) show ?thesis by simp
  next
    case (refused w)
    with first' assms(3) show ?thesis by simp
  next
    case (cname w)
    with step1 show ?thesis by simp
  qed
  have ut: "lUniqueIP t" using ur alloc_host_unique [OF r1] alloc_host_unique [OF t'] by simp
  with l step2 obtain w where w: "iReleaseAddr (traced cl) (lNetview t) (lCidr t) (lNextAddr t) (lWorld t) = Some w"
      and s': "s' = t\<lparr>lWorld := w\<rparr>"
    by (auto simp: release_unused_def bind_Some)
  have frame: "lNetview t = Netview spec" "lCidr t = Cidr spec" "lNextAddr t = lNextAddr r"
    using alloc_host_frame [OF r1] alloc_host_frame [OF t'] f(3,4) by simp_all
  have "last (snd w) = CallReleaseAddr (Netview spec) (Cidr spec) (lNextAddr r)"
    using traced_Release [OF w] frame by simp
  moreover have "entry (lStore s') (lNextAddr r) h' = Some recCNAME"
    using step1 step2 f(1,5) assms(5) by (auto simp: s' entry_AddRecord stored_iff stored_at_def)
  moreover have "\<not> stored (lStore s') h"
    using step1 step2 f(1) assms(3,4) by (simp add: s' stored_AddRecord)
  ultimately show ?thesis by (intro exI [of _ "lNextAddr r"]) (simp add: s')
qed

definition refusing_client :: "nat Client" where
  "refusing_client = counter_client\<lparr>iCreateARecord := (\<lambda>h ip nv w. Some (False, w))\<rparr>"

end
