(* ===== verification/Controller_Run.thy ===== *)
theory Controller_Run
  imports Controller_Pass
begin

section \<open>The controller's event loop\<close>

text \<open>
  The state of the controller between two events, the handlers of its select loop, and the step
  relation of a run. The orchestration client is reduced to the one method the loop calls,
  \<open>AnnotateResources\<close>, which is an argument. What gob makes of a message is part of the event:
  the decoded groups, or, when decoding fails, what it had put into the map by then.
\<close>

record ('w, 'o) Controller =
  iClient :: 'w
  oClient :: 'o
  ctlrStore :: Store
  ipGroups :: IPGroups

definition NewController :: "'o \<Rightarrow> 'w \<Rightarrow> ('w, 'o) Controller" where
  "NewController o' w = \<lparr>iClient = w, oClient = o', ctlrStore = NewStore, ipGroups = fmempty\<rparr>"

definition refreshStore ::
    "'w Client \<Rightarrow> ('w, 'o) Controller \<Rightarrow> (bool \<times> ('w, 'o) Controller) option" where
  "refreshStore cl c = do {
     (ipamStore, w) \<leftarrow> iGetRecords cl (iClient c);
     if ctlrStore c \<noteq> ipamStore
     then Some (True, c\<lparr>iClient := w, ctlrStore := ipamStore\<rparr>)
     else Some (False, c\<lparr>iClient := w\<rparr>)
   }"

type_synonym 'o annotate = "string \<Rightarrow> string list \<Rightarrow> 'o \<Rightarrow> 'o option"

fun write_hosts ::
    "'o annotate \<Rightarrow> (site \<Rightarrow> string fset \<Rightarrow> string list) \<Rightarrow> Store \<Rightarrow> string list \<Rightarrow> 'o \<Rightarrow> 'o option" where
  "write_hosts annot ord st [] o' = Some o'"
| "write_hosts annot ord st (ip # ips) o' =
     (case fmlookup (Records st) ip of
        None \<Rightarrow> write_hosts annot ord st ips o'
      | Some rec \<Rightarrow> do {
          o'' \<leftarrow> annot ip (mapKeys (ord (WriteKeys ip)) rec) o';
          write_hosts annot ord st ips o''
        })"

definition writeIPHosts ::
    "'o annotate \<Rightarrow> (site \<Rightarrow> string fset \<Rightarrow> string list) \<Rightarrow> ('w, 'o) Controller \<Rightarrow>
     ('w, 'o) Controller option" where
  "writeIPHosts annot ord c = do {
     o' \<leftarrow> write_hosts annot ord (ctlrStore c) (ord WriteRange (fmdom (Records (ctlrStore c)))) (oClient c);
     Some (c\<lparr>oClient := o'\<rparr>)
   }"

definition process ::
    "'w Client \<Rightarrow> (gsite \<Rightarrow> GroupKey fset \<Rightarrow> GroupKey list) \<Rightarrow> (site \<Rightarrow> string fset \<Rightarrow> string list) \<Rightarrow>
     ('w, 'o) Controller \<Rightarrow> ('w, 'o) Controller option" where
  "process cl gord ord c = do {
     (st, w) \<leftarrow> processIPGroups cl gord ord (ipGroups c) (ctlrStore c) (iClient c);
     Some (c\<lparr>ctlrStore := st, iClient := w\<rparr>)
   }"

datatype event = Message IPGroups | Undecodable IPGroups | Tick

text \<open>One turn of the loop. A tick happens only when the verify interval is not 0.\<close>

definition handle ::
    "'w Client \<Rightarrow> 'o annotate \<Rightarrow> (gsite \<Rightarrow> GroupKey fset \<Rightarrow> GroupKey list) \<Rightarrow>
     (site \<Rightarrow> string fset \<Rightarrow> string list) \<Rightarrow> event \<Rightarrow> ('w, 'o) Controller \<Rightarrow> ('w, 'o) Controller option" where
  "handle cl annot gord ord ev c =
     (case ev of
        Message groups \<Rightarrow> do {
          c1 \<leftarrow> process cl gord ord (c\<lparr>ipGroups := groups\<rparr>);
          writeIPHosts annot ord c1
        }
      | Undecodable partial \<Rightarrow> Some (c\<lparr>ipGroups := partial\<rparr>)
      | Tick \<Rightarrow> do {
          (changed, c1) \<leftarrow> refreshStore cl c;
          if changed then process cl gord ord c1 else Some c1
        })"

definition Run_start :: "'w Client \<Rightarrow> ('o \<Rightarrow> 'o) \<Rightarrow> ('w, 'o) Controller \<Rightarrow> ('w, 'o) Controller option" where
  "Run_start cl startOrch c = do {
     (changed, c1) \<leftarrow> refreshStore cl c;
     Some (c1\<lparr>oClient := startOrch (oClient c1)\<rparr>)
   }"

subsection \<open>Runs\<close>

inductive ctl_step ::
    "'w Client \<Rightarrow> 'o annotate \<Rightarrow> nat \<Rightarrow> ('w, 'o) Controller \<Rightarrow> event \<Rightarrow> ('w, 'o) Controller \<Rightarrow> bool"
  for cl annot vInterval where
  "fair_range gord \<Longrightarrow> fair_range ord \<Longrightarrow> ev = Tick \<longrightarrow> vInterval \<noteq> 0 \<Longrightarrow>
     handle cl annot gord ord ev c = Some c' \<Longrightarrow> ctl_step cl annot vInterval c ev c'"

inductive_cases ctl_stepE: "ctl_step cl annot vInterval c ev c'"

lemma step_handle:
  assumes "ctl_step cl annot vInterval c ev c'"
  obtains gord ord where "fair_range gord" "fair_range ord" "ev = Tick \<longrightarrow> vInterval \<noteq> 0"
    "handle cl annot gord ord ev c = Some c'"
  using assms by (auto elim: ctl_stepE)

inductive ctl_run ::
    "'w Client \<Rightarrow> 'o annotate \<Rightarrow> nat \<Rightarrow> ('w, 'o) Controller \<Rightarrow> event list \<Rightarrow> ('w, 'o) Controller \<Rightarrow> bool"
  for cl annot vInterval where
  start: "Run_start cl startOrch (NewController o' w) = Some c \<Longrightarrow> ctl_run cl annot vInterval c [] c"
| step: "ctl_run cl annot vInterval c evs c1 \<Longrightarrow> ctl_step cl annot vInterval c1 ev c2 \<Longrightarrow>
     ctl_run cl annot vInterval c (evs @ [ev]) c2"

lemma refreshStore_cases:
  assumes "refreshStore cl c = Some (changed, c')"
  obtains st w where "iGetRecords cl (iClient c) = Some (st, w)" "changed \<longleftrightarrow> ctlrStore c \<noteq> st"
    "c' = c\<lparr>iClient := w, ctlrStore := st\<rparr>"
  using assms by (auto simp: refreshStore_def bind_Some split: if_splits)

lemma write_keeps:
  "writeIPHosts annot ord c = Some c' \<Longrightarrow> ctlrStore c' = ctlrStore c \<and> ipGroups c' = ipGroups c"
  by (auto simp: writeIPHosts_def bind_Some)

lemma process_cases:
  assumes "process cl gord ord c = Some c'"
  obtains st w where "processIPGroups cl gord ord (ipGroups c) (ctlrStore c) (iClient c) = Some (st, w)"
    "c' = c\<lparr>ctlrStore := st, iClient := w\<rparr>"
  using assms by (auto simp: process_def bind_Some)

subsection \<open>What every run keeps\<close>

lemma step_wf:
  assumes "client_contract cl" and "ctl_step cl annot vInterval c ev c'" and "store_wf (ctlrStore c)"
  shows "store_wf (ctlrStore c')"
  using assms(2)
proof (rule step_handle)
  fix gord ord
  assume fair: "fair_range gord" "fair_range ord" and run: "handle cl annot gord ord ev c = Some c'"
  note wf = pass_wf [OF assms(1) fair]
  show ?thesis
  proof (cases ev)
    case (Message groups)
    with run obtain c1 where "process cl gord ord (c\<lparr>ipGroups := groups\<rparr>) = Some c1"
        and w: "writeIPHosts annot ord c1 = Some c'"
      by (auto simp: handle_def bind_Some)
    then have "store_wf (ctlrStore c1)" using wf assms(3) by (auto elim!: process_cases)
    with write_keeps [OF w] show ?thesis by simp
  next
    case (Undecodable partial)
    with run assms(3) show ?thesis by (auto simp: handle_def)
  next
    case Tick
    with run obtain changed c1 where r: "refreshStore cl c = Some (changed, c1)"
        and p: "(if changed then process cl gord ord c1 else Some c1) = Some c'"
      by (auto simp: handle_def bind_Some)
    have "store_wf (ctlrStore c1)"
      using r by (rule refreshStore_cases)
         (simp add: ipam_client.GetRecords_wf [OF ipam_client.intro [OF assms(1)]])
    then show ?thesis using p wf by (auto elim!: process_cases split: if_splits)
  qed
qed

lemma run_wf:
  assumes "client_contract cl" and "ctl_run cl annot vInterval c evs c'"
  shows "store_wf (ctlrStore c')"
  using assms(2)
proof (induction rule: ctl_run.induct)
  case (start startOrch o' w c)
  then obtain changed c1 where r: "refreshStore cl (NewController o' w) = Some (changed, c1)"
      and c: "c = c1\<lparr>oClient := startOrch (oClient c1)\<rparr>"
    by (auto simp: Run_start_def bind_Some)
  show ?case
    using r by (rule refreshStore_cases)
       (simp add: c ipam_client.GetRecords_wf [OF ipam_client.intro [OF assms(1)]])
next
  case (step c evs c1 ev c2)
  then show ?case using step_wf [OF assms(1)] by blast
qed

text \<open>The groups the controller works with are those of the last event that brought some.\<close>

fun new_groups :: "event \<Rightarrow> IPGroups \<Rightarrow> IPGroups" where
  "new_groups (Message g) old = g"
| "new_groups (Undecodable g) old = g"
| "new_groups Tick old = old"

definition last_groups :: "event list \<Rightarrow> IPGroups" where
  "last_groups evs = foldl (\<lambda>g ev. new_groups ev g) fmempty evs"

lemma last_groups_snoc [simp]: "last_groups (evs @ [ev]) = new_groups ev (last_groups evs)"
  by (simp add: last_groups_def)

lemma step_groups:
  assumes "ctl_step cl annot vInterval c ev c'"
  shows "ipGroups c' = new_groups ev (ipGroups c)"
  using assms
proof (rule step_handle)
  fix gord ord assume run: "handle cl annot gord ord ev c = Some c'"
  show ?thesis
  proof (cases ev)
    case (Message groups)
    with run obtain c1 where "process cl gord ord (c\<lparr>ipGroups := groups\<rparr>) = Some c1"
        and w: "writeIPHosts annot ord c1 = Some c'"
      by (auto simp: handle_def bind_Some)
    then show ?thesis using Message write_keeps [OF w] by (auto elim!: process_cases)
  next
    case (Undecodable partial)
    with run show ?thesis by (auto simp: handle_def)
  next
    case Tick
    with run obtain changed c1 where "refreshStore cl c = Some (changed, c1)"
        and "(if changed then process cl gord ord c1 else Some c1) = Some c'"
      by (auto simp: handle_def bind_Some)
    with Tick show ?thesis by (auto elim!: process_cases refreshStore_cases split: if_splits)
  qed
qed

lemma run_groups: "ctl_run cl annot vInterval c evs c' \<Longrightarrow> ipGroups c' = last_groups evs"
proof (induction rule: ctl_run.induct)
  case (start startOrch o' w c)
  then show ?case
    by (auto simp: Run_start_def bind_Some NewController_def last_groups_def elim!: refreshStore_cases)
next
  case (step c evs c1 ev c2)
  show ?case using step_groups [OF step.hyps(2)] step.IH by simp
qed

text \<open>A tick either finds the records unchanged or runs a pass over what the IPAM system has.\<close>

lemma tick_cases:
  assumes "ctl_step cl annot vInterval c Tick c'"
  obtains (same) w where "iGetRecords cl (iClient c) = Some (ctlrStore c, w)" "c' = c\<lparr>iClient := w\<rparr>"
      "vInterval \<noteq> 0"
  | (changed) gord ord st w st' w' where "fair_range gord" "fair_range ord" "vInterval \<noteq> 0"
      "iGetRecords cl (iClient c) = Some (st, w)" "st \<noteq> ctlrStore c"
      "processIPGroups cl gord ord (ipGroups c) st w = Some (st', w')"
      "c' = c\<lparr>ctlrStore := st', iClient := w'\<rparr>"
  using assms
proof (rule step_handle)
  fix gord ord
  assume fair: "fair_range gord" "fair_range ord" and v: "Tick = Tick \<longrightarrow> vInterval \<noteq> 0"
    and run: "handle cl annot gord ord Tick c = Some c'"
  from run obtain ch c1 where r: "refreshStore cl c = Some (ch, c1)"
      and p: "(if ch then process cl gord ord c1 else Some c1) = Some c'"
    by (auto simp: handle_def bind_Some)
  from r obtain st w where g: "iGetRecords cl (iClient c) = Some (st, w)" "ch \<longleftrightarrow> ctlrStore c \<noteq> st"
      "c1 = c\<lparr>iClient := w, ctlrStore := st\<rparr>"
    by (rule refreshStore_cases)
  show thesis
  proof (cases ch)
    case False
    with g p v show ?thesis by (intro same) auto
  next
    case True
    with p obtain st' w' where "processIPGroups cl gord ord (ipGroups c1) (ctlrStore c1) (iClient c1) = Some (st', w')"
        "c' = c1\<lparr>ctlrStore := st', iClient := w'\<rparr>"
      by (auto elim: process_cases)
    with True g v fair show ?thesis by (intro changed) auto
  qed
qed

subsection \<open>The properties of a run\<close>

text \<open>C29. In every run of the controller, started with any IPAM system and driven by any sequence
  of messages, undecodable messages and ticks, the store is well-formed: its three maps have the
  same addresses, and no address is without a host.\<close>

theorem run_store_wf:
  assumes "client_contract cl" and "ctl_run cl annot vInterval c evs c'"
  shows "store_wf (ctlrStore c')"
  by (rule run_wf [OF assms])

text \<open>After a message the controller follows it: of the hosts in the store, none but the empty
  name is missing from the message's groups, and a listed host that had an address before the
  message still has it.\<close>

lemma message_followed:
  assumes "client_contract cl" and "ctl_step cl annot vInterval c (Message groups) c'"
  shows "(stored (ctlrStore c') h \<longrightarrow> h \<noteq> '''' \<longrightarrow> h \<in> all_hosts groups) \<and>
         (h \<in> all_hosts groups \<longrightarrow> stored_at (ctlrStore c) h ip \<longrightarrow> stored_at (ctlrStore c') h ip)"
  using assms(2)
proof (rule step_handle)
  fix gord ord
  assume fair: "fair_range gord" "fair_range ord" and run: "handle cl annot gord ord (Message groups) c = Some c'"
  from run obtain c1 where p: "process cl gord ord (c\<lparr>ipGroups := groups\<rparr>) = Some c1"
      and w: "writeIPHosts annot ord c1 = Some c'"
    by (auto simp: handle_def bind_Some)
  from p obtain st w where "processIPGroups cl gord ord groups (ctlrStore c) (iClient c) = Some (st, w)"
      and "ctlrStore c' = st"
    using write_keeps [OF w] by (auto elim!: process_cases)
  then show ?thesis
    using pass_stored_listed [OF assms(1) fair] pass_keeps [OF assms(1) fair] by blast
qed

subsection \<open>Writing the addresses back\<close>

text \<open>An orchestration client that records what it is asked to annotate.\<close>

definition record_annotate :: "(string \<times> string list) list annotate" where
  "record_annotate ip hosts log = Some (log @ [(ip, hosts)])"

lemma write_hosts_log:
  "write_hosts record_annotate ord st ips log =
     Some (log @ concat (map (\<lambda>ip. case fmlookup (Records st) ip of None \<Rightarrow> []
        | Some rec \<Rightarrow> [(ip, ord (WriteKeys ip) (fmdom rec))]) ips))"
  by (induction ips arbitrary: log)
     (auto simp: record_annotate_def mapKeys_def split: option.splits)

text \<open>\<open>writeIPHosts\<close> reports the store faithfully: every address exactly once, and with it
  exactly the hosts that the store has at the address, each once.\<close>

lemma write_back_exact:
  assumes "fair_range ord" and "writeIPHosts record_annotate ord (c\<lparr>oClient := []\<rparr>) = Some c'"
  shows "distinct (map fst (oClient c')) \<and>
         (\<forall>ip h. (\<exists>hosts. (ip, hosts) \<in> set (oClient c') \<and> h \<in> set hosts \<and> distinct hosts) \<longleftrightarrow>
            stored_at (ctlrStore c) h ip)"
proof -
  let ?R = "Records (ctlrStore c)"
  let ?one = "\<lambda>ip. case fmlookup ?R ip of None \<Rightarrow> [] | Some rec \<Rightarrow> [(ip, ord (WriteKeys ip) (fmdom rec))]"
  let ?ips = "ord WriteRange (fmdom ?R)"
  have log: "oClient c' = concat (map ?one ?ips)"
    using assms(2) by (auto simp: writeIPHosts_def write_hosts_log)
  have ips: "distinct ?ips" "set ?ips = keys ?R" using assms(1) by (simp_all add: fair_range_def)
  have "map fst (concat (map ?one ips)) = filter (\<lambda>ip. ip \<in> keys ?R) ips" for ips
    by (induction ips) (auto simp: keys_iff split: option.splits)
  then have "distinct (map fst (oClient c'))" using ips(1) by (simp add: log)
  moreover have "(\<exists>hosts. (ip, hosts) \<in> set (oClient c') \<and> h \<in> set hosts \<and> distinct hosts) \<longleftrightarrow>
      stored_at (ctlrStore c) h ip" for ip h
  proof -
    have mem: "(ip, hosts) \<in> set (oClient c') \<longleftrightarrow>
        (\<exists>rec. fmlookup ?R ip = Some rec \<and> hosts = ord (WriteKeys ip) (fmdom rec))" for hosts
    proof -
      have "(ip, hosts) \<in> set (oClient c') \<longleftrightarrow> (\<exists>k \<in> keys ?R. (ip, hosts) \<in> set (?one k))"
        using ips(2) by (simp add: log)
      also have "\<dots> \<longleftrightarrow> (\<exists>rec. fmlookup ?R ip = Some rec \<and> hosts = ord (WriteKeys ip) (fmdom rec))"
        by (force simp: keys_iff split: option.splits)
      finally show ?thesis .
    qed
    show ?thesis unfolding mem
      using assms(1) by (auto simp: fair_range_def stored_at_def entry_def fmlookup_dom'_iff split: option.splits)
  qed
  ultimately show ?thesis by blast
qed

subsection \<open>A run to witness the properties\<close>

text \<open>An IPAM system whose records appear after the controller has started.\<close>

definition drifting_client :: "nat Client" where
  "drifting_client = counter_client
     \<lparr>iGetRecords := (\<lambda>w. Some (if w = 0 then NewStore else demo_store, Suc w))\<rparr>"

lemma drifting_contract: "client_contract drifting_client"
  using counter_client_contract demo_store_wf
  by (auto simp: client_contract_def drifting_client_def store_wf_New)

lemma drifting_never_panics: "never_panics drifting_client"
  using counter_client_never_panics by (auto simp: never_panics_def drifting_client_def)

definition demo_start :: "(nat, (string \<times> string list) list) Controller" where
  "demo_start = (NewController [] 0)\<lparr>iClient := 1\<rparr>"

lemma demo_start_run: "ctl_run drifting_client record_annotate 30 demo_start [] demo_start"
  by (rule ctl_run.start [where startOrch = id and o' = "[]" and w = 0])
     (simp add: Run_start_def refreshStore_def NewController_def drifting_client_def demo_start_def)

lemma demo_write: "\<exists>c'. writeIPHosts record_annotate ord c = Some c'"
  by (simp add: writeIPHosts_def write_hosts_log)

lemma demo_message:
  obtains c where "ctl_step drifting_client record_annotate 30 demo_start (Message demo_groups) c"
proof -
  let ?c = "demo_start\<lparr>ipGroups := demo_groups\<rparr>"
  obtain st w where "processIPGroups drifting_client ascending ascending demo_groups NewStore 1 = Some (st, w)"
    using pass_returns [OF drifting_contract fair_ascending fair_ascending drifting_never_panics store_wf_New]
    by blast
  then have "process drifting_client ascending ascending ?c = Some (?c\<lparr>ctlrStore := st, iClient := w\<rparr>)"
    by (simp add: process_def demo_start_def NewController_def)
  moreover obtain c' where "writeIPHosts record_annotate ascending (?c\<lparr>ctlrStore := st, iClient := w\<rparr>) = Some c'"
    using demo_write by blast
  ultimately have "handle drifting_client record_annotate ascending ascending (Message demo_groups) demo_start = Some c'"
    by (simp add: handle_def)
  then show thesis
    using that ctl_step.intros [OF fair_ascending fair_ascending] by blast
qed

theorem run_store_wf_witness:
  "\<exists>c. ctl_run drifting_client record_annotate 30 demo_start [Message demo_groups] c \<and>
     store_wf (ctlrStore c)"
proof -
  obtain c where "ctl_step drifting_client record_annotate 30 demo_start (Message demo_groups) c"
    by (rule demo_message)
  then have "ctl_run drifting_client record_annotate 30 demo_start ([] @ [Message demo_groups]) c"
    by (rule ctl_run.step [OF demo_start_run])
  with run_store_wf [OF drifting_contract this] show ?thesis by auto
qed

end
