(* ===== verification/Net_IP.thy ===== *)
theory Net_IP
  imports Prelude "HOL-Library.Word"
begin

unbundle bit_operations_syntax

section \<open>Internet addresses (Go's package net)\<close>

text \<open>
  The parts of Go's standard package net that the program calls: \<open>ParseIP\<close>, \<open>ParseCIDR\<close> and
  \<open>IPNet.Contains\<close>, as they are in Go 1.9, the release the build image installs. An address is
  a slice of 16 bytes (4 for a masked IPv4 address); nil is None. A panic of \<open>Contains\<close> on a nil
  network is the None of \<open>net_contains\<close>.
\<close>

subsection \<open>Numbers\<close>

definition char_code :: "char \<Rightarrow> int" where
  "char_code c = of_char c"

definition is_digit :: "char \<Rightarrow> bool" where
  "is_digit c \<longleftrightarrow> 48 \<le> char_code c \<and> char_code c \<le> 57"

definition big :: int where "big = 0xFFFFFF"

text \<open>Both return the number, the count of characters read, and whether that was a number.\<close>

fun dtoi_loop :: "int \<Rightarrow> nat \<Rightarrow> string \<Rightarrow> int \<times> nat \<times> bool" where
  "dtoi_loop n i [] = (if i = 0 then (0, 0, False) else (n, i, True))"
| "dtoi_loop n i (c # s) =
     (if is_digit c then
        (let n' = n * 10 + (char_code c - 48)
         in if n' \<ge> big then (big, i, False) else dtoi_loop n' (Suc i) s)
      else if i = 0 then (0, 0, False) else (n, i, True))"

definition dtoi :: "string \<Rightarrow> int \<times> nat \<times> bool" where
  "dtoi s = dtoi_loop 0 0 s"

definition hex_digit :: "char \<Rightarrow> int option" where
  "hex_digit c =
     (if is_digit c then Some (char_code c - 48)
      else if 97 \<le> char_code c \<and> char_code c \<le> 102 then Some (char_code c - 97 + 10)
      else if 65 \<le> char_code c \<and> char_code c \<le> 70 then Some (char_code c - 65 + 10)
      else None)"

fun xtoi_loop :: "int \<Rightarrow> nat \<Rightarrow> string \<Rightarrow> int \<times> nat \<times> bool" where
  "xtoi_loop n i [] = (if i = 0 then (0, i, False) else (n, i, True))"
| "xtoi_loop n i (c # s) =
     (case hex_digit c of
        Some d \<Rightarrow> (let n' = n * 16 + d in if n' \<ge> big then (0, i, False) else xtoi_loop n' (Suc i) s)
      | None \<Rightarrow> if i = 0 then (0, i, False) else (n, i, True))"

definition xtoi :: "string \<Rightarrow> int \<times> nat \<times> bool" where
  "xtoi s = xtoi_loop 0 0 s"

subsection \<open>Addresses\<close>

type_synonym IP = "8 word list"

definition v4InV6Prefix :: IP where
  "v4InV6Prefix = replicate 10 0 @ [0xFF, 0xFF]"

text \<open>The loop over the four octets; \<open>k\<close> octets are still to come.\<close>

fun parse_octets :: "nat \<Rightarrow> bool \<Rightarrow> string \<Rightarrow> (8 word list \<times> string) option" where
  "parse_octets 0 later s = Some ([], s)"
| "parse_octets (Suc k) later s =
     (if s = '''' then None
      else if later \<and> hd s \<noteq> CHR ''.'' then None
      else (let s' = (if later then tl s else s); (n, c, ok) = dtoi s'
            in if \<not> ok \<or> n > 0xFF then None
               else do {
                 (ns, rest) \<leftarrow> parse_octets k True (drop c s');
                 Some (of_int n # ns, rest)
               }))"

definition parseIPv4 :: "string \<Rightarrow> IP option" where
  "parseIPv4 s =
     (case parse_octets 4 False s of
        None \<Rightarrow> None
      | Some (ns, rest) \<Rightarrow> if rest \<noteq> '''' then None else Some (v4InV6Prefix @ ns))"

text \<open>The loop over the groups of an IPv6 address: the bytes so far, the place of the
  ellipsis, and the rest of the string.\<close>

fun v6_groups :: "nat \<Rightarrow> IP \<Rightarrow> nat option \<Rightarrow> string \<Rightarrow> (IP \<times> nat option \<times> string) option" where
  "v6_groups 0 ip ell s = Some (ip, ell, s)"
| "v6_groups (Suc k) ip ell s =
     (let (n, c, ok) = xtoi s in
      if \<not> ok \<or> n > 0xFFFF then None
      else if c < length s \<and> s ! c = CHR ''.'' then
        (if ell = None \<and> length ip \<noteq> 12 then None
         else if length ip + 4 > 16 then None
         else case parseIPv4 s of None \<Rightarrow> None | Some ip4 \<Rightarrow> Some (ip @ drop 12 ip4, ell, ''''))
      else
        (let ip' = ip @ [of_int (n div 256), of_int (n mod 256)]; s' = drop c s in
         if s' = '''' then Some (ip', ell, s')
         else if hd s' \<noteq> CHR '':'' \<or> length s' = 1 then None
         else
           (let s'' = tl s' in
            if hd s'' = CHR '':'' then
              (if ell \<noteq> None then None
               else if tl s'' = '''' then Some (ip', Some (length ip'), '''')
               else v6_groups k ip' (Some (length ip')) (tl s''))
            else v6_groups k ip' ell s'')))"

definition parseIPv6 :: "string \<Rightarrow> IP option" where
  "parseIPv6 s =
     (let lead = length s \<ge> 2 \<and> s ! 0 = CHR '':'' \<and> s ! 1 = CHR '':'';
          s' = (if lead then drop 2 s else s)
      in if lead \<and> s' = '''' then Some (replicate 16 0)
         else
           (case v6_groups 8 [] (if lead then Some 0 else None) s' of
              None \<Rightarrow> None
            | Some (ip, ell, rest) \<Rightarrow>
                (if rest \<noteq> '''' then None
                 else if length ip < 16 then
                   (case ell of None \<Rightarrow> None
                    | Some e \<Rightarrow> Some (take e ip @ replicate (16 - length ip) 0 @ drop e ip))
                 else if ell \<noteq> None then None else Some ip)))"

fun ParseIP :: "string \<Rightarrow> string \<Rightarrow> IP option" where
  "ParseIP s [] = None"
| "ParseIP s (c # cs) =
     (if c = CHR ''.'' then parseIPv4 s
      else if c = CHR '':'' then parseIPv6 s
      else ParseIP s cs)"

abbreviation parse_ip :: "string \<Rightarrow> IP option" where
  "parse_ip s \<equiv> ParseIP s s"

subsection \<open>Networks\<close>

record IPNet =
  nIP :: IP
  nMask :: "8 word list"

fun CIDRMask :: "nat \<Rightarrow> nat \<Rightarrow> 8 word list" where
  "CIDRMask n 0 = []"
| "CIDRMask n (Suc l) =
     (if n \<ge> 8 then 0xFF # CIDRMask (n - 8) l else NOT (drop_bit n 0xFF) # CIDRMask 0 l)"

definition apply_mask :: "IP \<Rightarrow> 8 word list \<Rightarrow> IP" where
  "apply_mask ip msk =
     (let ip' = (if length msk = 4 \<and> length ip = 16 \<and> take 12 ip = v4InV6Prefix then drop 12 ip else ip)
      in if length ip' \<noteq> length msk then [] else map2 (AND) ip' msk)"

definition To4 :: "IP \<Rightarrow> IP option" where
  "To4 ip =
     (if length ip = 4 then Some ip
      else if length ip = 16 \<and> take 12 ip = v4InV6Prefix then Some (drop 12 ip)
      else None)"

definition ParseCIDR :: "string \<Rightarrow> (IP \<times> IPNet) option" where
  "ParseCIDR s =
     (let addr = takeWhile (\<lambda>c. c \<noteq> CHR ''/'') s in
      if addr = s then None
      else
        (let msk = drop (Suc (length addr)) s;
             (ip, iplen) = (case parseIPv4 addr of Some ip \<Rightarrow> (Some ip, 4 :: nat) | None \<Rightarrow> (parseIPv6 addr, 16));
             (n, i, ok) = dtoi msk
         in case ip of
              None \<Rightarrow> None
            | Some a \<Rightarrow>
                (if \<not> ok \<or> i \<noteq> length msk \<or> n > 8 * int iplen then None
                 else (let m = CIDRMask (nat n) iplen in Some (a, \<lparr>nIP = apply_mask a m, nMask = m\<rparr>)))))"

text \<open>\<open>networkNumberAndMask\<close>; None stands for its pair of nils.\<close>

definition networkNumberAndMask :: "IPNet \<Rightarrow> (IP \<times> 8 word list) option" where
  "networkNumberAndMask n =
     (case To4 (nIP n) of
        Some ip \<Rightarrow>
          (if length (nMask n) = 4 then Some (ip, nMask n)
           else if length (nMask n) = 16 then Some (ip, drop 12 (nMask n)) else None)
      | None \<Rightarrow>
          (if length (nIP n) \<noteq> 16 then None
           else if length (nMask n) = 16 then Some (nIP n, nMask n) else None))"

definition net_contains :: "IPNet option \<Rightarrow> IP option \<Rightarrow> bool option" where
  "net_contains net ip =
     (case net of
        None \<Rightarrow> None
      | Some n \<Rightarrow>
          (let x = (case ip of None \<Rightarrow> [] | Some a \<Rightarrow> (case To4 a of Some b \<Rightarrow> b | None \<Rightarrow> a));
               (nn, m) = (case networkNumberAndMask n of None \<Rightarrow> ([], []) | Some p \<Rightarrow> p)
           in Some (length x = length nn \<and> map2 (AND) nn m = map2 (AND) x m)))"

end
