(* ===== verification/Net_Prefix.thy ===== *)
theory Net_Prefix
  imports Net_IP
begin

section \<open>Networks and prefixes\<close>

text \<open>
  \<open>ip_nat\<close> reads the bytes of an address as one number. The masks of \<open>ParseCIDR\<close> compare exactly
  the leading bits: an IPv4 address is in a network if and only if the two numbers agree after
  division by the power of two that the prefix length leaves.
\<close>

fun ip_nat :: "8 word list \<Rightarrow> nat" where
  "ip_nat [] = 0"
| "ip_nat (b # bs) = unat b * 2 ^ (8 * length bs) + ip_nat bs"

lemma ip_nat_less: "ip_nat bs < 2 ^ (8 * length bs)"
proof (induction bs)
  case (Cons b bs)
  have "unat b < 256" using unsigned_less [of b] by simp
  then have "Suc (unat b) * 2 ^ (8 * length bs) \<le> 256 * 2 ^ (8 * length bs)"
    by (intro mult_right_mono) auto
  moreover have "ip_nat (b # bs) < Suc (unat b) * 2 ^ (8 * length bs)" using Cons.IH by simp
  moreover have "(256 :: nat) * 2 ^ (8 * length bs) = 2 ^ (8 * length (b # bs))"
    by (simp add: power_add)
  ultimately show ?case by linarith
qed simp

lemma CIDRMask_0: "CIDRMask 0 l = replicate l 0"
  by (induction l) auto

lemma map2_and_zeros: "length bs = l \<Longrightarrow> map2 (AND) bs (replicate l 0) = replicate l (0 :: 8 word)"
  by (induction bs arbitrary: l) auto

lemma length_CIDRMask [simp]: "length (CIDRMask n l) = l"
  by (induction n l rule: CIDRMask.induct) auto

lemma bit_ff: "bit (0xFF :: 8 word) j \<longleftrightarrow> j < 8"
  using bit_mask_iff [where 'a = "8 word", of 8 j] by (simp add: mask_eq_exp_minus_1)

lemma and_ff: "c AND (0xFF :: 8 word) = c"
  by (rule bit_word_eqI) (simp only: bit_and_iff bit_ff, simp)

text \<open>The byte in which the prefix ends.\<close>

lemma bit_mask_byte: "bit (a AND NOT (drop_bit n (0xFF :: 8 word))) i \<longleftrightarrow> bit a i \<and> \<not> n + i < 8"
proof -
  have "bit a i \<Longrightarrow> i < 8" using bit_imp_le_length [of a i] by simp
  then show ?thesis
    by (simp only: bit_and_iff bit_not_iff bit_drop_bit_eq bit_ff comp_apply possible_bit_word) auto
qed

lemma take_unat: "take_bit 8 (unat w) = unat w" for w :: "8 word"
  by (rule take_bit_nat_eq_self) (use unsigned_less [of w] in simp)

lemma mask_byte:
  fixes a b :: "8 word"
  assumes "n < 8"
  shows "a AND NOT (drop_bit n 0xFF) = b AND NOT (drop_bit n 0xFF) \<longleftrightarrow>
         unat a div 2 ^ (8 - n) = unat b div 2 ^ (8 - n)"
proof -
  have "a AND NOT (drop_bit n 0xFF) = b AND NOT (drop_bit n 0xFF) \<longleftrightarrow>
        drop_bit (8 - n) a = drop_bit (8 - n) b"
  proof
    assume e: "a AND NOT (drop_bit n 0xFF) = b AND NOT (drop_bit n 0xFF)"
    show "drop_bit (8 - n) a = drop_bit (8 - n) b"
    proof (rule bit_word_eqI)
      fix i
      have "bit a (8 - n + i) = bit b (8 - n + i)"
        using arg_cong [OF e, of "\<lambda>w. bit w (8 - n + i)"] assms unfolding bit_mask_byte by simp
      then show "bit (drop_bit (8 - n) a) i = bit (drop_bit (8 - n) b) i"
        by (simp add: bit_drop_bit_eq)
    qed
  next
    assume e: "drop_bit (8 - n) a = drop_bit (8 - n) b"
    show "a AND NOT (drop_bit n 0xFF) = b AND NOT (drop_bit n 0xFF)"
    proof (rule bit_word_eqI)
      fix i
      have "bit a i = bit b i" if "\<not> n + i < 8"
        using arg_cong [OF e, of "\<lambda>w. bit w (i - (8 - n))"] that by (simp add: bit_drop_bit_eq)
      then show "bit (a AND NOT (drop_bit n 0xFF)) i = bit (b AND NOT (drop_bit n 0xFF)) i"
        unfolding bit_mask_byte by blast
    qed
  qed
  also have "\<dots> \<longleftrightarrow> unat a div 2 ^ (8 - n) = unat b div 2 ^ (8 - n)"
    by (simp only: word_unat_eq_iff unsigned_drop_bit_eq) (simp add: drop_bit_eq_div take_unat)
  finally show ?thesis .
qed

lemma div_high:
  fixes a b x y :: nat
  assumes "x < 2 ^ m" and "y < 2 ^ m" and "k \<le> m"
  shows "(a * 2 ^ m + x) div 2 ^ k = (b * 2 ^ m + y) div 2 ^ k \<longleftrightarrow> a = b \<and> x div 2 ^ k = y div 2 ^ k"
proof -
  have split: "(c * 2 ^ m + z) div 2 ^ k = c * 2 ^ (m - k) + z div 2 ^ k" for c z :: nat
  proof -
    have "(2 :: nat) ^ m = 2 ^ (m - k) * 2 ^ k" using assms(3) by (simp add: power_add [symmetric])
    then have "c * 2 ^ m + z = z + (c * 2 ^ (m - k)) * 2 ^ k" by (metis add.commute mult.assoc)
    then show ?thesis by (simp only: div_mult_self1 power_not_zero zero_neq_numeral not_False_eq_True)
  qed
  have lt: "z div 2 ^ k < 2 ^ (m - k)" if "z < 2 ^ m" for z :: nat
    using that assms(3) by (simp add: less_mult_imp_div_less power_add [symmetric])
  have "a = b" if e: "a * 2 ^ (m - k) + x div 2 ^ k = b * 2 ^ (m - k) + y div 2 ^ k"
  proof -
    have "(a * 2 ^ (m - k) + x div 2 ^ k) div 2 ^ (m - k) = a"
      using lt [OF assms(1)] by simp
    moreover have "(b * 2 ^ (m - k) + y div 2 ^ k) div 2 ^ (m - k) = b"
      using lt [OF assms(2)] by simp
    ultimately show ?thesis using e by simp
  qed
  then show ?thesis unfolding split by auto
qed

lemma masked_eq:
  "length x = l \<Longrightarrow> length y = l \<Longrightarrow> n \<le> 8 * l \<Longrightarrow>
     map2 (AND) x (CIDRMask n l) = map2 (AND) y (CIDRMask n l) \<longleftrightarrow>
     ip_nat x div 2 ^ (8 * l - n) = ip_nat y div 2 ^ (8 * l - n)"
proof (induction n l arbitrary: x y rule: CIDRMask.induct)
  case (2 n l)
  obtain a xs where x: "x = a # xs" "length xs = l" using "2.prems"(1) by (cases x) auto
  obtain b ys where y: "y = b # ys" "length ys = l" using "2.prems"(2) by (cases y) auto
  have lx: "ip_nat xs < 2 ^ (8 * l)" and ly: "ip_nat ys < 2 ^ (8 * l)"
    using ip_nat_less [of xs] ip_nat_less [of ys] x(2) y(2) by simp_all
  show ?case
  proof (cases "8 \<le> n")
    case True
    have k: "8 * Suc l - n = 8 * l - (n - 8)" "8 * l - (n - 8) \<le> 8 * l" using True by auto
    have "map2 (AND) xs (CIDRMask (n - 8) l) = map2 (AND) ys (CIDRMask (n - 8) l) \<longleftrightarrow>
        ip_nat xs div 2 ^ (8 * l - (n - 8)) = ip_nat ys div 2 ^ (8 * l - (n - 8))"
      using "2.IH"(1) [OF True x(2) y(2)] "2.prems"(3) by simp
    then show ?thesis
      using True x y div_high [OF lx ly k(2), of "unat a" "unat b"] unfolding k(1)
      by (simp add: and_ff word_unat_eq_iff)
  next
    case False
    have "(c * 2 ^ (8 * l) + z) div 2 ^ (8 * Suc l - n) = c div 2 ^ (8 - n)"
      if "z < 2 ^ (8 * l)" for c z :: nat
    proof -
      have "8 * Suc l - n = 8 * l + (8 - n)" using False by simp
      then have "(c * 2 ^ (8 * l) + z) div 2 ^ (8 * Suc l - n) =
          (c * 2 ^ (8 * l) + z) div 2 ^ (8 * l) div 2 ^ (8 - n)"
        by (simp only: power_add div_mult2_eq)
      also have "(c * 2 ^ (8 * l) + z) div 2 ^ (8 * l) = c" using that by simp
      finally show ?thesis .
    qed
    note d = this [OF lx, of "unat a"] this [OF ly, of "unat b"]
    show ?thesis
      using False x y mask_byte [of n a b] d
      by (simp add: CIDRMask_0 map2_and_zeros del: mult_Suc_right)
  qed
qed simp

subsection \<open>Parsed addresses\<close>

lemma parse_octets_length: "parse_octets k later s = Some (ns, rest) \<Longrightarrow> length ns = k"
  by (induction k arbitrary: later s ns rest)
     (auto simp: bind_eq_Some_conv Let_def case_prod_beta split: if_splits)

lemma v4_prefix_length [simp]: "length v4InV6Prefix = 12"
  by (simp add: v4InV6Prefix_def)

lemma parseIPv4_shape:
  "parseIPv4 s = Some a \<Longrightarrow> \<exists>ns. length ns = 4 \<and> a = v4InV6Prefix @ ns"
  by (auto simp: parseIPv4_def split: option.splits if_splits dest: parse_octets_length)

lemma To4_length: "To4 b = Some y \<Longrightarrow> length y = 4"
  by (auto simp: To4_def split: if_splits)

lemma apply_mask_v4:
  "length ns = 4 \<Longrightarrow> length m = 4 \<Longrightarrow> apply_mask (v4InV6Prefix @ ns) m = map2 (AND) ns m"
  by (simp add: apply_mask_def Let_def)

lemma map2_and_idem: "length m = length ns \<Longrightarrow> map2 (AND) (map2 (AND) ns m) m = map2 (AND) ns (m :: 8 word list)"
  by (rule nth_equalityI) (simp_all add: and.assoc)

text \<open>The prefix length in the text of a CIDR.\<close>

definition prefix_length :: "string \<Rightarrow> nat" where
  "prefix_length s = nat (fst (dtoi (drop (Suc (length (takeWhile (\<lambda>c. c \<noteq> CHR ''/'') s))) s)))"

lemma ParseCIDR_v4:
  assumes "ParseCIDR s = Some (a, net)" and "length (nMask net) = 4"
  obtains ns where "a = v4InV6Prefix @ ns" "length ns = 4" "prefix_length s \<le> 32"
    "net = \<lparr>nIP = map2 (AND) ns (CIDRMask (prefix_length s) 4), nMask = CIDRMask (prefix_length s) 4\<rparr>"
proof -
  let ?addr = "takeWhile (\<lambda>c. c \<noteq> CHR ''/'') s"
  let ?d = "dtoi (drop (Suc (length ?addr)) s)"
  show thesis
  proof (cases "parseIPv4 ?addr")
    case None
    with assms show ?thesis
      by (auto simp: ParseCIDR_def Let_def case_prod_beta split: if_splits option.splits)
  next
    case (Some b)
    with assms(1) have ab: "a = b" and le: "fst ?d \<le> 32"
        and net: "net = \<lparr>nIP = apply_mask b (CIDRMask (nat (fst ?d)) 4), nMask = CIDRMask (nat (fst ?d)) 4\<rparr>"
      by (auto simp: ParseCIDR_def Let_def case_prod_beta split: if_splits)
    obtain ns where ns: "length ns = 4" "b = v4InV6Prefix @ ns" using parseIPv4_shape [OF Some] by blast
    have "prefix_length s = nat (fst ?d)" by (simp add: prefix_length_def)
    then show ?thesis using that [OF _ ns(1)] ab le net ns by (simp add: apply_mask_v4)
  qed
qed

text \<open>An IPv4 network contains exactly the addresses that share its prefix: for a CIDR that parses,
  \<open>Contains\<close> answers true for an IPv4 address if and only if address and network agree as numbers
  after dropping the bits beyond the prefix length.\<close>

lemma network_prefix:
  assumes "ParseCIDR s = Some (a, net)" and "length (nMask net) = 4" and "To4 b = Some y"
  shows "prefix_length s \<le> 32 \<and>
    net_contains (Some net) (Some b) =
      Some (ip_nat (drop 12 a) div 2 ^ (32 - prefix_length s) = ip_nat y div 2 ^ (32 - prefix_length s))"
  using assms(1,2)
proof (rule ParseCIDR_v4)
  fix ns
  let ?m = "CIDRMask (prefix_length s) 4"
  assume a: "a = v4InV6Prefix @ ns" and ns: "length ns = 4" and le: "prefix_length s \<le> 32"
    and net: "net = \<lparr>nIP = map2 (AND) ns ?m, nMask = ?m\<rparr>"
  have y: "length y = 4" by (rule To4_length [OF assms(3)])
  have "networkNumberAndMask net = Some (map2 (AND) ns ?m, ?m)"
    using ns by (simp add: net networkNumberAndMask_def To4_def)
  then have "net_contains (Some net) (Some b) = Some (map2 (AND) ns ?m = map2 (AND) y ?m)"
    using assms(3) ns y by (simp add: net_contains_def map2_and_idem)
  with masked_eq [OF ns y, of "prefix_length s"] le show ?thesis by (simp add: a)
qed

end
