(* ===== verification/Object_Manager.thy ===== *)
theory Object_Manager
  imports Net_IP
begin

section \<open>The Infoblox objects and the object manager (vendor/github.com/infobloxopen)\<close>

text \<open>
  The objects the IPAM client exchanges with the Infoblox grid, the connector it does so
  through, and the vendored object manager that allocates and releases addresses. The grid
  itself is not part of the repository: \<open>IBConnector\<close> is the Go interface of the same name, with
  one \<open>GetObject\<close> for each type of result, over an unknown state \<open>'v\<close>. Every method returns
  Go's result and error. An implementation that panics has no result of its own here: for that of the library, see
  \<open>Crashed\<close> in Connector and \<open>until_crash\<close> in Http_Infoblox.
\<close>

text \<open>The attributes of an object. The values of the interface type are those the code puts there: strings,
  numbers and \<^verbatim>\<open>Bool\<close>.\<close>

datatype eaval = EAStr string | EAInt int | EABool bool

type_synonym EA = "(string, eaval) fmap"

record RecordA =
  aRef :: string
  aIpv4Addr :: string
  aName :: string
  aView :: string
  aZone :: string
  aEa :: EA

record RecordCNAME =
  cRef :: string
  cCanonical :: string
  cName :: string
  cView :: string
  cZone :: string
  cEa :: EA

record ZoneAuth =
  zRef :: string
  zFqdn :: string
  zView :: string
  zEa :: EA

record Network =
  nwRef :: string
  nwNetviewName :: string
  nwCidr :: string
  nwEa :: EA

record FixedAddress =
  fRef :: string
  fNetviewName :: string
  fCidr :: string
  fIPAddress :: string
  fMac :: string
  fEa :: EA

record EADefinition =
  eRef :: string
  eComment :: string
  eFlags :: string
  eListValues :: "string list"
  eName :: string
  eType :: string
  eAllowedObjectTypes :: "string list"

record UserProfile =
  upRef :: string
  upName :: string

datatype IBObject =
    ObjA RecordA | ObjCNAME RecordCNAME | ObjZone ZoneAuth | ObjNetwork Network
  | ObjFixed FixedAddress | ObjEADef EADefinition | ObjUser UserProfile

record 'v IBConnector =
  Validate :: "'v \<Rightarrow> string option \<times> 'v"
  CreateObject :: "IBObject \<Rightarrow> 'v \<Rightarrow> (string \<times> string option) \<times> 'v"
  UpdateObject :: "IBObject \<Rightarrow> string \<Rightarrow> 'v \<Rightarrow> (string \<times> string option) \<times> 'v"
  DeleteObject :: "string \<Rightarrow> 'v \<Rightarrow> (string \<times> string option) \<times> 'v"
  GetRecordsA :: "IBObject \<Rightarrow> 'v \<Rightarrow> (RecordA list \<times> string option) \<times> 'v"
  GetRecordsCNAME :: "IBObject \<Rightarrow> 'v \<Rightarrow> (RecordCNAME list \<times> string option) \<times> 'v"
  GetZones :: "IBObject \<Rightarrow> 'v \<Rightarrow> (ZoneAuth list \<times> string option) \<times> 'v"
  GetNetworks :: "IBObject \<Rightarrow> 'v \<Rightarrow> (Network list \<times> string option) \<times> 'v"
  GetFixedAddresses :: "IBObject \<Rightarrow> 'v \<Rightarrow> (FixedAddress list \<times> string option) \<times> 'v"
  GetEADefinitions :: "IBObject \<Rightarrow> 'v \<Rightarrow> (EADefinition list \<times> string option) \<times> 'v"

subsection \<open>The address in a reference\<close>

text \<open>
  \<open>GetIPAddressFromRef\<close> searches a reference for the regular expression
  \<^verbatim>\<open>fixedaddress/\w+:(\d+\.\d+\.\d+\.\d+)/.+\<close>: the leftmost place where \<open>match_ref\<close> succeeds.
  The classes of consecutive parts are disjoint, so the greedy loops need no backtracking.
\<close>

definition is_word_char :: "char \<Rightarrow> bool" where
  "is_word_char c \<longleftrightarrow> is_digit c \<or> (65 \<le> char_code c \<and> char_code c \<le> 90) \<or>
     (97 \<le> char_code c \<and> char_code c \<le> 122) \<or> c = CHR ''_''"

fun strip_prefix :: "string \<Rightarrow> string \<Rightarrow> string option" where
  "strip_prefix [] s = Some s"
| "strip_prefix (p # ps) [] = None"
| "strip_prefix (p # ps) (c # s) = (if p = c then strip_prefix ps s else None)"

definition span_some :: "(char \<Rightarrow> bool) \<Rightarrow> string \<Rightarrow> (string \<times> string) option" where
  "span_some P s = (let a = takeWhile P s in if a = '''' then None else Some (a, dropWhile P s))"

definition match_ref :: "string \<Rightarrow> string option" where
  "match_ref s = do {
     s1 \<leftarrow> strip_prefix ''fixedaddress/'' s;
     (word, s2) \<leftarrow> span_some is_word_char s1;
     s3 \<leftarrow> strip_prefix '':'' s2;
     (a, s4) \<leftarrow> span_some is_digit s3;
     s5 \<leftarrow> strip_prefix ''.'' s4;
     (b, s6) \<leftarrow> span_some is_digit s5;
     s7 \<leftarrow> strip_prefix ''.'' s6;
     (c, s8) \<leftarrow> span_some is_digit s7;
     s9 \<leftarrow> strip_prefix ''.'' s8;
     (d, s10) \<leftarrow> span_some is_digit s9;
     s11 \<leftarrow> strip_prefix ''/'' s10;
     (view, s12) \<leftarrow> span_some (\<lambda>ch. char_code ch \<noteq> 10) s11;
     Some (a @ ''.'' @ b @ ''.'' @ c @ ''.'' @ d)
   }"

fun GetIPAddressFromRef :: "string \<Rightarrow> string" where
  "GetIPAddressFromRef [] = ''''"
| "GetIPAddressFromRef (c # s) =
     (case match_ref (c # s) of Some ip \<Rightarrow> ip | None \<Rightarrow> GetIPAddressFromRef s)"

subsection \<open>Allocating and releasing addresses\<close>

record objManager =
  cmpType :: string
  tenantID :: string

definition MACADDR_ZERO :: string where "MACADDR_ZERO = ''00:00:00:00:00:00''"

definition getBasicEA :: "objManager \<Rightarrow> bool \<Rightarrow> EA" where
  "getBasicEA om cloudApiOwned =
     fmupd ''Tenant ID'' (EAStr (tenantID om)) (fmupd ''CMP Type'' (EAStr (cmpType om))
       (fmupd ''Cloud API Owned'' (EABool cloudApiOwned) fmempty))"

definition AllocateIP ::
    "'v IBConnector \<Rightarrow> objManager \<Rightarrow> string \<Rightarrow> string \<Rightarrow> string \<Rightarrow> string \<Rightarrow> string \<Rightarrow> 'v \<Rightarrow>
     (FixedAddress \<times> string option) \<times> 'v" where
  "AllocateIP conn om netview cidr ipAddr macAddress vmID v =
     (let mac = (if length macAddress = 0 then MACADDR_ZERO else macAddress);
          ea = fmupd ''VM ID'' (EAStr (if vmID \<noteq> '''' then vmID else ''N/A'')) (getBasicEA om True);
          fixedAddr = \<lparr>fRef = '''', fNetviewName = netview, fCidr = cidr,
            fIPAddress = (if ipAddr = '''' then ''func:nextavailableip:'' @ cidr @ '','' @ netview else ipAddr),
            fMac = mac, fEa = ea\<rparr>;
          ((ref, err), v') = CreateObject conn (ObjFixed fixedAddr) v
      in ((fixedAddr\<lparr>fRef := ref, fIPAddress := GetIPAddressFromRef ref\<rparr>, err), v'))"

definition GetFixedAddress ::
    "'v IBConnector \<Rightarrow> string \<Rightarrow> string \<Rightarrow> string \<Rightarrow> string \<Rightarrow> 'v \<Rightarrow>
     (FixedAddress option \<times> string option) \<times> 'v" where
  "GetFixedAddress conn netview cidr ipAddr macAddr v =
     (let fixedAddr = \<lparr>fRef = '''', fNetviewName = netview, fCidr = cidr, fIPAddress = ipAddr,
            fMac = (if macAddr \<noteq> '''' then macAddr else ''''), fEa = fmempty\<rparr>;
          ((res, err), v') = GetFixedAddresses conn (ObjFixed fixedAddr) v
      in if err \<noteq> None \<or> res = [] then ((None, err), v') else ((Some (hd res), None), v'))"

definition ReleaseIP ::
    "'v IBConnector \<Rightarrow> string \<Rightarrow> string \<Rightarrow> string \<Rightarrow> string \<Rightarrow> 'v \<Rightarrow> (string \<times> string option) \<times> 'v" where
  "ReleaseIP conn netview cidr ipAddr macAddr v =
     (case GetFixedAddress conn netview cidr ipAddr macAddr v of
        ((None, _), v') \<Rightarrow> (('''', None), v')
      | ((Some fixAddress, _), v') \<Rightarrow> DeleteObject conn (fRef fixAddress) v')"

definition zeroEADef :: EADefinition where
  "zeroEADef = \<lparr>eRef = '''', eComment = '''', eFlags = '''', eListValues = [], eName = '''', eType = '''',
     eAllowedObjectTypes = []\<rparr>"

definition GetEADefinition ::
    "'v IBConnector \<Rightarrow> string \<Rightarrow> 'v \<Rightarrow> (EADefinition option \<times> string option) \<times> 'v" where
  "GetEADefinition conn name v =
     (let eadef = zeroEADef\<lparr>eName := name\<rparr>;
          ((res, err), v') = GetEADefinitions conn (ObjEADef eadef) v
      in if err \<noteq> None \<or> res = [] then ((None, err), v') else ((Some (hd res), None), v'))"

definition CreateEADefinition ::
    "'v IBConnector \<Rightarrow> EADefinition \<Rightarrow> 'v \<Rightarrow> (EADefinition \<times> string option) \<times> 'v" where
  "CreateEADefinition conn eadef v =
     (let ((ref, err), v') = CreateObject conn (ObjEADef eadef) v in ((eadef\<lparr>eRef := ref\<rparr>, err), v'))"

end
