(* ===== verification/Infoblox.thy ===== *)
theory Infoblox
  imports Object_Manager Manager_Client
begin

section \<open>The Infoblox client (pkg/manager/infoblox.go)\<close>

text \<open>
  The IPAM client for Infoblox. Its state is the grid behind the connector and \<open>recordRef\<close>, the
  map from host names to the references of the records this process has created. None is a
  panic: \<open>getNetworkCIDR\<close> dereferences a nil network when the grid reports a CIDR that does not
  parse. Go's errors are \<open>string option\<close>, with None for nil.
\<close>

definition EAKey :: string where "EAKey = ''F5-IPAM''"
definition EAVal :: string where "EAVal = ''managed''"

record 'v IBloxClient =
  conn :: "'v IBConnector"
  objMgr :: objManager
  ea :: EA

record 'v ibox =
  recordRef :: "(string, string) fmap"
  grid :: 'v

subsection \<open>Queries\<close>

text \<open>
  The grid returns every managed record; these loops pick the matching ones. A query without a
  name asks for a whole zone.
\<close>

fun match_A :: "RecordA \<Rightarrow> RecordA list \<Rightarrow> RecordA list" where
  "match_A obj [] = []"
| "match_A obj (r # res) =
     (if aName r = aName obj \<and> aIpv4Addr r = aIpv4Addr obj \<and> aView r = aView obj then r # match_A obj res
      else if aName obj = '''' \<and> aZone r = aZone obj then r # match_A obj res
      else match_A obj res)"

definition getARecord ::
    "'v IBloxClient \<Rightarrow> RecordA \<Rightarrow> 'v ibox \<Rightarrow> (RecordA list \<times> string option) \<times> 'v ibox" where
  "getARecord cl obj s =
     (let ((res, err), v) = GetRecordsA (conn cl) (ObjA obj) (grid s); s' = s\<lparr>grid := v\<rparr>
      in if err \<noteq> None then (([], err), s') else ((match_A obj res, None), s'))"

fun match_CNAME :: "RecordCNAME \<Rightarrow> RecordCNAME list \<Rightarrow> RecordCNAME list" where
  "match_CNAME obj [] = []"
| "match_CNAME obj (r # res) =
     (if cName r = cName obj \<and> cView r = cView obj then r # match_CNAME obj res
      else if cName obj = '''' \<and> cZone r = cZone obj then r # match_CNAME obj res
      else match_CNAME obj res)"

definition getCNAMERecord ::
    "'v IBloxClient \<Rightarrow> RecordCNAME \<Rightarrow> 'v ibox \<Rightarrow> (RecordCNAME list \<times> string option) \<times> 'v ibox" where
  "getCNAMERecord cl obj s =
     (let ((res, err), v) = GetRecordsCNAME (conn cl) (ObjCNAME obj) (grid s); s' = s\<lparr>grid := v\<rparr>
      in if err \<noteq> None then (([], err), s') else ((match_CNAME obj res, None), s'))"

fun find_cidr :: "Network list \<Rightarrow> string \<Rightarrow> string option" where
  "find_cidr [] ip = Some ''''"
| "find_cidr (n # ns) ip = do {
     inside \<leftarrow> net_contains (map_option snd (ParseCIDR (nwCidr n))) (parse_ip ip);
     if inside then Some (nwCidr n) else find_cidr ns ip
   }"

text \<open>The error of the query is dropped, so a failed one yields no networks.\<close>

definition getNetworkCIDR ::
    "'v IBloxClient \<Rightarrow> string \<Rightarrow> string \<Rightarrow> 'v ibox \<Rightarrow> (string \<times> 'v ibox) option" where
  "getNetworkCIDR cl netview ip s =
     (let network = \<lparr>nwRef = '''', nwNetviewName = netview, nwCidr = '''', nwEa = fmempty\<rparr>;
          ((res, err), v) = GetNetworks (conn cl) (ObjNetwork network) (grid s)
      in do { cidr \<leftarrow> find_cidr res ip; Some (cidr, s\<lparr>grid := v\<rparr>) })"

fun split_on :: "char \<Rightarrow> string \<Rightarrow> string list" where
  "split_on sep [] = ['''']"
| "split_on sep (c # s) =
     (if c = sep then '''' # split_on sep s
      else (case split_on sep s of w # ws \<Rightarrow> (c # w) # ws | [] \<Rightarrow> [[c]]))"

lemma split_on_none: "sep \<notin> set s \<Longrightarrow> split_on sep s = [s]"
  by (induction s) auto

definition ipFromRef :: "string \<Rightarrow> string" where
  "ipFromRef ref = hd (split_on (CHR ''/'') (last (split_on (CHR '':'') ref)))"

subsection \<open>Addresses\<close>

definition GetNextAddr :: "'v IBloxClient \<Rightarrow> string \<Rightarrow> string \<Rightarrow> 'v ibox \<Rightarrow> string \<times> 'v ibox" where
  "GetNextAddr cl netview cidr s =
     (let ((nextAddr, err), v) = AllocateIP (conn cl) (objMgr cl) netview cidr '''' '''' '''' (grid s);
          s' = s\<lparr>grid := v\<rparr>
      in if err \<noteq> None then ('''', s') else (ipFromRef (fIPAddress nextAddr), s'))"

definition ReleaseAddr :: "'v IBloxClient \<Rightarrow> string \<Rightarrow> string \<Rightarrow> string \<Rightarrow> 'v ibox \<Rightarrow> 'v ibox" where
  "ReleaseAddr cl netview cidr ipAddr s =
     s\<lparr>grid := snd (ReleaseIP (conn cl) netview cidr ipAddr '''' (grid s))\<rparr>"

subsection \<open>A records\<close>

definition queryA :: "'v IBloxClient \<Rightarrow> string \<Rightarrow> string \<Rightarrow> string \<Rightarrow> RecordA" where
  "queryA cl name ipAddr netview =
     \<lparr>aRef = '''', aIpv4Addr = ipAddr, aName = name, aView = netview, aZone = '''', aEa = ea cl\<rparr>"

definition queryCNAME :: "'v IBloxClient \<Rightarrow> string \<Rightarrow> string \<Rightarrow> string \<Rightarrow> RecordCNAME" where
  "queryCNAME cl name canonical netview =
     \<lparr>cRef = '''', cCanonical = canonical, cName = name, cView = netview, cZone = '''', cEa = ea cl\<rparr>"

definition CreateARecord ::
    "'v IBloxClient \<Rightarrow> string \<Rightarrow> string \<Rightarrow> string \<Rightarrow> 'v ibox \<Rightarrow> bool \<times> 'v ibox" where
  "CreateARecord cl name ipAddr netview s =
     (let obj = queryA cl name ipAddr netview; ((res, err), s1) = getARecord cl obj s
      in if err \<noteq> None \<or> res \<noteq> [] then (False, s1)
         else (let ((ref, _), v) = CreateObject (conn cl) (ObjA obj) (grid s1)
               in (True, s1\<lparr>grid := v, recordRef := fmupd name ref (recordRef s1)\<rparr>)))"

text \<open>The loops that delete the matching records, in the network of the CIDR only.\<close>

fun delete_A :: "'v IBloxClient \<Rightarrow> string \<Rightarrow> string \<Rightarrow> string \<Rightarrow> RecordA list \<Rightarrow> 'v ibox \<Rightarrow> 'v ibox option" where
  "delete_A cl name netview cidr [] s = Some s"
| "delete_A cl name netview cidr (r # res) s = do {
     (netCidr, s1) \<leftarrow> getNetworkCIDR cl netview (aIpv4Addr r) s;
     if netCidr = cidr
     then delete_A cl name netview cidr res
            (s1\<lparr>grid := snd (DeleteObject (conn cl) (aRef r) (grid s1)),
                recordRef := fmdrop name (recordRef s1)\<rparr>)
     else delete_A cl name netview cidr res s1
   }"

definition DeleteARecord ::
    "'v IBloxClient \<Rightarrow> string \<Rightarrow> string \<Rightarrow> string \<Rightarrow> string \<Rightarrow> 'v ibox \<Rightarrow> 'v ibox option" where
  "DeleteARecord cl name ipAddr netview cidr s =
     (let ((res, err), s1) = getARecord cl (queryA cl name ipAddr netview) s
      in if err \<noteq> None then Some s1
         else if res = [] then Some (ReleaseAddr cl netview cidr ipAddr s1)
         else do {
           s2 \<leftarrow> delete_A cl name netview cidr res s1;
           Some (ReleaseAddr cl netview cidr ipAddr s2)
         })"

subsection \<open>CNAME records\<close>

definition CreateCNAMERecord ::
    "'v IBloxClient \<Rightarrow> string \<Rightarrow> string \<Rightarrow> string \<Rightarrow> 'v ibox \<Rightarrow> 'v ibox" where
  "CreateCNAMERecord cl name canonical netview s =
     (let obj = queryCNAME cl name canonical netview; ((res, err), s1) = getCNAMERecord cl obj s
      in if err \<noteq> None \<or> res \<noteq> [] then s1
         else (let ((ref, _), v) = CreateObject (conn cl) (ObjCNAME obj) (grid s1)
               in s1\<lparr>grid := v, recordRef := fmupd name ref (recordRef s1)\<rparr>))"

fun delete_CNAME ::
    "'v IBloxClient \<Rightarrow> string \<Rightarrow> string \<Rightarrow> string \<Rightarrow> string \<Rightarrow> RecordCNAME list \<Rightarrow> 'v ibox \<Rightarrow> 'v ibox option" where
  "delete_CNAME cl name ipAddr netview cidr [] s = Some s"
| "delete_CNAME cl name ipAddr netview cidr (r # res) s = do {
     (netCidr, s1) \<leftarrow> getNetworkCIDR cl netview ipAddr s;
     if netCidr = cidr
     then delete_CNAME cl name ipAddr netview cidr res
            (s1\<lparr>grid := snd (DeleteObject (conn cl) (cRef r) (grid s1)),
                recordRef := fmdrop name (recordRef s1)\<rparr>)
     else delete_CNAME cl name ipAddr netview cidr res s1
   }"

definition DeleteCNAMERecord ::
    "'v IBloxClient \<Rightarrow> string \<Rightarrow> string \<Rightarrow> string \<Rightarrow> string \<Rightarrow> 'v ibox \<Rightarrow> 'v ibox option" where
  "DeleteCNAMERecord cl name ipAddr netview cidr s =
     (let ((res, err), s1) = getCNAMERecord cl (queryCNAME cl name '''' netview) s
      in if err \<noteq> None \<or> res = [] then Some s1
         else delete_CNAME cl name ipAddr netview cidr res s1)"

subsection \<open>Promoting a CNAME\<close>

text \<open>The hosts after the first one are pointed at the new A record.\<close>

definition cname_error :: "string \<Rightarrow> string" where
  "cname_error host = ''Couldn't find reference to host '' @ [CHR 0x27] @ host @ [CHR 0x27] @ '' while trying to update CNAME.''"

fun repoint :: "'v IBloxClient \<Rightarrow> string \<Rightarrow> string \<Rightarrow> string list \<Rightarrow> 'v ibox \<Rightarrow> (string \<times> string option) \<times> 'v ibox" where
  "repoint cl aRecord netview [] s = ((aRecord, None), s)"
| "repoint cl aRecord netview (host # hosts) s =
     (case fmlookup (recordRef s) host of
        None \<Rightarrow> (('''', Some (cname_error host)), s)
      | Some oldRef \<Rightarrow>
          (let ((newRef, _), v) = UpdateObject (conn cl) (ObjCNAME (queryCNAME cl host aRecord netview)) oldRef (grid s)
           in repoint cl aRecord netview hosts (s\<lparr>grid := v, recordRef := fmupd host newRef (recordRef s)\<rparr>)))"

definition promote_error :: "string \<Rightarrow> string" where
  "promote_error host =
     ''Couldn't find reference to host '' @ [CHR 0x27] @ host @ [CHR 0x27] @
     '' while trying to update CNAME to A record.''"

definition CNAMEToA ::
    "'v IBloxClient \<Rightarrow> string list \<Rightarrow> string \<Rightarrow> string \<Rightarrow> string \<Rightarrow> string \<Rightarrow> 'v ibox \<Rightarrow>
     ((string \<times> string option) \<times> 'v ibox) option" where
  "CNAMEToA cl availHosts delHost ipAddr netview cidr s =
     (case availHosts of
        [] \<Rightarrow> Some (('''', None), s)
      | host # hosts \<Rightarrow>
          (let obj = (queryA cl host ipAddr '''') in
           case fmlookup (recordRef s) delHost of
             None \<Rightarrow> do {
               s1 \<leftarrow> DeleteARecord cl delHost ipAddr netview cidr s;
               Some (('''', Some (promote_error delHost)), s1)
             }
           | Some oldRef \<Rightarrow> do {
               s1 \<leftarrow> DeleteCNAMERecord cl host ipAddr netview cidr s;
               let ((newRef, _), v) = UpdateObject (conn cl) (ObjA obj) oldRef (grid s1);
               Some (repoint cl host netview hosts
                       (s1\<lparr>grid := v, recordRef := fmupd host newRef (recordRef s1)\<rparr>))
             }))"

subsection \<open>Reading the records back\<close>

fun add_A_records :: "'v IBloxClient \<Rightarrow> RecordA list \<Rightarrow> Store \<Rightarrow> 'v ibox \<Rightarrow> (Store \<times> 'v ibox) option" where
  "add_A_records cl [] st s = Some (st, s)"
| "add_A_records cl (r # res) st s = do {
     (cidr, s1) \<leftarrow> getNetworkCIDR cl (aView r) (aIpv4Addr r) s;
     add_A_records cl res (AddRecord st (aIpv4Addr r) (aName r) ''A'' (aView r) cidr) s1
   }"

text \<open>The last A record with the canonical name gives the address.\<close>

fun canonical_addr :: "string \<Rightarrow> RecordA list \<Rightarrow> string \<Rightarrow> string" where
  "canonical_addr canonical [] ipAddr = ipAddr"
| "canonical_addr canonical (a # as) ipAddr =
     canonical_addr canonical as (if aName a = canonical then aIpv4Addr a else ipAddr)"

fun add_CNAME_records ::
    "'v IBloxClient \<Rightarrow> RecordA list \<Rightarrow> RecordCNAME list \<Rightarrow> Store \<Rightarrow> 'v ibox \<Rightarrow> (Store \<times> 'v ibox) option" where
  "add_CNAME_records cl resA [] st s = Some (st, s)"
| "add_CNAME_records cl resA (r # res) st s =
     (let ipAddr = canonical_addr (cCanonical r) resA '''' in do {
        (cidr, s1) \<leftarrow> getNetworkCIDR cl (cView r) ipAddr s;
        add_CNAME_records cl resA res (AddRecord st ipAddr (cName r) ''CNAME'' (cView r) cidr) s1
      })"

definition zone_query_A :: "string \<Rightarrow> RecordA" where
  "zone_query_A fqdn =
     \<lparr>aRef = '''', aIpv4Addr = '''', aName = '''', aView = '''', aZone = fqdn, aEa = fmempty\<rparr>"

definition zone_query_CNAME :: "string \<Rightarrow> RecordCNAME" where
  "zone_query_CNAME fqdn =
     \<lparr>cRef = '''', cCanonical = '''', cName = '''', cView = '''', cZone = fqdn, cEa = fmempty\<rparr>"

fun read_zones :: "'v IBloxClient \<Rightarrow> ZoneAuth list \<Rightarrow> Store \<Rightarrow> 'v ibox \<Rightarrow> (Store \<times> 'v ibox) option" where
  "read_zones cl [] st s = Some (st, s)"
| "read_zones cl (zone # zones) st s =
     (let ((resA, errA), s1) = getARecord cl (zone_query_A (zFqdn zone)) s
      in if errA \<noteq> None then Some (st, s1)
         else do {
           (st1, s2) \<leftarrow> add_A_records cl resA st s1;
           let ((resC, errC), s3) = getCNAMERecord cl (zone_query_CNAME (zFqdn zone)) s2;
           if errC \<noteq> None then Some (st1, s3)
           else do {
             (st2, s4) \<leftarrow> add_CNAME_records cl resA resC st1 s3;
             read_zones cl zones st2 s4
           }
         })"

definition GetRecords :: "'v IBloxClient \<Rightarrow> 'v ibox \<Rightarrow> (Store \<times> 'v ibox) option" where
  "GetRecords cl s =
     (let st = NewStore; obj = \<lparr>zRef = '''', zFqdn = '''', zView = '''', zEa = fmempty\<rparr>;
          ((zones, err), v) = GetZones (conn cl) (ObjZone obj) (grid s); s1 = s\<lparr>grid := v\<rparr>
      in if err \<noteq> None then Some (st, s1) else read_zones cl zones st s1)"

subsection \<open>Setting the client up\<close>

definition NewInfobloxClient ::
    "'v IBConnector \<Rightarrow> string \<Rightarrow> 'v \<Rightarrow> (string + 'v IBloxClient \<times> 'v ibox) \<times> 'v" where
  "NewInfobloxClient c cmp v0 =
     (let (err, v1) = Validate c v0 in
      case err of
        Some e \<Rightarrow> (Inl e, v1)
      | None \<Rightarrow>
          (let om = \<lparr>cmpType = cmp, tenantID = ''0''\<rparr>;
               ((eaDef, _), v2) = GetEADefinition c EAKey v1;
               (err2, v3) =
                 (case eaDef of
                    Some _ \<Rightarrow> (None, v2)
                  | None \<Rightarrow>
                      (let ((_, e), v') = CreateEADefinition c
                         (zeroEADef\<lparr>eName := EAKey, eType := ''STRING'', eComment := ''Managed by the F5 IPAM Controller''\<rparr>) v2
                       in (e, v')))
           in case err2 of
                Some e \<Rightarrow> (Inl e, v3)
              | None \<Rightarrow>
                  (Inr (\<lparr>conn = c, objMgr = om, ea = fmupd EAKey (EAStr EAVal) fmempty\<rparr>,
                        \<lparr>recordRef = fmempty, grid = v3\<rparr>), v3)))"

subsection \<open>The interface the controller sees\<close>

definition infoblox_ops :: "'v IBloxClient \<Rightarrow> ('v ibox) Client" where
  "infoblox_ops cl =
     \<lparr>iCreateARecord = (\<lambda>name ip nv s. Some (CreateARecord cl name ip nv s)),
      iDeleteARecord = DeleteARecord cl,
      iCreateCNAMERecord = (\<lambda>name canonical nv s. Some (CreateCNAMERecord cl name canonical nv s)),
      iDeleteCNAMERecord = DeleteCNAMERecord cl,
      iCNAMEToA = CNAMEToA cl,
      iGetNextAddr = (\<lambda>nv cidr s. Some (GetNextAddr cl nv cidr s)),
      iReleaseAddr = (\<lambda>nv cidr ip s. Some (ReleaseAddr cl nv cidr ip s)),
      iGetRecords = GetRecords cl\<rparr>"

end
