(* ===== verification/Infoblox_Laws.thy ===== *)
theory Infoblox_Laws
  imports Infoblox Controller_Pass
begin

section \<open>What the Infoblox client promises\<close>

text \<open>
  The laws of the client's methods: which of them touch the reference map, when a promotion
  succeeds, what \<open>GetRecords\<close> reads back, and that the client keeps the contract of the
  controller's IPAM interface.
\<close>

lemmas ibox_defs = getARecord_def getCNAMERecord_def getNetworkCIDR_def

subsection \<open>The contract\<close>

lemma repoint_result:
  "repoint cl aRecord nv hosts s = ((newA, err), s') \<Longrightarrow> newA = (if err = None then aRecord else '''')"
  by (induction hosts arbitrary: s) (auto split: option.splits prod.splits)

text \<open>The state in which the remaining hosts are repointed.\<close>

definition promoted_ref :: "'v IBloxClient \<Rightarrow> string \<Rightarrow> string \<Rightarrow> string \<Rightarrow> 'v ibox \<Rightarrow> 'v ibox" where
  "promoted_ref cl host ip oldRef s =
     (let u = UpdateObject (conn cl) (ObjA (queryA cl host ip '''')) oldRef (grid s)
      in s\<lparr>grid := snd u, recordRef := fmupd host (fst (fst u)) (recordRef s)\<rparr>)"

lemma CNAMEToA_cases:
  assumes "CNAMEToA cl (host # hosts) delHost ip nv cidr s = Some ((newA, err), s')"
  obtains (lost) "fmlookup (recordRef s) delHost = None" "DeleteARecord cl delHost ip nv cidr s = Some s'"
      "newA = ''''" "err = Some (promote_error delHost)"
  | (found) oldRef s1 where "fmlookup (recordRef s) delHost = Some oldRef"
      "DeleteCNAMERecord cl host ip nv cidr s = Some s1"
      "repoint cl host nv hosts (promoted_ref cl host ip oldRef s1) = ((newA, err), s')"
  using assms
  by (auto simp: CNAMEToA_def promoted_ref_def Let_def case_prod_beta bind_Some split: option.splits)

lemma CNAMEToA_contract:
  assumes "CNAMEToA cl (host # hosts) delHost ip nv cidr s = Some ((newA, err), s')"
  shows "newA = (if err = None then host else '''')"
  using assms by (cases rule: CNAMEToA_cases) (auto dest: repoint_result)

lemma add_A_records_wf:
  "add_A_records cl res st s = Some (st', s') \<Longrightarrow> store_wf st \<Longrightarrow> store_wf st'"
  by (induction res arbitrary: st s) (auto simp: bind_Some store_wf_Add)

lemma add_CNAME_records_wf:
  "add_CNAME_records cl resA res st s = Some (st', s') \<Longrightarrow> store_wf st \<Longrightarrow> store_wf st'"
  by (induction res arbitrary: st s) (auto simp: bind_Some store_wf_Add Let_def)

lemma read_zones_cases:
  assumes "read_zones cl (zone # zones) st s = Some (st', s')"
  obtains (stopA) "snd (fst (getARecord cl (zone_query_A (zFqdn zone)) s)) \<noteq> None"
      "st' = st" "s' = snd (getARecord cl (zone_query_A (zFqdn zone)) s)"
  | (stopC) st1 s2 where "snd (fst (getARecord cl (zone_query_A (zFqdn zone)) s)) = None"
      "add_A_records cl (fst (fst (getARecord cl (zone_query_A (zFqdn zone)) s))) st
         (snd (getARecord cl (zone_query_A (zFqdn zone)) s)) = Some (st1, s2)"
      "snd (fst (getCNAMERecord cl (zone_query_CNAME (zFqdn zone)) s2)) \<noteq> None"
      "st' = st1" "s' = snd (getCNAMERecord cl (zone_query_CNAME (zFqdn zone)) s2)"
  | (next') st1 s2 st2 s4 where "snd (fst (getARecord cl (zone_query_A (zFqdn zone)) s)) = None"
      "add_A_records cl (fst (fst (getARecord cl (zone_query_A (zFqdn zone)) s))) st
         (snd (getARecord cl (zone_query_A (zFqdn zone)) s)) = Some (st1, s2)"
      "snd (fst (getCNAMERecord cl (zone_query_CNAME (zFqdn zone)) s2)) = None"
      "add_CNAME_records cl (fst (fst (getARecord cl (zone_query_A (zFqdn zone)) s)))
         (fst (fst (getCNAMERecord cl (zone_query_CNAME (zFqdn zone)) s2))) st1
         (snd (getCNAMERecord cl (zone_query_CNAME (zFqdn zone)) s2)) = Some (st2, s4)"
      "read_zones cl zones st2 s4 = Some (st', s')"
  using assms
  by (simp add: Let_def case_prod_beta bind_Some del: not_None_eq split: if_splits) blast+

lemma read_zones_wf:
  "read_zones cl zones st s = Some (st', s') \<Longrightarrow> store_wf st \<Longrightarrow> store_wf st'"
proof (induction zones arbitrary: st s)
  case (Cons zone zones)
  from Cons.prems(1) show ?case
  proof (cases rule: read_zones_cases)
    case stopA
    with Cons.prems(2) show ?thesis by simp
  next
    case (stopC st1 s2)
    with Cons.prems(2) add_A_records_wf show ?thesis by blast
  next
    case (next' st1 s2 st2 s4)
    then show ?thesis using Cons.IH Cons.prems(2) add_A_records_wf add_CNAME_records_wf by blast
  qed
qed simp

lemma GetRecords_store_wf: "GetRecords cl s = Some (st, s') \<Longrightarrow> store_wf st"
  by (auto simp: GetRecords_def Let_def store_wf_New split: prod.splits if_splits
      intro: read_zones_wf)

lemma infoblox_contract: "client_contract (infoblox_ops cl)"
  unfolding client_contract_def infoblox_ops_def
  by (auto simp: neq_Nil_conv GetRecords_store_wf dest: CNAMEToA_contract)

text \<open>The Infoblox client is an IPAM client, so everything proved of the controller's loops
  holds for it, under every order of the range loops.\<close>

interpretation ibx: ipam_client "infoblox_ops cl" for cl
  by unfold_locales (rule infoblox_contract)

interpretation ibx_sweep: sweeping "infoblox_ops cl" ascending for cl
  by unfold_locales

end
