(* ===== verification/Infoblox_Properties.thy ===== *)
theory Infoblox_Properties
  imports Infoblox_Laws Net_Prefix
begin

section \<open>Properties of the Infoblox client\<close>

text \<open>
  When promotions succeed and what they leave in the reference map, what a restart does to
  them, which address a reservation yields, and what \<open>GetRecords\<close> reads back from the grid.
\<close>

subsection \<open>The reference map\<close>

named_theorems refs_frame \<open>operations that leave the reference map alone\<close>

lemma getARecord_refs [refs_frame]: "recordRef (snd (getARecord cl obj s)) = recordRef s"
  by (simp add: getARecord_def Let_def case_prod_beta)

lemma getCNAMERecord_refs [refs_frame]: "recordRef (snd (getCNAMERecord cl obj s)) = recordRef s"
  by (simp add: getCNAMERecord_def Let_def case_prod_beta)

lemma getNetworkCIDR_refs [refs_frame]:
  "getNetworkCIDR cl nv ip s = Some (c, s') \<Longrightarrow> recordRef s' = recordRef s"
  by (auto simp: getNetworkCIDR_def Let_def case_prod_beta bind_Some)

lemma GetNextAddr_refs [refs_frame]: "recordRef (snd (GetNextAddr cl nv cidr s)) = recordRef s"
  by (simp add: GetNextAddr_def Let_def case_prod_beta)

lemma ReleaseAddr_refs [refs_frame]: "recordRef (ReleaseAddr cl nv cidr ip s) = recordRef s"
  by (simp add: ReleaseAddr_def)

lemma delete_A_refs:
  "delete_A cl name nv cidr res s = Some s' \<Longrightarrow>
     recordRef s' = recordRef s \<or> recordRef s' = fmdrop name (recordRef s)"
proof (induction res arbitrary: s)
  case (Cons r res)
  from Cons.prems obtain c s1 where c: "getNetworkCIDR cl nv (aIpv4Addr r) s = Some (c, s1)"
    by (auto simp: bind_Some)
  from c Cons.prems Cons.IH getNetworkCIDR_refs [OF c] show ?case
    by (fastforce split: if_splits)
qed simp

lemma delete_CNAME_refs:
  "delete_CNAME cl name ip nv cidr res s = Some s' \<Longrightarrow>
     recordRef s' = recordRef s \<or> recordRef s' = fmdrop name (recordRef s)"
proof (induction res arbitrary: s)
  case (Cons r res)
  from Cons.prems obtain c s1 where c: "getNetworkCIDR cl nv ip s = Some (c, s1)"
    by (auto simp: bind_Some)
  from c Cons.prems Cons.IH getNetworkCIDR_refs [OF c] show ?case
    by (fastforce split: if_splits)
qed simp

lemma DeleteARecord_refs:
  "DeleteARecord cl name ip nv cidr s = Some s' \<Longrightarrow>
     recordRef s' = recordRef s \<or> recordRef s' = fmdrop name (recordRef s)"
  using getARecord_refs [of cl "queryA cl name ip nv" s]
  by (auto simp: DeleteARecord_def Let_def case_prod_beta bind_Some ReleaseAddr_refs
      split: if_splits dest!: delete_A_refs)

lemma DeleteCNAMERecord_refs:
  "DeleteCNAMERecord cl name ip nv cidr s = Some s' \<Longrightarrow>
     recordRef s' = recordRef s \<or> recordRef s' = fmdrop name (recordRef s)"
  using getCNAMERecord_refs [of cl "queryCNAME cl name '''' nv" s]
  by (auto simp: DeleteCNAMERecord_def Let_def case_prod_beta split: if_splits dest!: delete_CNAME_refs)

lemma CreateARecord_refs:
  "CreateARecord cl name ip nv s = (ok, s') \<Longrightarrow>
     keys (recordRef s') = (if ok then insert name (keys (recordRef s)) else keys (recordRef s))"
  using getARecord_refs [of cl "queryA cl name ip nv" s]
  by (auto simp: CreateARecord_def Let_def case_prod_beta split: if_splits)

lemma repoint_refs:
  "repoint cl aRecord nv hosts s = ((newA, err), s') \<Longrightarrow>
     (err = None \<longleftrightarrow> set hosts \<subseteq> keys (recordRef s)) \<and> keys (recordRef s') = keys (recordRef s)"
proof (induction hosts arbitrary: s)
  case (Cons host hosts)
  show ?case
  proof (cases "fmlookup (recordRef s) host")
    case None
    then have "host \<notin> keys (recordRef s)" by (simp add: keys_iff)
    with None Cons.prems show ?thesis by auto
  next
    case (Some oldRef)
    then have "host \<in> keys (recordRef s)" by (simp add: keys_iff)
    moreover from Some Cons.prems obtain v ref where
        "repoint cl aRecord nv hosts (s\<lparr>grid := v, recordRef := fmupd host ref (recordRef s)\<rparr>) =
           ((newA, err), s')"
      by (auto simp: Let_def case_prod_beta)
    note Cons.IH [OF this]
    ultimately show ?thesis by (simp add: insert_absorb)
  qed
qed auto

lemma add_A_records_refs:
  "add_A_records cl res st s = Some (st', s') \<Longrightarrow> recordRef s' = recordRef s"
  by (induction res arbitrary: st s) (auto simp: bind_Some dest!: getNetworkCIDR_refs)

lemma add_CNAME_records_refs:
  "add_CNAME_records cl resA res st s = Some (st', s') \<Longrightarrow> recordRef s' = recordRef s"
  by (induction res arbitrary: st s) (auto simp: bind_Some Let_def dest!: getNetworkCIDR_refs)

lemma read_zones_refs:
  "read_zones cl zones st s = Some (st', s') \<Longrightarrow> recordRef s' = recordRef s"
proof (induction zones arbitrary: st s)
  case (Cons zone zones)
  from Cons.prems show ?case
  proof (cases rule: read_zones_cases)
    case stopA
    then show ?thesis by (simp add: refs_frame)
  next
    case (stopC st1 s2)
    then show ?thesis using add_A_records_refs [OF stopC(2)] by (simp add: refs_frame)
  next
    case (next' st1 s2 st2 s4)
    show ?thesis
      using Cons.IH [OF next'(5)] add_CNAME_records_refs [OF next'(4)] add_A_records_refs [OF next'(2)]
      by (simp add: refs_frame)
  qed
qed simp

lemma GetRecords_refs: "GetRecords cl s = Some (st, s') \<Longrightarrow> recordRef s' = recordRef s"
  by (auto simp: GetRecords_def Let_def case_prod_beta split: if_splits dest!: read_zones_refs)

subsection \<open>A grid to run the client on\<close>

text \<open>
  The witnesses use a grid that answers every query with the same lists, whose references carry
  the address 10.0.0.7, and whose state counts the objects created and deleted.
\<close>

definition still_conn ::
    "ZoneAuth list \<Rightarrow> RecordA list \<Rightarrow> RecordCNAME list \<Rightarrow> Network list \<Rightarrow> nat IBConnector" where
  "still_conn zs As Cs Ns =
     \<lparr>Validate = (\<lambda>v. (None, v)),
      CreateObject = (\<lambda>obj v. ((''fixedaddress/Zg:10.0.0.7/default'', None), Suc v)),
      UpdateObject = (\<lambda>obj ref v. ((ref, None), v)),
      DeleteObject = (\<lambda>ref v. ((ref, None), Suc v)),
      GetRecordsA = (\<lambda>q v. ((As, None), v)),
      GetRecordsCNAME = (\<lambda>q v. ((Cs, None), v)),
      GetZones = (\<lambda>q v. ((zs, None), v)),
      GetNetworks = (\<lambda>q v. ((Ns, None), v)),
      GetFixedAddresses = (\<lambda>q v. (([], None), v)),
      GetEADefinitions = (\<lambda>q v. (([], None), v))\<rparr>"

definition demo_zone :: ZoneAuth where
  "demo_zone = \<lparr>zRef = ''z1'', zFqdn = ''com'', zView = ''default'', zEa = fmempty\<rparr>"

definition demo_A :: RecordA where
  "demo_A = \<lparr>aRef = ''r1'', aIpv4Addr = ''10.0.0.7'', aName = ''a.com'', aView = ''default'',
     aZone = ''com'', aEa = fmempty\<rparr>"

definition demo_CNAME :: RecordCNAME where
  "demo_CNAME = \<lparr>cRef = ''r2'', cCanonical = ''a.com'', cName = ''b.com'', cView = ''default'',
     cZone = ''com'', cEa = fmempty\<rparr>"

definition demo_net :: Network where
  "demo_net = \<lparr>nwRef = ''n1'', nwNetviewName = ''default'', nwCidr = ''10.0.0.0/8'', nwEa = fmempty\<rparr>"

definition demo_client :: "nat IBloxClient" where
  "demo_client = \<lparr>conn = still_conn [demo_zone] [demo_A] [demo_CNAME] [demo_net],
     objMgr = \<lparr>cmpType = ''Kubernetes'', tenantID = ''0''\<rparr>, ea = fmupd EAKey (EAStr EAVal) fmempty\<rparr>"

definition demo_ibox :: "(string, string) fmap \<Rightarrow> nat ibox" where
  "demo_ibox refs = \<lparr>recordRef = refs, grid = 0\<rparr>"

subsection \<open>Promotion\<close>

text \<open>C23. Promoting the first available host succeeds exactly when this process holds the
  reference of the host that goes and of every further host on the address; then the promoted
  host is returned and has a reference itself. In every other case the empty name comes back.\<close>

theorem promotion_outcome:
  assumes "CNAMEToA cl (host # hosts) delHost ip nv cidr s = Some ((newA, err), s')"
  shows "(err = None \<longleftrightarrow> delHost \<in> keys (recordRef s) \<and> set hosts \<subseteq> insert host (keys (recordRef s))) \<and>
         newA = (if err = None then host else '''') \<and>
         (delHost \<in> keys (recordRef s) \<longrightarrow> keys (recordRef s') = insert host (keys (recordRef s)))"
  using assms
proof (cases rule: CNAMEToA_cases)
  case lost
  then show ?thesis by (simp add: keys_iff)
next
  case (found oldRef s1)
  have s1: "insert host (keys (recordRef s1)) = insert host (keys (recordRef s))"
    using DeleteCNAMERecord_refs [OF found(2)] by auto
  have "keys (recordRef (promoted_ref cl host ip oldRef s1)) = insert host (keys (recordRef s1))"
    by (simp add: promoted_ref_def Let_def)
  moreover have "delHost \<in> keys (recordRef s)" using found(1) by (simp add: keys_iff)
  ultimately show ?thesis
    using repoint_refs [OF found(3)] repoint_result [OF found(3)] by (simp add: s1)
qed

theorem promotion_outcome_witness:
  "\<exists>s'. CNAMEToA demo_client [''b.com''] ''a.com'' ''10.0.0.7'' ''default'' ''10.0.0.0/8''
     (demo_ibox (fmupd ''a.com'' ''r1'' fmempty)) = Some ((''b.com'', None), s') \<and>
     ''b.com'' \<in> keys (recordRef s')"
proof -
  let ?run = "CNAMEToA demo_client [''b.com''] ''a.com'' ''10.0.0.7'' ''default'' ''10.0.0.0/8''
     (demo_ibox (fmupd ''a.com'' ''r1'' fmempty))"
  have "(case ?run of Some (r, s) \<Rightarrow> True | None \<Rightarrow> False)" by code_simp
  then obtain newA err s' where run: "?run = Some ((newA, err), s')"
    by (auto split: option.splits)
  have "''a.com'' \<in> keys (recordRef (demo_ibox (fmupd ''a.com'' ''r1'' fmempty)))"
    by (simp add: demo_ibox_def)
  with promotion_outcome [OF run] run show ?thesis by auto
qed

text \<open>The references do not survive a restart: a new client starts without any, and
  \<open>GetRecords\<close>, which reads all records back, does not restore them. Until the process has
  created a host's record itself, promoting away from that host fails, its A record is deleted
  and its address released although other hosts still use it.\<close>

lemma restart_blocks_promotion:
  assumes "NewInfobloxClient c cmp v0 = (Inr (cl, s), v1)"
    and "GetRecords cl s = Some (st, s1)" and "avail \<noteq> []"
    and "CNAMEToA cl avail delHost ip nv cidr s1 = Some ((newA, err), s2)"
  shows "newA = '''' \<and> err = Some (promote_error delHost) \<and>
         DeleteARecord cl delHost ip nv cidr s1 = Some s2"
proof -
  have "recordRef s = fmempty"
    using assms(1) by (auto simp: NewInfobloxClient_def Let_def case_prod_beta split: option.splits)
  then have "fmlookup (recordRef s1) delHost = None"
    using GetRecords_refs [OF assms(2)] by simp
  moreover obtain h hs where "avail = h # hs" using assms(3) by (cases avail) auto
  ultimately show ?thesis using assms(4) by (auto elim: CNAMEToA_cases)
qed

subsection \<open>No panic\<close>

text \<open>The only panic of the client is a network whose CIDR does not parse.\<close>

definition nets_parse :: "'v IBloxClient \<Rightarrow> bool" where
  "nets_parse cl \<longleftrightarrow>
     (\<forall>q v. list_all (\<lambda>n. ParseCIDR (nwCidr n) \<noteq> None) (fst (fst (GetNetworks (conn cl) q v))))"

lemma net_contains_returns: "\<exists>b. net_contains (Some n) ip = Some b"
  by (simp add: net_contains_def Let_def case_prod_beta)

lemma find_cidr_returns:
  "list_all (\<lambda>n. ParseCIDR (nwCidr n) \<noteq> None) ns \<Longrightarrow> \<exists>c. find_cidr ns ip = Some c"
proof (induction ns)
  case (Cons n ns)
  then obtain a where "ParseCIDR (nwCidr n) = Some a" by auto
  moreover obtain b where "net_contains (Some (snd a)) (parse_ip ip) = Some b"
    using net_contains_returns by blast
  ultimately show ?case using Cons by auto
qed simp

lemma getNetworkCIDR_returns:
  assumes "nets_parse cl"
  shows "\<exists>c s'. getNetworkCIDR cl nv ip s = Some (c, s')"
proof -
  let ?q = "ObjNetwork \<lparr>nwRef = '''', nwNetviewName = nv, nwCidr = '''', nwEa = fmempty\<rparr>"
  have "\<exists>c. find_cidr (fst (fst (GetNetworks (conn cl) ?q (grid s)))) ip = Some c"
    by (rule find_cidr_returns) (use assms in \<open>simp add: nets_parse_def\<close>)
  then show ?thesis by (auto simp: getNetworkCIDR_def Let_def case_prod_beta)
qed

lemma delete_A_returns: "nets_parse cl \<Longrightarrow> \<exists>s'. delete_A cl name nv cidr res s = Some s'"
proof (induction res arbitrary: s)
  case (Cons r res)
  obtain c s1 where "getNetworkCIDR cl nv (aIpv4Addr r) s = Some (c, s1)"
    using getNetworkCIDR_returns [OF Cons.prems] by blast
  with Cons show ?case by simp
qed simp

lemma delete_CNAME_returns: "nets_parse cl \<Longrightarrow> \<exists>s'. delete_CNAME cl name ip nv cidr res s = Some s'"
proof (induction res arbitrary: s)
  case (Cons r res)
  obtain c s1 where "getNetworkCIDR cl nv ip s = Some (c, s1)"
    using getNetworkCIDR_returns [OF Cons.prems] by blast
  with Cons show ?case by simp
qed simp

lemma DeleteARecord_returns: "nets_parse cl \<Longrightarrow> \<exists>s'. DeleteARecord cl name ip nv cidr s = Some s'"
  using delete_A_returns [of cl name nv cidr "fst (fst (getARecord cl (queryA cl name ip nv) s))"
      "snd (getARecord cl (queryA cl name ip nv) s)"]
  by (auto simp: DeleteARecord_def Let_def case_prod_beta)

lemma DeleteCNAMERecord_returns:
  "nets_parse cl \<Longrightarrow> \<exists>s'. DeleteCNAMERecord cl name ip nv cidr s = Some s'"
  using delete_CNAME_returns [of cl name ip nv cidr
      "fst (fst (getCNAMERecord cl (queryCNAME cl name '''' nv) s))"
      "snd (getCNAMERecord cl (queryCNAME cl name '''' nv) s)"]
  by (auto simp: DeleteCNAMERecord_def Let_def case_prod_beta)

lemma CNAMEToA_returns:
  assumes "nets_parse cl"
  shows "\<exists>r. CNAMEToA cl avail delHost ip nv cidr s = Some r"
proof (cases avail)
  case Nil
  then show ?thesis by (simp add: CNAMEToA_def)
next
  case (Cons host hosts)
  obtain s1 where "DeleteARecord cl delHost ip nv cidr s = Some s1"
    using DeleteARecord_returns [OF assms] by blast
  moreover obtain s2 where "DeleteCNAMERecord cl host ip nv cidr s = Some s2"
    using DeleteCNAMERecord_returns [OF assms] by blast
  ultimately show ?thesis using Cons
    by (auto simp: CNAMEToA_def Let_def case_prod_beta simp del: split_paired_Ex split: option.splits)
qed

lemma add_A_records_returns: "nets_parse cl \<Longrightarrow> \<exists>st' s'. add_A_records cl res st s = Some (st', s')"
proof (induction res arbitrary: st s)
  case (Cons r res)
  obtain c s1 where "getNetworkCIDR cl (aView r) (aIpv4Addr r) s = Some (c, s1)"
    using getNetworkCIDR_returns [OF Cons.prems] by blast
  with Cons show ?case by simp
qed simp

lemma add_CNAME_records_returns:
  "nets_parse cl \<Longrightarrow> \<exists>st' s'. add_CNAME_records cl resA res st s = Some (st', s')"
proof (induction res arbitrary: st s)
  case (Cons r res)
  obtain c s1 where "getNetworkCIDR cl (cView r) (canonical_addr (cCanonical r) resA '''') s = Some (c, s1)"
    using getNetworkCIDR_returns [OF Cons.prems] by blast
  with Cons show ?case by (simp add: Let_def)
qed simp

lemma read_zones_returns: "nets_parse cl \<Longrightarrow> \<exists>r. read_zones cl zones st s = Some r"
proof (induction zones arbitrary: st s)
  case (Cons zone zones)
  let ?A = "getARecord cl (zone_query_A (zFqdn zone)) s"
  obtain st1 s2 where A: "add_A_records cl (fst (fst ?A)) st (snd ?A) = Some (st1, s2)"
    using add_A_records_returns [OF Cons.prems] by blast
  let ?C = "getCNAMERecord cl (zone_query_CNAME (zFqdn zone)) s2"
  obtain st2 s4 where C: "add_CNAME_records cl (fst (fst ?A)) (fst (fst ?C)) st1 (snd ?C) = Some (st2, s4)"
    using add_CNAME_records_returns [OF Cons.prems] by blast
  obtain r where "read_zones cl zones st2 s4 = Some r" using Cons.IH [OF Cons.prems] by blast
  with A C show ?case by (simp add: Let_def case_prod_beta)
qed simp

lemma GetRecords_returns: "nets_parse cl \<Longrightarrow> \<exists>r. GetRecords cl s = Some r"
  by (simp add: GetRecords_def Let_def case_prod_beta read_zones_returns del: split_paired_Ex)

lemma infoblox_never_panics:
  assumes "nets_parse cl"
  shows "never_panics (infoblox_ops cl)"
proof -
  have "DeleteARecord cl a b c d w \<noteq> None" "DeleteCNAMERecord cl a b c d w \<noteq> None"
    "CNAMEToA cl hs a b c d w \<noteq> None" "GetRecords cl w \<noteq> None" for a b c d w hs
    using DeleteARecord_returns [OF assms, of a b c d w] DeleteCNAMERecord_returns [OF assms, of a b c d w]
      CNAMEToA_returns [OF assms, of hs a b c d w] GetRecords_returns [OF assms, of w] by auto
  then show ?thesis by (simp add: never_panics_def infoblox_ops_def del: not_None_eq)
qed

subsection \<open>The address of a reservation\<close>

lemma span_some_app:
  assumes "a \<noteq> ''''" and "list_all P a" and "\<not> P c"
  shows "span_some P (a @ c # s) = Some (a, c # s)"
proof -
  have "takeWhile P (a @ c # s) = a" "dropWhile P (a @ c # s) = c # s"
    using assms(2,3) by (simp_all add: list_all_iff takeWhile_append2 dropWhile_append2)
  with assms(1) show ?thesis by (simp add: span_some_def Let_def)
qed

lemma span_some_all: "a \<noteq> '''' \<Longrightarrow> list_all P a \<Longrightarrow> span_some P a = Some (a, '''')"
  by (simp add: span_some_def Let_def list_all_iff takeWhile_eq_all_conv [THEN iffD2]
      dropWhile_eq_Nil_conv [THEN iffD2])

lemma strip_prefix_app: "strip_prefix p (p @ s) = Some s"
  by (induction p) auto

definition digits :: "string \<Rightarrow> bool" where
  "digits s \<longleftrightarrow> s \<noteq> '''' \<and> list_all is_digit s"

lemma separators_not_digits:
  "\<not> is_digit (CHR ''.'')" "\<not> is_digit (CHR ''/'')" "\<not> is_digit (CHR '':'')"
  "\<not> is_word_char (CHR '':'')"
  by code_simp+

lemma match_ref_dotted:
  assumes "word \<noteq> ''''" and "list_all is_word_char word"
    and "digits a" and "digits b" and "digits c" and "digits d"
    and "view \<noteq> ''''" and "list_all (\<lambda>ch. char_code ch \<noteq> 10) view"
  shows "match_ref (''fixedaddress/'' @ word @ '':'' @ a @ ''.'' @ b @ ''.'' @ c @ ''.'' @ d @ ''/'' @ view) =
    Some (a @ ''.'' @ b @ ''.'' @ c @ ''.'' @ d)"
  using assms
  by (simp add: match_ref_def strip_prefix_app [of "''fixedaddress/''", simplified] digits_def
      span_some_app separators_not_digits span_some_all)

lemma ipFromRef_plain: "CHR '':'' \<notin> set s \<Longrightarrow> CHR ''/'' \<notin> set s \<Longrightarrow> ipFromRef s = s"
  by (simp add: ipFromRef_def split_on_none)

lemma digits_plain: "digits s \<Longrightarrow> CHR '':'' \<notin> set s \<and> CHR ''/'' \<notin> set s"
  using separators_not_digits unfolding digits_def list_all_iff by blast

text \<open>A reference as Infoblox gives it to a fixed address.\<close>

definition fixed_ref :: "string \<Rightarrow> string \<Rightarrow> bool" where
  "fixed_ref ref ip \<longleftrightarrow>
     (\<exists>word a b c d view. ref = ''fixedaddress/'' @ word @ '':'' @ ip @ ''/'' @ view \<and>
        ip = a @ ''.'' @ b @ ''.'' @ c @ ''.'' @ d \<and>
        word \<noteq> '''' \<and> list_all is_word_char word \<and> digits a \<and> digits b \<and> digits c \<and> digits d \<and>
        view \<noteq> '''' \<and> list_all (\<lambda>ch. char_code ch \<noteq> 10) view)"

lemma fixed_ref_addr:
  assumes "fixed_ref ref ip"
  shows "GetIPAddressFromRef ref = ip" "ipFromRef ip = ip" "ip \<noteq> ''''"
proof -
  from assms obtain word a b c d view where ref: "ref = ''fixedaddress/'' @ word @ '':'' @ a @ ''.'' @ b @ ''.'' @ c @ ''.'' @ d @ ''/'' @ view"
    and ip: "ip = a @ ''.'' @ b @ ''.'' @ c @ ''.'' @ d"
    and ok: "word \<noteq> ''''" "list_all is_word_char word" "digits a" "digits b" "digits c" "digits d"
      "view \<noteq> ''''" "list_all (\<lambda>ch. char_code ch \<noteq> 10) view"
    unfolding fixed_ref_def by auto
  have "match_ref ref = Some ip" unfolding ref ip using ok by (intro match_ref_dotted) auto
  moreover obtain ch r where "ref = ch # r" using ref by auto
  ultimately show "GetIPAddressFromRef ref = ip" by simp
  show "ipFromRef ip = ip"
    by (rule ipFromRef_plain) (use ok(3-6) digits_plain in \<open>auto simp: ip\<close>)
  show "ip \<noteq> ''''" by (simp add: ip)
qed

text \<open>When the grid answers a reservation with the reference of a fixed address, in the form
  Infoblox gives such references, \<open>GetNextAddr\<close> returns exactly the address in it; when the grid
  answers with an error, it returns the empty string. The references of records are kept.\<close>

lemma next_addr_of_ref:
  assumes "\<And>obj. CreateObject (conn cl) obj (grid s) = ((ref, err), v)"
    and "ref = ''fixedaddress/'' @ word @ '':'' @ a @ ''.'' @ b @ ''.'' @ c @ ''.'' @ d @ ''/'' @ view"
    and "word \<noteq> '''' \<and> list_all is_word_char word"
    and "digits a \<and> digits b \<and> digits c \<and> digits d"
    and "view \<noteq> '''' \<and> list_all (\<lambda>ch. char_code ch \<noteq> 10) view"
  shows "GetNextAddr cl nv cidr s =
    (if err = None then a @ ''.'' @ b @ ''.'' @ c @ ''.'' @ d else '''', s\<lparr>grid := v\<rparr>)"
proof -
  have "fixed_ref ref (a @ ''.'' @ b @ ''.'' @ c @ ''.'' @ d)"
    unfolding fixed_ref_def using assms(2-5)
    by (intro exI [of _ word] exI [of _ a] exI [of _ b] exI [of _ c] exI [of _ d] exI [of _ view]) simp
  from fixed_ref_addr [OF this] show ?thesis
    by (simp add: GetNextAddr_def AllocateIP_def Let_def assms(1))
qed

subsection \<open>Reading the records back\<close>

text \<open>A grid that answers without errors and does not change while it is read.\<close>

definition quiet ::
    "'v IBloxClient \<Rightarrow> 'v \<Rightarrow> ZoneAuth list \<Rightarrow> RecordA list \<Rightarrow> RecordCNAME list \<Rightarrow> bool" where
  "quiet cl v zs As Cs \<longleftrightarrow>
     (\<forall>q. GetZones (conn cl) q v = ((zs, None), v)) \<and>
     (\<forall>q. GetRecordsA (conn cl) q v = ((As, None), v)) \<and>
     (\<forall>q. GetRecordsCNAME (conn cl) q v = ((Cs, None), v)) \<and>
     (\<forall>q. snd (GetNetworks (conn cl) q v) = v)"

definition in_zone_A :: "string \<Rightarrow> RecordA \<Rightarrow> bool" where
  "in_zone_A fqdn r \<longleftrightarrow> aZone r = fqdn \<or> aName r = '''' \<and> aIpv4Addr r = '''' \<and> aView r = ''''"

definition in_zone_CNAME :: "string \<Rightarrow> RecordCNAME \<Rightarrow> bool" where
  "in_zone_CNAME fqdn r \<longleftrightarrow> cZone r = fqdn \<or> cName r = '''' \<and> cView r = ''''"

lemma match_A_zone: "match_A (zone_query_A fqdn) res = filter (in_zone_A fqdn) res"
  by (induction res) (auto simp: zone_query_A_def in_zone_A_def)

lemma match_CNAME_zone: "match_CNAME (zone_query_CNAME fqdn) res = filter (in_zone_CNAME fqdn) res"
  by (induction res) (auto simp: zone_query_CNAME_def in_zone_CNAME_def)

text \<open>What \<open>GetRecords\<close> takes a CNAME's address to be.\<close>

definition alias_addr :: "RecordA list \<Rightarrow> RecordCNAME \<Rightarrow> string" where
  "alias_addr As r =
     (case find (\<lambda>a. aName a = cCanonical r) (rev As) of None \<Rightarrow> '''' | Some a \<Rightarrow> aIpv4Addr a)"

lemma canonical_addr_find:
  "canonical_addr canonical As ip =
     (case find (\<lambda>a. aName a = canonical) (rev As) of None \<Rightarrow> ip | Some a \<Rightarrow> aIpv4Addr a)"
proof (induction As arbitrary: ip)
  case (Cons a As)
  have "find P (xs @ [a]) = (case find P xs of None \<Rightarrow> if P a then Some a else None | Some x \<Rightarrow> Some x)"
    for P and xs by (induction xs) auto
  with Cons show ?case by (auto split: option.splits)
qed simp

lemma quiet_CIDR:
  "quiet cl (grid s) zs As Cs \<Longrightarrow> getNetworkCIDR cl nv ip s = Some (c, s') \<Longrightarrow> s' = s"
  by (auto simp: quiet_def getNetworkCIDR_def Let_def case_prod_beta bind_Some)

lemma quiet_A:
  "quiet cl (grid s) zs As Cs \<Longrightarrow> getARecord cl (zone_query_A f) s = ((filter (in_zone_A f) As, None), s)"
  by (simp add: quiet_def getARecord_def Let_def match_A_zone)

lemma quiet_CNAME:
  "quiet cl (grid s) zs As Cs \<Longrightarrow>
     getCNAMERecord cl (zone_query_CNAME f) s = ((filter (in_zone_CNAME f) Cs, None), s)"
  by (simp add: quiet_def getCNAMERecord_def Let_def match_CNAME_zone)

lemma stored_at_AddRecord:
  "stored_at (AddRecord st ip h t nv c) h' ip' \<longleftrightarrow> (h' = h \<and> ip' = ip) \<or> stored_at st h' ip'"
  by (auto simp: stored_at_def entry_AddRecord)

lemma add_A_records_quiet:
  "quiet cl (grid s) zs As Cs \<Longrightarrow> add_A_records cl res st s = Some (st', s') \<Longrightarrow>
     s' = s \<and> (\<forall>h ip. stored_at st' h ip \<longleftrightarrow>
       stored_at st h ip \<or> (\<exists>r \<in> set res. aName r = h \<and> aIpv4Addr r = ip))"
proof (induction res arbitrary: st)
  case (Cons r res)
  then obtain c s1 where c: "getNetworkCIDR cl (aView r) (aIpv4Addr r) s = Some (c, s1)"
      and rest: "add_A_records cl res (AddRecord st (aIpv4Addr r) (aName r) ''A'' (aView r) c) s1 = Some (st', s')"
    by (auto simp: bind_Some)
  have "s1 = s" by (rule quiet_CIDR [OF Cons.prems(1) c])
  with Cons.IH [OF Cons.prems(1)] rest show ?case by (auto simp: stored_at_AddRecord)
qed auto

lemma add_CNAME_records_quiet:
  "quiet cl (grid s) zs As Cs \<Longrightarrow> add_CNAME_records cl resA res st s = Some (st', s') \<Longrightarrow>
     s' = s \<and> (\<forall>h ip. stored_at st' h ip \<longleftrightarrow>
       stored_at st h ip \<or> (\<exists>r \<in> set res. cName r = h \<and> alias_addr resA r = ip))"
proof (induction res arbitrary: st)
  case (Cons r res)
  let ?ip = "canonical_addr (cCanonical r) resA ''''"
  have ip: "?ip = alias_addr resA r" by (simp add: canonical_addr_find alias_addr_def)
  from Cons obtain c s1 where c: "getNetworkCIDR cl (cView r) ?ip s = Some (c, s1)"
      and rest: "add_CNAME_records cl resA res (AddRecord st ?ip (cName r) ''CNAME'' (cView r) c) s1 = Some (st', s')"
    by (auto simp: bind_Some Let_def)
  have "s1 = s" by (rule quiet_CIDR [OF Cons.prems(1) c])
  with Cons.IH [OF Cons.prems(1)] rest show ?case by (auto simp: stored_at_AddRecord ip)
qed auto

lemma read_zones_quiet:
  "quiet cl (grid s) zs As Cs \<Longrightarrow> read_zones cl zones st s = Some (st', s') \<Longrightarrow>
     s' = s \<and> (\<forall>h ip. stored_at st' h ip \<longleftrightarrow> stored_at st h ip \<or>
       (\<exists>z \<in> set zones. (\<exists>r \<in> set As. in_zone_A (zFqdn z) r \<and> aName r = h \<and> aIpv4Addr r = ip) \<or>
          (\<exists>r \<in> set Cs. in_zone_CNAME (zFqdn z) r \<and> cName r = h \<and>
             alias_addr (filter (in_zone_A (zFqdn z)) As) r = ip)))"
proof (induction zones arbitrary: st)
  case (Cons z zones)
  note qA = quiet_A [OF Cons.prems(1), of "zFqdn z"] and qC = quiet_CNAME [OF Cons.prems(1), of "zFqdn z"]
  from Cons.prems(2) show ?case
  proof (cases rule: read_zones_cases)
    case stopA
    with qA show ?thesis by simp
  next
    case (stopC st1 s2)
    with qA add_A_records_quiet [OF Cons.prems(1)] have "s2 = s" by simp
    with stopC(3) qC show ?thesis by simp
  next
    case (next' st1 s2 st2 s4)
    have A: "s2 = s" "\<And>h ip. stored_at st1 h ip \<longleftrightarrow> stored_at st h ip \<or>
        (\<exists>r \<in> set As. in_zone_A (zFqdn z) r \<and> aName r = h \<and> aIpv4Addr r = ip)"
      using add_A_records_quiet [OF Cons.prems(1), of "filter (in_zone_A (zFqdn z)) As" st st1 s2]
        next'(2) qA by auto
    have C: "s4 = s" "\<And>h ip. stored_at st2 h ip \<longleftrightarrow> stored_at st1 h ip \<or>
        (\<exists>r \<in> set Cs. in_zone_CNAME (zFqdn z) r \<and> cName r = h \<and>
           alias_addr (filter (in_zone_A (zFqdn z)) As) r = ip)"
      using add_CNAME_records_quiet [OF Cons.prems(1), of "filter (in_zone_A (zFqdn z)) As"
          "filter (in_zone_CNAME (zFqdn z)) Cs" st1 st2 s4] next'(4) qA qC A(1) by auto
    have "read_zones cl zones st2 s = Some (st', s')" using next'(5) C(1) by simp
    note IH = Cons.IH [OF Cons.prems(1) this]
    then show ?thesis by (auto simp: A(2) C(2))
  qed
qed simp

text \<open>C39. Reading back: from a grid that does not change meanwhile, \<open>GetRecords\<close> gets exactly the
  managed records of the zones: an A record puts its name at its address, a CNAME puts its name
  at the address of the last A record of its zone that has its canonical name, and a CNAME whose
  canonical name has no A record in the zone ends at the empty address.\<close>

theorem records_read_back:
  assumes "quiet cl (grid s) zs As Cs" and "GetRecords cl s = Some (st, s')"
  shows "s' = s \<and> (stored_at st h ip \<longleftrightarrow>
       list_ex (\<lambda>z. list_ex (\<lambda>r. in_zone_A (zFqdn z) r \<and> aName r = h \<and> aIpv4Addr r = ip) As \<or>
          list_ex (\<lambda>r. in_zone_CNAME (zFqdn z) r \<and> cName r = h \<and>
             alias_addr (filter (in_zone_A (zFqdn z)) As) r = ip) Cs) zs)"
proof -
  have "GetZones (conn cl) q (grid s) = ((zs, None), grid s)" for q
    using assms(1) by (simp add: quiet_def)
  then have "read_zones cl zs NewStore s = Some (st, s')"
    using assms(2) by (simp add: GetRecords_def Let_def)
  from read_zones_quiet [OF assms(1) this] show ?thesis
    by (auto simp: list_ex_iff stored_at_def entry_NewStore)
qed

theorem records_read_back_witness:
  "\<exists>st s'. GetRecords demo_client (demo_ibox fmempty) = Some (st, s') \<and> stored_at st ''b.com'' ''10.0.0.7''"
proof -
  have "(case GetRecords demo_client (demo_ibox fmempty) of None \<Rightarrow> False | Some r \<Rightarrow> True)" by code_simp
  then obtain st s' where g: "GetRecords demo_client (demo_ibox fmempty) = Some (st, s')"
    by (auto split: option.splits)
  have "quiet demo_client (grid (demo_ibox fmempty)) [demo_zone] [demo_A] [demo_CNAME]"
    by (simp add: quiet_def demo_client_def still_conn_def)
  from records_read_back [OF this g, of "''b.com''" "''10.0.0.7''"] g show ?thesis
    by (auto simp: demo_zone_def demo_A_def demo_CNAME_def in_zone_A_def in_zone_CNAME_def alias_addr_def)
qed

subsection \<open>The network of an address\<close>

text \<open>The IPv4 network of the CIDR has the address among its numbers.\<close>

definition same_prefix :: "string \<Rightarrow> IP \<Rightarrow> bool" where
  "same_prefix cidr y =
     (case ParseCIDR cidr of
        None \<Rightarrow> False
      | Some (a, _) \<Rightarrow>
          ip_nat (drop 12 a) div 2 ^ (32 - prefix_length cidr) = ip_nat y div 2 ^ (32 - prefix_length cidr))"

definition v4_network :: "Network \<Rightarrow> bool" where
  "v4_network n = (case ParseCIDR (nwCidr n) of None \<Rightarrow> False | Some (_, net) \<Rightarrow> length (nMask net) = 4)"

lemma v4_network_contains:
  assumes "v4_network n" and "To4 b = Some y"
  shows "net_contains (map_option snd (ParseCIDR (nwCidr n))) (Some b) = Some (same_prefix (nwCidr n) y)"
proof -
  from assms(1) obtain a net where p: "ParseCIDR (nwCidr n) = Some (a, net)" and l: "length (nMask net) = 4"
    by (auto simp: v4_network_def split: option.splits)
  from network_prefix [OF p l assms(2)] show ?thesis by (simp add: p same_prefix_def)
qed

lemma find_cidr_v4:
  assumes "parse_ip ip = Some b" and "To4 b = Some y"
  shows "list_all v4_network ns \<Longrightarrow>
    find_cidr ns ip = Some (case find (\<lambda>n. same_prefix (nwCidr n) y) ns of None \<Rightarrow> '''' | Some n \<Rightarrow> nwCidr n)"
proof (induction ns)
  case (Cons n ns)
  then have "net_contains (map_option snd (ParseCIDR (nwCidr n))) (parse_ip ip) =
      Some (same_prefix (nwCidr n) y)"
    unfolding assms(1) by (intro v4_network_contains [OF _ assms(2)]) simp
  with Cons show ?case by simp
qed simp

text \<open>The CIDR that \<open>getNetworkCIDR\<close> finds for an IPv4 address is the CIDR of the first of the
  grid's networks that shares its prefix with the address, as numbers after dropping the bits
  beyond the prefix length; it is empty when no network does. Nothing else of the client's state
  changes.\<close>

lemma network_of_address:
  assumes "GetNetworks (conn cl) (ObjNetwork \<lparr>nwRef = '''', nwNetviewName = netview, nwCidr = '''', nwEa = fmempty\<rparr>) (grid s) =
      ((ns, err), v)"
    and "list_all v4_network ns" and "parse_ip ip = Some b" and "To4 b = Some y"
  shows "getNetworkCIDR cl netview ip s =
    Some (case find (\<lambda>n. same_prefix (nwCidr n) y) ns of None \<Rightarrow> '''' | Some n \<Rightarrow> nwCidr n, s\<lparr>grid := v\<rparr>)"
  using find_cidr_v4 [OF assms(3,4,2)] by (simp add: getNetworkCIDR_def assms(1))

end
