(* ===== verification/Data_Properties.thy ===== *)
theory Data_Properties
  imports Controller_Alloc
begin

section \<open>Properties of the store and of the groups\<close>

text \<open>
  The contracts of the two data structures the controller and the orchestration client work on,
  stated of every branch of their operations and for every order of the range loops.
\<close>

definition demo_key :: resourceKey where
  "demo_key = \<lparr>rkKind = ''Ingress'', rkName = ''web'', rkNamespace = ''ns''\<rparr>"

definition demo_gKey :: GroupKey where
  "demo_gKey = \<lparr>gkName = ''g'', gkNetview = ''default'', gkCidr = ''10.0.0.0/8''\<rparr>"

definition one_group :: "string list \<Rightarrow> IPGroups" where
  "one_group hosts = snd (addToIPGroup fmempty demo_gKey ''Ingress'' ''web'' ''ns'' hosts)"

lemma one_group_wf: "groups_wf (one_group hosts)" and one_group_unique: "resources_unique (one_group hosts)"
  and one_group_hosts: "hosts_of (one_group hosts) demo_gKey demo_key = Some hosts"
  by (auto simp: one_group_def addToIPGroup_def groups_wf_def resources_unique_def fmpred_iff
      hosts_of_def spec_key_def demo_key_def split: if_splits)

subsection \<open>The store\<close>

text \<open>Adding a record for a host the store does not have makes the host's address findable:
  whatever the order of the range loop, \<open>GetIP\<close> then returns that address; and every host that
  was stored before is still found where it was.\<close>

lemma add_then_find:
  assumes "store_sound st" and "\<not> stored st host" and "ip \<noteq> ''''"
    and "enumerates ips (Records (AddRecord st ip host t nv cidr))"
  shows "GetIP (AddRecord st ip host t nv cidr) host ips = ip \<and>
    (stored_at st host' ip' \<longrightarrow> GetIP (AddRecord st ip host t nv cidr) host' ips = ip')"
proof -
  let ?st = "AddRecord st ip host t nv cidr"
  have u: "hosts_unique ?st"
    using store_sound_Add [OF assms(1-3)] by (simp add: store_sound_def)
  have "stored_at ?st host ip"
    using assms(2) by (auto simp: stored_at_def entry_AddRecord stored_iff)
  moreover have "stored_at ?st host' ip'" if "stored_at st host' ip'"
    using that by (auto simp: stored_at_def entry_AddRecord)
  moreover have "GetIP ?st h ips = i" if "stored_at ?st h i" for h i
    using holder_unique [OF u assms(4), of h i] that by (simp add: GetIP_holder)
  ultimately show ?thesis by blast
qed

text \<open>\<open>DeleteHosts\<close> removes exactly the hosts it is given: in a store where every host has
  one address, none of them is left, every other host keeps its entries, the address of a host
  that was its last goes with it, and the store stays well-formed.\<close>

lemma delete_hosts_exact:
  assumes "fair_range ord" and "hosts_unique st" and "store_wf st"
  shows "entry (DeleteHosts ord st hosts) ip host =
           (if host \<in> set hosts then None else entry st ip host) \<and>
         (ip \<in> keys (Records (DeleteHosts ord st hosts)) \<longleftrightarrow>
            (\<exists>h. stored_at st h ip \<and> h \<notin> set hosts)) \<and>
         store_wf (DeleteHosts ord st hosts)"
proof -
  have e: "entry (DeleteHosts ord st hosts) ip h = (if h \<in> set hosts then None else entry st ip h)" for h
    using DeleteHosts_unique [OF assms(1,2)] entry_DeleteHosts_other by auto
  have wf: "store_wf (DeleteHosts ord st hosts)" using assms(3) by (rule store_wf_DeleteHosts)
  have "ip \<in> keys (Records (DeleteHosts ord st hosts)) \<longleftrightarrow> (\<exists>h. stored_at st h ip \<and> h \<notin> set hosts)"
    unfolding store_wf_key_iff [OF wf] stored_at_def e by auto
  with e wf show ?thesis by blast
qed

subsection \<open>The groups\<close>

text \<open>\<open>addToIPGroup\<close> merges: a resource that is new to the group gets the hosts as given; a
  resource the group has keeps its hosts in order and gains the missing ones behind them; nothing
  else changes, the groups stay well-formed, and the result is true exactly when the groups
  changed.\<close>

lemma add_resource:
  assumes "groups_wf groups" and "kind \<noteq> ''''"
  shows "(let key = \<lparr>rkKind = kind, rkName = name, rkNamespace = ns\<rparr>;
              (updated, groups') = addToIPGroup groups gKey kind name ns hosts
          in (updated \<longleftrightarrow> groups' \<noteq> groups) \<and> groups_wf groups' \<and>
             (case hosts_of groups gKey key of
                None \<Rightarrow> hosts_of groups' gKey key = Some hosts
              | Some hs \<Rightarrow> (\<exists>ext. hosts_of groups' gKey key = Some (hs @ ext) \<and>
                  set hs \<union> set ext = set hs \<union> set hosts \<and> set hs \<inter> set ext = {})) \<and>
             (gKey' \<noteq> gKey \<or> key' \<noteq> key \<longrightarrow> hosts_of groups' gKey' key' = hosts_of groups gKey' key'))"
proof -
  let ?key = "\<lparr>rkKind = kind, rkName = name, rkNamespace = ns\<rparr>"
  let ?g = "snd (addToIPGroup groups gKey kind name ns hosts)"
  note eff = addToIPGroup_hosts_of [OF assms(1), of gKey kind name ns hosts]
  have merge: "\<exists>ext. hosts_of ?g gKey ?key = Some (hs @ ext) \<and>
      set hs \<union> set ext = set hs \<union> set hosts \<and> set hs \<inter> set ext = {}"
    if "hosts_of groups gKey ?key = Some hs" for hs
  proof -
    obtain ext where ext: "fst (add_hosts hs hosts False) = hs @ ext" "set ext \<subseteq> set hosts - set hs"
      using add_hosts_prefix by blast
    have "set (hs @ ext) = set hs \<union> set hosts" using set_add_hosts [of hs hosts False] ext(1) by simp
    with ext that eff show ?thesis by (intro exI [of _ ext]) auto
  qed
  have "(fst (addToIPGroup groups gKey kind name ns hosts) \<longleftrightarrow> ?g \<noteq> groups) \<and> groups_wf ?g \<and>
      (case hosts_of groups gKey ?key of None \<Rightarrow> hosts_of ?g gKey ?key = Some hosts
       | Some hs \<Rightarrow> (\<exists>ext. hosts_of ?g gKey ?key = Some (hs @ ext) \<and>
           set hs \<union> set ext = set hs \<union> set hosts \<and> set hs \<inter> set ext = {})) \<and>
      (gKey' \<noteq> gKey \<or> key' \<noteq> ?key \<longrightarrow> hosts_of ?g gKey' key' = hosts_of groups gKey' key')"
    using addToIPGroup_changed [of groups gKey kind name ns hosts]
      addToIPGroup_wf [OF assms, of gKey name ns hosts] merge eff
    by (auto split: option.splits)
  then show ?thesis by (simp add: Let_def case_prod_beta)
qed

text \<open>\<open>removeFromIPGroup\<close> removes the resource it is given and nothing else: when no resource
  is in two groups, the resource is in no group afterwards, every other resource keeps its hosts,
  no group is left empty, and no resource gets into two groups, in whatever order the groups are
  visited.\<close>

lemma remove_resource:
  assumes "groups_wf groups" and "resources_unique groups" and "enumerates gKeys groups"
  shows "hosts_of (removeFromIPGroup groups rm gKeys) gKey key =
           (if key = spec_key rm then None else hosts_of groups gKey key) \<and>
         groups_wf (removeFromIPGroup groups rm gKeys) \<and>
         resources_unique (removeFromIPGroup groups rm gKeys)"
  using removeFromIPGroup_spec [OF assms] removeFromIPGroup_unique [OF assms] by blast

lemma one_group_enum: "enumerates [demo_gKey] (one_group hosts)"
  by (simp add: enumerates_def one_group_def addToIPGroup_def)

text \<open>\<open>removeHost\<close> takes one occurrence of the host out of the resource's list, keeps every
  other list, keeps the groups well-formed and adds or drops no group.\<close>

lemma remove_host:
  assumes "groups_wf groups" and "resources_unique groups" and "enumerates gKeys groups"
  shows "hosts_of (removeHost groups h key gKeys) gKey key' =
           (if key' = key then map_option (remove1 h) (hosts_of groups gKey key)
            else hosts_of groups gKey key') \<and>
         groups_wf (removeHost groups h key gKeys) \<and> resources_unique (removeHost groups h key gKeys) \<and>
         keys (removeHost groups h key gKeys) = keys groups"
  using removeHost_spec [OF assms] removeHost_unique [OF assms] by blast

text \<open>Removing the last host of a resource leaves the resource in its group without hosts, and
  from then on \<open>getSpecsWithHosts\<close>, which reads the first host of every resource, panics, whichever
  hosts it is asked for.\<close>

lemma last_host_panics:
  assumes "groups_wf groups" and "resources_unique groups" and "enumerates gKeys groups"
    and "hosts_of groups gKey key = Some [h]"
    and "enumerates gKeys' (removeHost groups h key gKeys)"
  shows "getSpecsWithHosts (removeHost groups h key gKeys) hosts gKeys' = None"
proof -
  let ?g = "removeHost groups h key gKeys"
  have "hosts_of ?g gKey key = Some []" using removeHost_spec(1) [OF assms(1-3)] assms(4) by simp
  then obtain grp where grp: "fmlookup ?g gKey = Some grp" "group_hosts grp key = Some []"
    by (auto simp: hosts_of_def split: option.splits)
  then obtain spec where "spec \<in> set grp" "Hosts spec = []"
    by (auto simp: group_hosts_def find_Some_iff in_set_conv_nth)
  with grp(1) have "\<exists>spec \<in> all_specs ?g. Hosts spec = []"
    unfolding Bex_def all_specs_iff by blast
  then show ?thesis using getSpecsWithHosts_panics [OF assms(5)] by simp
qed

text \<open>\<open>GetAllHosts\<close> returns the hosts of all resources, sorted, and the list does not depend on
  the order in which the groups are visited.\<close>

lemma all_hosts_stable:
  assumes "enumerates gKeys groups" and "enumerates gKeys' groups"
  shows "GetAllHosts groups gKeys = GetAllHosts groups gKeys' \<and> sorted (GetAllHosts groups gKeys) \<and>
         set (GetAllHosts groups gKeys) = all_hosts groups"
  using GetAllHosts_order [OF assms] set_GetAllHosts [OF assms(1)]
  by (simp add: GetAllHosts_def sort_strings_def)

text \<open>\<open>getSpec\<close> reports a resource as found exactly when some group has it, and then returns
  the name of a group that has it together with the hosts that group lists for it.\<close>

lemma find_resource:
  assumes "enumerates gKeys groups" and "getSpec groups key gKeys = (found, spec, name)"
  shows "(found \<longleftrightarrow> (\<exists>gKey. in_group groups key gKey)) \<and>
         (found \<longrightarrow> (\<exists>gKey. gKey \<in> set gKeys \<and> name = gkName gKey \<and> spec_key spec = key \<and>
            hosts_of groups gKey key = Some (Hosts spec))) \<and>
         (\<not> found \<longrightarrow> spec = zeroSpec \<and> name = '''')"
  using getSpec_found [OF assms(1), of key] getSpec_spec [of groups key gKeys spec name] assms(2)
  by (auto simp: getSpec_def split: option.splits)

end
