(* ===== verification/Work_Queue.thy ===== *)
theory Work_Queue
  imports Prelude
begin

section \<open>The work queue (vendor/k8s.io/client-go/util/workqueue/queue.go)\<close>

text \<open>
  The queue between the informers, which add keys, and the workers of the Kubernetes client,
  which take them. An item that is added while it waits is not queued twice; one that is added
  while a worker has it waits until the worker is done with it. The mutex makes every
  operation atomic; \<open>Get\<close>, which blocks on an empty queue, returns None where Go waits.

  Seen from outside a queue is two sets: the items that need processing (\<open>dirty\<close>) and the items
  that workers have (\<open>processing\<close>). The locale \<open>work_queue\<close> states the operations over the two.
\<close>

record 'a workqueue =
  items :: "'a list"
  dirty :: "'a set"
  processing :: "'a set"
  shuttingDown :: bool

definition newQueue :: "'a workqueue" where
  "newQueue = \<lparr>items = [], dirty = {}, processing = {}, shuttingDown = False\<rparr>"

definition qAdd :: "'a \<Rightarrow> 'a workqueue \<Rightarrow> 'a workqueue" where
  "qAdd item q =
     (if shuttingDown q then q
      else if item \<in> dirty q then q
      else (let q1 = q\<lparr>dirty := insert item (dirty q)\<rparr> in
            if item \<in> processing q1 then q1
            else q1\<lparr>items := items q1 @ [item]\<rparr>))"

definition qLen :: "'a workqueue \<Rightarrow> nat" where
  "qLen q = length (items q)"

text \<open>None: the caller waits. \<open>Some (None, q)\<close>: the queue is shut down and drained.\<close>

definition qGet :: "'a workqueue \<Rightarrow> ('a option \<times> 'a workqueue) option" where
  "qGet q =
     (if items q = [] \<and> \<not> shuttingDown q then None
      else (case items q of
              [] \<Rightarrow> Some (None, q)
            | item # rest \<Rightarrow>
                Some (Some item, q\<lparr>items := rest, processing := insert item (processing q),
                                   dirty := dirty q - {item}\<rparr>)))"

definition qDone :: "'a \<Rightarrow> 'a workqueue \<Rightarrow> 'a workqueue" where
  "qDone item q =
     (let q1 = q\<lparr>processing := processing q - {item}\<rparr>
      in if item \<in> dirty q1 then q1\<lparr>items := items q1 @ [item]\<rparr> else q1)"

definition qShutDown :: "'a workqueue \<Rightarrow> 'a workqueue" where
  "qShutDown q = q\<lparr>shuttingDown := True\<rparr>"

subsection \<open>The representation\<close>

text \<open>As the comments of the Go struct say: the queue lists, each once, the items that are dirty
  and not being processed.\<close>

definition queue_ok :: "'a workqueue \<Rightarrow> bool" where
  "queue_ok q \<longleftrightarrow> distinct (items q) \<and> set (items q) = dirty q - processing q"

lemma queue_okI: "distinct (items q) \<Longrightarrow> set (items q) = dirty q - processing q \<Longrightarrow> queue_ok q"
  by (simp add: queue_ok_def)

lemma queue_ok_new [simp]: "queue_ok newQueue"
  by (simp add: queue_ok_def newQueue_def)

lemma queue_ok_Add [simp]: "queue_ok q \<Longrightarrow> queue_ok (qAdd x q)"
  by (auto simp: queue_ok_def qAdd_def Let_def)

lemma queue_ok_ShutDown [simp]: "queue_ok (qShutDown q) \<longleftrightarrow> queue_ok q"
  by (simp add: queue_ok_def qShutDown_def)

text \<open>A worker calls \<open>Done\<close> for the item it has.\<close>

lemma queue_ok_Done: "queue_ok q \<Longrightarrow> x \<in> processing q \<Longrightarrow> queue_ok (qDone x q)"
  by (auto simp: queue_ok_def qDone_def Let_def)

lemma qGet_cases:
  assumes "qGet q = Some (r, q')"
  obtains (shut) "items q = []" "shuttingDown q" "r = None" "q' = q"
  | (item) x rest where "items q = x # rest" "r = Some x"
      "q' = q\<lparr>items := rest, processing := insert x (processing q), dirty := dirty q - {x}\<rparr>"
  using assms by (auto simp: qGet_def split: if_splits list.splits)

lemma queue_ok_Get: "queue_ok q \<Longrightarrow> qGet q = Some (r, q') \<Longrightarrow> queue_ok q'"
  by (erule qGet_cases) (auto simp: queue_ok_def)

subsection \<open>The queue as two sets\<close>

locale work_queue =
  fixes ok :: "'q \<Rightarrow> bool" and pending :: "'q \<Rightarrow> 'a set" and active :: "'q \<Rightarrow> 'a set"
    and closed :: "'q \<Rightarrow> bool" and add :: "'a \<Rightarrow> 'q \<Rightarrow> 'q" and get :: "'q \<Rightarrow> ('a option \<times> 'q) option"
    and finish :: "'a \<Rightarrow> 'q \<Rightarrow> 'q"
  assumes ok_add: "ok q \<Longrightarrow> ok (add x q)"
    and pending_add: "pending (add x q) = (if closed q then pending q else insert x (pending q))"
    and active_add: "active (add x q) = active q"
    and get_None: "ok q \<Longrightarrow> get q = None \<longleftrightarrow> pending q \<subseteq> active q \<and> \<not> closed q"
    and get_shut: "ok q \<Longrightarrow> get q = Some (None, q') \<Longrightarrow> q' = q \<and> closed q \<and> pending q \<subseteq> active q"
    and get_item: "ok q \<Longrightarrow> get q = Some (Some x, q') \<Longrightarrow>
      ok q' \<and> x \<in> pending q - active q \<and> pending q' = pending q - {x} \<and> active q' = insert x (active q)"
    and ok_finish: "ok q \<Longrightarrow> x \<in> active q \<Longrightarrow> ok (finish x q)"
    and pending_finish: "pending (finish x q) = pending q"
    and active_finish: "active (finish x q) = active q - {x}"
begin

text \<open>Two workers never have the same item: the item is not active when it is handed out, and no
  one gets it while it is.\<close>

lemma exclusive: "ok q \<Longrightarrow> x \<in> active q \<Longrightarrow> get q \<noteq> Some (Some x, q')"
  using get_item by blast

text \<open>An item that is added while a worker has it needs processing again, and can be handed out
  as soon as the worker is done.\<close>

lemma not_lost:
  assumes "ok q" and "\<not> closed q" and "x \<in> active q"
  shows "x \<in> pending (finish x (add x q)) - active (finish x (add x q)) \<and>
    ok (finish x (add x q)) \<and> get (finish x (add x q)) \<noteq> None"
proof -
  have ok: "ok (finish x (add x q))" using assms by (simp add: ok_add ok_finish active_add)
  moreover have "x \<in> pending (finish x (add x q)) - active (finish x (add x q))"
    using assms by (simp add: pending_finish pending_add active_finish)
  ultimately show ?thesis using get_None [OF ok] by blast
qed

text \<open>Whatever others add, an item stays pending until it is handed out.\<close>

lemma stays: "x \<in> pending q \<Longrightarrow> x \<in> pending (add y q) \<and> x \<in> pending (finish y q)"
  by (simp add: pending_add pending_finish)

end

interpretation wq: work_queue queue_ok dirty processing shuttingDown qAdd qGet qDone
proof
  fix q q' :: "'a workqueue" and x :: 'a
  assume ok: "queue_ok q"
  then have sub: "set (items q) = dirty q - processing q" by (simp add: queue_ok_def)
  then have none: "items q = [] \<longleftrightarrow> dirty q \<subseteq> processing q"
    by (metis Diff_eq_empty_iff set_empty)
  then show "qGet q = None \<longleftrightarrow> dirty q \<subseteq> processing q \<and> \<not> shuttingDown q"
    by (auto simp: qGet_def split: list.splits)
  show "qGet q = Some (None, q') \<Longrightarrow> q' = q \<and> shuttingDown q \<and> dirty q \<subseteq> processing q"
    using none by (auto elim: qGet_cases)
  show "queue_ok q' \<and> x \<in> dirty q - processing q \<and>
      dirty q' = dirty q - {x} \<and> processing q' = insert x (processing q)"
    if g: "qGet q = Some (Some x, q')"
    using g
  proof (rule qGet_cases)
    fix y rest
    assume "items q = y # rest" "Some x = Some y"
      "q' = q\<lparr>items := rest, processing := insert y (processing q), dirty := dirty q - {y}\<rparr>"
    with sub queue_ok_Get [OF ok g] show ?thesis by auto
  qed simp
qed (auto simp: queue_ok_def qAdd_def qDone_def Let_def)

text \<open>What a worker does with the queue when nothing else happens: it takes an item and finishes it,
  up to n times. The result lists the items it got.\<close>

fun drain :: "nat \<Rightarrow> 'a workqueue \<Rightarrow> 'a list \<times> 'a workqueue" where
  "drain 0 q = ([], q)"
| "drain (Suc n) q =
     (case qGet q of
        Some (Some x, q1) \<Rightarrow> (let (xs, q2) = drain n (qDone x q1) in (x # xs, q2))
      | _ \<Rightarrow> ([], q))"

lemma get_done:
  assumes "queue_ok q" and "items q = x # rest"
  shows "qGet q = Some (Some x, q\<lparr>items := rest, processing := insert x (processing q), dirty := dirty q - {x}\<rparr>)"
    and "qDone x (q\<lparr>items := rest, processing := insert x (processing q), dirty := dirty q - {x}\<rparr>) =
         q\<lparr>items := rest, dirty := dirty q - {x}\<rparr>"
    and "queue_ok (q\<lparr>items := rest, dirty := dirty q - {x}\<rparr>)"
proof -
  from assms have "set (x # rest) = dirty q - processing q" by (simp add: queue_ok_def)
  then have "x \<notin> processing q" by auto
  then show "qDone x (q\<lparr>items := rest, processing := insert x (processing q), dirty := dirty q - {x}\<rparr>) =
         q\<lparr>items := rest, dirty := dirty q - {x}\<rparr>"
    by (simp add: qDone_def)
qed (use assms in \<open>auto simp: qGet_def queue_ok_def\<close>)

lemma drain_items:
  "queue_ok q \<Longrightarrow> length (items q) = n \<Longrightarrow>
     drain n q = (items q, q\<lparr>items := [], dirty := dirty q - set (items q)\<rparr>)"
proof (induction n arbitrary: q)
  case (Suc n)
  then obtain x rest where items: "items q = x # rest" by (cases "items q") auto
  note step = get_done [OF Suc.prems(1) items]
  let ?q = "q\<lparr>items := rest, dirty := dirty q - {x}\<rparr>"
  have "drain n ?q = (items ?q, ?q\<lparr>items := [], dirty := dirty ?q - set (items ?q)\<rparr>)"
    using Suc items by (intro Suc.IH step(3)) simp
  moreover have "dirty q - set (items q) = dirty q - {x} - set rest" using items by auto
  ultimately show ?case by (simp add: step(1,2) items)
qed simp

subsection \<open>Properties\<close>

text \<open>C28. The queue implements its two sets: adding marks an item, whether or not it waits or is
  being processed; taking waits exactly when every marked item is with a worker, hands out a
  marked item that no worker has, unmarks it and records it as taken; finishing gives the item
  back and forgets no mark, so an item added while a worker had it is handed out again. The list
  never holds an item twice.\<close>

theorem queue_implements_sets:
  assumes "queue_ok q"
  shows "queue_ok (qAdd x q) \<and> processing (qAdd x q) = processing q \<and>
      dirty (qAdd x q) = (if shuttingDown q then dirty q else insert x (dirty q)) \<and>
    (case qGet q of
       None \<Rightarrow> dirty q \<subseteq> processing q \<and> \<not> shuttingDown q
     | Some (None, q') \<Rightarrow> q' = q \<and> shuttingDown q \<and> dirty q \<subseteq> processing q
     | Some (Some y, q') \<Rightarrow> queue_ok q' \<and> y \<in> dirty q - processing q \<and>
         dirty q' = dirty q - {y} \<and> processing q' = insert y (processing q)) \<and>
    (x \<in> processing q \<longrightarrow> queue_ok (qDone x q) \<and> dirty (qDone x q) = dirty q \<and>
       processing (qDone x q) = processing q - {x} \<and>
       (\<not> shuttingDown q \<longrightarrow> qGet (qDone x (qAdd x q)) \<noteq> None))"
proof -
  have get: "case qGet q of
       None \<Rightarrow> dirty q \<subseteq> processing q \<and> \<not> shuttingDown q
     | Some (None, q') \<Rightarrow> q' = q \<and> shuttingDown q \<and> dirty q \<subseteq> processing q
     | Some (Some y, q') \<Rightarrow> queue_ok q' \<and> y \<in> dirty q - processing q \<and>
         dirty q' = dirty q - {y} \<and> processing q' = insert y (processing q)"
  proof (cases "qGet q")
    case None
    with wq.get_None [OF assms] show ?thesis by simp
  next
    case (Some p)
    then obtain r q' where "qGet q = Some (r, q')" by (cases p) simp
    then show ?thesis
      using wq.get_shut [OF assms, of q'] wq.get_item [OF assms, of _ q'] by (cases r) auto
  qed
  have "qGet (qDone x (qAdd x q)) \<noteq> None" if "x \<in> processing q" "\<not> shuttingDown q"
    using wq.not_lost [OF assms that(2,1)] by blast
  with get show ?thesis
    by (intro conjI impI queue_ok_Add wq.ok_finish wq.active_add wq.pending_add wq.pending_finish
        wq.active_finish assms)
qed

theorem queue_implements_sets_witness:
  "qGet (qDone (3 :: nat) (qAdd 3 (newQueue\<lparr>processing := {3}\<rparr>))) \<noteq> None"
proof -
  have "queue_ok (newQueue\<lparr>processing := {3 :: nat}\<rparr>)" by (simp add: queue_ok_def newQueue_def)
  from queue_implements_sets [OF this, of 3] show ?thesis
    by (simp add: newQueue_def del: not_None_eq)
qed

text \<open>Every item is handed out: a worker that takes and finishes items while nothing is added
  gets exactly the items that are marked and free, each once and in the order in which they were
  queued, and leaves no such item behind.\<close>

lemma queue_drains:
  assumes "queue_ok q" and "n = card (dirty q - processing q)"
  shows "fst (drain n q) = items q \<and> distinct (items q) \<and> set (items q) = dirty q - processing q \<and>
    items (snd (drain n q)) = [] \<and> dirty (snd (drain n q)) = dirty q \<inter> processing q \<and>
    processing (snd (drain n q)) = processing q"
proof -
  from assms(1) have d: "distinct (items q)" and s: "set (items q) = dirty q - processing q"
    by (simp_all add: queue_ok_def)
  then have "length (items q) = n" using assms(2) distinct_card [of "items q"] by simp
  with drain_items [OF assms(1)] d s show ?thesis by auto
qed

end
