(* ===== verification/Kube_Client.thy ===== *)
theory Kube_Client
  imports Work_Queue IP_Groups
begin

section \<open>The Kubernetes client (pkg/orchestration/kubernetes.go)\<close>

text \<open>
  The client that watches ConfigMaps and Ingresses and collects the annotated ones in groups.
  The informers and the API server are not part of the repository: the handlers take the objects
  an informer passes, and what a look-up in an informer's cache answers is an argument (\<open>kenv\<close>).
  None is a panic: a type assertion that fails, a nil informer that is dereferenced, a channel
  that is closed twice. The groups live behind a mutex and every handler is one step.
\<close>

subsection \<open>Annotations and objects\<close>

definition ipamWatchAnnotation :: string where "ipamWatchAnnotation = ''ipam.f5.com/ip-allocation''"
definition groupAnnotation :: string where "groupAnnotation = ''ipam.f5.com/group''"
definition netviewAnnotation :: string where "netviewAnnotation = ''ipam.f5.com/infoblox-netview''"
definition cidrAnnotation :: string where "cidrAnnotation = ''ipam.f5.com/network-cidr''"
definition hostnameAnnotation :: string where "hostnameAnnotation = ''ipam.f5.com/hostname''"
definition ipAnnotation :: string where "ipAnnotation = ''virtual-server.f5.com/ip''"

text \<open>Of the Kubernetes objects the fields the client reads. An annotation map and a rule list
  may be nil (None). An informer passes an object, or, for a deletion it missed, a tombstone of
  another type.\<close>

record ObjectMeta =
  omName :: string
  omNamespace :: string
  omAnnotations :: "(string, string) fmap option"

record ConfigMap =
  cmMeta :: ObjectMeta

record IngressRule =
  ruleHost :: string

record Ingress =
  ingMeta :: ObjectMeta
  ingRules :: "IngressRule list option"

datatype kobj = KConfigMap ConfigMap | KIngress Ingress | KNamespace string | KTombstone string

definition annot :: "ObjectMeta \<Rightarrow> string \<Rightarrow> string option" where
  "annot m key = (case omAnnotations m of None \<Rightarrow> None | Some as \<Rightarrow> fmlookup as key)"

definition annot_val :: "ObjectMeta \<Rightarrow> string \<Rightarrow> string" where
  "annot_val m key = (case annot m key of None \<Rightarrow> '''' | Some val \<Rightarrow> val)"

subsection \<open>State\<close>

text \<open>A label selector is carried as its text. \<open>infStopped\<close>: the stop channel is closed.\<close>

record rsInformer =
  infNamespace :: string
  infRunning :: bool
  infStopped :: bool

text \<open>Where a worker is: before \<open>Get\<close>, blocked in it, or holding a key.\<close>

datatype 'k worker = Idle | Waiting | Holds 'k

text \<open>
  The fields of the Go struct, the messages the Controller has taken from the channel (\<open>sent\<close>),
  and what the goroutines hold: the keys to be retried after a delay, the sleeping goroutines of
  the start-up case (\<open>timers\<close>) and the two workers.
\<close>

record K8sClient =
  initialState :: bool
  nsQueue :: "string workqueue"
  rsQueue :: "resourceKey workqueue"
  nsInformer :: "string option option"
  rsInformers :: "(string, rsInformer) fmap"
  ipGroup :: IPGroups
  updated :: bool
  channel :: bool
  sent :: "IPGroups list"
  rsRetry :: "resourceKey list"
  nsRetry :: "string list"
  timers :: nat
  rsWorker :: "resourceKey worker"
  nsWorker :: "string worker"

text \<open>What happens to a message: taken within 3 seconds, not taken, or not encoded.\<close>

datatype send = Acked | TimedOut | EncodeFails

record kenv =
  cmByName :: "rsInformer \<Rightarrow> string \<Rightarrow> ConfigMap list option"
  ingByName :: "rsInformer \<Rightarrow> string \<Rightarrow> Ingress list option"
  nsByKey :: "string \<Rightarrow> bool option"
  sendTo :: send

text \<open>The range loops over the groups that one handler runs.\<close>

datatype ksite = FindRange | RemoveHostRange nat | RemoveSpecRange

type_synonym korder = "ksite \<Rightarrow> GroupKey fset \<Rightarrow> GroupKey list"

subsection \<open>Informers\<close>

definition watchingAllNamespaces :: "K8sClient \<Rightarrow> bool" where
  "watchingAllNamespaces c =
     (if map_len (rsInformers c) = 0 then False else fmlookup (rsInformers c) '''' \<noteq> None)"

definition newRsInformer :: "string \<Rightarrow> rsInformer" where
  "newRsInformer ns = \<lparr>infNamespace = ns, infRunning = False, infStopped = False\<rparr>"

text \<open>None is Go's error.\<close>

definition addNamespace :: "string \<Rightarrow> K8sClient \<Rightarrow> rsInformer option \<times> K8sClient" where
  "addNamespace ns c =
     (if watchingAllNamespaces c then (None, c)
      else if map_len (rsInformers c) > 0 \<and> ns = '''' then (None, c)
      else (case fmlookup (rsInformers c) ns of
              Some rsInf \<Rightarrow> (Some rsInf, c)
            | None \<Rightarrow>
                (let rsInf = newRsInformer ns
                 in (Some rsInf, c\<lparr>rsInformers := fmupd ns rsInf (rsInformers c)\<rparr>))))"

definition addNamespaceLabelInformer :: "string option \<Rightarrow> K8sClient \<Rightarrow> bool \<times> K8sClient" where
  "addNamespaceLabelInformer sel c =
     (if nsInformer c \<noteq> None then (False, c)
      else if map_len (rsInformers c) \<noteq> 0 then (False, c)
      else (True, c\<lparr>nsInformer := Some sel\<rparr>))"

text \<open>The key under which the informer of a namespace is found.\<close>

definition informer_key :: "K8sClient \<Rightarrow> string \<Rightarrow> string" where
  "informer_key c ns = (if watchingAllNamespaces c then '''' else ns)"

definition getResourceInformer :: "K8sClient \<Rightarrow> string \<Rightarrow> rsInformer option" where
  "getResourceInformer c ns = fmlookup (rsInformers c) (informer_key c ns)"

definition removeResourceInformers :: "string \<Rightarrow> K8sClient \<Rightarrow> K8sClient" where
  "removeResourceInformers ns c =
     (case fmlookup (rsInformers c) ns of
        None \<Rightarrow> c
      | Some _ \<Rightarrow> c\<lparr>rsInformers := fmdrop ns (rsInformers c)\<rparr>)"

definition startInformer :: "rsInformer \<Rightarrow> rsInformer" where
  "startInformer rsInf = rsInf\<lparr>infRunning := True\<rparr>"

definition stopInformer :: "rsInformer \<Rightarrow> rsInformer option" where
  "stopInformer rsInf = (if infStopped rsInf then None else Some (rsInf\<lparr>infStopped := True\<rparr>))"

subsection \<open>Construction\<close>

record KubeParams =
  Namespaces :: "string list"
  NamespaceLabel :: string
  Channel :: bool

text \<open>\<open>parse\<close> stands for \<^verbatim>\<open>labels.Parse\<close>; its error leaves a nil selector.\<close>

definition createLabel :: "(string \<Rightarrow> string option) \<Rightarrow> string \<Rightarrow> string option" where
  "createLabel parse label = (if label = '''' then Some '''' else parse label)"

text \<open>
  The function with which the informer of the namespaces lists and watches them, in a goroutine of
  its own: it asks the selector for its text, and a nil selector panics there.
\<close>

definition listNamespaces :: "K8sClient \<Rightarrow> K8sClient option" where
  "listNamespaces c = (case nsInformer c of Some None \<Rightarrow> None | _ \<Rightarrow> Some c)"

lemma listNamespaces_Some [simp]: "listNamespaces c = Some c' \<longleftrightarrow> c' = c \<and> nsInformer c \<noteq> Some None"
  by (auto simp: listNamespaces_def split: option.splits)

lemma listNamespaces_None [simp]: "listNamespaces c = None \<longleftrightarrow> nsInformer c = Some None"
  by (simp add: listNamespaces_def split: option.splits)

fun addNamespaces :: "string list \<Rightarrow> K8sClient \<Rightarrow> K8sClient" where
  "addNamespaces [] c = c"
| "addNamespaces (ns # nss) c = addNamespaces nss (snd (addNamespace ns c))"

definition NewKubernetesClient :: "(string \<Rightarrow> string option) \<Rightarrow> KubeParams \<Rightarrow> K8sClient" where
  "NewKubernetesClient parse params =
     (let c = \<lparr>initialState = False, nsQueue = newQueue, rsQueue = newQueue, nsInformer = None,
               rsInformers = fmempty, ipGroup = fmempty, updated = False, channel = Channel params,
               sent = [], rsRetry = [], nsRetry = [], timers = 0, rsWorker = Idle, nsWorker = Idle\<rparr>
      in if length (NamespaceLabel params) = 0 then
           (if length (Namespaces params) = 0 then snd (addNamespace '''' c)
            else addNamespaces (Namespaces params) c)
         else snd (addNamespaceLabelInformer (createLabel parse (NamespaceLabel params)) c))"

subsection \<open>Queueing and validity\<close>

definition enqueueNamespace :: "kobj \<Rightarrow> K8sClient \<Rightarrow> K8sClient option" where
  "enqueueNamespace obj c =
     (case obj of KNamespace name \<Rightarrow> Some (c\<lparr>nsQueue := qAdd name (nsQueue c)\<rparr>) | _ \<Rightarrow> None)"

definition enqueueResource :: "resourceKey \<Rightarrow> K8sClient \<Rightarrow> K8sClient" where
  "enqueueResource key c = c\<lparr>rsQueue := qAdd key (rsQueue c)\<rparr>"

text \<open>The key when the namespace is watched and the resource carries the annotation.\<close>

definition valid_meta :: "string \<Rightarrow> ObjectMeta \<Rightarrow> K8sClient \<Rightarrow> resourceKey option" where
  "valid_meta kind m c =
     (case getResourceInformer c (omNamespace m) of
        None \<Rightarrow> None
      | Some _ \<Rightarrow>
          (case annot m ipamWatchAnnotation of
             None \<Rightarrow> None
           | Some val \<Rightarrow>
               (if val = ''dynamic''
                then Some \<lparr>rkKind = kind, rkName = omName m, rkNamespace = omNamespace m\<rparr>
                else None)))"

definition checkValidConfigMap :: "kobj \<Rightarrow> K8sClient \<Rightarrow> resourceKey option option" where
  "checkValidConfigMap obj c =
     (case obj of KConfigMap cm \<Rightarrow> Some (valid_meta ''ConfigMap'' (cmMeta cm) c) | _ \<Rightarrow> None)"

definition checkValidIngress :: "kobj \<Rightarrow> K8sClient \<Rightarrow> resourceKey option option" where
  "checkValidIngress obj c =
     (case obj of KIngress ing \<Rightarrow> Some (valid_meta ''Ingress'' (ingMeta ing) c) | _ \<Rightarrow> None)"

definition cmHostExists :: "ConfigMap \<Rightarrow> string \<Rightarrow> bool" where
  "cmHostExists cm host =
     (case annot (cmMeta cm) hostnameAnnotation of Some val \<Rightarrow> val = host | None \<Rightarrow> False)"

definition ingHostExists :: "Ingress \<Rightarrow> string \<Rightarrow> bool" where
  "ingHostExists ing host =
     (case ingRules ing of
        None \<Rightarrow> (case annot (ingMeta ing) hostnameAnnotation of Some val \<Rightarrow> val = host | None \<Rightarrow> False)
      | Some rules \<Rightarrow> contains (map ruleHost rules) host)"

subsection \<open>Writing the groups to the Controller\<close>

definition writeIPGroups :: "send \<Rightarrow> K8sClient \<Rightarrow> K8sClient" where
  "writeIPGroups out c =
     (if qLen (rsQueue c) = 0 \<and> qLen (nsQueue c) = 0 \<or> initialState c then
        (if channel c then
           (case out of
              EncodeFails \<Rightarrow> c
            | Acked \<Rightarrow> c\<lparr>sent := sent c @ [ipGroup c], initialState := True, updated := False\<rparr>
            | TimedOut \<Rightarrow> c\<lparr>initialState := True, updated := False\<rparr>)
         else c\<lparr>initialState := True, updated := False\<rparr>)
      else c)"

subsection \<open>Dropping the hosts a resource no longer has\<close>

text \<open>
  \<^verbatim>\<open>for _, host := range spec.Hosts\<close> with \<open>removeHost\<close> in its body. The loop runs over the slice
  as it was, and \<open>removeHost\<close> shifts the cells of that same array: after a removal the array
  holds the remaining hosts and behind them the cells that were not overwritten. \<open>cells\<close> is the
  array, \<open>at\<close> the place of the spec in the groups, and the list the indices still to visit. The
  result tells whether a host was found to be gone.
\<close>

definition cells_after :: "GroupKey \<times> nat \<Rightarrow> IPGroups \<Rightarrow> string list \<Rightarrow> string list" where
  "cells_after at groups cells =
     (let hosts = Hosts (spec_at groups (fst at) (snd at)) in hosts @ drop (length hosts) cells)"

fun prune_loop ::
    "korder \<Rightarrow> (string \<Rightarrow> bool) \<Rightarrow> resourceKey \<Rightarrow> GroupKey \<times> nat \<Rightarrow> nat list \<Rightarrow> string list \<Rightarrow> IPGroups \<Rightarrow>
     bool \<Rightarrow> IPGroups \<times> bool" where
  "prune_loop ord exists key at [] cells groups gone = (groups, gone)"
| "prune_loop ord exists key at (i # is) cells groups gone =
     (let host = cells ! i in
      if \<not> exists host then
        (let groups' = removeHost groups host key (ord (RemoveHostRange i) (fmdom groups))
         in prune_loop ord exists key at is (cells_after at groups' cells) groups' True)
      else prune_loop ord exists key at is cells groups gone)"

definition prune_hosts ::
    "korder \<Rightarrow> (string \<Rightarrow> bool) \<Rightarrow> resourceKey \<Rightarrow> IPGroups \<Rightarrow> IPGroups \<times> bool" where
  "prune_hosts ord exists key groups =
     (case locate groups key (ord FindRange (fmdom groups)) of
        None \<Rightarrow> (groups, False)
      | Some at \<Rightarrow>
          (let hosts = Hosts (spec_at groups (fst at) (snd at))
           in prune_loop ord exists key at [0..<length hosts] hosts groups False))"

subsection \<open>Handlers\<close>

definition find_spec :: "korder \<Rightarrow> resourceKey \<Rightarrow> K8sClient \<Rightarrow> bool \<times> Spec \<times> string" where
  "find_spec ord key c = getSpec (ipGroup c) key (ord FindRange (fmdom (ipGroup c)))"

definition drop_spec :: "korder \<Rightarrow> Spec \<Rightarrow> K8sClient \<Rightarrow> K8sClient" where
  "drop_spec ord spec c =
     c\<lparr>ipGroup := removeFromIPGroup (ipGroup c) spec (ord RemoveSpecRange (fmdom (ipGroup c)))\<rparr>"

text \<open>The resource is not watched any more: take it out of the groups and tell the Controller.\<close>

definition forget_resource :: "korder \<Rightarrow> send \<Rightarrow> resourceKey \<Rightarrow> K8sClient \<Rightarrow> K8sClient" where
  "forget_resource ord out key c =
     (let (found, spec, _) = find_spec ord key c
      in if found then writeIPGroups out (drop_spec ord spec c) else c)"

definition addConfigMap :: "kobj \<Rightarrow> K8sClient \<Rightarrow> K8sClient option" where
  "addConfigMap obj c = do {
     valid \<leftarrow> checkValidConfigMap obj c;
     Some (case valid of Some key \<Rightarrow> enqueueResource key c | None \<Rightarrow> c)
   }"

text \<open>The groups after an update of a resource that was watched and still is.\<close>

definition updated_configmap :: "korder \<Rightarrow> ConfigMap \<Rightarrow> resourceKey \<Rightarrow> K8sClient \<Rightarrow> K8sClient" where
  "updated_configmap ord cm key c =
     (if fst (find_spec ord key c)
      then c\<lparr>ipGroup := fst (prune_hosts ord (cmHostExists cm) key (ipGroup c))\<rparr> else c)"

definition updateConfigMap :: "korder \<Rightarrow> send \<Rightarrow> kobj \<Rightarrow> kobj \<Rightarrow> K8sClient \<Rightarrow> K8sClient option" where
  "updateConfigMap ord out old cur c =
     (case cur of
        KConfigMap cm \<Rightarrow> do {
          valid \<leftarrow> checkValidConfigMap old c;
          case valid of
            Some key \<Rightarrow> do {
              still \<leftarrow> checkValidConfigMap cur c;
              Some (case still of
                      Some _ \<Rightarrow> enqueueResource key (updated_configmap ord cm key c)
                    | None \<Rightarrow> forget_resource ord out key c)
            }
          | None \<Rightarrow> do {
              now \<leftarrow> checkValidConfigMap cur c;
              Some (case now of Some key \<Rightarrow> enqueueResource key c | None \<Rightarrow> c)
            }
        }
      | _ \<Rightarrow> None)"

definition deleteConfigMap :: "korder \<Rightarrow> send \<Rightarrow> kobj \<Rightarrow> K8sClient \<Rightarrow> K8sClient option" where
  "deleteConfigMap ord out obj c = do {
     valid \<leftarrow> checkValidConfigMap obj c;
     Some (case valid of Some key \<Rightarrow> forget_resource ord out key c | None \<Rightarrow> c)
   }"

definition addIngress :: "kobj \<Rightarrow> K8sClient \<Rightarrow> K8sClient option" where
  "addIngress obj c = do {
     valid \<leftarrow> checkValidIngress obj c;
     Some (case valid of Some key \<Rightarrow> enqueueResource key c | None \<Rightarrow> c)
   }"

definition updated_ingress :: "korder \<Rightarrow> Ingress \<Rightarrow> resourceKey \<Rightarrow> K8sClient \<Rightarrow> K8sClient" where
  "updated_ingress ord ing key c =
     (let (found, spec, grp) = find_spec ord key c
      in if found then
           (let (groups, gone) = prune_hosts ord (ingHostExists ing) key (ipGroup c);
                c0 = c\<lparr>ipGroup := groups, updated := updated c \<or> gone\<rparr>
            in if annot_val (ingMeta ing) groupAnnotation \<noteq> grp then drop_spec ord spec c0 else c0)
         else c)"

definition updateIngress :: "korder \<Rightarrow> send \<Rightarrow> kobj \<Rightarrow> kobj \<Rightarrow> K8sClient \<Rightarrow> K8sClient option" where
  "updateIngress ord out old cur c =
     (case cur of
        KIngress ing \<Rightarrow> do {
          valid \<leftarrow> checkValidIngress old c;
          case valid of
            Some key \<Rightarrow> do {
              still \<leftarrow> checkValidIngress cur c;
              Some (case still of
                      Some _ \<Rightarrow> enqueueResource key (updated_ingress ord ing key c)
                    | None \<Rightarrow> forget_resource ord out key c)
            }
          | None \<Rightarrow> do {
              now \<leftarrow> checkValidIngress cur c;
              Some (case now of Some key \<Rightarrow> enqueueResource key c | None \<Rightarrow> c)
            }
        }
      | _ \<Rightarrow> None)"

definition deleteIngress :: "korder \<Rightarrow> send \<Rightarrow> kobj \<Rightarrow> K8sClient \<Rightarrow> K8sClient option" where
  "deleteIngress ord out obj c = do {
     valid \<leftarrow> checkValidIngress obj c;
     Some (case valid of Some key \<Rightarrow> forget_resource ord out key c | None \<Rightarrow> c)
   }"

subsection \<open>Synchronising a resource\<close>

text \<open>The network annotations: None when the CIDR, or with Infoblox the network view, is missing.\<close>

definition network_of :: "string \<Rightarrow> ObjectMeta \<Rightarrow> (string \<times> string) option" where
  "network_of ipam m =
     (case annot m cidrAnnotation of
        None \<Rightarrow> None
      | Some cidr \<Rightarrow>
          (if annot m netviewAnnotation = None \<and> ipam = ''infoblox'' then None
           else Some (annot_val m netviewAnnotation, cidr)))"

definition put_resource ::
    "GroupKey \<Rightarrow> string \<Rightarrow> resourceKey \<Rightarrow> string list \<Rightarrow> K8sClient \<Rightarrow> K8sClient" where
  "put_resource gKey kind rKey hosts c =
     (let (ret, groups) = addToIPGroup (ipGroup c) gKey kind (rkName rKey) (rkNamespace rKey) hosts
      in c\<lparr>ipGroup := groups, updated := updated c \<or> ret\<rparr>)"

text \<open>The loops over the objects found in the cache. True: the function has returned early, and so
  does not reach the write at its end.\<close>

fun sync_configmaps :: "string \<Rightarrow> resourceKey \<Rightarrow> ConfigMap list \<Rightarrow> K8sClient \<Rightarrow> bool \<times> K8sClient" where
  "sync_configmaps ipam rKey [] c = (False, c)"
| "sync_configmaps ipam rKey (cm # cms) c =
     (let m = cmMeta cm in
      if omNamespace m \<noteq> rkNamespace rKey \<or> omName m \<noteq> rkName rKey then sync_configmaps ipam rKey cms c
      else (case network_of ipam m of
              None \<Rightarrow> (True, c)
            | Some (netview, cidr) \<Rightarrow>
                (case annot m hostnameAnnotation of
                   None \<Rightarrow> (True, c)
                 | Some host \<Rightarrow>
                     sync_configmaps ipam rKey cms
                       (put_resource \<lparr>gkName = '''', gkNetview = netview, gkCidr = cidr\<rparr> ''ConfigMap''
                          rKey [host] c))))"

text \<open>The hosts of an Ingress: its rules', or, without rules, the annotated one.\<close>

definition ingress_hosts :: "Ingress \<Rightarrow> string list option" where
  "ingress_hosts ing =
     (case ingRules ing of
        None \<Rightarrow> map_option (\<lambda>host. [host]) (annot (ingMeta ing) hostnameAnnotation)
      | Some rules \<Rightarrow> Some (map ruleHost rules))"

fun sync_ingresses :: "string \<Rightarrow> resourceKey \<Rightarrow> Ingress list \<Rightarrow> K8sClient \<Rightarrow> bool \<times> K8sClient" where
  "sync_ingresses ipam rKey [] c = (False, c)"
| "sync_ingresses ipam rKey (ing # ings) c =
     (let m = ingMeta ing in
      if omNamespace m \<noteq> rkNamespace rKey \<or> omName m \<noteq> rkName rKey then sync_ingresses ipam rKey ings c
      else (case network_of ipam m of
              None \<Rightarrow> (True, c)
            | Some (netview, cidr) \<Rightarrow>
                sync_ingresses ipam rKey ings
                  (case ingress_hosts ing of
                     None \<Rightarrow> c
                   | Some hosts \<Rightarrow>
                       put_resource \<lparr>gkName = annot_val m groupAnnotation, gkNetview = netview, gkCidr = cidr\<rparr>
                         ''Ingress'' rKey hosts c)))"

definition sync_end :: "kenv \<Rightarrow> bool \<times> K8sClient \<Rightarrow> K8sClient" where
  "sync_end env r =
     (let (returned, c) = r
      in if returned then c else if updated c then writeIPGroups (sendTo env) c else c)"

text \<open>True: Go's error. The informer of a key whose namespace is not watched any more is nil.\<close>

definition syncResource :: "string \<Rightarrow> kenv \<Rightarrow> resourceKey \<Rightarrow> K8sClient \<Rightarrow> (bool \<times> K8sClient) option" where
  "syncResource ipam env rKey c =
     (if rkKind rKey = ''ConfigMap'' then do {
        rsInf \<leftarrow> getResourceInformer c (rkNamespace rKey);
        Some (case cmByName env rsInf (rkName rKey) of
                None \<Rightarrow> (True, c)
              | Some cms \<Rightarrow> (False, sync_end env (sync_configmaps ipam rKey cms c)))
      }
      else if rkKind rKey = ''Ingress'' then do {
        rsInf \<leftarrow> getResourceInformer c (rkNamespace rKey);
        Some (case ingByName env rsInf (rkName rKey) of
                None \<Rightarrow> (True, c)
              | Some ings \<Rightarrow> (False, sync_end env (sync_ingresses ipam rKey ings c)))
      }
      else Some (False, sync_end env (False, c)))"

subsection \<open>Synchronising a namespace\<close>

definition syncNamespace :: "kenv \<Rightarrow> string \<Rightarrow> K8sClient \<Rightarrow> (bool \<times> K8sClient) option" where
  "syncNamespace env ns c =
     (case nsByKey env ns of
        None \<Rightarrow> Some (True, c)
      | Some exists \<Rightarrow>
          (let found = getResourceInformer c ns in
           if exists \<and> found \<noteq> None then Some (False, c)
           else if exists then
             (case addNamespace ns c of
                (None, c1) \<Rightarrow> Some (True, c1)
              | (Some rsInf, c1) \<Rightarrow>
                  Some (False, c1\<lparr>rsInformers := fmupd ns (startInformer rsInf) (rsInformers c1)\<rparr>))
           else do {
             rsInf \<leftarrow> found;
             stopped \<leftarrow> stopInformer rsInf;
             Some (False, removeResourceInformers ns
                     (c\<lparr>rsInformers := fmupd (informer_key c ns) stopped (rsInformers c)\<rparr>))
           }))"

subsection \<open>The workers\<close>

text \<open>
  One turn of \<open>resourceWorker\<close> in its three parts, which other goroutines may come between:
  before \<open>Get\<close>, where the start-up case spawns a goroutine that sleeps; \<open>Get\<close> itself, None while
  it blocks; and the work on the key. The loop starts over in every case: when \<open>Get\<close> reports a
  shut-down the worker returns and \<^verbatim>\<open>wait.Until\<close> calls it again.
\<close>

definition enterResource :: "K8sClient \<Rightarrow> K8sClient" where
  "enterResource c =
     (if \<not> initialState c then c\<lparr>timers := Suc (timers c), rsWorker := Waiting\<rparr>
      else c\<lparr>rsWorker := Waiting\<rparr>)"

definition startupTimer :: "send \<Rightarrow> K8sClient \<Rightarrow> K8sClient" where
  "startupTimer out c =
     (let c1 = c\<lparr>timers := timers c - 1\<rparr> in
      if qLen (rsQueue c1) = 0 \<and> qLen (nsQueue c1) = 0 then writeIPGroups out c1 else c1)"

definition getResource :: "K8sClient \<Rightarrow> K8sClient option" where
  "getResource c =
     (case qGet (rsQueue c) of
        None \<Rightarrow> None
      | Some (key, q) \<Rightarrow>
          Some (c\<lparr>rsQueue := q, rsWorker := (case key of Some k \<Rightarrow> Holds k | None \<Rightarrow> Idle)\<rparr>))"

definition workResource :: "string \<Rightarrow> kenv \<Rightarrow> resourceKey \<Rightarrow> K8sClient \<Rightarrow> K8sClient option" where
  "workResource ipam env key c = do {
     (failed, c1) \<leftarrow> syncResource ipam env key c;
     let c2 = (if failed then c1\<lparr>rsRetry := rsRetry c1 @ [key]\<rparr> else c1);
     Some (c2\<lparr>rsQueue := qDone key (rsQueue c2), rsWorker := Idle\<rparr>)
   }"

definition getNamespace :: "K8sClient \<Rightarrow> K8sClient option" where
  "getNamespace c =
     (case qGet (nsQueue c) of
        None \<Rightarrow> None
      | Some (key, q) \<Rightarrow>
          Some (c\<lparr>nsQueue := q, nsWorker := (case key of Some k \<Rightarrow> Holds k | None \<Rightarrow> Idle)\<rparr>))"

definition workNamespace :: "kenv \<Rightarrow> string \<Rightarrow> K8sClient \<Rightarrow> K8sClient option" where
  "workNamespace env key c = do {
     (failed, c1) \<leftarrow> syncNamespace env key c;
     let c2 = (if failed then c1\<lparr>nsRetry := nsRetry c1 @ [key]\<rparr> else c1);
     Some (c2\<lparr>nsQueue := qDone key (nsQueue c2), nsWorker := Idle\<rparr>)
   }"

subsection \<open>Starting and stopping\<close>

definition startResourceInformers :: "K8sClient \<Rightarrow> K8sClient" where
  [simp]: "startResourceInformers c = c\<lparr>rsInformers := fmmap startInformer (rsInformers c)\<rparr>"

text \<open>The namespace informer has no state of its own in the model: it delivers events from here on.\<close>

definition Run_client :: "K8sClient \<Rightarrow> K8sClient" where
  "Run_client c = startResourceInformers c"

text \<open>Closing the stop channels of all informers, and the deferred shut-downs of the queues.\<close>

definition Stop_client :: "K8sClient \<Rightarrow> K8sClient option" where
  "Stop_client c =
     (if fmpred (\<lambda>ns rsInf. stopInformer rsInf \<noteq> None) (rsInformers c)
      then Some (c\<lparr>rsInformers := fmmap (\<lambda>rsInf. rsInf\<lparr>infStopped := True\<rparr>) (rsInformers c),
                   nsQueue := qShutDown (nsQueue c), rsQueue := qShutDown (rsQueue c)\<rparr>)
      else None)"

end
