(* ===== verification/Kube_Run.thy ===== *)
theory Kube_Run
  imports Kube_Client
begin

section \<open>Runs of the Kubernetes client\<close>

text \<open>
  The step relation of the client: an informer passes an event, the one of the namespaces lists
  them, a worker takes its next part, a sleeping goroutine wakes up, a delayed key is added again. Any order of them is a run, from
  \<open>NewKubernetesClient\<close> until the stop channel is closed. The section after it gives the
  invariant of all runs, with one lemma for each operation.
\<close>

datatype kevent =
    OnAddCM kobj | OnUpdateCM kobj kobj | OnDeleteCM kobj
  | OnAddIng kobj | OnUpdateIng kobj kobj | OnDeleteIng kobj
  | OnNamespace kobj | ListNs | Timer | EnterRs | GetRs | WorkRs | RetryRs | GetNs | WorkNs | RetryNs

text \<open>When a goroutine can take the step. Namespaces have names, and their worker runs only with a
  namespace informer.\<close>

fun enabled :: "kevent \<Rightarrow> K8sClient \<Rightarrow> bool" where
  "enabled (OnNamespace obj) c = (nsInformer c \<noteq> None \<and> obj \<noteq> KNamespace '''')"
| "enabled ListNs c = (nsInformer c \<noteq> None)"
| "enabled Timer c = (timers c > 0)"
| "enabled EnterRs c = (rsWorker c = Idle)"
| "enabled GetRs c = (rsWorker c = Waiting \<and> items (rsQueue c) \<noteq> [])"
| "enabled WorkRs c = (case rsWorker c of Holds _ \<Rightarrow> True | _ \<Rightarrow> False)"
| "enabled RetryRs c = (rsRetry c \<noteq> [])"
| "enabled GetNs c = (nsInformer c \<noteq> None \<and> (case nsWorker c of Holds _ \<Rightarrow> False | _ \<Rightarrow> True) \<and> items (nsQueue c) \<noteq> [])"
| "enabled WorkNs c = (case nsWorker c of Holds _ \<Rightarrow> True | _ \<Rightarrow> False)"
| "enabled RetryNs c = (nsRetry c \<noteq> [])"
| "enabled _ c = True"

text \<open>The step; None is a panic.\<close>

fun kube_handle :: "string \<Rightarrow> korder \<Rightarrow> kenv \<Rightarrow> kevent \<Rightarrow> K8sClient \<Rightarrow> K8sClient option" where
  "kube_handle ipam ord env (OnAddCM obj) c = addConfigMap obj c"
| "kube_handle ipam ord env (OnUpdateCM old cur) c = updateConfigMap ord (sendTo env) old cur c"
| "kube_handle ipam ord env (OnDeleteCM obj) c = deleteConfigMap ord (sendTo env) obj c"
| "kube_handle ipam ord env (OnAddIng obj) c = addIngress obj c"
| "kube_handle ipam ord env (OnUpdateIng old cur) c = updateIngress ord (sendTo env) old cur c"
| "kube_handle ipam ord env (OnDeleteIng obj) c = deleteIngress ord (sendTo env) obj c"
| "kube_handle ipam ord env (OnNamespace obj) c = enqueueNamespace obj c"
| "kube_handle ipam ord env ListNs c = listNamespaces c"
| "kube_handle ipam ord env Timer c = Some (startupTimer (sendTo env) c)"
| "kube_handle ipam ord env EnterRs c = Some (enterResource c)"
| "kube_handle ipam ord env GetRs c = getResource c"
| "kube_handle ipam ord env WorkRs c =
     (case rsWorker c of Holds key \<Rightarrow> workResource ipam env key c | _ \<Rightarrow> Some c)"
| "kube_handle ipam ord env RetryRs c =
     (case rsRetry c of [] \<Rightarrow> Some c
      | key # rest \<Rightarrow> Some (c\<lparr>rsRetry := rest, rsQueue := qAdd key (rsQueue c)\<rparr>))"
| "kube_handle ipam ord env GetNs c = getNamespace c"
| "kube_handle ipam ord env WorkNs c =
     (case nsWorker c of Holds key \<Rightarrow> workNamespace env key c | _ \<Rightarrow> Some c)"
| "kube_handle ipam ord env RetryNs c =
     (case nsRetry c of [] \<Rightarrow> Some c
      | key # rest \<Rightarrow> Some (c\<lparr>nsRetry := rest, nsQueue := qAdd key (nsQueue c)\<rparr>))"

inductive kube_step :: "string \<Rightarrow> K8sClient \<Rightarrow> kevent \<Rightarrow> K8sClient \<Rightarrow> bool" for ipam where
  "fair_range ord \<Longrightarrow> enabled ev c \<Longrightarrow> kube_handle ipam ord env ev c = Some c' \<Longrightarrow>
     kube_step ipam c ev c'"

inductive_cases kube_stepE: "kube_step ipam c ev c'"

inductive kube_run :: "string \<Rightarrow> K8sClient \<Rightarrow> kevent list \<Rightarrow> K8sClient \<Rightarrow> bool" for ipam where
  start: "c = Run_client (NewKubernetesClient parse params) \<Longrightarrow> kube_run ipam c [] c"
| step: "kube_run ipam c evs c1 \<Longrightarrow> kube_step ipam c1 ev c2 \<Longrightarrow> kube_run ipam c (evs @ [ev]) c2"

subsection \<open>Well-formed groups\<close>

text \<open>The operations on the groups keep them well-formed also when a resource is in two groups.\<close>

lemma removeFromIPGroup_wf: "groups_wf groups \<Longrightarrow> groups_wf (removeFromIPGroup groups rm gKeys)"
proof (induction gKeys arbitrary: groups)
  case (Cons gKey gKeys)
  show ?case
  proof (cases "fmlookup groups gKey")
    case (Some grp)
    note wf = groups_wfD [OF Cons.prems Some]
    show ?thesis
    proof (cases "cut_spec rm grp")
      case None
      with Some Cons show ?thesis by (simp add: groups_wf_drop)
    next
      case (Some grp')
      note cut = cut_spec_Some(2,3) [OF Some wf(2)]
      have "grp' \<noteq> [] \<Longrightarrow> groups_wf (fmupd gKey grp' groups)"
        using Cons.prems cut wf(3) by (intro groups_wf_upd) auto
      moreover have "groups_wf (fmdrop gKey (fmupd gKey grp' groups))"
      proof -
        have "fmdrop gKey (fmupd gKey grp' groups) = fmdrop gKey groups" by (rule fmap_ext) simp
        with groups_wf_drop [OF Cons.prems] show ?thesis by simp
      qed
      ultimately show ?thesis
        using \<open>fmlookup groups gKey = Some grp\<close> Some by (cases grp') (simp_all add: Let_def)
    qed
  qed (simp add: Cons)
qed simp

lemma removeHost_groups_wf:
  "groups_wf groups \<Longrightarrow> groups_wf (removeHost_groups h key groups d gKeys)"
proof (induction gKeys arbitrary: groups d)
  case (Cons gKey gKeys)
  show ?case
  proof (cases "fmlookup groups gKey")
    case (Some grp)
    note wf = groups_wfD [OF Cons.prems Some]
    let ?r = "removeHost_specs h key grp d"
    have "fst ?r \<noteq> []" using wf(1) removeHost_specs_keys(1) by (metis map_is_Nil_conv)
    moreover have "Kind ` set (fst ?r) = Kind ` set grp"
      using removeHost_specs_keys(2) by (metis set_map)
    then have "Kind spec \<noteq> ''''" if "spec \<in> set (fst ?r)" for spec
      using that wf(3) by (metis imageE imageI)
    ultimately have "groups_wf (fmupd gKey (fst ?r) groups)"
      using wf(2) Cons.prems by (intro groups_wf_upd) (simp_all add: removeHost_specs_keys)
    with Some Cons.IH show ?thesis by (simp add: case_prod_beta)
  qed (simp add: Cons)
qed simp

lemma removeHost_wf: "groups_wf groups \<Longrightarrow> groups_wf (removeHost groups h key gKeys)"
  by (simp add: removeHost_def removeHost_groups_wf)

lemma prune_loop_wf:
  "groups_wf groups \<Longrightarrow> groups_wf (fst (prune_loop ord exists key at is cells groups gone))"
  by (induction ord exists key at "is" cells groups gone rule: prune_loop.induct)
     (simp_all add: Let_def removeHost_wf)

lemma prune_hosts_wf: "groups_wf groups \<Longrightarrow> groups_wf (fst (prune_hosts ord exists key groups))"
  by (simp add: prune_hosts_def Let_def prune_loop_wf split: option.split)

subsection \<open>The invariant\<close>

fun held :: "'k worker \<Rightarrow> 'k set" where
  "held (Holds k) = {k}"
| "held _ = {}"

definition watched_kind :: "resourceKey \<Rightarrow> bool" where
  "watched_kind key \<longleftrightarrow> rkKind key = ''ConfigMap'' \<or> rkKind key = ''Ingress''"

text \<open>The queues are well-formed and know what the workers hold; only keys of watched kinds and
  proper namespaces are in them.\<close>

definition queues_inv :: "K8sClient \<Rightarrow> bool" where
  "queues_inv c \<longleftrightarrow>
     queue_ok (rsQueue c) \<and> processing (rsQueue c) = held (rsWorker c) \<and>
     queue_ok (nsQueue c) \<and> processing (nsQueue c) = held (nsWorker c) \<and>
     (\<forall>key \<in> dirty (rsQueue c) \<union> held (rsWorker c) \<union> set (rsRetry c). watched_kind key) \<and>
     '''' \<notin> dirty (nsQueue c) \<union> held (nsWorker c) \<union> set (nsRetry c)"

text \<open>An informer is registered under its namespace and not stopped; all namespaces are watched by
  one informer or not at all, and never when namespaces come by label.\<close>

definition informers_inv :: "K8sClient \<Rightarrow> bool" where
  "informers_inv c \<longleftrightarrow>
     (\<forall>ns rsInf. fmlookup (rsInformers c) ns = Some rsInf \<longrightarrow> infNamespace rsInf = ns \<and> \<not> infStopped rsInf) \<and>
     ('''' \<in> keys (rsInformers c) \<longrightarrow> keys (rsInformers c) = {''''} \<and> nsInformer c = None) \<and>
     (nsInformer c = None \<longrightarrow> dirty (nsQueue c) = {} \<and> held (nsWorker c) = {} \<and> nsRetry c = [])"

definition output_inv :: "K8sClient \<Rightarrow> bool" where
  "output_inv c \<longleftrightarrow> (sent c \<noteq> [] \<longrightarrow> initialState c \<and> channel c) \<and> groups_wf (ipGroup c)"

definition kube_inv :: "K8sClient \<Rightarrow> bool" where
  "kube_inv c \<longleftrightarrow> queues_inv c \<and> informers_inv c \<and> output_inv c"

lemma watchingAll_iff: "watchingAllNamespaces c \<longleftrightarrow> '''' \<in> keys (rsInformers c)"
  by (auto simp: watchingAllNamespaces_def keys_iff)

lemma writeIPGroups_keeps [simp]:
  "rsQueue (writeIPGroups out c) = rsQueue c" "nsQueue (writeIPGroups out c) = nsQueue c"
  "rsInformers (writeIPGroups out c) = rsInformers c" "nsInformer (writeIPGroups out c) = nsInformer c"
  "ipGroup (writeIPGroups out c) = ipGroup c" "rsRetry (writeIPGroups out c) = rsRetry c"
  "nsRetry (writeIPGroups out c) = nsRetry c" "rsWorker (writeIPGroups out c) = rsWorker c"
  "nsWorker (writeIPGroups out c) = nsWorker c" "channel (writeIPGroups out c) = channel c"
  "timers (writeIPGroups out c) = timers c"
  by (simp_all add: writeIPGroups_def split: send.split)

lemma queues_inv_write [simp]: "queues_inv (writeIPGroups out c) = queues_inv c"
  by (simp add: queues_inv_def)

lemma informers_inv_write [simp]: "informers_inv (writeIPGroups out c) = informers_inv c"
  by (simp add: informers_inv_def)

lemma output_inv_write: "output_inv c \<Longrightarrow> output_inv (writeIPGroups out c)"
  by (auto simp: output_inv_def writeIPGroups_def split: send.split)

text \<open>Operations that change only the groups, the flag and what is sent.\<close>

definition same_plumbing :: "K8sClient \<Rightarrow> K8sClient \<Rightarrow> bool" where
  "same_plumbing c c' \<longleftrightarrow>
     rsQueue c' = rsQueue c \<and> nsQueue c' = nsQueue c \<and> rsInformers c' = rsInformers c \<and>
     nsInformer c' = nsInformer c \<and> rsRetry c' = rsRetry c \<and> nsRetry c' = nsRetry c \<and>
     rsWorker c' = rsWorker c \<and> nsWorker c' = nsWorker c \<and> channel c' = channel c \<and>
     timers c' = timers c"

lemma same_plumbing_refl [simp]: "same_plumbing c c"
  by (simp add: same_plumbing_def)

lemma same_plumbing_trans: "same_plumbing a b \<Longrightarrow> same_plumbing b c \<Longrightarrow> same_plumbing a c"
  by (simp add: same_plumbing_def)

lemma plumbing_inv: "same_plumbing c c' \<Longrightarrow> queues_inv c \<Longrightarrow> informers_inv c \<Longrightarrow> queues_inv c' \<and> informers_inv c'"
  by (simp add: same_plumbing_def queues_inv_def informers_inv_def)

lemma plumbing_informer: "same_plumbing c c' \<Longrightarrow> getResourceInformer c' ns = getResourceInformer c ns"
  by (simp add: same_plumbing_def getResourceInformer_def informer_key_def watchingAllNamespaces_def)

lemma put_resource_keeps:
  assumes "output_inv c" and "kind \<noteq> ''''"
  shows "same_plumbing c (put_resource gKey kind rKey hosts c) \<and> output_inv (put_resource gKey kind rKey hosts c)"
  using assms addToIPGroup_wf [of "ipGroup c" kind gKey]
  by (simp add: put_resource_def same_plumbing_def output_inv_def case_prod_beta)

text \<open>What adding a resource to the groups keeps, the loops keep.\<close>

lemma sync_configmaps_rule:
  assumes "\<And>gKey hosts c. Q c \<Longrightarrow> Q (put_resource gKey ''ConfigMap'' rKey hosts c)"
  shows "Q c \<Longrightarrow> Q (snd (sync_configmaps ipam rKey cms c))"
  by (induction cms arbitrary: c) (auto simp: Let_def assms split: option.split)

lemma sync_ingresses_rule:
  assumes "\<And>gKey hosts c. Q c \<Longrightarrow> Q (put_resource gKey ''Ingress'' rKey hosts c)"
  shows "Q c \<Longrightarrow> Q (snd (sync_ingresses ipam rKey ings c))"
  by (induction ings arbitrary: c) (auto simp: Let_def assms split: option.split)

lemma put_resource_rule:
  "kind \<noteq> '''' \<Longrightarrow> same_plumbing c0 c \<and> output_inv c \<Longrightarrow>
     same_plumbing c0 (put_resource gKey kind rKey hosts c) \<and> output_inv (put_resource gKey kind rKey hosts c)"
  using put_resource_keeps same_plumbing_trans by blast

lemma sync_keeps:
  assumes "output_inv c"
  shows "same_plumbing c (snd (sync_configmaps ipam rKey cms c)) \<and> output_inv (snd (sync_configmaps ipam rKey cms c))"
    and "same_plumbing c (snd (sync_ingresses ipam rKey ings c)) \<and> output_inv (snd (sync_ingresses ipam rKey ings c))"
  by (rule sync_configmaps_rule sync_ingresses_rule, rule put_resource_rule, simp, assumption, simp add: assms)+

lemma write_plumbing: "same_plumbing c c' \<and> output_inv c' \<Longrightarrow>
    same_plumbing c (writeIPGroups out c') \<and> output_inv (writeIPGroups out c')"
  by (simp add: same_plumbing_def output_inv_write)

lemma sync_end_keeps:
  "same_plumbing c (snd r) \<and> output_inv (snd r) \<Longrightarrow>
     same_plumbing c (sync_end env r) \<and> output_inv (sync_end env r)"
  using write_plumbing [where c = c and c' = "snd r" and out = "sendTo env"]
  by (simp add: sync_end_def case_prod_beta)

lemma syncResource_cases:
  assumes "syncResource ipam env rKey c = Some (failed, c')"
  obtains (retry) "failed" "c' = c"
  | (configmap) rsInf cms where "\<not> failed" "rkKind rKey = ''ConfigMap''"
      "getResourceInformer c (rkNamespace rKey) = Some rsInf" "cmByName env rsInf (rkName rKey) = Some cms"
      "c' = sync_end env (sync_configmaps ipam rKey cms c)"
  | (ingress) rsInf ings where "\<not> failed" "rkKind rKey = ''Ingress''"
      "getResourceInformer c (rkNamespace rKey) = Some rsInf" "ingByName env rsInf (rkName rKey) = Some ings"
      "c' = sync_end env (sync_ingresses ipam rKey ings c)"
  | (other) "\<not> failed" "rkKind rKey \<noteq> ''ConfigMap''" "rkKind rKey \<noteq> ''Ingress''"
      "c' = sync_end env (False, c)"
  using assms by (auto simp: syncResource_def bind_eq_Some_conv split: if_splits option.splits)

lemma syncResource_keeps:
  assumes "output_inv c" and "syncResource ipam env rKey c = Some (failed, c')"
  shows "same_plumbing c c' \<and> output_inv c'"
  using assms(2)
proof (cases rule: syncResource_cases)
  case (configmap rsInf cms)
  then show ?thesis using sync_end_keeps [OF sync_keeps(1) [OF assms(1)]] by simp
next
  case (ingress rsInf ings)
  then show ?thesis using sync_end_keeps [OF sync_keeps(2) [OF assms(1)]] by simp
next
  case other
  then show ?thesis using sync_end_keeps [where c = c and r = "(False, c)"] assms(1) by simp
qed (simp add: assms(1))

subsection \<open>What the handlers do\<close>

lemma drop_spec_keeps:
  "output_inv c \<Longrightarrow> same_plumbing c (drop_spec ord spec c) \<and> output_inv (drop_spec ord spec c)"
  by (simp add: drop_spec_def same_plumbing_def output_inv_def removeFromIPGroup_wf)

lemma forget_resource_keeps:
  "output_inv c \<Longrightarrow> same_plumbing c (forget_resource ord out key c) \<and> output_inv (forget_resource ord out key c)"
  by (simp add: forget_resource_def case_prod_beta write_plumbing [OF drop_spec_keeps])

lemma plumbing_kube_inv:
  assumes "kube_inv c" and "same_plumbing c c' \<and> output_inv c'"
  shows "kube_inv c'"
  using assms plumbing_inv [of c c'] by (simp add: kube_inv_def)

lemma enqueueResource_inv:
  "kube_inv c \<Longrightarrow> watched_kind key \<Longrightarrow> kube_inv (enqueueResource key c)"
  by (auto simp: kube_inv_def enqueueResource_def queues_inv_def informers_inv_def output_inv_def
      wq.pending_add wq.active_add split: if_splits)

lemma valid_meta_key:
  "valid_meta kind m c = Some key \<Longrightarrow>
     key = \<lparr>rkKind = kind, rkName = omName m, rkNamespace = omNamespace m\<rparr> \<and>
     getResourceInformer c (omNamespace m) \<noteq> None \<and> annot m ipamWatchAnnotation = Some ''dynamic''"
  by (auto simp: valid_meta_def split: option.splits if_splits)

lemma checkValid_kind:
  "checkValidConfigMap obj c = Some (Some key) \<Longrightarrow> watched_kind key"
  "checkValidIngress obj c = Some (Some key) \<Longrightarrow> watched_kind key"
  by (auto simp: checkValidConfigMap_def checkValidIngress_def watched_kind_def
      dest!: valid_meta_key split: kobj.splits)

text \<open>A handler queues the key of a valid resource, after it has changed the groups (\<open>c1\<close>), or it
  forgets a resource that is not valid any more, or it does nothing.\<close>

lemma updateConfigMap_cases:
  assumes "updateConfigMap ord out old cur c = Some c'"
  obtains (fresh) key where "checkValidConfigMap old c = Some None" "checkValidConfigMap cur c = Some (Some key)"
      "c' = enqueueResource key c"
  | (still) cm key key' where "cur = KConfigMap cm" "checkValidConfigMap old c = Some (Some key)"
      "checkValidConfigMap cur c = Some (Some key')" "c' = enqueueResource key (updated_configmap ord cm key c)"
  | (gone) key where "checkValidConfigMap old c = Some (Some key)" "checkValidConfigMap cur c = Some None"
      "c' = forget_resource ord out key c"
  | (ignored) "checkValidConfigMap old c = Some None" "checkValidConfigMap cur c = Some None" "c' = c"
proof -
  from assms obtain cm v where cm: "cur = KConfigMap cm" and v: "checkValidConfigMap old c = Some v"
    by (auto simp: updateConfigMap_def bind_eq_Some_conv split: kobj.splits)
  obtain w where w: "checkValidConfigMap cur c = Some w" by (simp add: cm checkValidConfigMap_def)
  from assms v w have c': "c' = (case v of
      Some key \<Rightarrow> (case w of Some _ \<Rightarrow> enqueueResource key (updated_configmap ord cm key c)
                     | None \<Rightarrow> forget_resource ord out key c)
    | None \<Rightarrow> (case w of Some key \<Rightarrow> enqueueResource key c | None \<Rightarrow> c))"
    by (cases v) (simp_all add: updateConfigMap_def cm)
  show ?thesis
  proof (cases v)
    case None
    then show ?thesis using c' v w by (cases w) (simp_all add: fresh ignored)
  next
    case (Some key)
    then show ?thesis
      using c' v w still [OF cm, of key] gone [of key] by (cases w) simp_all
  qed
qed

lemma updateIngress_cases:
  assumes "updateIngress ord out old cur c = Some c'"
  obtains (fresh) key where "checkValidIngress old c = Some None" "checkValidIngress cur c = Some (Some key)"
      "c' = enqueueResource key c"
  | (still) ing key key' where "cur = KIngress ing" "checkValidIngress old c = Some (Some key)"
      "checkValidIngress cur c = Some (Some key')" "c' = enqueueResource key (updated_ingress ord ing key c)"
  | (gone) key where "checkValidIngress old c = Some (Some key)" "checkValidIngress cur c = Some None"
      "c' = forget_resource ord out key c"
  | (ignored) "checkValidIngress old c = Some None" "checkValidIngress cur c = Some None" "c' = c"
proof -
  from assms obtain ing v where ing: "cur = KIngress ing" and v: "checkValidIngress old c = Some v"
    by (auto simp: updateIngress_def bind_eq_Some_conv split: kobj.splits)
  obtain w where w: "checkValidIngress cur c = Some w" by (simp add: ing checkValidIngress_def)
  from assms v w have c': "c' = (case v of
      Some key \<Rightarrow> (case w of Some _ \<Rightarrow> enqueueResource key (updated_ingress ord ing key c)
                     | None \<Rightarrow> forget_resource ord out key c)
    | None \<Rightarrow> (case w of Some key \<Rightarrow> enqueueResource key c | None \<Rightarrow> c))"
    by (cases v) (simp_all add: updateIngress_def ing)
  show ?thesis
  proof (cases v)
    case None
    then show ?thesis using c' v w by (cases w) (simp_all add: fresh ignored)
  next
    case (Some key)
    then show ?thesis
      using c' v w still [OF ing, of key] gone [of key] by (cases w) simp_all
  qed
qed

subsection \<open>Every step keeps the invariant\<close>

lemma updated_keeps:
  assumes "output_inv c"
  shows "same_plumbing c (updated_configmap ord cm key c) \<and> output_inv (updated_configmap ord cm key c)"
    and "same_plumbing c (updated_ingress ord ing key c) \<and> output_inv (updated_ingress ord ing key c)"
proof -
  have c: "same_plumbing c (c\<lparr>ipGroup := fst (prune_hosts ord P key (ipGroup c)), updated := u\<rparr>) \<and>
      output_inv (c\<lparr>ipGroup := fst (prune_hosts ord P key (ipGroup c)), updated := u\<rparr>)" for P u
    using assms prune_hosts_wf by (simp add: same_plumbing_def output_inv_def)
  have "same_plumbing c (c\<lparr>ipGroup := fst (prune_hosts ord P key (ipGroup c))\<rparr>) \<and>
      output_inv (c\<lparr>ipGroup := fst (prune_hosts ord P key (ipGroup c))\<rparr>)" for P
    using c [where P = P and u = "updated c"] by (simp add: same_plumbing_def output_inv_def)
  then show "same_plumbing c (updated_configmap ord cm key c) \<and> output_inv (updated_configmap ord cm key c)"
    using assms by (simp add: updated_configmap_def)
  have "same_plumbing c (drop_spec ord spec c0) \<and> output_inv (drop_spec ord spec c0)"
    if "same_plumbing c c0 \<and> output_inv c0" for spec c0
    using that drop_spec_keeps [of c0] same_plumbing_trans by blast
  then show "same_plumbing c (updated_ingress ord ing key c) \<and> output_inv (updated_ingress ord ing key c)"
    using assms c by (simp add: updated_ingress_def Let_def case_prod_beta)
qed

lemma resource_handlers_inv:
  assumes "kube_inv c"
  shows "addConfigMap obj c = Some c' \<Longrightarrow> kube_inv c'" and "addIngress obj c = Some c' \<Longrightarrow> kube_inv c'"
    and "deleteConfigMap ord out obj c = Some c' \<Longrightarrow> kube_inv c'"
    and "deleteIngress ord out obj c = Some c' \<Longrightarrow> kube_inv c'"
proof -
  have out: "output_inv c" using assms by (simp add: kube_inv_def)
  note kept = enqueueResource_inv [OF assms] plumbing_kube_inv [OF assms forget_resource_keeps [OF out]]
  have add: "kube_inv (case valid of None \<Rightarrow> c | Some key \<Rightarrow> enqueueResource key c)"
    if "\<And>key. valid = Some key \<Longrightarrow> watched_kind key" for valid
    using that by (cases valid) (simp_all add: assms kept(1))
  have del: "kube_inv (case valid of None \<Rightarrow> c | Some key \<Rightarrow> forget_resource ord out key c)" for valid
    by (cases valid) (simp_all add: assms kept(2))
  show "kube_inv c'" if "addConfigMap obj c = Some c'"
    using that add checkValid_kind(1) [of obj c]
    by (cases "checkValidConfigMap obj c") (simp_all add: addConfigMap_def, metis)
  show "kube_inv c'" if "addIngress obj c = Some c'"
    using that add checkValid_kind(2) [of obj c]
    by (cases "checkValidIngress obj c") (simp_all add: addIngress_def, metis)
  show "kube_inv c'" if "deleteConfigMap ord out obj c = Some c'"
    using that del by (cases "checkValidConfigMap obj c") (auto simp: deleteConfigMap_def)
  show "kube_inv c'" if "deleteIngress ord out obj c = Some c'"
    using that del by (cases "checkValidIngress obj c") (auto simp: deleteIngress_def)
qed

lemma update_handlers_inv:
  assumes "kube_inv c"
  shows "updateConfigMap ord out old cur c = Some c' \<Longrightarrow> kube_inv c'"
    and "updateIngress ord out old cur c = Some c' \<Longrightarrow> kube_inv c'"
proof -
  have out: "output_inv c" using assms by (simp add: kube_inv_def)
  note forget = plumbing_kube_inv [OF assms forget_resource_keeps [OF out]]
  note updated = updated_keeps [OF out, THEN plumbing_kube_inv [OF assms]]
  show "updateConfigMap ord out old cur c = Some c' \<Longrightarrow> kube_inv c'"
    by (erule updateConfigMap_cases) (simp_all add: assms forget updated(1) enqueueResource_inv checkValid_kind(1))
  show "updateIngress ord out old cur c = Some c' \<Longrightarrow> kube_inv c'"
    by (erule updateIngress_cases) (simp_all add: assms forget updated(2) enqueueResource_inv checkValid_kind(2))
qed

lemma write_inv: "kube_inv c \<Longrightarrow> kube_inv (writeIPGroups out c)"
  by (simp add: kube_inv_def output_inv_write)

text \<open>Steps that change only what the goroutines hold.\<close>

lemma timer_inv: "kube_inv c \<Longrightarrow> kube_inv (startupTimer out c)"
proof -
  assume "kube_inv c"
  then have "kube_inv (c\<lparr>timers := timers c - 1\<rparr>)"
    by (simp add: kube_inv_def queues_inv_def informers_inv_def output_inv_def)
  then show ?thesis by (simp add: startupTimer_def Let_def write_inv)
qed

lemma enter_inv: "kube_inv c \<Longrightarrow> rsWorker c = Idle \<Longrightarrow> kube_inv (enterResource c)"
  by (auto simp: enterResource_def kube_inv_def queues_inv_def informers_inv_def output_inv_def)

lemma getResource_inv:
  assumes "kube_inv c" and "rsWorker c = Waiting" and "getResource c = Some c'"
  shows "kube_inv c'"
proof -
  from assms(3) obtain key q where q: "qGet (rsQueue c) = Some (key, q)"
      and c': "c' = c\<lparr>rsQueue := q, rsWorker := (case key of Some k \<Rightarrow> Holds k | None \<Rightarrow> Idle)\<rparr>"
    by (auto simp: getResource_def split: option.splits)
  have ok: "queue_ok (rsQueue c)" using assms(1) by (simp add: kube_inv_def queues_inv_def)
  show ?thesis
  proof (cases key)
    case None
    with wq.get_shut [OF ok] q assms(1,2) show ?thesis
      by (simp add: c' kube_inv_def queues_inv_def informers_inv_def output_inv_def)
  next
    case (Some k)
    with wq.get_item [OF ok] q assms(1,2) show ?thesis
      by (auto simp: c' kube_inv_def queues_inv_def informers_inv_def output_inv_def)
  qed
qed

lemma getNamespace_inv:
  assumes "kube_inv c" and "nsInformer c \<noteq> None" and "held (nsWorker c) = {}" and "getNamespace c = Some c'"
  shows "kube_inv c'"
proof -
  from assms(4) obtain key q where q: "qGet (nsQueue c) = Some (key, q)"
      and c': "c' = c\<lparr>nsQueue := q, nsWorker := (case key of Some k \<Rightarrow> Holds k | None \<Rightarrow> Idle)\<rparr>"
    by (auto simp: getNamespace_def split: option.splits)
  have ok: "queue_ok (nsQueue c)" using assms(1) by (simp add: kube_inv_def queues_inv_def)
  show ?thesis
  proof (cases key)
    case None
    with wq.get_shut [OF ok] q assms(1-3) show ?thesis
      by (auto simp: c' kube_inv_def queues_inv_def informers_inv_def output_inv_def)
  next
    case (Some k)
    with wq.get_item [OF ok] q assms(1-3) show ?thesis
      by (auto simp: c' kube_inv_def queues_inv_def informers_inv_def output_inv_def)
  qed
qed

lemma retry_inv:
  assumes "kube_inv c"
  shows "rsRetry c = key # rest \<Longrightarrow> kube_inv (c\<lparr>rsRetry := rest, rsQueue := qAdd key (rsQueue c)\<rparr>)"
    and "nsRetry c = ns # nss \<Longrightarrow> kube_inv (c\<lparr>nsRetry := nss, nsQueue := qAdd ns (nsQueue c)\<rparr>)"
  using assms
  by (auto simp: kube_inv_def queues_inv_def informers_inv_def output_inv_def
      wq.pending_add wq.active_add split: if_splits)

lemma enqueueNamespace_inv:
  "kube_inv c \<Longrightarrow> nsInformer c \<noteq> None \<Longrightarrow> obj \<noteq> KNamespace '''' \<Longrightarrow> enqueueNamespace obj c = Some c' \<Longrightarrow>
     kube_inv c'"
  by (auto simp: enqueueNamespace_def kube_inv_def queues_inv_def informers_inv_def output_inv_def
      wq.pending_add wq.active_add split: if_splits kobj.splits)

lemma workResource_inv:
  assumes "kube_inv c" and "rsWorker c = Holds key" and "workResource ipam env key c = Some c'"
  shows "kube_inv c'"
proof -
  from assms(3) obtain failed c1 where s: "syncResource ipam env key c = Some (failed, c1)"
      and c': "c' = (let c2 = (if failed then c1\<lparr>rsRetry := rsRetry c1 @ [key]\<rparr> else c1)
                 in c2\<lparr>rsQueue := qDone key (rsQueue c2), rsWorker := Idle\<rparr>)"
    by (auto simp: workResource_def bind_eq_Some_conv Let_def)
  have kept: "same_plumbing c c1 \<and> output_inv c1"
    using syncResource_keeps [OF _ s] assms(1) by (simp add: kube_inv_def)
  then have inv: "kube_inv c1" using plumbing_kube_inv [OF assms(1)] by blast
  have "rsWorker c1 = Holds key" using kept assms(2) by (simp add: same_plumbing_def)
  with inv have "queue_ok (qDone key (rsQueue c1))"
    by (simp add: kube_inv_def queues_inv_def wq.ok_finish)
  with inv \<open>rsWorker c1 = Holds key\<close> show ?thesis
    by (auto simp: c' Let_def kube_inv_def queues_inv_def informers_inv_def output_inv_def
        wq.pending_finish wq.active_finish)
qed

text \<open>A namespace worker runs only when namespaces come by label, so no informer watches all of them.\<close>

lemma syncNamespace_cases:
  assumes "syncNamespace env ns c = Some (failed, c')" and "'''' \<notin> keys (rsInformers c)" and "ns \<noteq> ''''"
  obtains (retry) "failed" "c' = c" "nsByKey env ns = None"
  | (known) "\<not> failed" "c' = c" "nsByKey env ns = Some True" "fmlookup (rsInformers c) ns \<noteq> None"
  | (new) "\<not> failed" "nsByKey env ns = Some True" "fmlookup (rsInformers c) ns = None"
      "c' = c\<lparr>rsInformers := fmupd ns (startInformer (newRsInformer ns)) (rsInformers c)\<rparr>"
  | (removed) rsInf where "\<not> failed" "nsByKey env ns = Some False" "fmlookup (rsInformers c) ns = Some rsInf"
      "\<not> infStopped rsInf" "c' = c\<lparr>rsInformers := fmdrop ns (rsInformers c)\<rparr>"
proof -
  have key: "informer_key c ns = ns" and all: "\<not> watchingAllNamespaces c"
    using assms(2) by (simp_all add: informer_key_def watchingAll_iff)
  have drop: "fmdrop ns (fmupd ns x m) = fmdrop ns m" for x and m :: "(string, rsInformer) fmap"
    by (rule fmap_ext) simp
  have upd: "fmupd ns x (fmupd ns y m) = fmupd ns x m" for x y and m :: "(string, rsInformer) fmap"
    by (rule fmap_ext) simp
  show ?thesis
    using assms(1,3) that key all
    by (auto simp: syncNamespace_def getResourceInformer_def addNamespace_def stopInformer_def
        removeResourceInformers_def Let_def bind_eq_Some_conv drop upd split: option.splits if_splits)
qed

lemma workNamespace_inv:
  assumes "kube_inv c" and "nsWorker c = Holds ns" and "workNamespace env ns c = Some c'"
  shows "kube_inv c'"
proof -
  from assms(3) obtain failed c1 where s: "syncNamespace env ns c = Some (failed, c1)"
      and c': "c' = (let c2 = (if failed then c1\<lparr>nsRetry := nsRetry c1 @ [ns]\<rparr> else c1)
                 in c2\<lparr>nsQueue := qDone ns (nsQueue c2), nsWorker := Idle\<rparr>)"
    by (auto simp: workNamespace_def bind_eq_Some_conv Let_def)
  from assms(1,2) have ns: "ns \<noteq> ''''" and label: "nsInformer c \<noteq> None"
    by (auto simp: kube_inv_def queues_inv_def informers_inv_def)
  with assms(1) have all: "'''' \<notin> keys (rsInformers c)"
    by (auto simp: kube_inv_def informers_inv_def)
  have "kube_inv c1 \<and> nsWorker c1 = Holds ns \<and> nsInformer c1 \<noteq> None"
    using s all ns
  proof (cases rule: syncNamespace_cases)
    case new
    with assms(1,2) ns label all show ?thesis
      by (auto simp: kube_inv_def queues_inv_def informers_inv_def output_inv_def startInformer_def
          newRsInformer_def split: if_splits)
  next
    case (removed rsInf)
    with assms(1,2) label all show ?thesis
      by (auto simp: kube_inv_def queues_inv_def informers_inv_def output_inv_def split: if_splits)
  qed (simp_all add: assms(1,2) label)
  then have inv: "kube_inv c1" and w: "nsWorker c1 = Holds ns" and "nsInformer c1 \<noteq> None" by auto
  from inv w have "queue_ok (qDone ns (nsQueue c1))"
    by (simp add: kube_inv_def queues_inv_def wq.ok_finish)
  with inv w \<open>nsInformer c1 \<noteq> None\<close> show ?thesis
    by (auto simp: c' Let_def kube_inv_def queues_inv_def informers_inv_def output_inv_def
        wq.pending_finish wq.active_finish)
qed

lemma kube_handle_inv:
  assumes "kube_inv c" and "enabled ev c" and "kube_handle ipam ord env ev c = Some c'"
  shows "kube_inv c'"
proof (cases ev)
  case (OnNamespace obj)
  with assms enqueueNamespace_inv [of c obj c'] show ?thesis by simp
next
  case GetNs
  with assms have "held (nsWorker c) = {}" by (cases "nsWorker c") simp_all
  with GetNs assms getNamespace_inv [of c c'] show ?thesis by simp
next
  case WorkRs
  with assms workResource_inv [of c] show ?thesis by (auto split: worker.splits)
next
  case WorkNs
  with assms workNamespace_inv [of c] show ?thesis by (auto split: worker.splits)
next
  case RetryRs
  with assms retry_inv(1) [OF assms(1)] show ?thesis by (auto split: list.splits)
next
  case RetryNs
  with assms retry_inv(2) [OF assms(1)] show ?thesis by (auto split: list.splits)
qed (use assms resource_handlers_inv [OF assms(1)] update_handlers_inv [OF assms(1)]
      timer_inv [OF assms(1)] enter_inv [OF assms(1)] getResource_inv [OF assms(1)] in auto)

lemma map_len_empty [simp]: "map_len fmempty = 0"
  by simp

lemma addNamespace_inv:
  assumes "kube_inv c" and "nsInformer c = None"
  shows "kube_inv (snd (addNamespace ns c)) \<and> nsInformer (snd (addNamespace ns c)) = None"
proof (cases "fst (addNamespace ns c) = None \<or> fmlookup (rsInformers c) ns \<noteq> None")
  case True
  then have "snd (addNamespace ns c) = c"
    by (auto simp: addNamespace_def Let_def split: if_splits option.splits)
  with assms show ?thesis by simp
next
  case False
  then have new: "snd (addNamespace ns c) = c\<lparr>rsInformers := fmupd ns (newRsInformer ns) (rsInformers c)\<rparr>"
      and "\<not> watchingAllNamespaces c" "ns = '''' \<Longrightarrow> rsInformers c = fmempty"
    by (auto simp: addNamespace_def Let_def split: if_splits option.splits)
  then show ?thesis
    using assms unfolding new kube_inv_def
    by (auto simp: watchingAll_iff queues_inv_def informers_inv_def output_inv_def newRsInformer_def
        split: if_splits)
qed

lemma addNamespaces_inv: "kube_inv c \<Longrightarrow> nsInformer c = None \<Longrightarrow> kube_inv (addNamespaces nss c)"
  by (induction nss arbitrary: c) (simp_all add: addNamespace_inv)

lemma start_inv: "kube_inv (Run_client (NewKubernetesClient parse params))"
proof -
  let ?c = "\<lparr>initialState = False, nsQueue = newQueue, rsQueue = newQueue, nsInformer = None,
     rsInformers = fmempty, ipGroup = fmempty, updated = False, channel = Channel params,
     sent = [], rsRetry = [], nsRetry = [], timers = 0, rsWorker = Idle, nsWorker = Idle\<rparr>"
  have c: "kube_inv ?c"
    by (simp add: kube_inv_def queues_inv_def informers_inv_def output_inv_def groups_wf_def)
      (simp add: newQueue_def)
  then have "kube_inv (snd (addNamespaceLabelInformer sel ?c))" for sel
    by (auto simp: addNamespaceLabelInformer_def kube_inv_def queues_inv_def informers_inv_def output_inv_def)
  with c have new: "kube_inv (NewKubernetesClient parse params)"
    unfolding NewKubernetesClient_def Let_def by (simp add: addNamespace_inv addNamespaces_inv)
  have run: "kube_inv (Run_client c')" if "kube_inv c'" for c'
    using that
    by (auto simp: Run_client_def kube_inv_def queues_inv_def informers_inv_def output_inv_def startInformer_def)
  from run [OF new] show ?thesis .
qed

lemma run_inv: "kube_run ipam c evs c' \<Longrightarrow> kube_inv c'"
proof (induction rule: kube_run.induct)
  case (start c parse params)
  then show ?case by (simp add: start_inv)
next
  case (step c evs c1 ev c2)
  from step.hyps(2) show ?case by (rule kube_stepE) (rule kube_handle_inv [OF step.IH])
qed

end
