(* ===== verification/Kube_Prune.thy ===== *)
theory Kube_Prune
  imports Kube_Run
begin

section \<open>Dropping the hosts a resource has lost\<close>

text \<open>
  What the loop of \<open>updateIngress\<close> and \<open>updateConfigMap\<close> does to the hosts of a resource. The loop
  reads the array that \<open>removeHost\<close> shifts under it, so the host after a removed one is not looked
  at; \<open>survivors\<close> is the list that is left. First on the list of hosts and the array alone, then
  for the groups.
\<close>

subsection \<open>The array\<close>

fun survivors :: "(string \<Rightarrow> bool) \<Rightarrow> string list \<Rightarrow> string list" where
  "survivors exists [] = []"
| "survivors exists [x] = (if exists x then [x] else [])"
| "survivors exists (x # y # ys) =
     (if exists x then x # survivors exists (y # ys)
      else if ys = [] then survivors exists [y]
      else y # survivors exists ys)"

fun scan :: "(string \<Rightarrow> bool) \<Rightarrow> nat list \<Rightarrow> string list \<Rightarrow> string list \<Rightarrow> string list" where
  "scan exists [] cells hosts = hosts"
| "scan exists (i # is) cells hosts =
     (if \<not> exists (cells ! i) then
        (let hosts' = remove1 (cells ! i) hosts
         in scan exists is (hosts' @ drop (length hosts') cells) hosts')
      else scan exists is cells hosts)"

text \<open>Behind the hosts that are left the array holds only copies of its last host.\<close>

lemma scan_tail:
  assumes "\<And>j. i \<le> j \<Longrightarrow> j < n \<Longrightarrow> cells ! j = l" and "length hosts \<le> i" and "distinct hosts"
    and "length hosts \<le> length cells" and "n \<le> length cells"
  shows "scan exists [i..<n] cells hosts = (if i < n \<and> \<not> exists l then remove1 l hosts else hosts)"
  using assms
proof (induction "n - i" arbitrary: i cells hosts)
  case 0
  then show ?case by simp
next
  case (Suc k)
  then have i: "i < n" by simp
  then have upt: "[i..<n] = i # [Suc i..<n]" by (rule upt_conv_Cons)
  have l: "cells ! i = l" using Suc.prems(1) i by simp
  let ?h = "remove1 l hosts"
  have len: "length ?h \<le> length hosts" by (simp add: length_remove1)
  have IH: "scan exists [Suc i..<n] c h = (if Suc i < n \<and> \<not> exists l then remove1 l h else h)"
    if "\<And>j. Suc i \<le> j \<Longrightarrow> j < n \<Longrightarrow> c ! j = l" "length h \<le> Suc i" "distinct h" "length h \<le> length c" "n \<le> length c"
    for c h
    using Suc.hyps(1) [of "Suc i" c h] Suc.hyps(2) that by simp
  show ?case
  proof (cases "exists l")
    case True
    then show ?thesis using IH [of cells hosts] Suc.prems by (simp add: upt l)
  next
    case False
    let ?c = "?h @ drop (length ?h) cells"
    have "scan exists [Suc i..<n] ?c ?h = (if Suc i < n \<and> \<not> exists l then remove1 l ?h else ?h)"
    proof (rule IH)
      show "?c ! j = l" if "Suc i \<le> j" "j < n" for j
        using that Suc.prems len by (simp add: nth_append)
    qed (use Suc.prems len in auto)
    moreover have "remove1 l ?h = ?h" using Suc.prems(3) by (simp add: remove1_idem)
    ultimately show ?thesis using False i by (simp add: upt l Let_def)
  qed
qed

lemma scan_survivors:
  "length K = i \<Longrightarrow> R \<noteq> [] \<Longrightarrow> distinct (K @ R) \<Longrightarrow> set S \<subseteq> {last R} \<Longrightarrow> n = i + length R + length S \<Longrightarrow>
     scan exists [i..<n] (K @ R @ S) (K @ R) = K @ survivors exists R"
proof (induction exists R arbitrary: K i S rule: survivors.induct)
  case (2 exists x)
  then have i: "[i..<n] = i # [Suc i..<n]" by (intro upt_conv_Cons) simp
  have S: "S ! k = x" if "k < length S" for k using 2(4) that nth_mem by fastforce
  have tail: "scan exists [Suc i..<n] (K @ x # S) h = (if Suc i < n \<and> \<not> exists x then remove1 x h else h)"
    if "length h \<le> Suc i" "distinct h" for h
    using that 2 S by (intro scan_tail) (auto simp: nth_append nth_Cons')
  have cell: "(K @ x # S) ! i = x" using 2(1) by (simp add: nth_append)
  show ?case
  proof (cases "exists x")
    case True
    have "scan exists [Suc i..<n] (K @ x # S) (K @ [x]) = K @ [x]"
      using tail [of "K @ [x]"] 2(1,3) True by simp
    with True cell show ?thesis unfolding i by simp
  next
    case False
    from 2(3) have "remove1 x (K @ [x]) = K" "remove1 x K = K" by (simp_all add: remove1_append remove1_idem)
    then have "scan exists [Suc i..<n] (K @ x # S) K = K"
      using tail [of K] 2(1,3) by simp
    with False cell \<open>remove1 x (K @ [x]) = K\<close> 2(1) show ?thesis unfolding i by (simp add: Let_def)
  qed
next
  case (3 exists x y ys)
  then have i: "[i..<n] = i # [Suc i..<n]" by (intro upt_conv_Cons) simp
  have cell: "(K @ (x # y # ys) @ S) ! i = x" using 3(4) by (simp add: nth_append)
  show ?case
  proof (cases "exists x")
    case True
    have "scan exists [Suc i..<n] ((K @ [x]) @ (y # ys) @ S) ((K @ [x]) @ y # ys) =
        (K @ [x]) @ survivors exists (y # ys)"
      using 3(4-8) by (intro 3(1) [OF True]) auto
    with True cell show ?thesis unfolding i by simp
  next
    case False
    from 3(6) have rm: "remove1 x (K @ x # y # ys) = K @ y # ys" by (simp add: remove1_append)
    let ?S = "last (y # ys) # S"
    have cells: "drop (length (K @ y # ys)) (K @ x # y # ys @ S) = ?S"
    proof -
      have "x # y # ys = butlast (x # y # ys) @ [last (y # ys)]"
        by (metis append_butlast_last_id last_ConsR list.distinct(1))
      then have "K @ x # y # ys @ S = (K @ butlast (x # y # ys)) @ ?S"
        by (metis append.assoc append_Cons append_Nil)
      then show ?thesis by (metis append_eq_conv_conj length_append length_butlast length_Cons diff_Suc_1)
    qed
    have step: "scan exists [i..<n] (K @ x # y # ys @ S) (K @ x # y # ys) =
        scan exists [Suc i..<n] (K @ y # ys @ ?S) (K @ y # ys)"
      using False 3(4) cell cells rm unfolding i by (simp add: Let_def)
    show ?thesis
    proof (cases ys)
      case Nil
      have "scan exists [Suc i..<n] (K @ y # ?S) (K @ [y]) =
          (if Suc i < n \<and> \<not> exists y then remove1 y (K @ [y]) else K @ [y])"
      proof (rule scan_tail)
        show "(K @ y # ?S) ! j = y" if "Suc i \<le> j" "j < n" for j
        proof -
          have "(y # ?S) ! (j - i) \<in> {y}"
            using that 3(4,7,8) Nil nth_mem [of "j - i" "y # ?S"] by fastforce
          with that 3(4) show ?thesis by (simp add: nth_append)
        qed
      qed (use 3 Nil in auto)
      with step 3(4,6,8) False Nil show ?thesis by (simp add: remove1_append)
    next
      case (Cons z zs)
      have "scan exists [Suc i..<n] ((K @ [y]) @ ys @ ?S) ((K @ [y]) @ ys) = (K @ [y]) @ survivors exists ys"
        using 3(3) [OF False, of "K @ [y]" "Suc i" ?S] 3(4-8) Cons by auto
      with step False Cons show ?thesis by simp
    qed
  qed
qed simp

text \<open>What survives: every host that still exists, in order; and a host that is gone only when the
  host before it is gone too and it is not the last.\<close>

lemma survivors_filter: "filter exists (survivors exists xs) = filter exists xs"
  by (induction exists xs rule: survivors.induct) auto

lemma set_survivors: "set (survivors exists xs) \<subseteq> set xs"
  by (induction exists xs rule: survivors.induct) auto

lemma survivors_all: "(\<And>x. x \<in> set xs \<Longrightarrow> exists x) \<Longrightarrow> survivors exists xs = xs"
  by (induction exists xs rule: survivors.induct) auto

subsection \<open>The groups\<close>

text \<open>The place of a resource in its group; \<open>removeHost\<close> does not move it.\<close>

definition located :: "IPGroups \<Rightarrow> resourceKey \<Rightarrow> GroupKey \<times> nat \<Rightarrow> bool" where
  "located groups key at \<longleftrightarrow>
     (\<exists>grp. fmlookup groups (fst at) = Some grp \<and> snd at < length grp \<and> spec_key (grp ! snd at) = key)"

lemma group_hosts_nth:
  "distinct (map spec_key grp) \<Longrightarrow> i < length grp \<Longrightarrow> group_hosts grp (spec_key (grp ! i)) = Some (Hosts (grp ! i))"
proof (induction grp arbitrary: i)
  case (Cons spec grp)
  show ?case
  proof (cases i)
    case (Suc k)
    with Cons.prems have "spec_key (grp ! k) \<in> spec_key ` set grp" by simp
    with Cons.prems have "spec_key (grp ! k) \<noteq> spec_key spec" by auto
    with Suc Cons show ?thesis by simp
  qed simp
qed simp

lemma located_hosts:
  assumes "groups_wf groups" and "located groups key at"
  shows "hosts_of groups (fst at) key = Some (Hosts (spec_at groups (fst at) (snd at)))"
proof -
  from assms(2) obtain grp where grp: "fmlookup groups (fst at) = Some grp" "snd at < length grp"
      "spec_key (grp ! snd at) = key"
    by (auto simp: located_def)
  then show ?thesis
    using group_hosts_nth [OF groups_wfD(2) [OF assms(1) grp(1)] grp(2)] by (simp add: hosts_of_def spec_at_def)
qed

lemma removeHost_groups_shape:
  "map_option (map spec_key) (fmlookup (removeHost_groups h key groups d gKeys) g) =
     map_option (map spec_key) (fmlookup groups g)"
proof (induction gKeys arbitrary: groups d)
  case (Cons gKey gKeys)
  show ?case
  proof (cases "fmlookup groups gKey")
    case (Some grp)
    then show ?thesis
      using removeHost_specs_keys(1) [of h key grp d] by (auto simp: case_prod_beta Cons.IH)
  qed (simp add: Cons.IH)
qed simp

lemma located_removeHost: "located groups key at \<Longrightarrow> located (removeHost groups h key' gKeys) key at"
proof -
  assume "located groups key at"
  then obtain grp where grp: "fmlookup groups (fst at) = Some grp" "snd at < length grp" "spec_key (grp ! snd at) = key"
    by (auto simp: located_def)
  from removeHost_groups_shape [of h key' groups False gKeys "fst at"] grp(1)
  obtain grp' where grp': "fmlookup (removeHost groups h key' gKeys) (fst at) = Some grp'"
      "map spec_key grp' = map spec_key grp"
    by (auto simp: removeHost_def)
  then have "length grp' = length grp" by (metis length_map)
  moreover from this grp' grp have "spec_key (grp' ! snd at) = key" by (metis nth_map)
  ultimately show ?thesis using grp(2) grp'(1) by (simp add: located_def)
qed

lemma locate_located: "locate groups key gKeys = Some at \<Longrightarrow> located groups key at"
  using locate_Some [of groups key gKeys "fst at" "snd at"] spec_index_Some [of key]
  by (fastforce simp: located_def)

text \<open>The loop over the groups does to the resource what \<open>scan\<close> does to its list of hosts.\<close>

lemma removeHost_located:
  assumes "fair_range ord" and "groups_wf groups" and "resources_unique groups" and "located groups key at"
    and "g = removeHost groups h key (ord (RemoveHostRange i) (fmdom groups))"
  shows "groups_wf g \<and> resources_unique g \<and> located g key at \<and>
    Hosts (spec_at g (fst at) (snd at)) = remove1 h (Hosts (spec_at groups (fst at) (snd at))) \<and>
    (\<forall>gKey key'. \<not> (gKey = fst at \<and> key' = key) \<longrightarrow> hosts_of g gKey key' = hosts_of groups gKey key')"
proof -
  have enum: "enumerates (ord (RemoveHostRange i) (fmdom groups)) groups"
    using assms(1) by (simp add: enumerates_def fair_range_def)
  note spec = removeHost_spec [OF assms(2,3) enum]
  have g: "groups_wf g" "resources_unique g" "located g key at"
    using spec(2) removeHost_unique [OF assms(2,3) enum] located_removeHost [OF assms(4)]
    by (simp_all add: assms(5))
  note here = located_hosts [OF assms(2,4)]
  have "hosts_of groups gKey key = None" if "gKey \<noteq> fst at" for gKey
    using assms(3) here that unfolding resources_unique_iff in_group_def by blast
  then have "\<forall>gKey key'. \<not> (gKey = fst at \<and> key' = key) \<longrightarrow> hosts_of g gKey key' = hosts_of groups gKey key'"
    by (auto simp: assms(5) spec(1))
  moreover have "Some (Hosts (spec_at g (fst at) (snd at))) =
      Some (remove1 h (Hosts (spec_at groups (fst at) (snd at))))"
    using located_hosts [OF g(1,3)] here spec(1) [of h key "fst at" key] by (simp add: assms(5))
  ultimately show ?thesis using g by simp
qed

lemma prune_loop_effect:
  assumes "fair_range ord"
  shows "groups_wf groups \<Longrightarrow> resources_unique groups \<Longrightarrow> located groups key at \<Longrightarrow>
    hosts_of (fst (prune_loop ord exists key at is cells groups gone)) gKey key' =
      (if gKey = fst at \<and> key' = key
       then Some (scan exists is cells (Hosts (spec_at groups (fst at) (snd at))))
       else hosts_of groups gKey key') \<and>
    resources_unique (fst (prune_loop ord exists key at is cells groups gone))"
proof (induction "is" arbitrary: cells groups gone)
  case Nil
  then show ?case using located_hosts [of groups key at] by simp
next
  case (Cons i "is")
  show ?case
  proof (cases "exists (cells ! i)")
    case False
    let ?g = "removeHost groups (cells ! i) key (ord (RemoveHostRange i) (fmdom groups))"
    from removeHost_located [OF assms Cons.prems, of ?g "cells ! i" i]
    have "groups_wf ?g" "resources_unique ?g" "located ?g key at"
        and h: "Hosts (spec_at ?g (fst at) (snd at)) = remove1 (cells ! i) (Hosts (spec_at groups (fst at) (snd at)))"
        and other: "\<not> (gKey = fst at \<and> key' = key) \<Longrightarrow> hosts_of ?g gKey key' = hosts_of groups gKey key'"
      by blast+
    with Cons.IH [of ?g "cells_after at ?g cells" True] False show ?thesis
      by (auto simp: Let_def cells_after_def)
  qed (use Cons in simp)
qed

lemma prune_loop_gone:
  "snd (prune_loop ord exists key at is cells groups gone) \<longleftrightarrow> gone \<or> (\<exists>i \<in> set is. \<not> exists (cells ! i))"
proof (induction "is" arbitrary: cells groups gone)
  case (Cons i "is")
  then show ?case by (cases "exists (cells ! i)") (simp_all add: Let_def)
qed simp

lemma prune_hosts_effect:
  assumes "fair_range ord" and "groups_wf groups" and "resources_unique groups"
    and "hosts_of groups gKey key = Some hosts" and "distinct hosts"
  shows "hosts_of (fst (prune_hosts ord exists key groups)) gKey' key' =
      (if gKey' = gKey \<and> key' = key then Some (survivors exists hosts) else hosts_of groups gKey' key') \<and>
    resources_unique (fst (prune_hosts ord exists key groups)) \<and>
    (snd (prune_hosts ord exists key groups) \<longleftrightarrow> (\<exists>h \<in> set hosts. \<not> exists h))"
proof -
  have enum: "enumerates (ord FindRange (fmdom groups)) groups"
    using assms(1) by (simp add: enumerates_def fair_range_def)
  have "gKey \<in> set (ord FindRange (fmdom groups))"
    using assms(4) by (auto simp: enumerates_set [OF enum] keys_iff hosts_of_def split: option.splits)
  then obtain at where at: "locate groups key (ord FindRange (fmdom groups)) = Some at"
    using assms(4) locate_None [of groups key "ord FindRange (fmdom groups)"]
    by (cases "locate groups key (ord FindRange (fmdom groups))") (auto simp: in_group_def)
  note loc = locate_located [OF at]
  have g: "fst at = gKey"
    using assms(3,4) located_hosts [OF assms(2) loc] unfolding resources_unique_iff in_group_def by blast
  with located_hosts [OF assms(2) loc] assms(4) have hosts: "Hosts (spec_at groups (fst at) (snd at)) = hosts"
    by simp
  have "scan exists [0..<length hosts] hosts hosts = survivors exists hosts"
    using scan_survivors [of "[]" 0 hosts "[]" "length hosts" exists] assms(5) by (cases hosts) simp_all
  moreover have "(\<exists>i \<in> set [0..<length hosts]. \<not> exists (hosts ! i)) \<longleftrightarrow> (\<exists>h \<in> set hosts. \<not> exists h)"
    unfolding set_upt by (metis atLeastLessThan_iff in_set_conv_nth le0)
  moreover have "prune_hosts ord exists key groups =
      prune_loop ord exists key at [0..<length hosts] hosts groups False"
    by (simp add: prune_hosts_def at hosts)
  ultimately show ?thesis
    using prune_loop_effect [OF assms(1-3) loc, of exists "[0..<length hosts]" hosts False gKey' key'] hosts
    by (simp only: prune_loop_gone) (simp add: g)
qed

end
