(* ===== verification/Kube_Properties.thy ===== *)
theory Kube_Properties
  imports Kube_Prune
begin

section \<open>Properties of the Kubernetes client\<close>

text \<open>
  What holds in every run, which steps can panic, what an update, a deletion and a
  synchronisation do to the groups and to the messages, and four scenarios in which the groups or
  the messages go wrong.
\<close>

subsection \<open>Examples\<close>

definition demo_meta :: "string \<Rightarrow> (string \<times> string) list \<Rightarrow> ObjectMeta" where
  "demo_meta name as = \<lparr>omName = name, omNamespace = ''ns'',
     omAnnotations = Some (fmap_of_list ((ipamWatchAnnotation, ''dynamic'') # as))\<rparr>"

definition demo_ingress :: "(string \<times> string) list \<Rightarrow> string list \<Rightarrow> Ingress" where
  "demo_ingress as hosts = \<lparr>ingMeta = demo_meta ''web'' as,
     ingRules = Some (map (\<lambda>h. \<lparr>ruleHost = h\<rparr>) hosts)\<rparr>"

definition net8 :: "(string \<times> string) list" where
  "net8 = [(cidrAnnotation, ''10.0.0.0/8''), (netviewAnnotation, ''default'')]"

definition net16 :: "(string \<times> string) list" where
  "net16 = [(cidrAnnotation, ''10.1.0.0/16''), (netviewAnnotation, ''default'')]"

definition web_key :: resourceKey where
  "web_key = \<lparr>rkKind = ''Ingress'', rkName = ''web'', rkNamespace = ''ns''\<rparr>"

definition key8 :: GroupKey where
  "key8 = \<lparr>gkName = '''', gkNetview = ''default'', gkCidr = ''10.0.0.0/8''\<rparr>"

definition key16 :: GroupKey where
  "key16 = \<lparr>gkName = '''', gkNetview = ''default'', gkCidr = ''10.1.0.0/16''\<rparr>"

definition all_namespaces :: KubeParams where
  "all_namespaces = \<lparr>Namespaces = [], NamespaceLabel = '''', Channel = True\<rparr>"

definition new_client :: K8sClient where
  "new_client = Run_client (NewKubernetesClient Some all_namespaces)"

text \<open>A cache that holds the given Ingresses, and a Controller that takes every message or none.\<close>

definition demo_env :: "send \<Rightarrow> Ingress list \<Rightarrow> kenv" where
  "demo_env out ings = \<lparr>cmByName = (\<lambda>rsInf name. Some []), ingByName = (\<lambda>rsInf name. Some ings),
     nsByKey = (\<lambda>ns. Some True), sendTo = out\<rparr>"

text \<open>A client that has already written and has the Ingress in its groups.\<close>

definition synced :: "string list \<Rightarrow> K8sClient" where
  "synced hosts = new_client\<lparr>initialState := True,
     ipGroup := snd (addToIPGroup fmempty key8 ''Ingress'' ''web'' ''ns'' hosts)\<rparr>"

lemma synced_wf: "groups_wf (ipGroup (synced hosts))"
  and synced_unique: "resources_unique (ipGroup (synced hosts))"
  and synced_hosts: "hosts_of (ipGroup (synced hosts)) key8 web_key = Some hosts"
  by (auto simp: synced_def addToIPGroup_def groups_wf_def resources_unique_def fmpred_iff
      hosts_of_def spec_key_def web_key_def split: if_splits)

subsection \<open>All runs\<close>

text \<open>C7. In every run of the client, whatever the informers pass and however the workers
  interleave: the two queues hold each key once, exactly the keys that wait and that no worker has;
  the groups are well-formed; every informer is registered under its own namespace and none is
  stopped; a client that watches all namespaces has no other informer; and nothing is sent before
  the initial state is reached.\<close>

theorem run_invariant:
  assumes "kube_run ipam c evs c'"
  shows "queue_ok (rsQueue c') \<and> queue_ok (nsQueue c') \<and> groups_wf (ipGroup c') \<and>
    processing (rsQueue c') = held (rsWorker c') \<and> processing (nsQueue c') = held (nsWorker c') \<and>
    (\<forall>ns rsInf. fmlookup (rsInformers c') ns = Some rsInf \<longrightarrow> infNamespace rsInf = ns \<and> \<not> infStopped rsInf) \<and>
    (watchingAllNamespaces c' \<longrightarrow> keys (rsInformers c') = {''''}) \<and>
    (sent c' \<noteq> [] \<longrightarrow> initialState c')"
  using run_inv [OF assms]
  by (simp add: kube_inv_def queues_inv_def informers_inv_def output_inv_def watchingAll_iff)

lemma demo_step: "kube_step ''infoblox'' new_client EnterRs (enterResource new_client)"
  by (rule kube_step.intros [where ord = ascending]) (simp_all add: fair_ascending new_client_def
      Run_client_def NewKubernetesClient_def all_namespaces_def addNamespace_def Let_def watchingAllNamespaces_def)

theorem run_invariant_witness: "queue_ok (rsQueue (enterResource new_client))"
proof -
  have "kube_run ''infoblox'' new_client [] new_client" by (rule start) (simp add: new_client_def)
  from step [OF this demo_step] have "kube_run ''infoblox'' new_client [EnterRs] (enterResource new_client)"
    by simp
  from run_invariant [OF this] show ?thesis by blast
qed

text \<open>C24. The panics of the client's own goroutines (the handlers its informers call, its two
  workers, its start-up timers, and the informer of the namespaces) are exactly these: a handler
  that gets an object of another type (a tombstone of the informer, for one) where it asserts the
  type; the listing of the namespaces when the label did not parse, so that the selector is nil; a
  resource key whose namespace has lost its informer while the key waited; and a namespace that is
  gone and has no informer. In no other state of any run does a step of them panic. (What
  \<open>AnnotateResources\<close> panics on, which the Controller's goroutine calls, is not part of this.)\<close>

theorem panics_exactly:
  assumes "kube_run ipam c evs c'" and "enabled ev c'"
  shows "kube_handle ipam ord env ev c' = None \<longleftrightarrow>
    (case ev of
       OnAddCM obj \<Rightarrow> \<nexists>cm. obj = KConfigMap cm
     | OnDeleteCM obj \<Rightarrow> \<nexists>cm. obj = KConfigMap cm
     | OnUpdateCM old cur \<Rightarrow> (\<nexists>cm. old = KConfigMap cm) \<or> (\<nexists>cm. cur = KConfigMap cm)
     | OnAddIng obj \<Rightarrow> \<nexists>ing. obj = KIngress ing
     | OnDeleteIng obj \<Rightarrow> \<nexists>ing. obj = KIngress ing
     | OnUpdateIng old cur \<Rightarrow> (\<nexists>ing. old = KIngress ing) \<or> (\<nexists>ing. cur = KIngress ing)
     | OnNamespace obj \<Rightarrow> \<nexists>ns. obj = KNamespace ns
     | ListNs \<Rightarrow> nsInformer c' = Some None
     | WorkRs \<Rightarrow> \<exists>key. rsWorker c' = Holds key \<and> getResourceInformer c' (rkNamespace key) = None
     | WorkNs \<Rightarrow> \<exists>ns. nsWorker c' = Holds ns \<and> nsByKey env ns = Some False \<and> getResourceInformer c' ns = None
     | _ \<Rightarrow> False)"
proof -
  note inv = run_inv [OF assms(1)]
  have cm: "checkValidConfigMap obj c' = None \<longleftrightarrow> (\<nexists>cm. obj = KConfigMap cm)" for obj
    by (simp add: checkValidConfigMap_def split: kobj.split)
  have ing: "checkValidIngress obj c' = None \<longleftrightarrow> (\<nexists>ing. obj = KIngress ing)" for obj
    by (simp add: checkValidIngress_def split: kobj.split)
  show ?thesis
  proof (cases ev)
    case (OnUpdateCM old cur)
    then show ?thesis
      using cm by (auto simp: updateConfigMap_def bind_eq_None_conv split: kobj.split option.splits)
  next
    case (OnUpdateIng old cur)
    then show ?thesis
      using ing by (auto simp: updateIngress_def bind_eq_None_conv split: kobj.split option.splits)
  next
    case GetRs
    with assms(2) show ?thesis by (simp add: getResource_def qGet_def split: list.split)
  next
    case GetNs
    with assms(2) show ?thesis by (simp add: getNamespace_def qGet_def split: list.split)
  next
    case WorkRs
    with assms(2) obtain key where w: "rsWorker c' = Holds key" by (auto split: worker.splits)
    with inv have "watched_kind key" by (simp add: kube_inv_def queues_inv_def)
    with WorkRs w show ?thesis
      by (cases "getResourceInformer c' (rkNamespace key)")
         (auto simp: workResource_def syncResource_def watched_kind_def Let_def case_prod_beta)
  next
    case WorkNs
    with assms(2) obtain ns where w: "nsWorker c' = Holds ns" by (auto split: worker.splits)
    from inv have "\<not> infStopped rsInf" if "getResourceInformer c' ns = Some rsInf" for rsInf
      using that by (simp add: kube_inv_def informers_inv_def getResourceInformer_def)
    with WorkNs w show ?thesis
      by (cases "getResourceInformer c' ns")
         (auto simp: workNamespace_def syncNamespace_def stopInformer_def Let_def case_prod_beta split: option.split)
  qed (auto simp: cm ing addConfigMap_def addIngress_def deleteConfigMap_def deleteIngress_def
      enqueueNamespace_def bind_eq_None_conv split: kobj.split list.split)
qed

theorem panics_exactly_witness:
  "kube_handle ''infoblox'' ascending (demo_env Acked []) (OnDeleteIng (KTombstone ''web'')) (enterResource new_client) = None"
proof -
  have "kube_run ''infoblox'' new_client [] new_client" by (rule start) (simp add: new_client_def)
  from step [OF this demo_step] have "kube_run ''infoblox'' new_client [EnterRs] (enterResource new_client)"
    by simp
  from panics_exactly [OF this, of "OnDeleteIng (KTombstone ''web'')"] show ?thesis by simp
qed

subsection \<open>Updating and deleting a resource\<close>

lemma find_spec_unique:
  assumes "fair_range ord" and "groups_wf (ipGroup c)" and "resources_unique (ipGroup c)"
    and "in_group (ipGroup c) key gKey"
  obtains spec where "find_spec ord key c = (True, spec, gkName gKey)" "spec_key spec = key"
proof -
  have enum: "enumerates (ord FindRange (fmdom (ipGroup c))) (ipGroup c)"
    using assms(1) by (simp add: enumerates_def fair_range_def)
  obtain found spec name where f: "find_spec ord key c = (found, spec, name)"
    using prod_cases3 by blast
  have "found" using getSpec_found [OF enum, of key] f assms(4) by (auto simp: find_spec_def)
  with f getSpec_spec [of "ipGroup c" key "ord FindRange (fmdom (ipGroup c))" spec name]
  obtain g where g: "name = gkName g" "spec_key spec = key" "hosts_of (ipGroup c) g key = Some (Hosts spec)"
    by (auto simp: find_spec_def)
  then have "g = gKey" using assms(3,4) unfolding resources_unique_iff in_group_def by blast
  with f g \<open>found\<close> that show ?thesis by simp
qed

text \<open>C20. An update of a watched Ingress prunes its hosts. Suppose the resource is in one group only,
  and its hosts there are distinct. If the group annotation still names the group, the resource
  keeps its place there: of its hosts every one that the Ingress still has is kept, in order, and a
  host that is gone is dropped unless the loop skips it (\<open>survivors\<close>), which happens to hosts right
  behind a dropped one. If the annotation names another group, the resource is taken out. In both
  cases every other resource keeps its hosts, the key is queued, and the groups are marked as
  changed exactly when some host is gone or they were marked before.\<close>

theorem update_drops_hosts:
  assumes "fair_range ord" and "groups_wf (ipGroup c)" and "resources_unique (ipGroup c)"
    and "hosts_of (ipGroup c) gKey key = Some hosts" and "distinct hosts"
    and "checkValidIngress old c = Some (Some key)" and "checkValidIngress (KIngress ing) c = Some (Some key')"
  shows "\<exists>c'. updateIngress ord out old (KIngress ing) c = Some c' \<and>
    hosts_of (ipGroup c') g k =
      (if g = gKey \<and> k = key
       then (if annot_val (ingMeta ing) groupAnnotation = gkName gKey
             then Some (survivors (ingHostExists ing) hosts) else None)
       else hosts_of (ipGroup c) g k) \<and>
    filter (ingHostExists ing) (survivors (ingHostExists ing) hosts) = filter (ingHostExists ing) hosts \<and>
    rsQueue c' = qAdd key (rsQueue c) \<and>
    (updated c' \<longleftrightarrow> updated c \<or> (\<exists>h \<in> set hosts. \<not> ingHostExists ing h))"
proof -
  have here: "in_group (ipGroup c) key gKey" by (simp add: in_group_def assms(4))
  from find_spec_unique [OF assms(1-3) this] obtain spec
    where f: "find_spec ord key c = (True, spec, gkName gKey)" and key: "spec_key spec = key" by blast
  let ?p = "prune_hosts ord (ingHostExists ing) key (ipGroup c)"
  let ?same = "annot_val (ingMeta ing) groupAnnotation = gkName gKey"
  let ?drop = "\<lambda>G. removeFromIPGroup G spec (ord RemoveSpecRange (fmdom G))"
  have "updateIngress ord out old (KIngress ing) c = Some (enqueueResource key (updated_ingress ord ing key c))"
    by (simp add: updateIngress_def assms(6,7))
  moreover have "updated_ingress ord ing key c =
      c\<lparr>ipGroup := (if ?same then fst ?p else ?drop (fst ?p)), updated := updated c \<or> snd ?p\<rparr>"
    by (simp add: updated_ingress_def f case_prod_beta drop_spec_def)
  moreover note eff = prune_hosts_effect [OF assms(1-5), of "ingHostExists ing" g k]
  moreover have "hosts_of (?drop (fst ?p)) g k = (if k = key then None else hosts_of (fst ?p) g k)"
    using removeFromIPGroup_spec(1) [OF prune_hosts_wf [OF assms(2)] conjunct1 [OF conjunct2 [OF eff]],
      of "ord RemoveSpecRange (fmdom (fst ?p))" spec g k] assms(1) key
    by (simp add: enumerates_def fair_range_def)
  moreover have "g \<noteq> gKey \<longrightarrow> hosts_of (ipGroup c) g key = None"
    using here assms(3) unfolding resources_unique_iff in_group_def by (metis not_None_eq)
  ultimately show ?thesis by (auto simp: enqueueResource_def survivors_filter)
qed

lemma demo_watches:
  assumes "rsInformers c = rsInformers new_client"
  shows "getResourceInformer c ns = Some (startInformer (newRsInformer ''''))"
proof -
  have l: "fmlookup (rsInformers new_client) '''' = Some (startInformer (newRsInformer ''''))" by code_simp
  then have "watchingAllNamespaces c" by (simp add: watchingAll_iff keys_iff assms)
  with l show ?thesis by (simp add: getResourceInformer_def informer_key_def assms)
qed

lemma demo_valid:
  "rsInformers c = rsInformers new_client \<Longrightarrow>
     checkValidIngress (KIngress (demo_ingress as hs)) c = Some (Some web_key)"
  by (simp add: checkValidIngress_def valid_meta_def demo_watches demo_ingress_def demo_meta_def annot_def web_key_def)

lemma synced_valid: "checkValidIngress (KIngress (demo_ingress as hs)) (synced hosts) = Some (Some web_key)"
  by (rule demo_valid) (simp add: synced_def)

theorem update_drops_hosts_witness:
  "\<exists>c'. updateIngress ascending Acked (KIngress (demo_ingress net8 [''a'', ''b'', ''c'']))
      (KIngress (demo_ingress net8 [''a'', ''c''])) (synced [''a'', ''b'', ''c'']) = Some c' \<and>
    hosts_of (ipGroup c') key8 web_key = Some [''a'', ''c'']"
proof -
  let ?ing = "demo_ingress net8 [''a'', ''c'']"
  have "annot_val (ingMeta ?ing) groupAnnotation = gkName key8" by code_simp
  moreover have "survivors (ingHostExists ?ing) [''a'', ''b'', ''c''] = [''a'', ''c'']" by code_simp
  moreover have "distinct [''a'', ''b'', ''c'']" by simp
  ultimately show ?thesis
    using update_drops_hosts [OF fair_ascending synced_wf synced_unique synced_hosts [of "[''a'', ''b'', ''c'']"]
        _ synced_valid [of net8 "[''a'', ''b'', ''c'']"] synced_valid [of net8 "[''a'', ''c'']"], of Acked key8 web_key]
    by auto
qed

text \<open>A host that is removed can stay: when an update of an Ingress drops the two first hosts of
  its resource and keeps a later one, the second of them is still in the groups afterwards, although
  the Ingress no longer has it, and no later synchronisation of the resource takes it out.\<close>

lemma lost_host_survives:
  assumes "fair_range ord" and "groups_wf (ipGroup c)" and "resources_unique (ipGroup c)"
    and "hosts_of (ipGroup c) gKey key = Some (x # y # z # zs)" and "distinct (x # y # z # zs)"
    and "checkValidIngress old c = Some (Some key)" and "checkValidIngress (KIngress ing) c = Some (Some key')"
    and "annot_val (ingMeta ing) groupAnnotation = gkName gKey"
    and "\<not> ingHostExists ing x" and "\<not> ingHostExists ing y"
  shows "\<exists>c' hs. updateIngress ord out old (KIngress ing) c = Some c' \<and>
    hosts_of (ipGroup c') gKey key = Some hs \<and> y \<in> set hs \<and>
    (\<exists>hs'. hosts_of (ipGroup (put_resource gKey (rkKind key) key hosts c')) gKey key = Some hs' \<and> y \<in> set hs')"
proof -
  have "in_group (ipGroup c) key gKey" by (simp add: in_group_def assms(4))
  from find_spec_unique [OF assms(1-3) this] obtain spec
    where f: "find_spec ord key c = (True, spec, gkName gKey)" by blast
  let ?c = "enqueueResource key (updated_ingress ord ing key c)"
  have "updateIngress ord out old (KIngress ing) c = Some ?c"
    by (simp add: updateIngress_def assms(6,7))
  moreover have g: "ipGroup ?c = fst (prune_hosts ord (ingHostExists ing) key (ipGroup c))"
    by (simp add: enqueueResource_def updated_ingress_def f assms(8) case_prod_beta)
  have hs: "hosts_of (ipGroup ?c) gKey key = Some (y # survivors (ingHostExists ing) (z # zs))"
    using prune_hosts_effect [OF assms(1-5), of "ingHostExists ing" gKey key] assms(9) by (simp add: g)
  have wf: "groups_wf (ipGroup ?c)" using assms(2) by (simp add: g prune_hosts_wf)
  have "\<exists>hs'. hosts_of (ipGroup (put_resource gKey (rkKind key) key hosts ?c)) gKey key = Some hs' \<and> y \<in> set hs'"
    using hs by (simp add: put_resource_def case_prod_beta addToIPGroup_hosts_of [OF wf])
  ultimately show ?thesis using hs by (intro exI [of _ ?c] exI [of _ "y # survivors (ingHostExists ing) (z # zs)"]) simp
qed

text \<open>When the groups can be written to the Controller: both queues are empty, or they have been
  written before. What the writing does to the messages and to the flag of a change to be sent.\<close>

definition can_write :: "K8sClient \<Rightarrow> bool" where
  "can_write c \<longleftrightarrow> qLen (rsQueue c) = 0 \<and> qLen (nsQueue c) = 0 \<or> initialState c"

lemma writeIPGroups_effect:
  "ipGroup (writeIPGroups out c) = ipGroup c"
  "sent (writeIPGroups out c) = (if can_write c \<and> channel c \<and> out = Acked then sent c @ [ipGroup c] else sent c)"
  "updated (writeIPGroups out c) \<longleftrightarrow> updated c \<and> \<not> (can_write c \<and> (channel c \<longrightarrow> out \<noteq> EncodeFails))"
  by (auto simp: writeIPGroups_def can_write_def split: send.split)

lemma delete_ingress_effect:
  assumes "fair_range ord" and "groups_wf (ipGroup c)" and "resources_unique (ipGroup c)"
    and "checkValidIngress obj c = Some (Some key)" and "in_group (ipGroup c) key gKey"
  shows "\<exists>c'. deleteIngress ord out obj c = Some c' \<and>
    hosts_of (ipGroup c') g k = (if k = key then None else hosts_of (ipGroup c) g k) \<and>
    groups_wf (ipGroup c') \<and> resources_unique (ipGroup c') \<and>
    sent c' = (if can_write c \<and> channel c \<and> out = Acked then sent c @ [ipGroup c'] else sent c)"
proof -
  from find_spec_unique [OF assms(1-3,5)] obtain spec
    where f: "find_spec ord key c = (True, spec, gkName gKey)" and s: "spec_key spec = key" by blast
  let ?c = "writeIPGroups out (drop_spec ord spec c)"
  have "deleteIngress ord out obj c = Some ?c"
    by (simp add: deleteIngress_def assms(4) forget_resource_def f)
  moreover have enum: "enumerates (ord RemoveSpecRange (fmdom (ipGroup c))) (ipGroup c)"
    using assms(1) by (simp add: enumerates_def fair_range_def)
  moreover have "ipGroup ?c = removeFromIPGroup (ipGroup c) spec (ord RemoveSpecRange (fmdom (ipGroup c)))"
    by (simp add: drop_spec_def)
  moreover have d: "can_write (drop_spec ord spec c) = can_write c" "channel (drop_spec ord spec c) = channel c"
      "sent (drop_spec ord spec c) = sent c"
    by (simp_all add: drop_spec_def can_write_def)
  have "sent ?c = (if can_write c \<and> channel c \<and> out = Acked then sent c @ [ipGroup ?c] else sent c)"
    by (simp only: writeIPGroups_effect d)
  ultimately show ?thesis
    using removeFromIPGroup_spec [OF assms(2,3) enum, of spec] removeFromIPGroup_unique [OF assms(2,3) enum, of spec] s
    by simp
qed

text \<open>C26. Deleting a watched Ingress that is in one group only takes it out of the groups and nothing
  else: the resource is in no group and every other resource keeps its hosts. The groups that are
  left are sent to the Controller at once exactly when the client has a channel, both its queues are
  empty or it has reached its initial state, and the Controller takes the message in time. (A resource
  that is in two groups, as after a change of its network, leaves one of them.)\<close>

theorem deleted_resource_leaves:
  assumes "fair_range ord" and "groups_wf (ipGroup c)" and "resources_unique (ipGroup c)"
    and "checkValidIngress obj c = Some (Some key)" and "in_group (ipGroup c) key gKey"
  shows "\<exists>c'. deleteIngress ord out obj c = Some c' \<and>
    hosts_of (ipGroup c') g k = (if k = key then None else hosts_of (ipGroup c) g k) \<and>
    groups_wf (ipGroup c') \<and> resources_unique (ipGroup c') \<and>
    sent c' = (if can_write c \<and> channel c \<and> out = Acked then sent c @ [ipGroup c'] else sent c)"
  by (rule delete_ingress_effect [OF assms])

theorem deleted_resource_leaves_witness:
  "\<exists>c'. deleteIngress ascending Acked (KIngress (demo_ingress net8 [''a''])) (synced [''a'']) = Some c' \<and>
    hosts_of (ipGroup c') key8 web_key = None \<and> sent c' = [ipGroup c']"
proof -
  have "in_group (ipGroup (synced [''a''])) web_key key8" by (simp add: in_group_def synced_hosts)
  moreover have "can_write (synced [''a'']) \<and> channel (synced [''a'']) \<and> sent (synced [''a'']) = []" by code_simp
  ultimately show ?thesis
    using deleted_resource_leaves [OF fair_ascending synced_wf synced_unique
        synced_valid [of net8 "[''a'']" "[''a'']"], of key8 Acked key8 web_key] by auto
qed

subsection \<open>Synchronising a resource\<close>

definition is_resource :: "resourceKey \<Rightarrow> Ingress \<Rightarrow> bool" where
  "is_resource key ing \<longleftrightarrow>
     omNamespace (ingMeta ing) = rkNamespace key \<and> omName (ingMeta ing) = rkName key"

definition group_of :: "Ingress \<Rightarrow> string \<times> string \<Rightarrow> GroupKey" where
  "group_of ing net = \<lparr>gkName = annot_val (ingMeta ing) groupAnnotation, gkNetview = fst net, gkCidr = snd net\<rparr>"

lemma sync_ingresses_none:
  "filter (is_resource key) ings = [] \<Longrightarrow> sync_ingresses ipam key ings c = (False, c)"
  by (induction ings) (auto simp: is_resource_def split: if_splits)

lemma sync_ingresses_one:
  "filter (is_resource key) ings = [ing] \<Longrightarrow> network_of ipam (ingMeta ing) = Some net \<Longrightarrow>
     ingress_hosts ing = Some hosts \<Longrightarrow>
     sync_ingresses ipam key ings c = (False, put_resource (group_of ing net) ''Ingress'' key hosts c)"
proof (induction ings)
  case (Cons i ings)
  show ?case
  proof (cases "is_resource key i")
    case True
    with Cons.prems have "i = ing" "filter (is_resource key) ings = []" by simp_all
    with True Cons.prems show ?thesis
      by (cases net) (simp add: Let_def is_resource_def sync_ingresses_none group_of_def)
  next
    case False
    with Cons show ?thesis by (auto simp: is_resource_def Let_def)
  qed
qed simp

lemma put_resource_effect:
  assumes "groups_wf (ipGroup c)" and "rkKind key = kind"
  shows "hosts_of (ipGroup (put_resource gKey kind key hosts c)) g k =
      (if g = gKey \<and> k = key
       then Some (case hosts_of (ipGroup c) gKey key of None \<Rightarrow> hosts | Some hs \<Rightarrow> fst (add_hosts hs hosts False))
       else hosts_of (ipGroup c) g k)"
    and "updated (put_resource gKey kind key hosts c) \<longleftrightarrow>
      updated c \<or> ipGroup (put_resource gKey kind key hosts c) \<noteq> ipGroup c"
  using addToIPGroup_hosts_of [OF assms(1), of gKey kind "rkName key" "rkNamespace key" hosts g k]
    addToIPGroup_changed [of "ipGroup c" gKey kind "rkName key" "rkNamespace key" hosts] assms(2)
  by (auto simp: put_resource_def case_prod_beta)

lemma sync_new_ingress:
  assumes "groups_wf (ipGroup c)" and "rkKind key = ''Ingress''"
    and "getResourceInformer c (rkNamespace key) = Some rsInf"
    and "ingByName env rsInf (rkName key) = Some ings" and "filter (is_resource key) ings = [ing]"
    and "network_of ipam (ingMeta ing) = Some net" and "ingress_hosts ing = Some hosts"
  shows "\<exists>c' hs. syncResource ipam env key c = Some (False, c') \<and>
    hosts_of (ipGroup c') (group_of ing net) key = Some hs \<and> set hosts \<subseteq> set hs \<and>
    (hosts_of (ipGroup c) (group_of ing net) key = None \<longrightarrow> hs = hosts) \<and>
    (g \<noteq> group_of ing net \<or> k \<noteq> key \<longrightarrow> hosts_of (ipGroup c') g k = hosts_of (ipGroup c) g k) \<and>
    sent c' = (if (updated c \<or> ipGroup c' \<noteq> ipGroup c) \<and> can_write c \<and> channel c \<and> sendTo env = Acked
               then sent c @ [ipGroup c'] else sent c) \<and>
    (updated c' \<longleftrightarrow> (updated c \<or> ipGroup c' \<noteq> ipGroup c) \<and> \<not> (can_write c \<and> (channel c \<longrightarrow> sendTo env \<noteq> EncodeFails)))"
proof -
  let ?p = "put_resource (group_of ing net) ''Ingress'' key hosts c"
  let ?c = "sync_end env (False, ?p)"
  note eff = put_resource_effect [OF assms(1,2), of "group_of ing net" hosts]
  have "syncResource ipam env key c = Some (False, ?c)"
    by (simp add: syncResource_def assms(2-4) sync_ingresses_one [OF assms(5-7)])
  moreover have "can_write ?p = can_write c" "channel ?p = channel c" "sent ?p = sent c"
    by (simp_all add: put_resource_def case_prod_beta can_write_def)
  then have "sent ?c = (if updated ?p \<and> can_write c \<and> channel c \<and> sendTo env = Acked then sent c @ [ipGroup ?p] else sent c)"
    and "updated ?c \<longleftrightarrow> updated ?p \<and> \<not> (can_write c \<and> (channel c \<longrightarrow> sendTo env \<noteq> EncodeFails))"
    by (auto simp: sync_end_def writeIPGroups_effect)
  moreover have g: "ipGroup ?c = ipGroup ?p" by (simp add: sync_end_def)
  moreover have "\<exists>hs. hosts_of (ipGroup ?p) (group_of ing net) key = Some hs \<and> set hosts \<subseteq> set hs \<and>
      (hosts_of (ipGroup c) (group_of ing net) key = None \<longrightarrow> hs = hosts)"
    by (auto simp: eff(1) split: option.split)
  ultimately show ?thesis using eff by (auto simp: g)
qed

text \<open>C17. Synchronising a key puts its Ingress into the groups: when the namespace of the key is
  watched and the cache has one Ingress of the key, with its network annotations and its hosts, all
  its hosts are listed for it in the group that the annotations name, exactly they when the resource
  is new there, and no other resource changes. The groups are then sent to the Controller if and
  only if they changed or a change was still to be sent, both queues are empty or the client has
  reached its initial state, it has a channel, and the Controller takes the message in time. The
  change stays to be sent if and only if it could not be written, because of the queues or because
  it was not encoded; a message that the Controller does not take in time is not sent again.\<close>

theorem ingress_synchronised:
  assumes "groups_wf (ipGroup c)" and "rkKind key = ''Ingress''"
    and "getResourceInformer c (rkNamespace key) = Some rsInf"
    and "ingByName env rsInf (rkName key) = Some ings" and "filter (is_resource key) ings = [ing]"
    and "network_of ipam (ingMeta ing) = Some net" and "ingress_hosts ing = Some hosts"
  shows "\<exists>c' hs. syncResource ipam env key c = Some (False, c') \<and>
    hosts_of (ipGroup c') (group_of ing net) key = Some hs \<and> set hosts \<subseteq> set hs \<and>
    (hosts_of (ipGroup c) (group_of ing net) key = None \<longrightarrow> hs = hosts) \<and>
    (g \<noteq> group_of ing net \<or> k \<noteq> key \<longrightarrow> hosts_of (ipGroup c') g k = hosts_of (ipGroup c) g k) \<and>
    sent c' = (if (updated c \<or> ipGroup c' \<noteq> ipGroup c) \<and> can_write c \<and> channel c \<and> sendTo env = Acked
               then sent c @ [ipGroup c'] else sent c) \<and>
    (updated c' \<longleftrightarrow> (updated c \<or> ipGroup c' \<noteq> ipGroup c) \<and> \<not> (can_write c \<and> (channel c \<longrightarrow> sendTo env \<noteq> EncodeFails)))"
  by (rule sync_new_ingress [OF assms])

lemma demo_cached:
  "getResourceInformer (synced hosts) (rkNamespace web_key) = Some (startInformer (newRsInformer ''''))"
  "filter (is_resource web_key) [demo_ingress as hs] = [demo_ingress as hs]"
  by (simp_all add: demo_watches synced_def is_resource_def web_key_def demo_ingress_def demo_meta_def)

lemma demo_ingress_hosts: "ingress_hosts (demo_ingress as hs) = Some hs"
  by (simp add: ingress_hosts_def demo_ingress_def comp_def)

lemma synced_open: "channel (synced hosts)" "initialState (synced hosts)" "rkKind web_key = ''Ingress''"
  by (simp_all add: synced_def new_client_def Run_client_def NewKubernetesClient_def all_namespaces_def
      addNamespace_def Let_def web_key_def watchingAllNamespaces_def)

theorem ingress_synchronised_witness:
  "\<exists>c' hs. syncResource ''infoblox'' (demo_env Acked [demo_ingress net8 [''a'', ''b'']]) web_key (synced [''a'']) =
      Some (False, c') \<and> hosts_of (ipGroup c') key8 web_key = Some hs \<and> {''a'', ''b''} \<subseteq> set hs \<and>
    sent c' = (if ipGroup c' \<noteq> ipGroup (synced [''a'']) then [ipGroup c'] else [])"
proof -
  let ?ing = "demo_ingress net8 [''a'', ''b'']"
  have net: "network_of ''infoblox'' (ingMeta ?ing) = Some (''default'', ''10.0.0.0/8'')"
    and key: "group_of ?ing (''default'', ''10.0.0.0/8'') = key8" by code_simp+
  have out: "\<not> updated (synced [''a'']) \<and> sent (synced [''a'']) = [] \<and> can_write (synced [''a''])" by code_simp
  have read: "ingByName (demo_env Acked [?ing]) (startInformer (newRsInformer '''')) (rkName web_key) = Some [?ing]"
    and acked: "sendTo (demo_env Acked [?ing]) = Acked"
    by (simp_all add: demo_env_def)
  from ingress_synchronised [where g = key8 and k = web_key,
        OF synced_wf [of "[''a'']"] synced_open(3) demo_cached(1) read demo_cached(2) net demo_ingress_hosts]
  show ?thesis unfolding key acked using out synced_open(1) by auto
qed

lemma add_to_specs_idle:
  "distinct (map spec_key grp) \<Longrightarrow> group_hosts grp (spec_key new) = Some hs \<Longrightarrow> set (Hosts new) \<subseteq> set hs \<Longrightarrow>
     add_to_specs new grp haveS u = (grp, True, u)"
proof (induction grp arbitrary: haveS u)
  case (Cons spec grp)
  show ?case
  proof (cases "spec_key spec = spec_key new")
    case True
    with Cons.prems have "add_to_specs new grp True u = (grp, True, u)"
      by (intro add_to_specs_absent) auto
    with True Cons.prems show ?thesis by (simp add: spec_equals_iff add_hosts_same)
  next
    case False
    with Cons show ?thesis by (simp add: spec_equals_iff)
  qed
qed simp

lemma addToIPGroup_idle:
  assumes "groups_wf groups" and "hosts_of groups gKey \<lparr>rkKind = kind, rkName = name, rkNamespace = ns\<rparr> = Some hs"
    and "set hosts \<subseteq> set hs"
  shows "addToIPGroup groups gKey kind name ns hosts = (False, groups)"
proof -
  from assms(2) obtain grp where grp: "fmlookup groups gKey = Some grp"
      "group_hosts grp \<lparr>rkKind = kind, rkName = name, rkNamespace = ns\<rparr> = Some hs"
    by (auto simp: hosts_of_def split: option.splits)
  let ?new = "\<lparr>Kind = kind, Name = name, Namespace = ns, Hosts = hosts,
      Netview = gkNetview gKey, Cidr = gkCidr gKey\<rparr>"
  have "add_to_specs ?new grp False False = (grp, True, False)"
    using groups_wfD(2) [OF assms(1) grp(1)] grp(2) assms(3) by (intro add_to_specs_idle) (simp_all add: spec_key_def)
  moreover have "fmupd gKey grp groups = groups" using grp(1) by (intro fmap_ext) auto
  ultimately show ?thesis by (simp add: addToIPGroup_def grp(1) Let_def)
qed

text \<open>A message that is not taken within three seconds is lost for good: the client clears its
  flag all the same, so when the change of an Ingress was to be sent while the Controller was busy,
  synchronising the same Ingress again, however often the informer resyncs it, sends nothing.\<close>

lemma timeout_loses_update:
  assumes "groups_wf (ipGroup c)" and "rkKind key = ''Ingress''"
    and "getResourceInformer c (rkNamespace key) = Some rsInf"
    and "ingByName env rsInf (rkName key) = Some ings" and "filter (is_resource key) ings = [ing]"
    and "network_of ipam (ingMeta ing) = Some net" and "ingress_hosts ing = Some hosts" and "initialState c"
  shows "\<exists>c1. syncResource ipam (env\<lparr>sendTo := TimedOut\<rparr>) key c = Some (False, c1) \<and>
    (\<exists>hs. hosts_of (ipGroup c1) (group_of ing net) key = Some hs \<and> set hosts \<subseteq> set hs) \<and>
    sent c1 = sent c \<and> \<not> updated c1 \<and>
    syncResource ipam (env\<lparr>sendTo := Acked\<rparr>) key c1 = Some (False, c1)"
proof -
  let ?put = "put_resource (group_of ing net) ''Ingress'' key hosts"
  let ?e = "env\<lparr>sendTo := TimedOut\<rparr>"
  let ?c = "sync_end ?e (False, ?put c)"
  note eff = put_resource_effect [OF assms(1,2), of "group_of ing net" hosts]
  have run: "syncResource ipam (env\<lparr>sendTo := out\<rparr>) key d = Some (False, sync_end (env\<lparr>sendTo := out\<rparr>) (False, ?put d))"
    if "getResourceInformer d (rkNamespace key) = Some rsInf" for d out
    by (simp add: syncResource_def assms(2,4) that sync_ingresses_one [OF assms(5-7)])
  have keep: "same_plumbing c (?put c)" by (simp add: put_resource_def same_plumbing_def case_prod_beta)
  then have "same_plumbing c ?c" by (simp add: sync_end_def same_plumbing_def)
  then have inf1: "getResourceInformer ?c (rkNamespace key) = Some rsInf"
    using plumbing_informer assms(3) by simp
  have "initialState (?put c)" using assms(8) by (simp add: put_resource_def case_prod_beta)
  then have c1: "sent ?c = sent c" "\<not> updated ?c" and g: "ipGroup ?c = ipGroup (?put c)"
    by (simp_all add: sync_end_def writeIPGroups_def put_resource_def case_prod_beta split: send.split)
  obtain hs where hs: "hosts_of (ipGroup ?c) (group_of ing net) key = Some hs" "set hosts \<subseteq> set hs"
    using eff(1) [of "group_of ing net" key] by (fastforce simp: g split: option.split)
  have wf: "groups_wf (ipGroup ?c)"
    unfolding g using addToIPGroup_wf [OF assms(1), of "''Ingress''"] by (simp add: put_resource_def case_prod_beta)
  have "addToIPGroup (ipGroup ?c) (group_of ing net) ''Ingress'' (rkName key) (rkNamespace key) hosts =
      (False, ipGroup ?c)"
    using hs(1) assms(2) by (intro addToIPGroup_idle [OF wf _ hs(2)]) (cases key, simp)
  then have "?put ?c = ?c" using c1(2) by (simp add: put_resource_def)
  then have "syncResource ipam (env\<lparr>sendTo := Acked\<rparr>) key ?c = Some (False, ?c)"
    using run [OF inf1, of Acked] c1(2) by (simp add: sync_end_def)
  with run [OF assms(3), of TimedOut] hs c1 show ?thesis by blast
qed

subsection \<open>Two groups for one resource\<close>

lemma informers_same: "rsInformers c' = rsInformers c \<Longrightarrow> getResourceInformer c' ns = getResourceInformer c ns"
  by (simp add: getResourceInformer_def informer_key_def watchingAllNamespaces_def)

text \<open>A changed network leaves the resource in two groups: the update handler compares only the
  group name, so after an update of an Ingress that changes its CIDR or network view and the
  synchronisation that follows, the resource is listed in the new group and still in the old one,
  with every host that it still has.\<close>

lemma network_change_duplicates:
  assumes "fair_range ord" and "groups_wf (ipGroup c)" and "resources_unique (ipGroup c)"
    and "hosts_of (ipGroup c) gKey key = Some hosts" and "distinct hosts"
    and "checkValidIngress old c = Some (Some key)" and "checkValidIngress (KIngress ing) c = Some (Some key')"
    and "annot_val (ingMeta ing) groupAnnotation = gkName gKey"
    and "network_of ipam (ingMeta ing) = Some net" and "group_of ing net \<noteq> gKey"
    and "ingress_hosts ing = Some newHosts" and "rkKind key = ''Ingress''"
    and "getResourceInformer c (rkNamespace key) = Some rsInf"
    and "ingByName env rsInf (rkName key) = Some ings" and "filter (is_resource key) ings = [ing]"
  shows "\<exists>c1 c2 hs hs'. updateIngress ord out old (KIngress ing) c = Some c1 \<and>
    syncResource ipam env key c1 = Some (False, c2) \<and>
    hosts_of (ipGroup c2) (group_of ing net) key = Some hs' \<and> set newHosts \<subseteq> set hs' \<and>
    hosts_of (ipGroup c2) gKey key = Some hs \<and> filter (ingHostExists ing) hosts = filter (ingHostExists ing) hs \<and>
    \<not> resources_unique (ipGroup c2)"
proof -
  have "in_group (ipGroup c) key gKey" by (simp add: in_group_def assms(4))
  from find_spec_unique [OF assms(1-3) this] obtain spec
    where f: "find_spec ord key c = (True, spec, gkName gKey)" by blast
  let ?c1 = "enqueueResource key (updated_ingress ord ing key c)"
  let ?c2 = "sync_end env (False, put_resource (group_of ing net) ''Ingress'' key newHosts ?c1)"
  have up: "updateIngress ord out old (KIngress ing) c = Some ?c1" by (simp add: updateIngress_def assms(6,7))
  have g1: "ipGroup ?c1 = fst (prune_hosts ord (ingHostExists ing) key (ipGroup c))"
    by (simp add: enqueueResource_def updated_ingress_def f assms(8) case_prod_beta)
  have wf: "groups_wf (ipGroup ?c1)" using assms(2) by (simp add: g1 prune_hosts_wf)
  have "rsInformers ?c1 = rsInformers c"
    by (simp add: enqueueResource_def updated_ingress_def f assms(8) case_prod_beta)
  then have "getResourceInformer ?c1 (rkNamespace key) = Some rsInf"
    by (rule informers_same [THEN trans]) (rule assms(13))
  then have sync: "syncResource ipam env key ?c1 = Some (False, ?c2)"
    by (simp add: syncResource_def assms(12,14) sync_ingresses_one [OF assms(15,9,11)])
  have g2: "ipGroup ?c2 = ipGroup (put_resource (group_of ing net) ''Ingress'' key newHosts ?c1)"
    by (simp add: sync_end_def)
  note eff = put_resource_effect(1) [OF wf assms(12), of "group_of ing net" newHosts]
  have old: "hosts_of (ipGroup ?c2) gKey key = Some (survivors (ingHostExists ing) hosts)"
    using assms(10) prune_hosts_effect [OF assms(1-5), of "ingHostExists ing" gKey key] by (simp add: g2 eff g1)
  obtain hs' where new: "hosts_of (ipGroup ?c2) (group_of ing net) key = Some hs'" "set newHosts \<subseteq> set hs'"
    by (fastforce simp: g2 eff split: option.split)
  have "\<not> resources_unique (ipGroup ?c2)"
    using old new(1) assms(10) unfolding resources_unique_iff in_group_def by (metis option.distinct(1))
  with up sync old new show ?thesis
    by (intro exI [of _ ?c1] exI [of _ ?c2]) (simp add: survivors_filter)
qed

subsection \<open>The first message\<close>

text \<open>Running a list of events with the ranges ascending; None when an event is not enabled or panics.\<close>

fun play :: "string \<Rightarrow> kenv \<Rightarrow> kevent list \<Rightarrow> K8sClient \<Rightarrow> K8sClient option" where
  "play ipam env [] c = Some c"
| "play ipam env (ev # evs) c =
     (if enabled ev c then kube_handle ipam ascending env ev c \<bind> play ipam env evs else None)"

lemma play_run:
  "kube_run ipam c0 past c \<Longrightarrow> play ipam env evs c = Some c' \<Longrightarrow> kube_run ipam c0 (past @ evs) c'"
proof (induction evs arbitrary: past c)
  case (Cons ev evs)
  then obtain c1 where c1: "enabled ev c" "kube_handle ipam ascending env ev c = Some c1" "play ipam env evs c1 = Some c'"
    by (auto simp: bind_eq_Some_conv split: if_splits)
  have "kube_step ipam c ev c1" by (rule kube_step.intros [OF fair_ascending c1(1,2)])
  from Cons.IH [OF step [OF Cons.prems(1) this] c1(3)] show ?case by simp
qed simp

definition startup_events :: "kevent list" where
  "startup_events = [EnterRs, OnAddIng (KIngress (demo_ingress net8 [''a''])), GetRs, Timer]"

text \<open>The first message can be empty although a resource exists: the sleeping goroutine of the
  start-up case looks only at the lengths of the queues, and a key that a worker holds is in
  neither. In the run in which it wakes up while the only Ingress is being synchronised, the
  Controller is sent no groups at all and the client counts as initialised.\<close>

lemma startup_sends_too_early:
  "\<exists>c'. kube_run ''infoblox'' new_client startup_events c' \<and> rsWorker c' = Holds web_key \<and>
    sent c' = [fmempty] \<and> initialState c'"
proof -
  have start: "kube_run ''infoblox'' new_client [] new_client" by (rule start) (simp add: new_client_def)
  have "(case play ''infoblox'' (demo_env Acked [demo_ingress net8 [''a'']]) startup_events new_client of
      None \<Rightarrow> False | Some c' \<Rightarrow> rsWorker c' = Holds web_key \<and> sent c' = [fmempty] \<and> initialState c')"
    by code_simp
  with play_run [OF start] show ?thesis by (auto split: option.splits)
qed

end
