(* ===== verification/Kube_Annotate.thy ===== *)
theory Kube_Annotate
  imports Kube_Properties Controller_Run
begin

section \<open>Writing addresses back to the resources\<close>

text \<open>
  \<open>AnnotateResources\<close> of the Kubernetes client, the one method the controller calls, over an API
  server that is an argument: getting an object may fail, and so may updating it. Writing to a nil
  annotation map panics. With it the controller's \<open>writeIPHosts\<close> and the groups of the client come
  together: which resources carry which address at the end.
\<close>

record 's kube_api =
  getCM :: "string \<Rightarrow> string \<Rightarrow> 's \<Rightarrow> ConfigMap option \<times> 's"
  updateCM :: "string \<Rightarrow> ConfigMap \<Rightarrow> 's \<Rightarrow> bool \<times> 's"
  getIng :: "string \<Rightarrow> string \<Rightarrow> 's \<Rightarrow> Ingress option \<times> 's"
  updateIng :: "string \<Rightarrow> Ingress \<Rightarrow> 's \<Rightarrow> bool \<times> 's"

text \<open>The inner None: the annotation has this value already, and nothing is written.\<close>

definition set_ip :: "string \<Rightarrow> ObjectMeta \<Rightarrow> ObjectMeta option option" where
  "set_ip ip m =
     (if annot_val m ipAnnotation \<noteq> ip then
        (case omAnnotations m of
           None \<Rightarrow> None
         | Some as \<Rightarrow> Some (Some (m\<lparr>omAnnotations := Some (fmupd ipAnnotation ip as)\<rparr>)))
      else Some None)"

definition annotate_spec :: "'s kube_api \<Rightarrow> string \<Rightarrow> Spec \<Rightarrow> 's \<Rightarrow> 's option" where
  "annotate_spec api ip spec s =
     (if Kind spec = ''ConfigMap'' then
        (case getCM api (Namespace spec) (Name spec) s of
           (None, s1) \<Rightarrow> Some s1
         | (Some cm, s1) \<Rightarrow> do {
             change \<leftarrow> set_ip ip (cmMeta cm);
             Some (case change of
                     None \<Rightarrow> s1
                   | Some m \<Rightarrow> snd (updateCM api (Namespace spec) (cm\<lparr>cmMeta := m\<rparr>) s1))
           })
      else if Kind spec = ''Ingress'' then
        (case getIng api (Namespace spec) (Name spec) s of
           (None, s1) \<Rightarrow> Some s1
         | (Some ing, s1) \<Rightarrow> do {
             change \<leftarrow> set_ip ip (ingMeta ing);
             Some (case change of
                     None \<Rightarrow> s1
                   | Some m \<Rightarrow> snd (updateIng api (Namespace spec) (ing\<lparr>ingMeta := m\<rparr>) s1))
           })
      else Some s)"

fun annotate_specs :: "'s kube_api \<Rightarrow> string \<Rightarrow> Spec list \<Rightarrow> 's \<Rightarrow> 's option" where
  "annotate_specs api ip [] s = Some s"
| "annotate_specs api ip (spec # specs) s = annotate_spec api ip spec s \<bind> annotate_specs api ip specs"

definition AnnotateResources ::
    "'s kube_api \<Rightarrow> GroupKey list \<Rightarrow> string \<Rightarrow> string list \<Rightarrow> K8sClient \<Rightarrow> 's \<Rightarrow> 's option" where
  "AnnotateResources api gKeys ip hosts c s = do {
     specsForIP \<leftarrow> getSpecsWithHosts (ipGroup c) hosts gKeys;
     annotate_specs api ip specsForIP s
   }"

text \<open>The method as the controller sees it: it works on the API server and leaves the client alone.
  The order in which the groups are visited may depend on the address.\<close>

definition kube_annotate ::
    "'s kube_api \<Rightarrow> (string \<Rightarrow> GroupKey fset \<Rightarrow> GroupKey list) \<Rightarrow> (K8sClient \<times> 's) annotate" where
  "kube_annotate api gord ip hosts = (\<lambda>(c, s). do {
     s' \<leftarrow> AnnotateResources api (gord ip (fmdom (ipGroup c))) ip hosts c s;
     Some (c, s')
   })"

subsection \<open>An API server that stores objects\<close>

text \<open>\<open>content s\<close> has the metadata of the stored objects. Getting an object does not change it and
  yields what is stored; an update stores what it is given.\<close>

definition cm_key :: "string \<Rightarrow> string \<Rightarrow> resourceKey" where
  "cm_key ns name = \<lparr>rkKind = ''ConfigMap'', rkName = name, rkNamespace = ns\<rparr>"

definition ing_key :: "string \<Rightarrow> string \<Rightarrow> resourceKey" where
  "ing_key ns name = \<lparr>rkKind = ''Ingress'', rkName = name, rkNamespace = ns\<rparr>"

definition stores_objects :: "'s kube_api \<Rightarrow> ('s \<Rightarrow> resourceKey \<Rightarrow> ObjectMeta option) \<Rightarrow> bool" where
  "stores_objects api content \<longleftrightarrow>
     (\<forall>ns name s. content (snd (getCM api ns name s)) = content s \<and>
        map_option cmMeta (fst (getCM api ns name s)) = content s (cm_key ns name)) \<and>
     (\<forall>ns name s. content (snd (getIng api ns name s)) = content s \<and>
        map_option ingMeta (fst (getIng api ns name s)) = content s (ing_key ns name)) \<and>
     (\<forall>ns cm s. content (snd (updateCM api ns cm s)) =
        (content s)(cm_key ns (omName (cmMeta cm)) := Some (cmMeta cm))) \<and>
     (\<forall>ns ing s. content (snd (updateIng api ns ing s)) =
        (content s)(ing_key ns (omName (ingMeta ing)) := Some (ingMeta ing)))"

text \<open>Every stored object has its name, and an annotation map.\<close>

definition named_objects :: "(resourceKey \<Rightarrow> ObjectMeta option) \<Rightarrow> bool" where
  "named_objects objs \<longleftrightarrow>
     (\<forall>key m. objs key = Some m \<longrightarrow> omName m = rkName key \<and> omAnnotations m \<noteq> None)"

definition with_ip :: "string \<Rightarrow> ObjectMeta \<Rightarrow> ObjectMeta" where
  "with_ip ip m = m\<lparr>omAnnotations := map_option (fmupd ipAnnotation ip) (omAnnotations m)\<rparr>"

lemma fmupd_idle: "fmlookup m k = Some v \<Longrightarrow> fmupd k v m = m"
  by (rule fmap_ext) auto

lemma with_ip_twice [simp]: "with_ip ip (with_ip ip m) = with_ip ip m"
proof -
  have "fmupd k v (fmupd k v as) = fmupd k v as" for k v and as :: "(string, string) fmap"
    by (rule fmupd_idle) simp
  then show ?thesis by (simp add: with_ip_def option.map_comp comp_def)
qed

lemma set_ip_result:
  assumes "omAnnotations m \<noteq> None" and "ip \<noteq> ''''"
  obtains (same) "set_ip ip m = Some None" "with_ip ip m = m"
  | (changed) "set_ip ip m = Some (Some (with_ip ip m))"
proof -
  from assms(1) obtain as where as: "omAnnotations m = Some as" by auto
  show ?thesis
  proof (cases "annot_val m ipAnnotation = ip")
    case True
    with as assms(2) have "fmlookup as ipAnnotation = Some ip"
      by (auto simp: annot_val_def annot_def split: option.splits)
    then have "with_ip ip m = m" by (cases m) (use as fmupd_idle in \<open>fastforce simp: with_ip_def\<close>)
    with True that(1) show ?thesis by (simp add: set_ip_def)
  next
    case False
    with as that(2) show ?thesis by (simp add: set_ip_def with_ip_def)
  qed
qed

definition annotated :: "string \<Rightarrow> resourceKey set \<Rightarrow> (resourceKey \<Rightarrow> ObjectMeta option) \<Rightarrow> resourceKey \<Rightarrow> ObjectMeta option" where
  "annotated ip K objs = (\<lambda>key. if key \<in> K then map_option (with_ip ip) (objs key) else objs key)"

lemma annotated_twice: "annotated ip K (annotated ip K' objs) = annotated ip (K \<union> K') objs"
proof
  fix key
  show "annotated ip K (annotated ip K' objs) key = annotated ip (K \<union> K') objs key"
    by (cases "objs key") (auto simp: annotated_def)
qed

lemma annotated_empty [simp]: "annotated ip {} objs = objs"
  by (simp add: annotated_def)

lemma named_annotated: "named_objects objs \<Longrightarrow> named_objects (annotated ip K objs)"
  by (auto simp: named_objects_def annotated_def with_ip_def split: if_splits)

lemma annotated_one:
  "objs key = Some m \<Longrightarrow> annotated ip {key} objs = objs(key := Some (with_ip ip m))"
  by (rule ext) (simp add: annotated_def)

lemma annotated_missing: "objs key = None \<Longrightarrow> annotated ip {key} objs = objs"
  by (rule ext) (simp add: annotated_def)

lemma annotate_spec_effect:
  assumes "stores_objects api content" and "named_objects (content s)" and "ip \<noteq> ''''"
    and "watched_kind (spec_key spec)"
  shows "\<exists>s'. annotate_spec api ip spec s = Some s' \<and> content s' = annotated ip {spec_key spec} (content s)"
proof (cases "Kind spec = ''ConfigMap''")
  case True
  then have key: "spec_key spec = cm_key (Namespace spec) (Name spec)" by (simp add: spec_key_def cm_key_def)
  obtain r s1 where g: "getCM api (Namespace spec) (Name spec) s = (r, s1)" by fastforce
  with assms(1) have c: "content s1 = content s" "map_option cmMeta r = content s (spec_key spec)"
    unfolding stores_objects_def key by (metis snd_conv, metis fst_conv)
  show ?thesis
  proof (cases r)
    case None
    with c True g show ?thesis by (simp add: annotate_spec_def annotated_missing)
  next
    case (Some cm)
    with c(2) have obj: "content s (spec_key spec) = Some (cmMeta cm)" by simp
    with assms(2) have m: "omAnnotations (cmMeta cm) \<noteq> None" "omName (cmMeta cm) = Name spec"
      by (auto simp: named_objects_def spec_key_def)
    show ?thesis
    proof (rule set_ip_result [OF m(1) assms(3)])
      assume "set_ip ip (cmMeta cm) = Some None" "with_ip ip (cmMeta cm) = cmMeta cm"
      with c(1) True g Some obj show ?thesis
        by (simp add: annotate_spec_def annotated_one fun_upd_idem)
    next
      assume ch: "set_ip ip (cmMeta cm) = Some (Some (with_ip ip (cmMeta cm)))"
      have "content (snd (updateCM api (Namespace spec) (cm\<lparr>cmMeta := with_ip ip (cmMeta cm)\<rparr>) s1)) =
          (content s)(spec_key spec := Some (with_ip ip (cmMeta cm)))"
        using assms(1) c(1) m(2) unfolding stores_objects_def key by (simp add: with_ip_def)
      with ch True g Some obj show ?thesis by (simp add: annotate_spec_def annotated_one)
    qed
  qed
next
  case False
  with assms(4) have kind: "Kind spec = ''Ingress''" by (simp add: watched_kind_def spec_key_def)
  then have key: "spec_key spec = ing_key (Namespace spec) (Name spec)" by (simp add: spec_key_def ing_key_def)
  obtain r s1 where g: "getIng api (Namespace spec) (Name spec) s = (r, s1)" by fastforce
  with assms(1) have c: "content s1 = content s" "map_option ingMeta r = content s (spec_key spec)"
    unfolding stores_objects_def key by (metis snd_conv, metis fst_conv)
  show ?thesis
  proof (cases r)
    case None
    with c kind g show ?thesis by (simp add: annotate_spec_def annotated_missing)
  next
    case (Some ing)
    with c(2) have obj: "content s (spec_key spec) = Some (ingMeta ing)" by simp
    with assms(2) have m: "omAnnotations (ingMeta ing) \<noteq> None" "omName (ingMeta ing) = Name spec"
      by (auto simp: named_objects_def spec_key_def)
    show ?thesis
    proof (rule set_ip_result [OF m(1) assms(3)])
      assume "set_ip ip (ingMeta ing) = Some None" "with_ip ip (ingMeta ing) = ingMeta ing"
      with c(1) kind g Some obj show ?thesis
        by (simp add: annotate_spec_def annotated_one fun_upd_idem)
    next
      assume ch: "set_ip ip (ingMeta ing) = Some (Some (with_ip ip (ingMeta ing)))"
      have "content (snd (updateIng api (Namespace spec) (ing\<lparr>ingMeta := with_ip ip (ingMeta ing)\<rparr>) s1)) =
          (content s)(spec_key spec := Some (with_ip ip (ingMeta ing)))"
        using assms(1) c(1) m(2) unfolding stores_objects_def key by (simp add: with_ip_def)
      with ch kind g Some obj show ?thesis by (simp add: annotate_spec_def annotated_one)
    qed
  qed
qed

lemma annotate_specs_effect:
  assumes "stores_objects api content" and "ip \<noteq> ''''"
  shows "named_objects (content s) \<Longrightarrow> (\<And>spec. spec \<in> set specs \<Longrightarrow> watched_kind (spec_key spec)) \<Longrightarrow>
    \<exists>s'. annotate_specs api ip specs s = Some s' \<and> content s' = annotated ip (spec_key ` set specs) (content s)"
proof (induction specs arbitrary: s)
  case (Cons spec specs)
  obtain s1 where s1: "annotate_spec api ip spec s = Some s1"
      and c1: "content s1 = annotated ip {spec_key spec} (content s)"
    using annotate_spec_effect [OF assms(1) Cons.prems(1) assms(2)] Cons.prems(2) by auto
  have "named_objects (content s1)" by (simp add: c1 named_annotated Cons.prems(1))
  with Cons.IH Cons.prems(2) obtain s2 where "annotate_specs api ip specs s1 = Some s2"
      "content s2 = annotated ip (spec_key ` set specs) (content s1)"
    by (metis list.set_intros(2))
  with s1 c1 show ?case by (simp add: annotated_twice)
qed simp

text \<open>The resources whose first host is one of the given.\<close>

definition led_by :: "IPGroups \<Rightarrow> string set \<Rightarrow> resourceKey set" where
  "led_by groups hosts = {key. \<exists>spec \<in> all_specs groups. spec_key spec = key \<and> hd (Hosts spec) \<in> hosts}"

definition watched_groups :: "IPGroups \<Rightarrow> bool" where
  "watched_groups groups \<longleftrightarrow> (\<forall>spec \<in> all_specs groups. watched_kind (spec_key spec) \<and> Hosts spec \<noteq> [])"

lemma AnnotateResources_effect:
  assumes "stores_objects api content" and "ip \<noteq> ''''" and "named_objects (content s)"
    and "watched_groups (ipGroup c)" and "enumerates gKeys (ipGroup c)"
  shows "\<exists>s'. AnnotateResources api gKeys ip hosts c s = Some s' \<and>
    content s' = annotated ip (led_by (ipGroup c) (set hosts)) (content s)"
proof -
  obtain specs where g: "getSpecsWithHosts (ipGroup c) hosts gKeys = Some specs"
    using getSpecsWithHosts_panics [OF assms(5), of hosts] assms(4) by (auto simp: watched_groups_def)
  note specs = getSpecsWithHosts_set [OF assms(5) g]
  have "spec_key ` set specs = led_by (ipGroup c) (set hosts)" by (auto simp: specs led_by_def)
  moreover have "watched_kind (spec_key spec)" if "spec \<in> set specs" for spec
    using that assms(4) by (simp add: specs watched_groups_def)
  ultimately show ?thesis
    using annotate_specs_effect [OF assms(1,2,3), of specs] g by (simp add: AnnotateResources_def)
qed

subsection \<open>Properties\<close>

lemma spec_unique:
  assumes "groups_wf groups" and "resources_unique groups"
    and "spec \<in> all_specs groups" and "spec' \<in> all_specs groups" and "spec_key spec = spec_key spec'"
  shows "spec = spec'"
proof -
  from assms(3,4) obtain g grp g' grp' where grp: "fmlookup groups g = Some grp" "spec \<in> set grp"
      and grp': "fmlookup groups g' = Some grp'" "spec' \<in> set grp'"
    by (auto simp: all_specs_iff)
  then have "in_group groups (spec_key spec) g" "in_group groups (spec_key spec) g'"
    using assms(5) unfolding in_group_iff by (metis imageI)+
  then have "g = g'" using assms(2) unfolding resources_unique_iff by blast
  with grp grp' have "grp = grp'" by simp
  with groups_wfD(2) [OF assms(1) grp(1)] grp(2) grp'(2) assms(5) show ?thesis
    by (simp add: distinct_map inj_on_def)
qed

text \<open>What the write-back leaves behind, for the addresses of a list that no resource meets twice.\<close>

lemma write_hosts_effect:
  assumes "stores_objects api content" and "watched_groups (ipGroup k)" and "fair_range gord" and "fair_range ord"
  shows "named_objects (content s) \<Longrightarrow> '''' \<notin> set ips \<Longrightarrow>
    (\<And>key ip ip'. key \<in> K ip \<Longrightarrow> key \<in> K ip' \<Longrightarrow> ip = ip') \<Longrightarrow>
    (\<And>ip. K ip = led_by (ipGroup k) {h. stored_at st h ip}) \<Longrightarrow>
    \<exists>s'. write_hosts (kube_annotate api gord) ord st ips (k, s) = Some (k, s') \<and>
      (\<forall>key. (\<forall>ip \<in> set ips. key \<in> K ip \<longrightarrow> content s' key = map_option (with_ip ip) (content s key)) \<and>
         ((\<forall>ip \<in> set ips. key \<notin> K ip) \<longrightarrow> content s' key = content s key))"
proof (induction ips arbitrary: s)
  case (Cons ip ips)
  show ?case
  proof (cases "fmlookup (Records st) ip")
    case None
    then have "K ip = {}"
      by (auto simp: Cons.prems(4) led_by_def stored_at_def entry_def)
    with Cons None show ?thesis by simp
  next
    case (Some rec)
    let ?hosts = "mapKeys (ord (WriteKeys ip)) rec"
    have "set ?hosts = {h. stored_at st h ip}"
      using assms(4) Some
      by (auto simp: mapKeys_def fair_range_def stored_at_def entry_def keys_iff fmlookup_dom_iff)
    then have K: "led_by (ipGroup k) (set ?hosts) = K ip" by (simp add: Cons.prems(4))
    have enum: "enumerates (gord ip (fmdom (ipGroup k))) (ipGroup k)"
      using assms(3) by (simp add: enumerates_def fair_range_def)
    from Cons.prems(2) have "ip \<noteq> ''''" by auto
    from AnnotateResources_effect [OF assms(1) this Cons.prems(1) assms(2) enum, of ?hosts]
    obtain s1 where s1: "AnnotateResources api (gord ip (fmdom (ipGroup k))) ip ?hosts k s = Some s1"
        and c1: "content s1 = annotated ip (K ip) (content s)"
      by (auto simp: K)
    have "named_objects (content s1)" by (simp add: c1 named_annotated Cons.prems(1))
    with Cons.IH [of s1] Cons.prems(2-4) obtain s' where
      s': "write_hosts (kube_annotate api gord) ord st ips (k, s1) = Some (k, s')"
      and c': "\<And>key. (\<forall>ip \<in> set ips. key \<in> K ip \<longrightarrow> content s' key = map_option (with_ip ip) (content s1 key)) \<and>
         ((\<forall>ip \<in> set ips. key \<notin> K ip) \<longrightarrow> content s' key = content s1 key)"
      by auto
    have "write_hosts (kube_annotate api gord) ord st (ip # ips) (k, s) = Some (k, s')"
      using Some s1 s' by (simp add: kube_annotate_def)
    moreover have "(\<forall>i \<in> set (ip # ips). key \<in> K i \<longrightarrow> content s' key = map_option (with_ip i) (content s key)) \<and>
         ((\<forall>i \<in> set (ip # ips). key \<notin> K i) \<longrightarrow> content s' key = content s key)" for key
    proof (cases "key \<in> K ip")
      case True
      have "content s1 key = map_option (with_ip ip) (content s key)" using True by (simp add: c1 annotated_def)
      moreover have "content s' key = map_option (with_ip ip) (content s1 key) \<or> content s' key = content s1 key"
        using c' [of key] True Cons.prems(3) by blast
      ultimately have "content s' key = map_option (with_ip ip) (content s key)"
        by (auto simp: option.map_comp comp_def)
      with True Cons.prems(3) show ?thesis by auto
    next
      case False
      then have "content s1 key = content s key" by (simp add: c1 annotated_def)
      with c' [of key] False show ?thesis by auto
    qed
    ultimately show ?thesis by blast
  qed
qed simp

lemma addresses_written:
  assumes "stores_objects api content" and "fair_range gord" and "fair_range ord"
    and "groups_wf (ipGroup k)" and "resources_unique (ipGroup k)" and "watched_groups (ipGroup k)"
    and "hosts_unique (ctlrStore c)" and "'''' \<notin> keys (Records (ctlrStore c))"
    and "oClient c = (k, s)" and "named_objects (content s)"
  shows "\<exists>s'. writeIPHosts (kube_annotate api gord) ord c = Some (c\<lparr>oClient := (k, s')\<rparr>) \<and>
    (\<forall>spec ip. spec \<in> all_specs (ipGroup k) \<longrightarrow> stored_at (ctlrStore c) (hd (Hosts spec)) ip \<longrightarrow>
       content s' (spec_key spec) = map_option (with_ip ip) (content s (spec_key spec))) \<and>
    (\<forall>key. (\<nexists>spec ip. spec \<in> all_specs (ipGroup k) \<and> spec_key spec = key \<and>
          stored_at (ctlrStore c) (hd (Hosts spec)) ip) \<longrightarrow> content s' key = content s key)"
proof -
  let ?st = "ctlrStore c"
  let ?ips = "ord WriteRange (fmdom (Records ?st))"
  define K where "K = (\<lambda>ip. led_by (ipGroup k) {h. stored_at ?st h ip})"
  have ips: "set ?ips = keys (Records ?st)" using assms(3) by (simp add: fair_range_def)
  have one: "ip = ip'" if "key \<in> K ip" "key \<in> K ip'" for key ip ip'
    using that spec_unique [OF assms(4,5)] assms(7) unfolding K_def led_by_def hosts_unique_iff by blast
  have "'''' \<notin> set ?ips" using assms(8) by (simp add: ips)
  then have "\<exists>s'. write_hosts (kube_annotate api gord) ord ?st ?ips (k, s) = Some (k, s') \<and>
      (\<forall>key. (\<forall>ip \<in> set ?ips. key \<in> K ip \<longrightarrow> content s' key = map_option (with_ip ip) (content s key)) \<and>
         ((\<forall>ip \<in> set ?ips. key \<notin> K ip) \<longrightarrow> content s' key = content s key))"
    by (rule write_hosts_effect [where K = K, OF assms(1,6,2,3,10)]) (fact one, simp add: K_def)
  then obtain s' where
      run: "write_hosts (kube_annotate api gord) ord ?st ?ips (k, s) = Some (k, s')"
    and c': "\<And>key. (\<forall>ip \<in> set ?ips. key \<in> K ip \<longrightarrow> content s' key = map_option (with_ip ip) (content s key)) \<and>
         ((\<forall>ip \<in> set ?ips. key \<notin> K ip) \<longrightarrow> content s' key = content s key)"
    by blast
  have stored: "ip \<in> set ?ips" if "key \<in> K ip" for key ip
    using that by (auto simp: ips K_def led_by_def stored_at_def entry_def keys_iff split: option.splits)
  have K: "spec_key spec \<in> K ip" if "spec \<in> all_specs (ipGroup k)" "stored_at ?st (hd (Hosts spec)) ip" for spec ip
    using that by (auto simp: K_def led_by_def)
  have "content s' (spec_key spec) = map_option (with_ip ip) (content s (spec_key spec))"
    if "spec \<in> all_specs (ipGroup k)" "stored_at ?st (hd (Hosts spec)) ip" for spec ip
    using c' [of "spec_key spec"] K [OF that] stored by blast
  moreover have "content s' key = content s key"
    if "\<nexists>spec ip. spec \<in> all_specs (ipGroup k) \<and> spec_key spec = key \<and> stored_at ?st (hd (Hosts spec)) ip" for key
    using c' [of key] that unfolding K_def led_by_def by blast
  moreover have "writeIPHosts (kube_annotate api gord) ord c = Some (c\<lparr>oClient := (k, s')\<rparr>)"
    by (simp add: writeIPHosts_def assms(9) run)
  ultimately show ?thesis by blast
qed

text \<open>C6. The addresses reach the resources. Suppose that the API server stores what an update sends,
  that its objects are stored under their own names and have annotation maps, that each resource is
  in one group of the client and has a host there, that it is a ConfigMap or an Ingress, and that
  in the controller's store every host has one address and none the empty one. Then \<open>writeIPHosts\<close>
  returns; after it every resource of the client's groups whose first host the store has at an
  address carries exactly that address in its annotation and keeps its other annotations, and no
  other object changes; and neither the store nor the client's groups change. (Without a host, or
  without an annotation map, it panics.)\<close>

theorem addresses_reach_resources:
  assumes "stores_objects api content" and "fair_range gord" and "fair_range ord"
    and "groups_wf (ipGroup k)" and "resources_unique (ipGroup k)" and "watched_groups (ipGroup k)"
    and "hosts_unique (ctlrStore c)" and "'''' \<notin> keys (Records (ctlrStore c))"
    and "oClient c = (k, s)" and "named_objects (content s)"
  shows "\<exists>s'. writeIPHosts (kube_annotate api gord) ord c = Some (c\<lparr>oClient := (k, s')\<rparr>) \<and>
    (\<forall>spec ip. spec \<in> all_specs (ipGroup k) \<longrightarrow> stored_at (ctlrStore c) (hd (Hosts spec)) ip \<longrightarrow>
       content s' (spec_key spec) = map_option (with_ip ip) (content s (spec_key spec))) \<and>
    (\<forall>key. (\<nexists>spec ip. spec \<in> all_specs (ipGroup k) \<and> spec_key spec = key \<and>
          stored_at (ctlrStore c) (hd (Hosts spec)) ip) \<longrightarrow> content s' key = content s key)"
  by (rule addresses_written [OF assms])

text \<open>The API server of the examples: its state is what it stores.\<close>

definition demo_api :: "(resourceKey \<Rightarrow> ObjectMeta option) kube_api" where
  "demo_api =
     \<lparr>getCM = (\<lambda>ns name s. (map_option (\<lambda>m. \<lparr>cmMeta = m\<rparr>) (s (cm_key ns name)), s)),
      updateCM = (\<lambda>ns cm s. (True, s(cm_key ns (omName (cmMeta cm)) := Some (cmMeta cm)))),
      getIng = (\<lambda>ns name s. (map_option (\<lambda>m. \<lparr>ingMeta = m, ingRules = None\<rparr>) (s (ing_key ns name)), s)),
      updateIng = (\<lambda>ns ing s. (True, s(ing_key ns (omName (ingMeta ing)) := Some (ingMeta ing))))\<rparr>"

lemma demo_api_stores: "stores_objects demo_api id"
proof -
  have "map_option cmMeta (map_option (\<lambda>m. \<lparr>cmMeta = m\<rparr>) x) = x" for x
    by (cases x) simp_all
  moreover have "map_option ingMeta (map_option (\<lambda>m. \<lparr>ingMeta = m, ingRules = None\<rparr>) x) = x" for x
    by (cases x) simp_all
  ultimately show ?thesis by (simp add: stores_objects_def demo_api_def)
qed

definition one_object :: "resourceKey \<Rightarrow> ObjectMeta option" where
  "one_object = (\<lambda>key. if key = web_key then Some (demo_meta ''web'' net8) else None)"

definition one_host :: Store where
  "one_host = AddRecord NewStore ''10.0.0.1'' ''a'' recA ''default'' ''10.0.0.0/8''"

lemma one_host_at: "stored_at one_host h ip \<longleftrightarrow> h = ''a'' \<and> ip = ''10.0.0.1''"
  by (auto simp: one_host_def stored_at_def entry_AddRecord entry_NewStore)

lemma synced_specs:
  "all_specs (ipGroup (synced hosts)) = {\<lparr>Kind = ''Ingress'', Name = ''web'', Namespace = ''ns'', Hosts = hosts,
     Netview = ''default'', Cidr = ''10.0.0.0/8''\<rparr>}"
  by (auto simp: synced_def addToIPGroup_def all_specs_iff key8_def split: if_splits)

theorem addresses_reach_resources_witness:
  "\<exists>s'. writeIPHosts (kube_annotate demo_api ascending) ascending
      ((NewController (synced [''a''], one_object) ())\<lparr>ctlrStore := one_host\<rparr>) =
      Some ((NewController (synced [''a''], one_object) ())\<lparr>ctlrStore := one_host, oClient := (synced [''a''], s')\<rparr>) \<and>
    s' web_key = Some (with_ip ''10.0.0.1'' (demo_meta ''web'' net8))"
proof -
  let ?k = "synced [''a'']"
  let ?c = "(NewController (?k, one_object) ())\<lparr>ctlrStore := one_host\<rparr>"
  have g: "watched_groups (ipGroup ?k)"
    by (simp add: watched_groups_def synced_specs watched_kind_def spec_key_def)
  have u: "hosts_unique (ctlrStore ?c)" by (simp add: hosts_unique_iff one_host_at)
  have e: "'''' \<notin> keys (Records (ctlrStore ?c))"
    by (simp add: one_host_def AddRecord_def NewStore_def overwriteRecord_def)
  have o: "oClient ?c = (?k, one_object)" by (simp add: NewController_def)
  have n: "named_objects (id one_object)"
    by (simp add: named_objects_def one_object_def demo_meta_def web_key_def)
  let ?spec = "\<lparr>Kind = ''Ingress'', Name = ''web'', Namespace = ''ns'', Hosts = [''a''],
     Netview = ''default'', Cidr = ''10.0.0.0/8''\<rparr>"
  have "?spec \<in> all_specs (ipGroup ?k)" "stored_at (ctlrStore ?c) (hd (Hosts ?spec)) ''10.0.0.1''"
    "spec_key ?spec = web_key" "one_object web_key = Some (demo_meta ''web'' net8)"
    by (simp_all add: synced_specs one_host_at spec_key_def web_key_def one_object_def)
  with addresses_reach_resources [where content = id and c = ?c and k = ?k and s = one_object,
      OF demo_api_stores fair_ascending fair_ascending synced_wf synced_unique g u e o n]
  obtain s' where run: "writeIPHosts (kube_annotate demo_api ascending) ascending ?c =
      Some (?c\<lparr>oClient := (?k, s')\<rparr>)"
    and spec: "id s' (spec_key ?spec) = map_option (with_ip ''10.0.0.1'') (id one_object (spec_key ?spec))"
    by blast
  from spec have "s' web_key = Some (with_ip ''10.0.0.1'' (demo_meta ''web'' net8))"
    by (simp add: spec_key_def web_key_def one_object_def)
  with run show ?thesis by auto
qed

lemma sync_configmap_nameless:
  "annot (cmMeta cm) hostnameAnnotation = None \<Longrightarrow> omNamespace (cmMeta cm) = rkNamespace key \<Longrightarrow>
     omName (cmMeta cm) = rkName key \<Longrightarrow> sync_configmaps ipam key [cm] c = (True, c)"
  by (simp add: Let_def split: option.split)

lemma group_hosts_spec:
  assumes "group_hosts grp key = Some hs"
  obtains spec where "spec \<in> set grp" "Hosts spec = hs"
proof -
  have "group_hosts grp key = Some hs \<Longrightarrow> \<exists>spec \<in> set grp. Hosts spec = hs"
    by (induction grp) (auto simp: group_hosts_def split: if_splits)
  with assms that show thesis by blast
qed

text \<open>C35. Taking the host name off a watched ConfigMap crashes the process: the update drops the only
  host of the resource and marks nothing as changed; the synchronisation that follows sends
  nothing, because the annotation it needs is missing; and from then on every call of
  \<open>AnnotateResources\<close> panics, for whatever address and hosts, because the resource is still in its
  group and has no first host.\<close>

theorem hostname_removed_panics:
  assumes "fair_range ord" and "groups_wf (ipGroup c)" and "resources_unique (ipGroup c)"
    and "hosts_of (ipGroup c) gKey key = Some [host]"
    and "checkValidConfigMap old c = Some (Some key)" and "checkValidConfigMap (KConfigMap cm) c = Some (Some key)"
    and "annot (cmMeta cm) hostnameAnnotation = None"
    and "getResourceInformer c (rkNamespace key) = Some rsInf" and "cmByName env rsInf (rkName key) = Some [cm]"
  shows "\<exists>c'. updateConfigMap ord out old (KConfigMap cm) c = Some c' \<and> updated c' = updated c \<and>
    syncResource ipam env key c' = Some (False, c') \<and>
    (\<forall>gKeys ip hosts. enumerates gKeys (ipGroup c') \<longrightarrow> AnnotateResources api gKeys ip hosts c' s = None)"
proof -
  from assms(6) have key: "omNamespace (cmMeta cm) = rkNamespace key" "omName (cmMeta cm) = rkName key"
    "rkKind key = ''ConfigMap''"
    by (auto simp: checkValidConfigMap_def dest!: valid_meta_key)
  have "in_group (ipGroup c) key gKey" by (simp add: in_group_def assms(4))
  from find_spec_unique [OF assms(1-3) this] obtain spec
    where f: "find_spec ord key c = (True, spec, gkName gKey)" by blast
  let ?c = "enqueueResource key (updated_configmap ord cm key c)"
  have up: "updateConfigMap ord out old (KConfigMap cm) c = Some ?c"
    by (simp add: updateConfigMap_def assms(5,6))
  have c: "updated ?c = updated c" "rsInformers ?c = rsInformers c"
    and g: "ipGroup ?c = fst (prune_hosts ord (cmHostExists cm) key (ipGroup c))"
    by (simp_all add: enqueueResource_def updated_configmap_def f)
  have "getResourceInformer ?c (rkNamespace key) = Some rsInf"
    by (rule informers_same [OF c(2), THEN trans]) (rule assms(8))
  then have sync: "syncResource ipam env key ?c = Some (False, ?c)"
    by (simp add: syncResource_def key(3) assms(9) sync_configmap_nameless [OF assms(7) key(1,2)] sync_end_def
        del: sync_configmaps.simps)
  have "hosts_of (ipGroup ?c) gKey key = Some (survivors (cmHostExists cm) [host])"
    using prune_hosts_effect [OF assms(1-4), of "cmHostExists cm" gKey key] by (simp add: g)
  then have "hosts_of (ipGroup ?c) gKey key = Some []"
    using assms(7) by (simp add: cmHostExists_def)
  then obtain grp where grp: "fmlookup (ipGroup ?c) gKey = Some grp" "group_hosts grp key = Some []"
    by (auto simp: hosts_of_def split: option.splits)
  then obtain spec' where "spec' \<in> set grp" "Hosts spec' = []"
    by (elim group_hosts_spec)
  with grp(1) have "\<exists>spec \<in> all_specs (ipGroup ?c). Hosts spec = []" 
    by (meson all_specs_iff)
  then have "AnnotateResources api gKeys ip hosts ?c s = None" if "enumerates gKeys (ipGroup ?c)" for gKeys ip hosts
    using getSpecsWithHosts_panics [OF that, of hosts] by (simp add: AnnotateResources_def)
  with up c(1) sync show ?thesis by blast
qed

definition demo_cm :: "(string \<times> string) list \<Rightarrow> ConfigMap" where
  "demo_cm as = \<lparr>cmMeta = demo_meta ''cfg'' as\<rparr>"

definition cfg_key :: resourceKey where
  "cfg_key = \<lparr>rkKind = ''ConfigMap'', rkName = ''cfg'', rkNamespace = ''ns''\<rparr>"

definition synced_cm :: K8sClient where
  "synced_cm = new_client\<lparr>initialState := True,
     ipGroup := snd (addToIPGroup fmempty key8 ''ConfigMap'' ''cfg'' ''ns'' [''a''])\<rparr>"

theorem hostname_removed_panics_witness:
  "\<exists>c'. updateConfigMap ascending Acked (KConfigMap (demo_cm ((hostnameAnnotation, ''a'') # net8)))
      (KConfigMap (demo_cm net8)) synced_cm = Some c' \<and>
    AnnotateResources demo_api (ascending () (fmdom (ipGroup c'))) ''10.0.0.1'' [''a''] c' one_object = None"
proof -
  have w: "rsInformers synced_cm = rsInformers new_client" by (simp add: synced_cm_def)
  have valid: "checkValidConfigMap (KConfigMap (demo_cm as)) synced_cm = Some (Some cfg_key)" for as
    by (simp add: checkValidConfigMap_def valid_meta_def demo_watches [OF w] demo_cm_def demo_meta_def annot_def cfg_key_def)
  have g: "groups_wf (ipGroup synced_cm)" "resources_unique (ipGroup synced_cm)"
    "hosts_of (ipGroup synced_cm) key8 cfg_key = Some [''a'']"
    by (auto simp: synced_cm_def addToIPGroup_def groups_wf_def resources_unique_def fmpred_iff
        hosts_of_def spec_key_def cfg_key_def split: if_splits)
  have none: "annot (cmMeta (demo_cm net8)) hostnameAnnotation = None" by code_simp
  let ?env = "(demo_env Acked [])\<lparr>cmByName := (\<lambda>rsInf name. Some [demo_cm net8])\<rparr>"
  show ?thesis
    using hostname_removed_panics [where env = ?env and cm = "demo_cm net8",
        OF fair_ascending g valid valid none demo_watches [OF w]]
      asc.range_enumerates by fastforce
qed

end
