(* ===== verification/Kube_Namespaces.thy ===== *)
theory Kube_Namespaces
  imports Kube_Properties
begin

section \<open>Namespaces that come and go\<close>

text \<open>
  With a namespace label the client learns of namespaces as they appear and disappear. This theory
  follows one that disappears: what happens to its informers, and what does not happen to the
  resources the client has collected from it.
\<close>

text \<open>The event of an informer about a ConfigMap or an Ingress of the namespace.\<close>

fun concerns :: "string \<Rightarrow> kevent \<Rightarrow> bool" where
  "concerns ns (OnAddCM (KConfigMap cm)) = (omNamespace (cmMeta cm) = ns)"
| "concerns ns (OnDeleteCM (KConfigMap cm)) = (omNamespace (cmMeta cm) = ns)"
| "concerns ns (OnUpdateCM (KConfigMap old) (KConfigMap cur)) =
     (omNamespace (cmMeta old) = ns \<and> omNamespace (cmMeta cur) = ns)"
| "concerns ns (OnAddIng (KIngress ing)) = (omNamespace (ingMeta ing) = ns)"
| "concerns ns (OnDeleteIng (KIngress ing)) = (omNamespace (ingMeta ing) = ns)"
| "concerns ns (OnUpdateIng (KIngress old) (KIngress cur)) =
     (omNamespace (ingMeta old) = ns \<and> omNamespace (ingMeta cur) = ns)"
| "concerns ns _ = False"

lemma unwatched_ignored:
  assumes "getResourceInformer c ns = None" and "concerns ns ev"
  shows "kube_handle ipam ord env ev c = Some c"
  using assms(2,1)
  by (induction ns ev rule: concerns.induct)
    (simp_all add: valid_meta_def addConfigMap_def deleteConfigMap_def updateConfigMap_def checkValidConfigMap_def
      addIngress_def deleteIngress_def updateIngress_def checkValidIngress_def)

text \<open>A namespace that disappears leaves its hosts behind: when its worker finds it gone, in any
  run, the informers of the namespace are removed, but the groups keep every resource of it and
  nothing is sent; and from then on, as long as the namespace does not come back, every event about
  its ConfigMaps and Ingresses is ignored, their deletion included.\<close>

lemma namespace_leaves_hosts:
  assumes "kube_run ipam c0 evs c" and "nsWorker c = Holds ns" and "nsByKey env ns = Some False"
    and "kube_handle ipam ord env WorkNs c = Some c'"
  shows "getResourceInformer c' ns = None \<and>
    ipGroup c' = ipGroup c \<and> sent c' = sent c \<and> updated c' = updated c \<and>
    (\<forall>ev ord' env'. concerns ns ev \<longrightarrow> kube_handle ipam ord' env' ev c' = Some c')"
proof -
  note inv = run_inv [OF assms(1)]
  then have ns: "ns \<noteq> ''''" and label: "nsInformer c \<noteq> None"
    using assms(2) by (auto simp: kube_inv_def queues_inv_def informers_inv_def)
  with inv have all: "'''' \<notin> keys (rsInformers c)"
    by (auto simp: kube_inv_def informers_inv_def)
  from assms(2,4) obtain failed c1 where s: "syncNamespace env ns c = Some (failed, c1)"
      and c': "c' = (let c2 = (if failed then c1\<lparr>nsRetry := nsRetry c1 @ [ns]\<rparr> else c1)
                 in c2\<lparr>nsQueue := qDone ns (nsQueue c2), nsWorker := Idle\<rparr>)"
    by (auto simp: workNamespace_def bind_eq_Some_conv Let_def)
  from s all ns have c1: "c1 = c\<lparr>rsInformers := fmdrop ns (rsInformers c)\<rparr>"
    by (cases rule: syncNamespace_cases) (simp_all add: assms(3))
  have "getResourceInformer c' ns = None"
  proof -
    have "'''' \<notin> keys (rsInformers c')" using all by (simp add: c' c1 Let_def)
    then have "informer_key c' ns = ns" by (simp add: informer_key_def watchingAll_iff)
    then show ?thesis by (simp add: getResourceInformer_def c' c1 Let_def)
  qed
  moreover from unwatched_ignored [OF this] have "\<forall>ev ord' env'. concerns ns ev \<longrightarrow> kube_handle ipam ord' env' ev c' = Some c'"
    by blast
  ultimately show ?thesis by (simp add: c' c1 Let_def)
qed

text \<open>A client that watches by label, and a run in which the namespace of an Ingress appears.\<close>

definition label_client :: K8sClient where
  "label_client = Run_client (NewKubernetesClient Some \<lparr>Namespaces = [], NamespaceLabel = ''ipam'', Channel = True\<rparr>)"

definition namespace_appears :: "kevent list" where
  "namespace_appears = [OnNamespace (KNamespace ''ns''), GetNs, WorkNs, EnterRs,
     OnAddIng (KIngress (demo_ingress net8 [''a''])), GetRs, WorkRs, OnNamespace (KNamespace ''ns''), GetNs]"

definition gone_env :: kenv where
  "gone_env = (demo_env Acked [])\<lparr>nsByKey := (\<lambda>ns. Some False)\<rparr>"

lemma namespace_played:
  "case play ''infoblox'' (demo_env Acked [demo_ingress net8 [''a'']]) namespace_appears label_client of
     None \<Rightarrow> False
   | Some c \<Rightarrow> nsWorker c = Holds ''ns'' \<and> hosts_of (ipGroup c) key8 web_key = Some [''a''] \<and>
       length (sent c) = 1 \<and> kube_handle ''infoblox'' ascending gone_env WorkNs c \<noteq> None"
  by code_simp

end
