(* ===== verification/Infoblox_Pool.thy ===== *)
theory Infoblox_Pool
  imports Infoblox_Properties Controller_Pass
begin

section \<open>Infoblox as a pool of addresses\<close>




text \<open>The addresses held in a state of the client.\<close>

definition held_in :: "('v \<Rightarrow> string set) \<Rightarrow> 'v ibox \<Rightarrow> string set" where
  "held_in held s = held (grid s)"

lemma held_in_refs [simp]: "held_in held (s\<lparr>recordRef := r\<rparr>) = held_in held s"
  by (simp add: held_in_def)


lemma held_in_grid [simp]: "held_in held (s\<lparr>grid := v\<rparr>) = held v"
  by (simp add: held_in_def)

subsection \<open>What each operation keeps\<close>











text \<open>
  A release of the empty address, which is what a failed reservation leaves to release, searches
  without an address, and deletes the first fixed address found in the view and the CIDR.
\<close>

lemma release_empty_frees:
  assumes "GetFixedAddresses (conn cl) (ObjFixed \<lparr>fRef = '''', fNetviewName = nv, fCidr = cidr,
      fIPAddress = '''', fMac = '''', fEa = fmempty\<rparr>) (grid s) = ((fa # res, None), v)"
  shows "ReleaseAddr cl nv cidr '''' s = s\<lparr>grid := snd (DeleteObject (conn cl) (fRef fa) v)\<rparr>"
  using assms by (simp add: ReleaseAddr_def ReleaseIP_def GetFixedAddress_def)











subsection \<open>The invariant over Infoblox\<close>


text \<open>A grid that numbers its fixed addresses, \<open>pool_ip\<close> of its state, and has no records.\<close>

definition pool_ip :: "nat \<Rightarrow> string" where
  "pool_ip n = ''10.0.0.'' @ replicate (Suc n) (CHR ''1'')"




lemma pool_ip_inj [simp]: "pool_ip m = pool_ip n \<longleftrightarrow> m = n"
  unfolding pool_ip_def by (metis append_same_eq length_replicate nat.inject same_append_eq)




end
