(* ===== verification/Whole_System.thy ===== *)
theory Whole_System
  imports Kube_Annotate
begin

section \<open>The whole system\<close>

text \<open>
  The Kubernetes client and the controller as \<open>main\<close> connects them: one channel without a buffer
  carries the client's groups to the controller, and the controller writes addresses back through
  the client, which reads its groups of that moment. The channel hands a message over only when
  the controller waits in its select; from then on, until it has processed the message, the
  controller takes nothing, and the client's sends run into their time-out. \<open>inbox\<close> is the message
  being processed. In between anyone may edit the objects of the API server.
\<close>

record ('w, 's) system =
  ctlr :: "('w, K8sClient \<times> 's) Controller"
  inbox :: "IPGroups option"

definition kclient :: "('w, 's) system \<Rightarrow> K8sClient" where
  "kclient sys = fst (oClient (ctlr sys))"

definition apiServer :: "('w, 's) system \<Rightarrow> 's" where
  "apiServer sys = snd (oClient (ctlr sys))"

datatype sysevent = Watch kevent | Deliver | Verify | Edit

text \<open>The inbox after a step of the client: a message it has sent needs an empty inbox. None: no
  such step, because the send does not complete.\<close>

definition handover :: "IPGroups list \<Rightarrow> IPGroups list \<Rightarrow> IPGroups option \<Rightarrow> IPGroups option option" where
  "handover old new box =
     (if new = old then Some box
      else (case box of None \<Rightarrow> Some (Some (last new)) | Some _ \<Rightarrow> None))"

inductive sys_step ::
    "string \<Rightarrow> 'w Client \<Rightarrow> 's kube_api \<Rightarrow> nat \<Rightarrow> ('w, 's) system \<Rightarrow> sysevent \<Rightarrow> ('w, 's) system \<Rightarrow> bool"
  for ipam cl api vInterval where
  watch: "kube_step ipam (kclient sys) ev k \<Longrightarrow>
     handover (sent (kclient sys)) (sent k) (inbox sys) = Some box \<Longrightarrow>
     sys_step ipam cl api vInterval sys (Watch ev)
       \<lparr>ctlr = (ctlr sys)\<lparr>oClient := (k, apiServer sys)\<rparr>, inbox = box\<rparr>"
| deliver: "inbox sys = Some groups \<Longrightarrow> fair_range agord \<Longrightarrow>
     ctl_step cl (kube_annotate api agord) vInterval (ctlr sys) (Message groups) c \<Longrightarrow>
     sys_step ipam cl api vInterval sys Deliver \<lparr>ctlr = c, inbox = None\<rparr>"
| verify: "inbox sys = None \<Longrightarrow> fair_range agord \<Longrightarrow>
     ctl_step cl (kube_annotate api agord) vInterval (ctlr sys) Tick c \<Longrightarrow>
     sys_step ipam cl api vInterval sys Verify \<lparr>ctlr = c, inbox = None\<rparr>"
| edit: "sys_step ipam cl api vInterval sys Edit
     (sys\<lparr>ctlr := (ctlr sys)\<lparr>oClient := (kclient sys, s)\<rparr>\<rparr>)"

inductive sys_run ::
    "string \<Rightarrow> 'w Client \<Rightarrow> 's kube_api \<Rightarrow> nat \<Rightarrow> ('w, 's) system \<Rightarrow> sysevent list \<Rightarrow> ('w, 's) system \<Rightarrow> bool"
  for ipam cl api vInterval where
  start: "Run_start cl (\<lambda>(k, s). (Run_client k, s))
       (NewController (NewKubernetesClient parse params, s) w) = Some c \<Longrightarrow>
     sys_run ipam cl api vInterval \<lparr>ctlr = c, inbox = None\<rparr> [] \<lparr>ctlr = c, inbox = None\<rparr>"
| step: "sys_run ipam cl api vInterval sys evs sys1 \<Longrightarrow> sys_step ipam cl api vInterval sys1 ev sys2 \<Longrightarrow>
     sys_run ipam cl api vInterval sys (evs @ [ev]) sys2"

inductive_cases sys_stepE: "sys_step ipam cl api vInterval sys ev sys'"

subsection \<open>What a step does to the client\<close>

text \<open>The controller only reads the client.\<close>

lemma kube_annotate_apply:
  "kube_annotate api gord ip hosts (k, s) =
     map_option (Pair k) (AnnotateResources api (gord ip (fmdom (ipGroup k))) ip hosts k s)"
  by (simp add: kube_annotate_def map_conv_bind_option comp_def)

lemma write_hosts_client:
  "write_hosts (kube_annotate api gord) ord st ips (k, s) = Some o' \<Longrightarrow> fst o' = k"
proof (induction ips arbitrary: s)
  case (Cons ip ips)
  show ?case
  proof (cases "fmlookup (Records st) ip")
    case (Some rec)
    with Cons.prems obtain s1 where "write_hosts (kube_annotate api gord) ord st ips (k, s1) = Some o'"
      by (auto simp: kube_annotate_apply bind_Some)
    then show ?thesis by (rule Cons.IH)
  qed (use Cons in simp)
qed auto

lemma writeIPHosts_client:
  "writeIPHosts (kube_annotate api gord) ord c = Some c' \<Longrightarrow> fst (oClient c') = fst (oClient c)"
  by (cases "oClient c") (auto simp: writeIPHosts_def bind_Some dest: write_hosts_client)

lemma ctl_step_client:
  assumes "ctl_step cl (kube_annotate api agord) vInterval c ev c'"
  shows "fst (oClient c') = fst (oClient c)"
  using assms
proof (rule step_handle)
  fix gord ord assume run: "handle cl (kube_annotate api agord) gord ord ev c = Some c'"
  show ?thesis
  proof (cases ev)
    case (Message groups)
    with run obtain c1 where "process cl gord ord (c\<lparr>ipGroups := groups\<rparr>) = Some c1"
        and w: "writeIPHosts (kube_annotate api agord) ord c1 = Some c'"
      by (auto simp: handle_def bind_Some)
    then have "oClient c1 = oClient c" by (auto elim!: process_cases)
    with writeIPHosts_client [OF w] show ?thesis by simp
  next
    case (Undecodable partial)
    with run show ?thesis by (auto simp: handle_def)
  next
    case Tick
    with run obtain ch c1 where "refreshStore cl c = Some (ch, c1)"
        "(if ch then process cl gord ord c1 else Some c1) = Some c'"
      by (auto simp: handle_def bind_Some)
    then show ?thesis by (auto elim!: process_cases refreshStore_cases split: if_splits)
  qed
qed

text \<open>The steps of a run that are the client's, and those that are the controller's.\<close>

definition client_events :: "sysevent list \<Rightarrow> kevent list" where
  "client_events evs = concat (map (\<lambda>ev. case ev of Watch kev \<Rightarrow> [kev] | _ \<Rightarrow> []) evs)"

lemma client_events_snoc [simp]:
  "client_events (evs @ [ev]) = client_events evs @ (case ev of Watch kev \<Rightarrow> [kev] | _ \<Rightarrow> [])"
  by (simp add: client_events_def)

lemma sys_step_client:
  assumes "sys_step ipam cl api vInterval sys ev sys'"
  shows "(case ev of Watch kev \<Rightarrow> kube_step ipam (kclient sys) kev (kclient sys')
          | _ \<Rightarrow> kclient sys' = kclient sys)"
  using assms by cases (auto simp: kclient_def dest: ctl_step_client)

lemma sys_run_client:
  "sys_run ipam cl api vInterval sys evs sys' \<Longrightarrow>
     \<exists>k0. kube_run ipam k0 (client_events evs) (kclient sys')"
proof (induction rule: sys_run.induct)
  case (start parse params s w c)
  then have "kclient \<lparr>ctlr = c, inbox = None\<rparr> = Run_client (NewKubernetesClient parse params)"
    by (auto simp: kclient_def Run_start_def NewController_def bind_Some elim!: refreshStore_cases)
  then have "kube_run ipam (kclient \<lparr>ctlr = c, inbox = None\<rparr>) [] (kclient \<lparr>ctlr = c, inbox = None\<rparr>)"
    by (rule kube_run.start)
  then show ?case by (auto simp: client_events_def)
next
  case (step sys evs sys1 ev sys2)
  then obtain k0 where run: "kube_run ipam k0 (client_events evs) (kclient sys1)" by blast
  show ?case
  proof (cases ev)
    case (Watch kev)
    with sys_step_client [OF step.hyps(2)] show ?thesis
      using kube_run.step [OF run] by auto
  qed (use sys_step_client [OF step.hyps(2)] run in auto)
qed

subsection \<open>The messages\<close>

text \<open>One step of the client sends nothing, or the groups it has at its end.\<close>

definition sends_once :: "K8sClient \<Rightarrow> K8sClient \<Rightarrow> bool" where
  "sends_once c c' \<longleftrightarrow> sent c' = sent c \<or> sent c' = sent c @ [ipGroup c']"

lemma sends_once_write: "sent c1 = sent c \<Longrightarrow> sends_once c (writeIPGroups out c1)"
  by (auto simp: sends_once_def writeIPGroups_def split: send.split)

lemma sent_put_resource [simp]: "sent (put_resource gKey kind key hosts c) = sent c"
  by (simp add: put_resource_def case_prod_beta)

lemma sent_drop_spec [simp]: "sent (drop_spec ord spec c) = sent c"
  by (simp add: drop_spec_def)

lemma sent_updated [simp]:
  "sent (updated_configmap ord cm key c) = sent c" "sent (updated_ingress ord ing key c) = sent c"
  by (simp_all add: updated_configmap_def updated_ingress_def case_prod_beta Let_def)

lemma sent_sync [simp]:
  "sent (snd (sync_configmaps ipam rKey cms c)) = sent c"
  "sent (snd (sync_ingresses ipam rKey ings c)) = sent c"
  by (rule sync_configmaps_rule sync_ingresses_rule; simp)+

lemma sends_once_forget: "sends_once c (forget_resource ord out key c)"
  by (simp add: forget_resource_def case_prod_beta sends_once_write) (simp add: sends_once_def)

lemma sends_once_sync_end: "sent (snd r) = sent c \<Longrightarrow> sends_once c (sync_end env r)"
  by (auto simp: sync_end_def case_prod_beta sends_once_write) (simp_all add: sends_once_def)

lemma sends_once_syncResource:
  "syncResource ipam env rKey c = Some (failed, c') \<Longrightarrow> sends_once c c'"
  by (auto simp: syncResource_def bind_Some intro!: sends_once_sync_end split: if_splits option.splits)
    (simp_all add: sends_once_def)

lemma sends_once_keep: "sends_once c c1 \<Longrightarrow> sent c' = sent c1 \<Longrightarrow> ipGroup c' = ipGroup c1 \<Longrightarrow> sends_once c c'"
  by (simp add: sends_once_def)

lemma same_sent: "sent c' = sent c \<Longrightarrow> sends_once c c'"
  by (simp add: sends_once_def)

lemma sends_once_refl [simp]: "sends_once c c"
  by (rule same_sent) simp

lemma sent_enqueue [simp]: "sent (enqueueResource key c) = sent c"
  by (simp add: enqueueResource_def)

lemma sends_once_resource_handlers:
  "addConfigMap obj c = Some c' \<Longrightarrow> sends_once c c'"
  "addIngress obj c = Some c' \<Longrightarrow> sends_once c c'"
  "deleteConfigMap ord out obj c = Some c' \<Longrightarrow> sends_once c c'"
  "deleteIngress ord out obj c = Some c' \<Longrightarrow> sends_once c c'"
  by (auto simp: addConfigMap_def addIngress_def deleteConfigMap_def deleteIngress_def bind_Some
      sends_once_forget same_sent split: option.splits)

lemma sends_once_update_handlers:
  "updateConfigMap ord out old cur c = Some c' \<Longrightarrow> sends_once c c'"
  "updateIngress ord out old cur c = Some c' \<Longrightarrow> sends_once c c'"
  by (erule updateConfigMap_cases updateIngress_cases; simp add: sends_once_forget same_sent)+

lemma sends_once_workResource:
  assumes "workResource ipam env key c = Some c'"
  shows "sends_once c c'"
proof -
  from assms obtain failed c1 where s: "syncResource ipam env key c = Some (failed, c1)"
      and c': "sent c' = sent c1" "ipGroup c' = ipGroup c1"
    by (auto simp: workResource_def bind_Some Let_def)
  from sends_once_keep [OF sends_once_syncResource [OF s] c'] show ?thesis .
qed

lemma addNamespace_sent: "addNamespace ns c = (r, c') \<Longrightarrow> sent c' = sent c"
  by (auto simp: addNamespace_def Let_def split: option.splits if_splits)

lemma sends_once_workNamespace:
  assumes "workNamespace env ns c = Some c'"
  shows "sends_once c c'"
proof -
  from assms obtain failed c1 where s: "syncNamespace env ns c = Some (failed, c1)" and c': "sent c' = sent c1"
    by (auto simp: workNamespace_def bind_Some Let_def)
  from s have "sent c1 = sent c"
    by (auto simp: syncNamespace_def removeResourceInformers_def Let_def bind_Some
        split: option.splits if_splits prod.splits dest: addNamespace_sent)
  with c' show ?thesis by (simp add: same_sent)
qed

lemma kube_handle_sends:
  assumes "kube_handle ipam ord env ev c = Some c'"
  shows "sends_once c c'"
proof (cases ev)
  case Timer
  with assms show ?thesis
    by (auto simp: startupTimer_def Let_def sends_once_write same_sent)
next
  case WorkRs
  with assms show ?thesis by (auto simp: sends_once_workResource split: worker.splits)
next
  case WorkNs
  with assms show ?thesis by (auto simp: sends_once_workNamespace split: worker.splits)
qed (use assms in \<open>auto simp: sends_once_resource_handlers sends_once_update_handlers same_sent
      enterResource_def getResource_def getNamespace_def enqueueNamespace_def
      split: option.splits list.splits kobj.splits prod.splits\<close>)

lemma kube_step_sends: "kube_step ipam c ev c' \<Longrightarrow> sends_once c c'"
  by (erule kube_stepE) (rule kube_handle_sends)


subsection \<open>Every run of the system\<close>

definition deliveries :: "sysevent list \<Rightarrow> nat" where
  "deliveries evs = length (filter (\<lambda>ev. ev = Deliver) evs)"

text \<open>The groups of the last of some messages, or, before the first, none.\<close>

definition latest :: "IPGroups list \<Rightarrow> IPGroups" where
  "latest msgs = (if msgs = [] then fmempty else last msgs)"

text \<open>The messages taken are the first \<open>n\<close>, and at most one more is waiting. Once a message has been
  taken, only hosts that the last one lists are stored.\<close>

definition linked :: "nat \<Rightarrow> ('w, 's) system \<Rightarrow> bool" where
  "linked n sys \<longleftrightarrow>
     n \<le> length (sent (kclient sys)) \<and>
     ipGroups (ctlr sys) = latest (take n (sent (kclient sys))) \<and>
     drop n (sent (kclient sys)) = (case inbox sys of None \<Rightarrow> [] | Some g \<Rightarrow> [g]) \<and>
     list_all groups_wf (sent (kclient sys))"

definition only_listed :: "nat \<Rightarrow> ('w, 'o) Controller \<Rightarrow> bool" where
  "only_listed n c \<longleftrightarrow>
     (0 < n \<longrightarrow> (\<forall>h. stored (ctlrStore c) h \<longrightarrow> h \<noteq> '''' \<longrightarrow> h \<in> all_hosts (ipGroups c)))"

lemma linked_watch:
  assumes "linked n sys" and "kube_step ipam (kclient sys) ev k" and "groups_wf (ipGroup k)"
    and "handover (sent (kclient sys)) (sent k) (inbox sys) = Some box"
  shows "linked n \<lparr>ctlr = (ctlr sys)\<lparr>oClient := (k, s)\<rparr>, inbox = box\<rparr>"
  using kube_step_sends [OF assms(2)] unfolding sends_once_def
proof
  assume "sent k = sent (kclient sys)"
  with assms(1,4) show ?thesis by (simp add: linked_def handover_def kclient_def)
next
  assume k: "sent k = sent (kclient sys) @ [ipGroup k]"
  with assms(4) have box: "inbox sys = None" "box = Some (ipGroup k)"
    by (auto simp: handover_def split: option.splits)
  with assms(1) have "n = length (sent (kclient sys))" by (simp add: linked_def)
  with assms(1,3) k box show ?thesis by (simp add: linked_def kclient_def)
qed

lemma linked_deliver:
  assumes "linked n sys" and "inbox sys = Some groups" and "fst (oClient c) = kclient sys" and "ipGroups c = groups"
  shows "linked (Suc n) \<lparr>ctlr = c, inbox = None\<rparr>"
proof -
  from assms(1,2) have d: "drop n (sent (kclient sys)) = [groups]" and n: "n \<le> length (sent (kclient sys))"
    by (simp_all add: linked_def)
  have l: "length (sent (kclient sys)) = Suc n"
    using arg_cong [OF d, of length] n by simp
  have "sent (kclient sys) = take n (sent (kclient sys)) @ [groups]" using d by (metis append_take_drop_id)
  then have "last (sent (kclient sys)) = groups" "sent (kclient sys) \<noteq> []" by (metis last_snoc, force)
  with assms(1,3,4) l show ?thesis by (simp add: linked_def latest_def kclient_def)
qed

lemma pass_only_listed:
  assumes "client_contract cl" and "fair_range gord" and "fair_range ord"
    and "process cl gord ord c = Some c'"
  shows "only_listed n c'"
  using assms(4)
proof (rule process_cases)
  fix st w assume run: "processIPGroups cl gord ord (ipGroups c) (ctlrStore c) (iClient c) = Some (st, w)"
    and c': "c' = c\<lparr>ctlrStore := st, iClient := w\<rparr>"
  from pass_stored_listed [OF assms(1-3) run] show ?thesis by (auto simp: only_listed_def c')
qed

lemma ctl_step_only_listed:
  assumes "client_contract cl" and "ctl_step cl an vInterval c ev c'" and "only_listed n c" and "\<And>g. ev \<noteq> Undecodable g"
  shows "only_listed (case ev of Message _ \<Rightarrow> Suc n | _ \<Rightarrow> n) c'"
  using assms(2)
proof (rule step_handle)
  fix gord ord
  assume fair: "fair_range gord" "fair_range ord" and run: "handle cl an gord ord ev c = Some c'"
  note pass = pass_only_listed [OF assms(1) fair]
  show ?thesis
  proof (cases ev)
    case (Message groups)
    with run obtain c1 where p: "process cl gord ord (c\<lparr>ipGroups := groups\<rparr>) = Some c1"
        and w: "writeIPHosts an ord c1 = Some c'"
      by (auto simp: handle_def bind_Some)
    from pass [OF p, of "Suc n"] write_keeps [OF w] show ?thesis by (simp add: only_listed_def Message)
  next
    case Tick
    with run obtain ch c1 where r: "refreshStore cl c = Some (ch, c1)"
        and p: "(if ch then process cl gord ord c1 else Some c1) = Some c'"
      by (auto simp: handle_def bind_Some)
    show ?thesis
    proof (cases ch)
      case True
      with p pass [of c1 c' n] Tick show ?thesis by simp
    next
      case False
      from r obtain w where "c1 = c\<lparr>iClient := w\<rparr>"
        by (rule refreshStore_cases) (use False in auto)
      with False p Tick assms(3) show ?thesis by (auto simp: only_listed_def)
    qed
  qed (use assms(4) in auto)
qed


lemma sys_start:
  assumes "Run_start cl (\<lambda>(k, s). (Run_client k, s)) (NewController (NewKubernetesClient parse params, s) w) = Some c"
  shows "linked 0 \<lparr>ctlr = c, inbox = None\<rparr>"
proof -
  from assms have "ipGroups c = fmempty" "fst (oClient c) = Run_client (NewKubernetesClient parse params)"
    by (auto simp: Run_start_def NewController_def bind_Some elim!: refreshStore_cases)
  moreover have "sent (snd (addNamespaceLabelInformer sel k)) = sent k" for sel k
    by (simp add: addNamespaceLabelInformer_def)
  moreover have "sent (addNamespaces nss k) = sent k" for nss k
    by (induction nss arbitrary: k) (simp_all add: addNamespace_sent [OF prod.collapse [symmetric]])
  moreover have "sent (snd (addNamespace ns k)) = sent k" for ns k
    by (rule addNamespace_sent [OF prod.collapse [symmetric]])
  ultimately show ?thesis
    by (simp add: linked_def latest_def kclient_def Run_client_def NewKubernetesClient_def Let_def)
qed

lemma sys_run_linked:
  "sys_run ipam cl api vInterval sys evs sys' \<Longrightarrow> linked (deliveries evs) sys'"
proof (induction rule: sys_run.induct)
  case (start parse params s w c)
  from sys_start [OF start] show ?case by (simp add: deliveries_def)
next
  case (step sys evs sys1 ev sys2)
  have wf: "groups_wf (ipGroup (kclient sys2))"
    using sys_run_client [OF sys_run.step [OF step.hyps]] run_inv
    by (auto simp: kube_inv_def output_inv_def)
  from step.hyps(2) show ?case
  proof cases
    case (watch kev k box)
    with wf have "groups_wf (ipGroup k)" by (simp add: kclient_def)
    with watch linked_watch [OF step.IH watch(3) _ watch(4)] show ?thesis by (simp add: deliveries_def)
  next
    case (deliver groups agord c)
    from linked_deliver [OF step.IH deliver(3)] ctl_step_client [OF deliver(5)] step_groups [OF deliver(5)]
    show ?thesis by (simp add: deliver deliveries_def kclient_def)
  next
    case (verify agord c)
    with step.IH ctl_step_client [OF verify(5)] step_groups [OF verify(5)] show ?thesis
      by (simp add: linked_def deliveries_def kclient_def)
  next
    case (edit s)
    with step.IH show ?thesis by (simp add: linked_def deliveries_def kclient_def)
  qed
qed

lemma sys_run_store:
  assumes "client_contract cl"
  shows "sys_run ipam cl api vInterval sys evs sys' \<Longrightarrow>
    store_wf (ctlrStore (ctlr sys')) \<and> only_listed (deliveries evs) (ctlr sys')"
proof (induction rule: sys_run.induct)
  case (start parse params s w c)
  from run_wf [OF assms ctl_run.start [OF start]] show ?case by (simp add: deliveries_def only_listed_def)
next
  case (step sys evs sys1 ev sys2)
  from step.hyps(2) show ?case
  proof cases
    case (watch kev k box)
    with step.IH show ?thesis by (simp add: deliveries_def only_listed_def)
  next
    case (deliver groups agord c)
    from step_wf [OF assms deliver(5)] ctl_step_only_listed [OF assms deliver(5)] step.IH
    show ?thesis by (simp add: deliver deliveries_def)
  next
    case (verify agord c)
    from step_wf [OF assms verify(5)] ctl_step_only_listed [OF assms verify(5)] step.IH
    show ?thesis by (simp add: verify deliveries_def)
  next
    case (edit s)
    with step.IH show ?thesis by (simp add: deliveries_def only_listed_def)
  qed
qed


subsection \<open>Playing a run\<close>

text \<open>A run with every range ascending and the caches of one environment; None when a step is not
  possible or panics.\<close>

fun sys_play ::
    "string \<Rightarrow> 'w Client \<Rightarrow> 's kube_api \<Rightarrow> kenv \<Rightarrow> sysevent list \<Rightarrow> ('w, 's) system \<Rightarrow> ('w, 's) system option" where
  "sys_play ipam cl api env [] sys = Some sys"
| "sys_play ipam cl api env (Watch ev # evs) sys =
     (if enabled ev (kclient sys) then do {
        k \<leftarrow> kube_handle ipam ascending env ev (kclient sys);
        box \<leftarrow> handover (sent (kclient sys)) (sent k) (inbox sys);
        sys_play ipam cl api env evs \<lparr>ctlr = (ctlr sys)\<lparr>oClient := (k, apiServer sys)\<rparr>, inbox = box\<rparr>
      } else None)"
| "sys_play ipam cl api env (Deliver # evs) sys = do {
     groups \<leftarrow> inbox sys;
     c \<leftarrow> handle cl (kube_annotate api ascending) ascending ascending (Message groups) (ctlr sys);
     sys_play ipam cl api env evs \<lparr>ctlr = c, inbox = None\<rparr>
   }"
| "sys_play ipam cl api env (_ # evs) sys = None"

lemma sys_play_run:
  "sys_run ipam cl api v sys0 past sys \<Longrightarrow> sys_play ipam cl api env evs sys = Some sys' \<Longrightarrow>
     sys_run ipam cl api v sys0 (past @ evs) sys'"
proof (induction ipam cl api env evs sys arbitrary: past rule: sys_play.induct)
  case (2 ipam cl api env ev evs sys)
  from "2.prems"(2) obtain k box where e: "enabled ev (kclient sys)"
      "kube_handle ipam ascending env ev (kclient sys) = Some k"
      "handover (sent (kclient sys)) (sent k) (inbox sys) = Some box"
    and rest: "sys_play ipam cl api env evs \<lparr>ctlr = (ctlr sys)\<lparr>oClient := (k, apiServer sys)\<rparr>, inbox = box\<rparr> = Some sys'"
    by (auto simp: bind_Some split: if_splits)
  from "2.IH" [OF e sys_run.step [OF "2.prems"(1) sys_step.watch
        [OF kube_step.intros [OF fair_ascending e(1,2)] e(3)]] rest]
  show ?case by simp
next
  case (3 ipam cl api env evs sys)
  from "3.prems"(2) obtain groups c where e: "inbox sys = Some groups"
      "handle cl (kube_annotate api ascending) ascending ascending (Message groups) (ctlr sys) = Some c"
    and rest: "sys_play ipam cl api env evs \<lparr>ctlr = c, inbox = None\<rparr> = Some sys'"
    by (auto simp: bind_Some)
  have "ctl_step cl (kube_annotate api ascending) v (ctlr sys) (Message groups) c"
    by (rule ctl_step.intros [OF fair_ascending fair_ascending _ e(2)]) simp
  from "3.IH" [OF e sys_run.step [OF "3.prems"(1) sys_step.deliver [OF e(1) fair_ascending this]] rest]
  show ?case by simp
qed auto

text \<open>The example: one Ingress appears, is synchronised and sent, and the controller handles it.\<close>

definition first_system :: "(nat, resourceKey \<Rightarrow> ObjectMeta option) system" where
  "first_system = \<lparr>ctlr = NewController (new_client, one_object) 0, inbox = None\<rparr>"

definition first_ingress :: "sysevent list" where
  "first_ingress = [Watch EnterRs, Watch (OnAddIng (KIngress (demo_ingress net8 [''a'', ''b'']))),
     Watch GetRs, Watch WorkRs, Deliver]"

lemma first_system_run: "sys_run ''infoblox'' counter_client demo_api 30 first_system [] first_system"
proof -
  have "Run_start counter_client (\<lambda>(k, s). (Run_client k, s))
      (NewController (NewKubernetesClient Some all_namespaces, one_object) 0) = Some (ctlr first_system)"
    by (simp add: Run_start_def refreshStore_def counter_client_def NewController_def first_system_def new_client_def)
  from sys_run.start [OF this] show ?thesis by (simp add: first_system_def)
qed

lemma first_ingress_played:
  "case sys_play ''infoblox'' counter_client demo_api (demo_env Acked [demo_ingress net8 [''a'', ''b'']])
      first_ingress first_system of
    None \<Rightarrow> False
  | Some sys \<Rightarrow> length (sent (kclient sys)) = 1 \<and> apiServer sys web_key = Some (with_ip ''1'' (demo_meta ''web'' net8)) \<and>
      entry (ctlrStore (ctlr sys)) ''1'' ''b'' = Some recCNAME"
  by code_simp

end
