(* ===== verification/System_Properties.thy ===== *)
theory System_Properties
  imports Whole_System
begin

section \<open>Properties of the whole system\<close>

text \<open>
  What holds in every run of the client and the controller together, and the way of one Ingress
  through both: from the work queue of the client to the annotation with its address.
\<close>

subsection \<open>All runs\<close>

text \<open>In every run of the system, however the client's goroutines, the controller's loop and
  edits of the objects interleave: the client's part is a run of the client alone; every message
  the client has sent is well-formed, the controller has taken them in order and works with the
  groups of the last one, and at most one is under way; its store is well-formed; and once it has
  taken a message, only hosts that the last message lists are stored.\<close>

lemma system_run:
  assumes "client_contract cl" and "sys_run ipam cl api vInterval sys0 evs sys"
  shows "(\<exists>k0. kube_run ipam k0 (client_events evs) (kclient sys)) \<and>
    list_all groups_wf (sent (kclient sys)) \<and>
    ipGroups (ctlr sys) = latest (take (deliveries evs) (sent (kclient sys))) \<and>
    drop (deliveries evs) (sent (kclient sys)) = (case inbox sys of None \<Rightarrow> [] | Some g \<Rightarrow> [g]) \<and>
    store_wf (ctlrStore (ctlr sys)) \<and>
    (\<forall>h. 0 < deliveries evs \<longrightarrow> stored (ctlrStore (ctlr sys)) h \<longrightarrow> h \<noteq> '''' \<longrightarrow> h \<in> all_hosts (ipGroups (ctlr sys)))"
  using sys_run_client [OF assms(2)] sys_run_linked [OF assms(2)] sys_run_store [OF assms]
  by (simp add: linked_def only_listed_def)

subsection \<open>The groups seen through \<open>hosts_of\<close>\<close>

lemma hosts_of_spec:
  assumes "hosts_of groups gKey key = Some hs"
  shows "\<exists>spec \<in> all_specs groups. spec_key spec = key \<and> Hosts spec = hs"
proof -
  from assms obtain grp where grp: "fmlookup groups gKey = Some grp" "group_hosts grp key = Some hs"
    by (auto simp: hosts_of_def split: option.splits)
  have "group_hosts grp key = Some hs \<Longrightarrow> \<exists>spec \<in> set grp. spec_key spec = key \<and> Hosts spec = hs"
    by (induction grp) (auto split: if_splits)
  with grp show ?thesis by (meson all_specs_iff)
qed

lemma spec_hosts_of:
  assumes "groups_wf groups" and "spec \<in> all_specs groups"
  shows "\<exists>gKey. hosts_of groups gKey (spec_key spec) = Some (Hosts spec)"
proof -
  from assms(2) obtain gKey grp where grp: "fmlookup groups gKey = Some grp" "spec \<in> set grp"
    by (auto simp: all_specs_iff)
  have "distinct (map spec_key grp) \<Longrightarrow> spec \<in> set grp \<Longrightarrow> group_hosts grp (spec_key spec) = Some (Hosts spec)"
    by (induction grp) (auto simp: rev_image_eqI)
  with groups_wfD(2) [OF assms(1) grp(1)] grp show ?thesis
    by (intro exI [of _ gKey]) (simp add: hosts_of_def)
qed

lemma watched_groups_iff:
  "groups_wf groups \<Longrightarrow> watched_groups groups \<longleftrightarrow>
     (\<forall>gKey key hs. hosts_of groups gKey key = Some hs \<longrightarrow> watched_kind key \<and> hs \<noteq> [])"
  unfolding watched_groups_def using hosts_of_spec spec_hosts_of by metis

lemma all_hosts_of:
  "groups_wf groups \<Longrightarrow>
     h \<in> all_hosts groups \<longleftrightarrow> (\<exists>gKey key hs. hosts_of groups gKey key = Some hs \<and> h \<in> set hs)"
  unfolding all_hosts_def UN_iff using hosts_of_spec spec_hosts_of by metis

text \<open>A resource that is new in the groups, put into one of them.\<close>

lemma one_resource_more:
  assumes "groups_wf groups" "groups_wf groups'" and "\<And>g. hosts_of groups g key = None"
    and "\<And>g k. hosts_of groups' g k = (if g = gKey \<and> k = key then Some hosts else hosts_of groups g k)"
  shows "resources_unique groups \<Longrightarrow> resources_unique groups'"
    and "watched_groups groups \<Longrightarrow> watched_kind key \<Longrightarrow> hosts \<noteq> [] \<Longrightarrow> watched_groups groups'"
    and "all_hosts groups' = all_hosts groups \<union> set hosts"
proof -
  show "resources_unique groups \<Longrightarrow> resources_unique groups'"
    by (auto simp: resources_unique_iff in_group_def assms(3,4) split: if_splits)
  show "watched_groups groups \<Longrightarrow> watched_kind key \<Longrightarrow> hosts \<noteq> [] \<Longrightarrow> watched_groups groups'"
    by (auto simp: watched_groups_iff assms(1,2,4) split: if_splits)
  have "h \<in> all_hosts groups' \<longleftrightarrow> h \<in> all_hosts groups \<or> h \<in> set hosts" for h
  proof
    assume "h \<in> all_hosts groups'"
    then obtain g k hs where "hosts_of groups' g k = Some hs" "h \<in> set hs"
      by (auto simp: all_hosts_of assms(2))
    then show "h \<in> all_hosts groups \<or> h \<in> set hosts"
      by (auto simp: all_hosts_of assms(1,4) split: if_splits)
  next
    assume h: "h \<in> all_hosts groups \<or> h \<in> set hosts"
    have new: "hosts_of groups' gKey key = Some hosts" by (simp add: assms(4))
    have old: "hosts_of groups' g k = Some hs" if "hosts_of groups g k = Some hs" for g k hs
      using that assms(3) [of g] by (auto simp: assms(4))
    from h new old show "h \<in> all_hosts groups'"
      unfolding all_hosts_of [OF assms(1)] all_hosts_of [OF assms(2)] by blast
  qed
  then show "all_hosts groups' = all_hosts groups \<union> set hosts" by blast
qed


subsection \<open>From an Ingress to its annotation\<close>

lemma new_ingress_sent:
  assumes "kube_inv k" and "rkKind key = ''Ingress''" and "getResourceInformer k (rkNamespace key) = Some rsInf"
    and "ingByName env rsInf (rkName key) = Some ings" and "filter (is_resource key) ings = [ing]"
    and "network_of ipam (ingMeta ing) = Some net" and "ingress_hosts ing = Some hosts"
    and "sendTo env = Acked" and "channel k" and "initialState k"
    and "\<And>g. hosts_of (ipGroup k) g key = None" and "syncResource ipam env key k = Some (failed, k1)"
  shows "\<not> failed" "sent k1 = sent k @ [ipGroup k1]" "groups_wf (ipGroup k1)"
    "hosts_of (ipGroup k1) g x = (if g = group_of ing net \<and> x = key then Some hosts else hosts_of (ipGroup k) g x)"
proof -
  have wf: "groups_wf (ipGroup k)" using assms(1) by (simp add: kube_inv_def output_inv_def)
  note sync = sync_new_ingress [OF wf assms(2-7)]
  have open': "can_write k \<and> channel k \<and> sendTo env = Acked" using assms(8-10) by (simp add: can_write_def)
  have eff: "\<not> failed \<and> hosts_of (ipGroup k1) (group_of ing net) key = Some hosts \<and>
      (g \<noteq> group_of ing net \<or> x \<noteq> key \<longrightarrow> hosts_of (ipGroup k1) g x = hosts_of (ipGroup k) g x) \<and>
      sent k1 = (if updated k \<or> ipGroup k1 \<noteq> ipGroup k then sent k @ [ipGroup k1] else sent k)" for g x
    using sync [of g x] assms(11) [of "group_of ing net"] assms(12) open' by auto
  then show "\<not> failed" by blast
  show "hosts_of (ipGroup k1) g x = (if g = group_of ing net \<and> x = key then Some hosts else hosts_of (ipGroup k) g x)"
    using eff [of g x] by auto
  have "ipGroup k1 \<noteq> ipGroup k" using eff assms(11) [of "group_of ing net"] by auto
  with eff show "sent k1 = sent k @ [ipGroup k1]" by simp
  show "groups_wf (ipGroup k1)"
    using syncResource_keeps [OF _ assms(12)] assms(1) by (simp add: kube_inv_def output_inv_def)
qed

text \<open>A new Ingress is served: when the client synchronises an Ingress that is not in its groups
  yet and the controller, whose IPAM system hands out each address once and refuses nothing, handles
  the message this sends, every host of the Ingress is stored at exactly one address, the address
  of its first host is in its annotation, and its other annotations are as they were.\<close>

lemma ingress_served:
  assumes "client_contract cl" and "fresh_pool cl used" and "fair_range gord" and "fair_range ord" and "fair_range agord"
    and "stores_objects api content" and "named_objects (content s)" and "kube_inv k" and "rkKind key = ''Ingress''"
    and "getResourceInformer k (rkNamespace key) = Some rsInf"
    and "ingByName env rsInf (rkName key) = Some ings" and "filter (is_resource key) ings = [ing]"
    and "network_of ipam (ingMeta ing) = Some net" and "ingress_hosts ing = Some hosts" and "hosts \<noteq> []"
    and "sendTo env = Acked" and "channel k" and "initialState k"
    and "\<And>g. hosts_of (ipGroup k) g key = None" and "resources_unique (ipGroup k)" and "watched_groups (ipGroup k)"
    and "'''' \<notin> all_hosts (ipGroup k) \<union> set hosts" and "ctl_inv used (ctlrStore c) (iClient c)"
    and "syncResource ipam env key k = Some (failed, k1)"
    and "handle (strict cl) (kube_annotate api agord) gord ord (Message (last (sent k1))) (c\<lparr>oClient := (k1, s)\<rparr>) = Some c'"
  shows "\<not> failed \<and> sent k1 = sent k @ [ipGroup k1] \<and>
    (\<forall>h \<in> set hosts. \<exists>!ip. stored_at (ctlrStore c') h ip) \<and>
    (\<exists>s' ip. oClient c' = (k1, s') \<and> stored_at (ctlrStore c') (hd hosts) ip \<and>
       content s' key = map_option (with_ip ip) (content s key))"
proof -
  note new = new_ingress_sent [OF assms(8-14,16-19,24)]
  have wf: "groups_wf (ipGroup k)" using assms(8) by (simp add: kube_inv_def output_inv_def)
  have kind: "watched_kind key" by (simp add: watched_kind_def assms(9))
  note more = one_resource_more [OF wf new(3) assms(19) new(4)]
  obtain c1 where p: "process (strict cl) gord ord (c\<lparr>oClient := (k1, s), ipGroups := ipGroup k1\<rparr>) = Some c1"
      and w: "writeIPHosts (kube_annotate api agord) ord c1 = Some c'"
    using assms(25) new(2) by (auto simp: handle_def bind_Some)
  from p obtain st w' where run: "processIPGroups (strict cl) gord ord (ipGroup k1) (ctlrStore c) (iClient c) = Some (st, w')"
      and c1: "ctlrStore c1 = st" "oClient c1 = (k1, s)"
    by (rule process_cases) auto
  have store: "store_wf (ctlrStore c)" using assms(23) by (simp add: ctl_inv_def)
  have hosts: "stored st h" if "h \<in> set hosts" for h
    using strict_pass_exact [OF assms(1,3,4) run store] that by (simp add: more(3))
  have "ctl_inv used st w'"
    using strict_pass_inv [OF assms(1,3,4,2) run _ assms(23)] assms(22) by (simp add: more(3))
  then have uniq: "hosts_unique st" and ne: "'''' \<notin> keys (Records st)" by (simp_all add: ctl_inv_def store_sound_def)
  obtain s' where s': "oClient c' = (k1, s')"
    and ann: "\<And>spec ip. spec \<in> all_specs (ipGroup k1) \<Longrightarrow> stored_at st (hd (Hosts spec)) ip \<Longrightarrow>
       content s' (spec_key spec) = map_option (with_ip ip) (content s (spec_key spec))"
    using addresses_written [OF assms(6,5,4) new(3) more(1) [OF assms(20)] more(2) [OF assms(21) kind assms(15)], of c1 s]
      assms(7) w c1 uniq ne by auto
  have st: "ctlrStore c' = st" using write_keeps [OF w] c1 by simp
  have one: "\<exists>!ip. stored_at st h ip" if "h \<in> set hosts" for h
    using hosts [OF that] uniq by (auto simp: stored_iff hosts_unique_iff)
  have "hosts_of (ipGroup k1) (group_of ing net) key = Some hosts" by (simp add: new(4))
  then obtain spec where spec: "spec \<in> all_specs (ipGroup k1)" "spec_key spec = key" "Hosts spec = hosts"
    using hosts_of_spec by blast
  from one assms(15) obtain ip where ip: "stored_at st (hd hosts) ip" using hd_in_set by blast
  with ann [OF spec(1)] spec have "content s' key = map_option (with_ip ip) (content s key)" by simp
  with new(1,2) one s' st ip show ?thesis by blast
qed


definition idle_client :: K8sClient where
  "idle_client = new_client\<lparr>initialState := True\<rparr>"

lemma idle_client_facts:
  "kube_inv idle_client" "channel idle_client" "initialState idle_client"
  "getResourceInformer idle_client ''ns'' = Some (startInformer (newRsInformer ''''))"
  "ipGroup idle_client = fmempty"
proof -
  have "kube_inv new_client" unfolding new_client_def by (rule start_inv)
  moreover have s: "sent new_client = []" "channel new_client" "ipGroup new_client = fmempty" by code_simp+
  ultimately show "kube_inv idle_client"
    by (simp add: idle_client_def kube_inv_def queues_inv_def informers_inv_def output_inv_def)
  show "channel idle_client" "initialState idle_client" "ipGroup idle_client = fmempty"
    by (simp_all add: idle_client_def s)
  show "getResourceInformer idle_client ''ns'' = Some (startInformer (newRsInformer ''''))"
    by (rule demo_watches) (simp add: idle_client_def)
qed

lemma counter_inv_start: "ctl_inv counter_used NewStore 0"
  by (auto simp: ctl_inv_def store_wf_New store_sound_def hosts_unique_iff one_A_iff stored_at_def
      entry_NewStore) (simp_all add: NewStore_def)

definition two_hosts :: Ingress where
  "two_hosts = demo_ingress net8 [''a'', ''b'']"

lemma served_example:
  "case syncResource ''infoblox'' (demo_env Acked [two_hosts]) web_key idle_client of
     None \<Rightarrow> False
   | Some (failed, k1) \<Rightarrow>
       handle (strict counter_client) (kube_annotate demo_api ascending) ascending ascending (Message (last (sent k1)))
         ((NewController (idle_client, one_object) 0)\<lparr>oClient := (k1, one_object)\<rparr>) \<noteq> None"
  by code_simp

subsection \<open>A resource at two addresses\<close>

text \<open>\<open>getSpecsWithHosts\<close> assumes that the address of a resource's first host is that of all its hosts.
  It is not so when a resource takes over a host that already has an address: in the second pass
  below, the resource web lists the hosts a and b, which the first pass has put at two addresses.\<close>

definition two_groups :: "string list \<Rightarrow> IPGroups" where
  "two_groups hosts = snd (addToIPGroup
     (snd (addToIPGroup fmempty key8 ''Ingress'' ''web'' ''ns'' hosts)) key8 ''Ingress'' ''api'' ''ns'' [''b''])"

lemma resource_at_two_addresses:
  "case processIPGroups counter_client ascending ascending (two_groups [''a'']) NewStore 0 of
     None \<Rightarrow> False
   | Some (st, w) \<Rightarrow>
       (case processIPGroups counter_client ascending ascending (two_groups [''a'', ''b'']) st w of
          None \<Rightarrow> False
        | Some (st', w') \<Rightarrow>
            entry st' ''1'' ''a'' \<noteq> None \<and> entry st' ''1'' ''b'' = None \<and> entry st' ''11'' ''b'' \<noteq> None)"
  by code_simp

end
