(* ===== verification/Kube_Cache.thy ===== *)
theory Kube_Cache
  imports Whole_System
begin

section \<open>The client and the caches of its informers\<close>

text \<open>
  The runs of the client with the caches its informers keep. A cache changes at once when the API
  server reports a change; the handler runs later, on the changes of one object in their order. The
  resource worker reads the cache and acts on what it has read afterwards, in two steps that other
  goroutines may come between. This theory shows that no change is lost: when nothing is left to do,
  the groups, and the last message to the Controller, have the hosts of every cached resource that
  asks for an address.
\<close>

subsection \<open>Listed hosts\<close>

definition lists_host :: "IPGroups \<Rightarrow> GroupKey \<Rightarrow> resourceKey \<Rightarrow> string \<Rightarrow> bool" where
  "lists_host groups g k h \<longleftrightarrow> (case hosts_of groups g k of None \<Rightarrow> False | Some hs \<Rightarrow> h \<in> set hs)"

lemma lists_host_iff: "lists_host groups g k h \<longleftrightarrow> (\<exists>hs. hosts_of groups g k = Some hs \<and> h \<in> set hs)"
  by (simp add: lists_host_def split: option.split)

text \<open>Only the resource \<open>key\<close> may lose hosts, and nothing is added.\<close>

definition shrinks :: "resourceKey \<Rightarrow> IPGroups \<Rightarrow> IPGroups \<Rightarrow> bool" where
  "shrinks key groups groups' \<longleftrightarrow>
     (\<forall>g k. k \<noteq> key \<longrightarrow> hosts_of groups' g k = hosts_of groups g k) \<and>
     (\<forall>g k h. lists_host groups' g k h \<longrightarrow> lists_host groups g k h)"

lemma shrinks_refl [simp]: "shrinks key groups groups"
  by (simp add: shrinks_def)

lemma shrinks_trans: "shrinks key a b \<Longrightarrow> shrinks key b c \<Longrightarrow> shrinks key a c"
  by (simp add: shrinks_def)

lemma shrinks_other: "shrinks key groups groups' \<Longrightarrow> k \<noteq> key \<Longrightarrow> lists_host groups' g k h \<longleftrightarrow> lists_host groups g k h"
  by (simp add: shrinks_def lists_host_def)

lemma removeHost_specs_other:
  "k \<noteq> key \<Longrightarrow> group_hosts (fst (removeHost_specs h key grp d)) k = group_hosts grp k"
  by (induction h key grp d rule: removeHost_specs.induct)
    (auto simp: Let_def case_prod_beta equalsKey_iff)

lemma removeHost_specs_less:
  "group_hosts (fst (removeHost_specs h key grp d)) k = Some hs \<Longrightarrow>
     \<exists>hs'. group_hosts grp k = Some hs' \<and> set hs \<subseteq> set hs'"
  by (induction h key grp d rule: removeHost_specs.induct)
    (auto simp: Let_def case_prod_beta dest: set_mp [OF set_remove1_subset] split: if_splits)

lemma removeHost_specs_shrinks:
  assumes "fmlookup groups gKey = Some grp"
  shows "shrinks key groups (fmupd gKey (fst (removeHost_specs h key grp d)) groups)"
proof -
  have "hosts_of groups gKey k = group_hosts grp k" for k using assms by (simp add: hosts_of_def)
  then show ?thesis
    using removeHost_specs_other [of _ key h grp d] removeHost_specs_less [of h key grp d]
    by (fastforce simp: shrinks_def lists_host_iff hosts_of_upd split: if_splits)
qed

lemma removeHost_groups_shrinks: "shrinks key groups (removeHost_groups h key groups d gKeys)"
proof (induction gKeys arbitrary: groups d)
  case (Cons gKey gKeys)
  show ?case
  proof (cases "fmlookup groups gKey")
    case (Some grp)
    let ?r = "removeHost_specs h key grp d"
    show ?thesis
      using shrinks_trans [OF removeHost_specs_shrinks [OF Some, of key h d]
          Cons.IH [of "fmupd gKey (fst ?r) groups" "snd ?r"]] Some
      by (simp add: case_prod_beta)
  qed (simp add: Cons)
qed simp

lemma removeHost_shrinks: "shrinks key groups (removeHost groups h key gKeys)"
  by (simp add: removeHost_def removeHost_groups_shrinks)

lemma removeFromIPGroup_shrinks:
  assumes "groups_wf groups"
  shows "shrinks (spec_key rm) groups (removeFromIPGroup groups rm gKeys)"
proof (induction gKeys)
  case (Cons gKey gKeys)
  show ?case
  proof (cases "in_group groups (spec_key rm) gKey")
    case True
    have "shrinks (spec_key rm) groups g'"
      if "\<And>gKey' key. hosts_of g' gKey' key =
           (if gKey' = gKey \<and> key = spec_key rm then None else hosts_of groups gKey' key)" for g'
      by (simp add: shrinks_def lists_host_def that)
    then show ?thesis using removeFromIPGroup_hit(1) [OF assms True, of gKeys] by blast
  next
    case False
    then show ?thesis using Cons
      by (simp del: removeFromIPGroup.simps add: removeFromIPGroup_skip [OF assms False])
  qed
qed simp

lemma prune_loop_shrinks: "shrinks key groups (fst (prune_loop ord exists key at is cells groups gone))"
proof (induction "is" arbitrary: cells groups gone)
  case (Cons i "is")
  show ?case
    using shrinks_trans [OF removeHost_shrinks Cons.IH] Cons.IH by (simp add: Let_def)
qed simp

lemma prune_hosts_shrinks: "shrinks key groups (fst (prune_hosts ord exists key groups))"
  by (simp add: prune_hosts_def Let_def prune_loop_shrinks split: option.split)

subsection \<open>What a handler does\<close>

lemma find_spec_key:
  assumes "find_spec ord key c = (True, spec, grp)"
  shows "spec_key spec = key"
proof -
  from assms obtain at where l: "locate (ipGroup c) key (ord FindRange (fmdom (ipGroup c))) = Some at"
      and spec: "spec = spec_at (ipGroup c) (fst at) (snd at)"
    by (auto simp: find_spec_def getSpec_def split: option.splits)
  from locate_located [OF l] show ?thesis unfolding spec located_def by (auto simp: spec_at_def split: option.splits)
qed

lemma drop_spec_shrinks:
  "groups_wf (ipGroup c) \<Longrightarrow> spec_key spec = key \<Longrightarrow> shrinks key (ipGroup c) (ipGroup (drop_spec ord spec c))"
  using removeFromIPGroup_shrinks by (auto simp: drop_spec_def)

lemma forget_shrinks:
  assumes "groups_wf (ipGroup c)"
  shows "shrinks key (ipGroup c) (ipGroup (forget_resource ord out key c))"
proof (cases "find_spec ord key c")
  case (fields found spec grp)
  then show ?thesis
    using drop_spec_shrinks [OF assms find_spec_key] by (cases found) (auto simp: forget_resource_def)
qed

lemma updated_configmap_shrinks: "shrinks key (ipGroup c) (ipGroup (updated_configmap ord cm key c))"
  by (simp add: updated_configmap_def prune_hosts_shrinks)

lemma updated_ingress_shrinks:
  assumes "groups_wf (ipGroup c)"
  shows "shrinks key (ipGroup c) (ipGroup (updated_ingress ord ing key c))"
proof (cases "find_spec ord key c")
  case (fields found spec grp)
  let ?g = "fst (prune_hosts ord (ingHostExists ing) key (ipGroup c))"
  have "shrinks key (ipGroup c) (ipGroup (drop_spec ord spec c0))"
    if "found" and "ipGroup c0 = ?g" for c0
    using shrinks_trans [OF prune_hosts_shrinks] drop_spec_shrinks [of c0] find_spec_key [of ord key c spec grp]
      prune_hosts_wf [OF assms] fields that by metis
  then show ?thesis
    using fields prune_hosts_shrinks by (auto simp: updated_ingress_def Let_def case_prod_beta)
qed

text \<open>A handler for the resource \<open>key\<close> changes the client's groups to those of \<open>c1\<close>, and may then queue
  the key; the rest of the plumbing it leaves alone.\<close>

definition handled :: "resourceKey \<Rightarrow> K8sClient \<Rightarrow> K8sClient \<Rightarrow> bool" where
  "handled key c c' \<longleftrightarrow>
     (\<exists>c1. same_plumbing c c1 \<and> shrinks key (ipGroup c) (ipGroup c1) \<and> (c' = c1 \<or> c' = enqueueResource key c1))"

lemma handledI:
  assumes "same_plumbing c c1 \<and> output_inv c1" and "shrinks key (ipGroup c) (ipGroup c1)"
  shows "handled key c c1" "handled key c (enqueueResource key c1)"
  using assms by (auto simp: handled_def)

lemma handled_refl [simp]: "handled key c c" "handled key c (enqueueResource key c)"
  by (auto simp: handled_def intro: exI [of _ c])

lemma handled_plumbing:
  assumes "handled key c c'"
  shows "rsInformers c' = rsInformers c" "nsInformer c' = nsInformer c" "nsQueue c' = nsQueue c"
    "rsRetry c' = rsRetry c" "rsWorker c' = rsWorker c" "timers c' = timers c" "channel c' = channel c"
    "rsQueue c' = rsQueue c \<or> rsQueue c' = qAdd key (rsQueue c)" "shrinks key (ipGroup c) (ipGroup c')"
  using assms by (auto simp: handled_def same_plumbing_def enqueueResource_def)

text \<open>The key of an object.\<close>

definition obj_key :: "kobj \<Rightarrow> resourceKey option" where
  "obj_key obj =
     (case obj of
        KConfigMap cm \<Rightarrow> Some \<lparr>rkKind = ''ConfigMap'', rkName = omName (cmMeta cm), rkNamespace = omNamespace (cmMeta cm)\<rparr>
      | KIngress ing \<Rightarrow> Some \<lparr>rkKind = ''Ingress'', rkName = omName (ingMeta ing), rkNamespace = omNamespace (ingMeta ing)\<rparr>
      | _ \<Rightarrow> None)"

definition obj_meta :: "kobj \<Rightarrow> ObjectMeta option" where
  "obj_meta obj = (case obj of KConfigMap cm \<Rightarrow> Some (cmMeta cm) | KIngress ing \<Rightarrow> Some (ingMeta ing) | _ \<Rightarrow> None)"

text \<open>The resource carries the annotation of \<open>checkValidConfigMap\<close> and \<open>checkValidIngress\<close>.\<close>

definition asks :: "kobj \<Rightarrow> bool" where
  "asks obj \<longleftrightarrow> (case obj_meta obj of None \<Rightarrow> False | Some m \<Rightarrow> annot m ipamWatchAnnotation = Some ''dynamic'')"

lemma checkValid_asks:
  assumes "obj_key obj = Some key" and "getResourceInformer c (rkNamespace key) \<noteq> None"
  shows "rkKind key = ''ConfigMap'' \<Longrightarrow> checkValidConfigMap obj c = Some (if asks obj then Some key else None)"
    and "rkKind key = ''Ingress'' \<Longrightarrow> checkValidIngress obj c = Some (if asks obj then Some key else None)"
  using assms
  by (auto simp: checkValidConfigMap_def checkValidIngress_def valid_meta_def obj_key_def asks_def obj_meta_def
      split: kobj.splits option.splits)

subsection \<open>Caches and notices\<close>

text \<open>A change of one object, as an informer passes it on.\<close>

datatype notice = Added kobj | Changed kobj kobj | Deleted kobj

fun before :: "notice \<Rightarrow> kobj option" where
  "before (Added obj) = None"
| "before (Changed old cur) = Some old"
| "before (Deleted obj) = Some obj"

fun after :: "notice \<Rightarrow> kobj option" where
  "after (Added obj) = Some obj"
| "after (Changed old cur) = Some cur"
| "after (Deleted obj) = None"

text \<open>A notice against what the cache has when the change arrives. A deletion carries the object's final
  state, which may be newer.\<close>

fun fits :: "kobj option \<Rightarrow> notice \<Rightarrow> bool" where
  "fits old (Added obj) \<longleftrightarrow> old = None"
| "fits old (Changed prev cur) \<longleftrightarrow> old = Some prev"
| "fits old (Deleted obj) \<longleftrightarrow> True"

text \<open>The handler functions that \<open>newRsInformer\<close> registers for the two kinds.\<close>

definition is_configmap :: "kobj \<Rightarrow> bool" where
  "is_configmap obj \<longleftrightarrow> (case obj of KConfigMap _ \<Rightarrow> True | _ \<Rightarrow> False)"

fun event_of :: "notice \<Rightarrow> kevent" where
  "event_of (Added obj) = (if is_configmap obj then OnAddCM obj else OnAddIng obj)"
| "event_of (Changed old cur) = (if is_configmap cur then OnUpdateCM old cur else OnUpdateIng old cur)"
| "event_of (Deleted obj) = (if is_configmap obj then OnDeleteCM obj else OnDeleteIng obj)"

text \<open>Both objects of a notice have the key.\<close>

definition about :: "resourceKey \<Rightarrow> notice \<Rightarrow> bool" where
  "about key n \<longleftrightarrow>
     (case before n of None \<Rightarrow> True | Some obj \<Rightarrow> obj_key obj = Some key) \<and>
     (case after n of None \<Rightarrow> True | Some obj \<Rightarrow> obj_key obj = Some key)"

text \<open>
  The client, what the caches have for each key, the notices on each key that no handler has seen
  yet, and, between the read and the rest of \<open>syncResource\<close>, what the worker has read.
\<close>

record cluster =
  kube :: K8sClient
  cached :: "resourceKey \<Rightarrow> kobj option"
  notices :: "resourceKey \<Rightarrow> notice list"
  fetched :: "kenv option"

definition is_cm :: "resourceKey \<Rightarrow> ConfigMap \<Rightarrow> bool" where
  "is_cm key cm \<longleftrightarrow> omNamespace (cmMeta cm) = rkNamespace key \<and> omName (cmMeta cm) = rkName key"

fun opt_list :: "'a option \<Rightarrow> 'a list" where
  "opt_list None = []"
| "opt_list (Some x) = [x]"

text \<open>What \<open>ByIndex\<close> answers for a key whose cached object is \<open>obj\<close>: objects of that name in any order, of
  which this one, if it is there, is the one with the namespace of the key.\<close>

definition answers :: "K8sClient \<Rightarrow> kobj option \<Rightarrow> resourceKey \<Rightarrow> kenv \<Rightarrow> bool" where
  "answers c obj key env \<longleftrightarrow>
     (case getResourceInformer c (rkNamespace key) of
        None \<Rightarrow> False
      | Some rsInf \<Rightarrow>
          (if rkKind key = ''ConfigMap'' then
             (case cmByName env rsInf (rkName key) of
                None \<Rightarrow> False
              | Some cms \<Rightarrow> map KConfigMap (filter (is_cm key) cms) = opt_list obj)
           else
             (case ingByName env rsInf (rkName key) of
                None \<Rightarrow> False
              | Some ings \<Rightarrow> map KIngress (filter (is_resource key) ings) = opt_list obj)))"

text \<open>The steps; \<open>outs\<close> are the outcomes that a send may have. A change concerns a watched namespace.\<close>

definition own_event :: "kevent \<Rightarrow> bool" where
  "own_event ev \<longleftrightarrow> ev \<in> {Timer, EnterRs, GetRs, RetryRs}"

inductive cache_step :: "string \<Rightarrow> send set \<Rightarrow> cluster \<Rightarrow> cluster \<Rightarrow> bool" for ipam outs where
  change: "fits (cached s key) n \<Longrightarrow> about key n \<Longrightarrow> getResourceInformer (kube s) (rkNamespace key) \<noteq> None \<Longrightarrow>
     cache_step ipam outs s
       (s\<lparr>cached := (cached s)(key := after n), notices := (notices s)(key := notices s key @ [n])\<rparr>)"
| notify: "notices s key = n # ns \<Longrightarrow> fair_range ord \<Longrightarrow> sendTo env \<in> outs \<Longrightarrow>
     kube_handle ipam ord env (event_of n) (kube s) = Some c \<Longrightarrow>
     cache_step ipam outs s (s\<lparr>kube := c, notices := (notices s)(key := ns)\<rparr>)"
| fetch: "rsWorker (kube s) = Holds key \<Longrightarrow> fetched s = None \<Longrightarrow> answers (kube s) (cached s key) key env \<Longrightarrow>
     cache_step ipam outs s (s\<lparr>fetched := Some env\<rparr>)"
| apply_read: "rsWorker (kube s) = Holds key \<Longrightarrow> fetched s = Some env \<Longrightarrow> fair_range ord \<Longrightarrow> out \<in> outs \<Longrightarrow>
     kube_handle ipam ord (env\<lparr>sendTo := out\<rparr>) WorkRs (kube s) = Some c \<Longrightarrow>
     cache_step ipam outs s (s\<lparr>kube := c, fetched := None\<rparr>)"
| own: "own_event ev \<Longrightarrow> enabled ev (kube s) \<Longrightarrow> fair_range ord \<Longrightarrow> sendTo env \<in> outs \<Longrightarrow>
     kube_handle ipam ord env ev (kube s) = Some c \<Longrightarrow>
     cache_step ipam outs s (s\<lparr>kube := c\<rparr>)"

inductive cache_run :: "string \<Rightarrow> send set \<Rightarrow> cluster \<Rightarrow> bool" for ipam outs where
  start: "NamespaceLabel params = '''' \<Longrightarrow> Channel params \<Longrightarrow>
     cache_run ipam outs \<lparr>kube = Run_client (NewKubernetesClient parse params), cached = (\<lambda>key. None),
       notices = (\<lambda>key. []), fetched = None\<rparr>"
| step: "cache_run ipam outs s \<Longrightarrow> cache_step ipam outs s s' \<Longrightarrow> cache_run ipam outs s'"

text \<open>These runs are runs of the client.\<close>

lemma event_of_enabled [simp]: "enabled (event_of n) c"
  by (cases n) simp_all

lemma cache_run_kube: "cache_run ipam outs s \<Longrightarrow> \<exists>c0 evs. kube_run ipam c0 evs (kube s)"
proof (induction rule: cache_run.induct)
  case (start params parse)
  then show ?case by (auto intro: kube_run.start [OF refl])
next
  case (step s s')
  then obtain c0 evs where run: "kube_run ipam c0 evs (kube s)" by blast
  from step.hyps(2) show ?case
  proof cases
    case (notify key n ns ord env c)
    from kube_run.step [OF run kube_step.intros [OF notify(3) event_of_enabled notify(5)]] show ?thesis
      by (auto simp: notify(1))
  next
    case (apply_read key env ord out c)
    then have "enabled WorkRs (kube s)" by simp
    from kube_run.step [OF run kube_step.intros [OF apply_read(4) this apply_read(6)]] show ?thesis
      by (auto simp: apply_read(1))
  next
    case (own ev ord env c)
    from kube_run.step [OF run kube_step.intros [OF own(4,3,6)]] show ?thesis by (auto simp: own(1))
  qed (use run in auto)
qed

lemma cache_run_inv: "cache_run ipam outs s \<Longrightarrow> kube_inv (kube s)"
  using cache_run_kube run_inv by blast

subsection \<open>The handler of a notice\<close>

lemma checkValid_key:
  "checkValidConfigMap obj c = Some (Some key') \<Longrightarrow> obj_key obj = Some key \<Longrightarrow> key' = key"
  "checkValidIngress obj c = Some (Some key') \<Longrightarrow> obj_key obj = Some key \<Longrightarrow> key' = key"
  by (auto simp: checkValidConfigMap_def checkValidIngress_def obj_key_def dest!: valid_meta_key split: kobj.splits)

lemma add_handled:
  assumes "obj_key obj = Some key"
  shows "addConfigMap obj c = Some c' \<Longrightarrow> handled key c c'" and "addIngress obj c = Some c' \<Longrightarrow> handled key c c'"
  using checkValid_key(1) [OF _ assms] checkValid_key(2) [OF _ assms]
  by (auto simp: addConfigMap_def addIngress_def bind_Some split: option.splits)

lemma delete_handled:
  assumes "obj_key obj = Some key" and "output_inv c"
  shows "deleteConfigMap ord out obj c = Some c' \<Longrightarrow> handled key c c'"
    and "deleteIngress ord out obj c = Some c' \<Longrightarrow> handled key c c'"
proof -
  have wf: "groups_wf (ipGroup c)" using assms(2) by (simp add: output_inv_def)
  note forget = handledI(1) [OF forget_resource_keeps [OF assms(2)] forget_shrinks [OF wf]]
  show "handled key c c'" if "deleteConfigMap ord out obj c = Some c'"
    using that checkValid_key(1) [OF _ assms(1)] forget
    by (auto simp: deleteConfigMap_def bind_Some split: option.splits)
  show "handled key c c'" if "deleteIngress ord out obj c = Some c'"
    using that checkValid_key(2) [OF _ assms(1)] forget
    by (auto simp: deleteIngress_def bind_Some split: option.splits)
qed

lemma update_handled:
  assumes "obj_key old = Some key" and "obj_key cur = Some key" and "output_inv c"
  shows "updateConfigMap ord out old cur c = Some c' \<Longrightarrow> handled key c c'"
    and "updateIngress ord out old cur c = Some c' \<Longrightarrow> handled key c c'"
proof -
  have wf: "groups_wf (ipGroup c)" using assms(3) by (simp add: output_inv_def)
  note forget = handledI(1) [OF forget_resource_keeps [OF assms(3)] forget_shrinks [OF wf]]
  note upd = handledI(2) [OF updated_keeps(1) [OF assms(3)] updated_configmap_shrinks]
    handledI(2) [OF updated_keeps(2) [OF assms(3)] updated_ingress_shrinks [OF wf]]
  note key = checkValid_key(1) [OF _ assms(1)] checkValid_key(1) [OF _ assms(2)]
    checkValid_key(2) [OF _ assms(1)] checkValid_key(2) [OF _ assms(2)]
  show "handled key c c'" if "updateConfigMap ord out old cur c = Some c'"
    using that
  proof (cases rule: updateConfigMap_cases)
    case (still cm k k')
    then show ?thesis using key(1) [OF still(2)] upd(1) by simp
  next
    case (gone k)
    then show ?thesis using key(1) [OF gone(1)] forget by simp
  next
    case (fresh k)
    then show ?thesis using key(2) [OF fresh(2)] by simp
  qed simp
  show "handled key c c'" if "updateIngress ord out old cur c = Some c'"
    using that
  proof (cases rule: updateIngress_cases)
    case (still ing k k')
    then show ?thesis using key(3) [OF still(2)] upd(2) by simp
  next
    case (gone k)
    then show ?thesis using key(3) [OF gone(1)] forget by simp
  next
    case (fresh k)
    then show ?thesis using key(4) [OF fresh(2)] by simp
  qed simp
qed

lemma notice_handled:
  assumes "about key n" and "output_inv c" and "kube_handle ipam ord env (event_of n) c = Some c'"
  shows "handled key c c'"
proof (cases n)
  case (Added obj)
  with assms show ?thesis
    using add_handled [of obj key c c'] by (auto simp: about_def split: if_splits)
next
  case (Changed old cur)
  with assms show ?thesis
    using update_handled [of old key cur c ord "sendTo env" c'] by (auto simp: about_def split: if_splits)
next
  case (Deleted obj)
  with assms show ?thesis
    using delete_handled [of obj key c ord "sendTo env" c'] by (auto simp: about_def split: if_splits)
qed

text \<open>When the new object asks for an address, its key is queued.\<close>

lemma update_queued:
  assumes "obj_key old = Some key" and "obj_key cur = Some key" and "output_inv c" and "asks cur"
    and watched: "getResourceInformer c (rkNamespace key) \<noteq> None"
  shows "rkKind key = ''ConfigMap'' \<Longrightarrow> updateConfigMap ord out old cur c = Some c' \<Longrightarrow> rsQueue c' = qAdd key (rsQueue c)"
    and "rkKind key = ''Ingress'' \<Longrightarrow> updateIngress ord out old cur c = Some c' \<Longrightarrow> rsQueue c' = qAdd key (rsQueue c)"
proof -
  note valid = checkValid_asks [OF assms(1) watched] checkValid_asks [OF assms(2) watched]
  note kept = updated_keeps [OF assms(3)]
  show "rsQueue c' = qAdd key (rsQueue c)"
    if "rkKind key = ''ConfigMap''" "updateConfigMap ord out old cur c = Some c'"
    using that(2) valid(1,3) [OF that(1)] assms(4) kept(1)
    by (cases rule: updateConfigMap_cases)
      (auto simp: enqueueResource_def same_plumbing_def split: if_splits)
  show "rsQueue c' = qAdd key (rsQueue c)"
    if "rkKind key = ''Ingress''" "updateIngress ord out old cur c = Some c'"
    using that(2) valid(2,4) [OF that(1)] assms(4) kept(2)
    by (cases rule: updateIngress_cases)
      (auto simp: enqueueResource_def same_plumbing_def split: if_splits)
qed

lemma obj_key_kind: "obj_key obj = Some key \<Longrightarrow> rkKind key = (if is_configmap obj then ''ConfigMap'' else ''Ingress'')"
  by (auto simp: obj_key_def is_configmap_def split: kobj.splits)

lemma notice_queued:
  assumes "about key n" and "output_inv c" and "kube_handle ipam ord env (event_of n) c = Some c'"
    and "after n = Some obj" and "asks obj" and "getResourceInformer c (rkNamespace key) \<noteq> None"
  shows "rsQueue c' = qAdd key (rsQueue c)"
proof (cases n)
  case (Added new)
  with assms have "obj_key obj = Some key" "new = obj" by (auto simp: about_def)
  with Added assms checkValid_asks [of obj key c] obj_key_kind [of obj key] show ?thesis
    by (auto simp: addConfigMap_def addIngress_def enqueueResource_def bind_Some split: if_splits)
next
  case (Changed old cur)
  with assms have k: "obj_key old = Some key" "obj_key obj = Some key" "cur = obj" by (auto simp: about_def)
  with Changed assms update_queued [OF k(1,2) assms(2,5,6)] obj_key_kind [OF k(2)] show ?thesis
    by (auto split: if_splits)
qed (use assms in auto)

subsection \<open>Acting on what was read\<close>

text \<open>The group and the hosts that the annotations and rules of an object ask for, when they are complete.\<close>

definition target :: "string \<Rightarrow> kobj \<Rightarrow> (GroupKey \<times> string list) option" where
  "target ipam obj =
     (case obj of
        KConfigMap cm \<Rightarrow> do {
          (netview, cidr) \<leftarrow> network_of ipam (cmMeta cm);
          host \<leftarrow> annot (cmMeta cm) hostnameAnnotation;
          Some (\<lparr>gkName = '''', gkNetview = netview, gkCidr = cidr\<rparr>, [host])
        }
      | KIngress ing \<Rightarrow> do {
          net \<leftarrow> network_of ipam (ingMeta ing);
          hosts \<leftarrow> ingress_hosts ing;
          Some (group_of ing net, hosts)
        }
      | _ \<Rightarrow> None)"

definition wants :: "string \<Rightarrow> kobj \<Rightarrow> (GroupKey \<times> string list) option" where
  "wants ipam obj = (if asks obj then target ipam obj else None)"

lemma sync_configmaps_skip:
  "filter (is_cm key) cms = [] \<Longrightarrow> sync_configmaps ipam key cms c = (False, c)"
  by (induction cms) (auto simp: is_cm_def split: if_splits)

lemma sync_configmaps_one:
  "filter (is_cm key) cms = [cm] \<Longrightarrow>
     sync_configmaps ipam key cms c =
       (case target ipam (KConfigMap cm) of None \<Rightarrow> (True, c)
        | Some (g, hosts) \<Rightarrow> (False, put_resource g ''ConfigMap'' key hosts c))"
proof (induction cms)
  case (Cons i cms)
  show ?case
  proof (cases "is_cm key i")
    case True
    with Cons.prems have "i = cm" "filter (is_cm key) cms = []" by simp_all
    with True show ?thesis
      by (cases "network_of ipam (cmMeta cm)"; cases "annot (cmMeta cm) hostnameAnnotation")
        (auto simp: Let_def is_cm_def sync_configmaps_skip target_def)
  next
    case False
    with Cons show ?thesis by (auto simp: is_cm_def Let_def)
  qed
qed simp

lemma sync_ingresses_only:
  "filter (is_resource key) ings = [ing] \<Longrightarrow>
     (\<exists>returned. target ipam (KIngress ing) = None \<and> sync_ingresses ipam key ings c = (returned, c)) \<or>
     (\<exists>g hosts. target ipam (KIngress ing) = Some (g, hosts) \<and>
        sync_ingresses ipam key ings c = (False, put_resource g ''Ingress'' key hosts c))"
proof (induction ings)
  case (Cons i ings)
  show ?case
  proof (cases "is_resource key i")
    case True
    with Cons.prems have "i = ing" "filter (is_resource key) ings = []" by simp_all
    with True show ?thesis
      by (cases "network_of ipam (ingMeta ing)"; cases "ingress_hosts ing")
        (auto simp: Let_def is_resource_def sync_ingresses_none target_def group_of_def)
  next
    case False
    then have "sync_ingresses ipam key (i # ings) c = sync_ingresses ipam key ings c"
      by (auto simp: is_resource_def Let_def)
    with Cons False show ?thesis by simp
  qed
qed simp

lemma opt_list_map:
  "map f xs = opt_list obj \<longleftrightarrow> (obj = None \<and> xs = []) \<or> (\<exists>x. obj = Some (f x) \<and> xs = [x])"
  by (cases obj) auto

lemma sync_read:
  assumes "answers c obj key env" and "watched_kind key"
    and "syncResource ipam (env\<lparr>sendTo := out\<rparr>) key c = Some (failed, c')"
  obtains (idle) returned where "\<not> failed" "\<And>o'. obj = Some o' \<Longrightarrow> target ipam o' = None"
      "c' = sync_end (env\<lparr>sendTo := out\<rparr>) (returned, c)"
  | (put) o' g hosts where "\<not> failed" "obj = Some o'" "target ipam o' = Some (g, hosts)"
      "c' = sync_end (env\<lparr>sendTo := out\<rparr>) (False, put_resource g (rkKind key) key hosts c)"
proof (cases "rkKind key = ''ConfigMap''")
  case True
  with assms(1) obtain rsInf cms where a: "getResourceInformer c (rkNamespace key) = Some rsInf"
      "cmByName env rsInf (rkName key) = Some cms" "map KConfigMap (filter (is_cm key) cms) = opt_list obj"
    by (auto simp: answers_def split: option.splits)
  with assms(3) True have r: "\<not> failed" "c' = sync_end (env\<lparr>sendTo := out\<rparr>) (sync_configmaps ipam key cms c)"
    by (simp_all add: syncResource_def)
  from a(3) consider "obj = None" "filter (is_cm key) cms = []"
    | cm where "obj = Some (KConfigMap cm)" "filter (is_cm key) cms = [cm]"
    unfolding opt_list_map by blast
  then show ?thesis
  proof cases
    case 1
    then show ?thesis using r idle [of False] by (simp add: sync_configmaps_skip)
  next
    case (2 cm)
    then show ?thesis
      using r True idle [of True] put [of "KConfigMap cm"] sync_configmaps_one [OF 2(2), of ipam c]
      by (cases "target ipam (KConfigMap cm)") auto
  qed
next
  case False
  with assms(2) have kind: "rkKind key = ''Ingress''" by (simp add: watched_kind_def)
  with assms(1) obtain rsInf ings where a: "getResourceInformer c (rkNamespace key) = Some rsInf"
      "ingByName env rsInf (rkName key) = Some ings" "map KIngress (filter (is_resource key) ings) = opt_list obj"
    by (auto simp: answers_def split: option.splits)
  with assms(3) kind have r: "\<not> failed" "c' = sync_end (env\<lparr>sendTo := out\<rparr>) (sync_ingresses ipam key ings c)"
    by (simp_all add: syncResource_def)
  from a(3) consider "obj = None" "filter (is_resource key) ings = []"
    | ing where "obj = Some (KIngress ing)" "filter (is_resource key) ings = [ing]"
    unfolding opt_list_map by blast
  then show ?thesis
  proof cases
    case 1
    then show ?thesis using r idle [of False] by (simp add: sync_ingresses_none)
  next
    case (2 ing)
    from sync_ingresses_only [OF 2(2), of ipam c] show ?thesis
      using r kind 2(1) idle put [of "KIngress ing"] by auto
  qed
qed

text \<open>Hosts are only added.\<close>

lemma put_resource_lists:
  assumes "groups_wf (ipGroup c)"
  shows "lists_host (ipGroup (put_resource gKey (rkKind key) key hosts c)) g k h \<longleftrightarrow>
    lists_host (ipGroup c) g k h \<or> (g = gKey \<and> k = key \<and> h \<in> set hosts)"
  by (auto simp: lists_host_iff put_resource_effect(1) [OF assms refl] split: option.splits if_splits)

lemma sync_end_groups [simp]: "ipGroup (sync_end env r) = ipGroup (snd r)"
  by (simp add: sync_end_def case_prod_beta)

lemma sync_end_plumbing: "same_plumbing c (snd r) \<Longrightarrow> same_plumbing c (sync_end env r)"
  by (simp add: sync_end_def case_prod_beta same_plumbing_def)

lemma put_resource_plumbing: "same_plumbing c (put_resource g kind key hosts c)"
  by (simp add: put_resource_def same_plumbing_def case_prod_beta)

end
