(* ===== verification/Kube_Complete.thy ===== *)
theory Kube_Complete
  imports Kube_Cache
begin

section \<open>No change is lost\<close>

text \<open>
  When nothing is left to do, the groups of the client, and the last message to the Controller, have
  the hosts of every cached resource that asks for an address. The other direction does not hold: a
  resource that is deleted while the worker synchronises it stays in the groups for good.
\<close>

subsection \<open>Every change is followed\<close>

text \<open>Nothing that an object asks for is forgotten: a handler still has to see a change of it, or its key
  is queued or waits for a retry, or the worker has the key and has not read anything older than
  what is cached, or the hosts are listed.\<close>

definition followed :: "string \<Rightarrow> cluster \<Rightarrow> resourceKey \<Rightarrow> bool" where
  "followed ipam s key \<longleftrightarrow>
     notices s key \<noteq> [] \<or> key \<in> dirty (rsQueue (kube s)) \<or> key \<in> set (rsRetry (kube s)) \<or>
     (rsWorker (kube s) = Holds key \<and>
        (fetched s = None \<or> (\<exists>env. fetched s = Some env \<and> answers (kube s) (cached s key) key env))) \<or>
     (\<forall>obj g hosts h. cached s key = Some obj \<longrightarrow> wants ipam obj = Some (g, hosts) \<longrightarrow> h \<in> set hosts \<longrightarrow>
        lists_host (ipGroup (kube s)) g key h)"

text \<open>The notices on a key lead to what is cached for it.\<close>

definition notices_ok :: "cluster \<Rightarrow> resourceKey \<Rightarrow> bool" where
  "notices_ok s key \<longleftrightarrow>
     (notices s key \<noteq> [] \<longrightarrow> after (last (notices s key)) = cached s key) \<and>
     list_all (\<lambda>n. about key n \<and> getResourceInformer (kube s) (rkNamespace key) \<noteq> None) (notices s key)"

definition cache_inv :: "string \<Rightarrow> cluster \<Rightarrow> bool" where
  "cache_inv ipam s \<longleftrightarrow>
     \<not> shuttingDown (rsQueue (kube s)) \<and> nsInformer (kube s) = None \<and>
     (\<forall>env. fetched s = Some env \<longrightarrow> (\<exists>key obj. rsWorker (kube s) = Holds key \<and> answers (kube s) obj key env)) \<and>
     (\<forall>key. notices_ok s key \<and> followed ipam s key)"

lemma cache_invD:
  assumes "cache_inv ipam s"
  shows "\<not> shuttingDown (rsQueue (kube s))" "nsInformer (kube s) = None"
    "fetched s = Some env \<Longrightarrow> \<exists>key obj. rsWorker (kube s) = Holds key \<and> answers (kube s) obj key env"
    "notices_ok s key" "followed ipam s key"
  using assms by (simp_all add: cache_inv_def)

lemma notices_ok_mono:
  "notices_ok s key \<Longrightarrow> notices s' key = notices s key \<Longrightarrow> cached s' key = cached s key \<Longrightarrow>
     rsInformers (kube s') = rsInformers (kube s) \<Longrightarrow> notices_ok s' key"
  using informers_same [of "kube s'" "kube s"] by (simp add: notices_ok_def)

lemma answers_informers:
  "rsInformers c' = rsInformers c \<Longrightarrow> answers c' obj key env = answers c obj key env"
  using informers_same [of c' c] by (simp add: answers_def)

text \<open>A step that changes only the client keeps a key followed when it keeps the queues, the worker
  and the hosts of the key.\<close>

lemma followed_mono:
  assumes "followed ipam s key" and "notices s' key = notices s key" and "cached s' key = cached s key"
    and "rsInformers (kube s') = rsInformers (kube s)"
    and "key \<in> dirty (rsQueue (kube s)) \<Longrightarrow> key \<in> dirty (rsQueue (kube s'))"
    and "key \<in> set (rsRetry (kube s)) \<Longrightarrow> key \<in> set (rsRetry (kube s')) \<or> key \<in> dirty (rsQueue (kube s'))"
    and "rsWorker (kube s) = Holds key \<Longrightarrow> rsWorker (kube s') = Holds key \<and> fetched s' = fetched s"
    and "\<And>g h. lists_host (ipGroup (kube s)) g key h \<Longrightarrow> lists_host (ipGroup (kube s')) g key h"
  shows "followed ipam s' key"
proof -
  note same = assms(2,3) answers_informers [OF assms(4)]
  from assms(1) consider (notice) "notices s key \<noteq> []" | (queued) "key \<in> dirty (rsQueue (kube s))"
    | (retry) "key \<in> set (rsRetry (kube s))"
    | (held) "rsWorker (kube s) = Holds key"
        "fetched s = None \<or> (\<exists>env. fetched s = Some env \<and> answers (kube s) (cached s key) key env)"
    | (listed) "\<forall>obj g hosts h. cached s key = Some obj \<longrightarrow> wants ipam obj = Some (g, hosts) \<longrightarrow> h \<in> set hosts \<longrightarrow>
        lists_host (ipGroup (kube s)) g key h"
    unfolding followed_def by blast
  then show ?thesis
  proof cases
    case notice
    then show ?thesis by (simp add: followed_def same)
  next
    case queued
    then show ?thesis using assms(5) by (simp add: followed_def)
  next
    case retry
    then show ?thesis using assms(6) by (auto simp: followed_def)
  next
    case held
    then show ?thesis using assms(7) by (simp add: followed_def same)
  next
    case listed
    then have "\<forall>obj g hosts h. cached s' key = Some obj \<longrightarrow> wants ipam obj = Some (g, hosts) \<longrightarrow> h \<in> set hosts \<longrightarrow>
        lists_host (ipGroup (kube s')) g key h"
      using assms(8) unfolding same by blast
    then show ?thesis unfolding followed_def by blast
  qed
qed

lemma dirty_qAdd: "\<not> shuttingDown q \<Longrightarrow> dirty (qAdd x q) = insert x (dirty q)"
  by (simp add: wq.pending_add)

lemma shuttingDown_q [simp]: "shuttingDown (qAdd x q) = shuttingDown q" "shuttingDown (qDone x q) = shuttingDown q"
  by (simp_all add: qAdd_def qDone_def Let_def)

lemma cache_inv_change:
  assumes inv: "cache_inv ipam s" and "about key n"
    and "getResourceInformer (kube s) (rkNamespace key) \<noteq> None"
  shows "cache_inv ipam
    (s\<lparr>cached := (cached s)(key := after n), notices := (notices s)(key := notices s key @ [n])\<rparr>)"
proof -
  let ?s = "s\<lparr>cached := (cached s)(key := after n), notices := (notices s)(key := notices s key @ [n])\<rparr>"
  have "notices_ok ?s k \<and> followed ipam ?s k" for k
  proof (cases "k = key")
    case True
    then show ?thesis using assms(2,3) cache_invD(4) [OF inv, of key] by (simp add: notices_ok_def followed_def)
  next
    case False
    have "followed ipam ?s k" by (rule followed_mono [OF cache_invD(5) [OF inv]]) (use False in auto)
    moreover have "notices_ok ?s k" by (rule notices_ok_mono [OF cache_invD(4) [OF inv]]) (use False in auto)
    ultimately show ?thesis by blast
  qed
  with inv show ?thesis by (simp add: cache_inv_def)
qed

lemma cache_inv_notify:
  assumes inv: "cache_inv ipam s" and out: "output_inv (kube s)" and n: "notices s key = n # ns"
    and run: "kube_handle ipam ord env (event_of n) (kube s) = Some c"
  shows "cache_inv ipam (s\<lparr>kube := c, notices := (notices s)(key := ns)\<rparr>)"
proof -
  let ?s = "s\<lparr>kube := c, notices := (notices s)(key := ns)\<rparr>"
  note open' = cache_invD(1) [OF inv]
  from cache_invD(4) [OF inv, of key] n have a: "about key n"
    and watched: "getResourceInformer (kube s) (rkNamespace key) \<noteq> None"
    and last: "after (last (n # ns)) = cached s key"
    by (simp_all add: notices_ok_def)
  note p = handled_plumbing [OF notice_handled [OF a out run]]
  have dirty: "k \<in> dirty (rsQueue c)" if "k \<in> dirty (rsQueue (kube s))" for k
    using p(8) that dirty_qAdd [OF open'] by auto
  have "notices_ok ?s k \<and> followed ipam ?s k" for k
  proof (cases "k = key")
    case False
    have "followed ipam ?s k"
      by (rule followed_mono [OF cache_invD(5) [OF inv]]) (use False p dirty shrinks_other [OF p(9) False] in auto)
    moreover have "notices_ok ?s k" by (rule notices_ok_mono [OF cache_invD(4) [OF inv]]) (use False p in auto)
    ultimately show ?thesis by blast
  next
    case True
    have "notices_ok ?s key"
      using cache_invD(4) [OF inv, of key] n informers_same [OF p(1)]
      by (auto simp: notices_ok_def list_all_iff split: if_splits)
    moreover have "followed ipam ?s key"
    proof (cases "\<exists>obj. ns = [] \<and> cached s key = Some obj \<and> asks obj")
      case yes: True
      then obtain obj where "after n = Some obj" "asks obj" using last by auto
      from notice_queued [OF a out run this watched] have "key \<in> dirty (rsQueue c)"
        by (simp add: dirty_qAdd [OF open'])
      then show ?thesis by (simp add: followed_def)
    next
      case False
      then show ?thesis by (cases ns) (auto simp: followed_def wants_def)
    qed
    ultimately show ?thesis by (simp add: True)
  qed
  moreover have "\<not> shuttingDown (rsQueue c)" using p(8) open' by auto
  ultimately show ?thesis
    using cache_invD(2,3) [OF inv] by (auto simp: cache_inv_def p answers_informers [OF p(1)])
qed

lemma cache_inv_fetch:
  assumes inv: "cache_inv ipam s" and "rsWorker (kube s) = Holds key"
    and "answers (kube s) (cached s key) key env"
  shows "cache_inv ipam (s\<lparr>fetched := Some env\<rparr>)"
proof -
  have "followed ipam (s\<lparr>fetched := Some env\<rparr>) k" for k
  proof (cases "k = key")
    case True
    with assms(2,3) show ?thesis by (simp add: followed_def)
  next
    case False
    show ?thesis by (rule followed_mono [OF cache_invD(5) [OF inv]]) (use False assms(2) in auto)
  qed
  moreover have "notices_ok (s\<lparr>fetched := Some env\<rparr>) k" for k
    by (rule notices_ok_mono [OF cache_invD(4) [OF inv]]) simp_all
  ultimately show ?thesis using cache_invD(1,2) [OF inv] assms(2,3) by (auto simp: cache_inv_def)
qed

lemma workResource_cases:
  assumes "workResource ipam env key c = Some c'"
  obtains failed c1 where "syncResource ipam env key c = Some (failed, c1)"
    "c' = (if failed then c1\<lparr>rsRetry := rsRetry c1 @ [key]\<rparr> else c1)\<lparr>rsQueue := qDone key (rsQueue c1), rsWorker := Idle\<rparr>"
  using assms by (auto simp: workResource_def bind_Some Let_def split: if_splits)

lemma work_read:
  assumes "answers c obj key env" and "kube_inv c" and "rsWorker c = Holds key"
    and "workResource ipam (env\<lparr>sendTo := out\<rparr>) key c = Some c'"
  shows "same_plumbing (c\<lparr>rsQueue := qDone key (rsQueue c), rsWorker := Idle\<rparr>) c'"
    "lists_host (ipGroup c) g k h \<Longrightarrow> lists_host (ipGroup c') g k h"
    "obj = Some o' \<Longrightarrow> target ipam o' = Some (g', hosts) \<Longrightarrow> h' \<in> set hosts \<Longrightarrow> lists_host (ipGroup c') g' key h'"
proof -
  have wf: "groups_wf (ipGroup c)" and kind: "watched_kind key"
    using assms(2,3) by (auto simp: kube_inv_def output_inv_def queues_inv_def)
  from assms(4) obtain failed c1 where s: "syncResource ipam (env\<lparr>sendTo := out\<rparr>) key c = Some (failed, c1)"
    and c': "c' = (if failed then c1\<lparr>rsRetry := rsRetry c1 @ [key]\<rparr> else c1)\<lparr>rsQueue := qDone key (rsQueue c1), rsWorker := Idle\<rparr>"
    by (rule workResource_cases)
  from assms(1) kind s have "same_plumbing (c\<lparr>rsQueue := qDone key (rsQueue c), rsWorker := Idle\<rparr>) c' \<and>
      (lists_host (ipGroup c) g k h \<longrightarrow> lists_host (ipGroup c') g k h) \<and>
      (obj = Some o' \<longrightarrow> target ipam o' = Some (g', hosts) \<longrightarrow> h' \<in> set hosts \<longrightarrow> lists_host (ipGroup c') g' key h')"
  proof (cases rule: sync_read)
    case (idle returned)
    have "same_plumbing c c1" unfolding idle(3) by (rule sync_end_plumbing) simp
    with c' idle show ?thesis by (auto simp: same_plumbing_def)
  next
    case (put o' g hosts)
    have "same_plumbing c c1" unfolding put(4) by (rule sync_end_plumbing) (simp add: put_resource_plumbing)
    with c' put show ?thesis by (auto simp: same_plumbing_def put_resource_lists [OF wf])
  qed
  then show "same_plumbing (c\<lparr>rsQueue := qDone key (rsQueue c), rsWorker := Idle\<rparr>) c'"
    "lists_host (ipGroup c) g k h \<Longrightarrow> lists_host (ipGroup c') g k h"
    "obj = Some o' \<Longrightarrow> target ipam o' = Some (g', hosts) \<Longrightarrow> h' \<in> set hosts \<Longrightarrow> lists_host (ipGroup c') g' key h'"
    by blast+
qed

lemma cache_inv_apply:
  assumes inv: "cache_inv ipam s" and kinv: "kube_inv (kube s)" and k: "rsWorker (kube s) = Holds key"
    and f: "fetched s = Some env"
    and run: "workResource ipam (env\<lparr>sendTo := out\<rparr>) key (kube s) = Some c"
  shows "cache_inv ipam (s\<lparr>kube := c, fetched := None\<rparr>)"
proof -
  let ?s = "s\<lparr>kube := c, fetched := None\<rparr>"
  from cache_invD(3) [OF inv f] k obtain obj where read: "answers (kube s) obj key env" by auto
  note w = work_read [OF read kinv k run]
  have same: "rsInformers c = rsInformers (kube s)" "rsRetry c = rsRetry (kube s)" "rsQueue c = qDone key (rsQueue (kube s))"
    "nsInformer c = nsInformer (kube s)" "rsWorker c = Idle"
    using w(1) by (simp_all add: same_plumbing_def)
  have "followed ipam ?s k'" for k'
  proof (cases "k' = key \<and> answers (kube s) (cached s key) key env")
    case True
    then have "\<forall>obj g hosts h. cached s key = Some obj \<longrightarrow> wants ipam obj = Some (g, hosts) \<longrightarrow> h \<in> set hosts \<longrightarrow>
        lists_host (ipGroup c) g key h"
      using work_read(3) [OF conjunct2 [OF True] kinv k run] by (simp add: wants_def)
    with True show ?thesis by (simp add: followed_def)
  next
    case False
    have "followed ipam s k'" by (rule cache_invD(5) [OF inv])
    then have "followed ipam (s\<lparr>kube := (kube s)\<lparr>rsWorker := Idle\<rparr>, fetched := None\<rparr>) k'"
      using False k f by (auto simp: followed_def)
    then show ?thesis by (rule followed_mono) (use same w(2) in \<open>auto simp: wq.pending_finish\<close>)
  qed
  moreover have "notices_ok ?s k'" for k'
    by (rule notices_ok_mono [OF cache_invD(4) [OF inv]]) (simp_all add: same)
  ultimately show ?thesis using cache_invD(1,2) [OF inv] by (simp add: cache_inv_def same)
qed

text \<open>The client's own steps leave the groups alone.\<close>

lemma startupTimer_plumbing:
  "rsInformers (startupTimer out c) = rsInformers c" "nsInformer (startupTimer out c) = nsInformer c"
  "ipGroup (startupTimer out c) = ipGroup c" "nsQueue (startupTimer out c) = nsQueue c"
  "channel (startupTimer out c) = channel c" "rsQueue (startupTimer out c) = rsQueue c"
  "rsRetry (startupTimer out c) = rsRetry c" "rsWorker (startupTimer out c) = rsWorker c"
  by (simp_all add: startupTimer_def Let_def)

lemma own_steps:
  assumes "own_event ev" and "kube_handle ipam ord env ev c = Some c'" and "enabled ev c"
    and "\<not> shuttingDown (rsQueue c)"
  shows "rsInformers c' = rsInformers c" "nsInformer c' = nsInformer c" "ipGroup c' = ipGroup c" "nsQueue c' = nsQueue c"
    "channel c' = channel c" "\<not> shuttingDown (rsQueue c')"
    "key \<in> dirty (rsQueue c) \<union> set (rsRetry c) \<Longrightarrow>
       key \<in> dirty (rsQueue c') \<union> set (rsRetry c') \<or> (rsWorker c' = Holds key \<and> held (rsWorker c) = {})"
    "rsWorker c = Holds key \<Longrightarrow> rsWorker c' = Holds key"
proof -
  from assms(1) consider "ev = Timer" | "ev = EnterRs" | "ev = GetRs" | "ev = RetryRs" by (auto simp: own_event_def)
  then have "rsInformers c' = rsInformers c \<and> nsInformer c' = nsInformer c \<and> ipGroup c' = ipGroup c \<and> nsQueue c' = nsQueue c \<and>
    channel c' = channel c \<and> \<not> shuttingDown (rsQueue c') \<and>
    (key \<in> dirty (rsQueue c) \<union> set (rsRetry c) \<longrightarrow>
       key \<in> dirty (rsQueue c') \<union> set (rsRetry c') \<or> (rsWorker c' = Holds key \<and> held (rsWorker c) = {})) \<and>
    (rsWorker c = Holds key \<longrightarrow> rsWorker c' = Holds key)"
  proof cases
    case 1
    then show ?thesis using assms(2,4) by (auto simp: startupTimer_plumbing)
  next
    case 2
    then show ?thesis using assms(2-4) by (cases "initialState c") (auto simp: enterResource_def)
  next
    case 3
    then obtain r q where g: "qGet (rsQueue c) = Some (r, q)"
        and c': "c' = c\<lparr>rsQueue := q, rsWorker := (case r of Some k \<Rightarrow> Holds k | None \<Rightarrow> Idle)\<rparr>"
      using assms(2) by (auto simp: getResource_def split: option.splits)
    from g show ?thesis
      by (cases rule: qGet_cases) (use 3 assms(3,4) c' in auto)
  next
    case 4
    then obtain key' rest where "rsRetry c = key' # rest" using assms(3) by (auto simp: neq_Nil_conv)
    then show ?thesis using 4 assms(2,4) by (auto simp: dirty_qAdd)
  qed
  then show "rsInformers c' = rsInformers c" "nsInformer c' = nsInformer c" "ipGroup c' = ipGroup c" "nsQueue c' = nsQueue c"
    "channel c' = channel c" "\<not> shuttingDown (rsQueue c')"
    "key \<in> dirty (rsQueue c) \<union> set (rsRetry c) \<Longrightarrow>
       key \<in> dirty (rsQueue c') \<union> set (rsRetry c') \<or> (rsWorker c' = Holds key \<and> held (rsWorker c) = {})"
    "rsWorker c = Holds key \<Longrightarrow> rsWorker c' = Holds key"
    by blast+
qed

lemma cache_inv_own:
  assumes inv: "cache_inv ipam s" and ev: "own_event ev" "enabled ev (kube s)"
    and run: "kube_handle ipam ord env ev (kube s) = Some c"
  shows "cache_inv ipam (s\<lparr>kube := c\<rparr>)"
proof -
  note o = own_steps [OF ev(1) run ev(2) cache_invD(1) [OF inv]]
  have f: "fetched s = None" if "held (rsWorker (kube s)) = {}"
    using cache_invD(3) [OF inv] that by (cases "fetched s") auto
  have "followed ipam (s\<lparr>kube := c\<rparr>) key" for key
  proof (cases "key \<in> dirty (rsQueue (kube s)) \<union> set (rsRetry (kube s))")
    case True
    with o(7) f show ?thesis by (auto simp: followed_def)
  next
    case False
    show ?thesis
      by (rule followed_mono [OF cache_invD(5) [OF inv]]) (use False o(1,3) o(8) [of key] in auto)
  qed
  moreover have "notices_ok (s\<lparr>kube := c\<rparr>) key" for key
    by (rule notices_ok_mono [OF cache_invD(4) [OF inv]]) (simp_all add: o)
  moreover have "\<exists>key obj. rsWorker c = Holds key \<and> answers c obj key env" if "fetched s = Some env" for env
    using cache_invD(3) [OF inv that] o(8) answers_informers [OF o(1)] by metis
  ultimately show ?thesis using cache_invD(2) [OF inv] o(2,6) by (simp add: cache_inv_def)
qed

lemma new_client_without_label:
  assumes "NamespaceLabel params = ''''"
  shows "nsInformer (Run_client (NewKubernetesClient parse params)) = None"
    "rsQueue (Run_client (NewKubernetesClient parse params)) = newQueue"
    "nsQueue (Run_client (NewKubernetesClient parse params)) = newQueue"
    "ipGroup (Run_client (NewKubernetesClient parse params)) = fmempty"
    "rsWorker (Run_client (NewKubernetesClient parse params)) = Idle"
    "channel (Run_client (NewKubernetesClient parse params)) = Channel params"
    "initialState (Run_client (NewKubernetesClient parse params)) = False"
proof -
  let ?same = "\<lambda>c c'. nsInformer c' = nsInformer c \<and> rsQueue c' = rsQueue c \<and> nsQueue c' = nsQueue c \<and>
    ipGroup c' = ipGroup c \<and> rsWorker c' = rsWorker c \<and> channel c' = channel c \<and> initialState c' = initialState c"
  have one: "?same c (snd (addNamespace ns c))" for ns c
    by (simp add: addNamespace_def Let_def split: option.split)
  have all: "?same c (addNamespaces nss c)" for nss c
    by (induction nss arbitrary: c) (simp_all add: one)
  show "nsInformer (Run_client (NewKubernetesClient parse params)) = None"
    "rsQueue (Run_client (NewKubernetesClient parse params)) = newQueue"
    "nsQueue (Run_client (NewKubernetesClient parse params)) = newQueue"
    "ipGroup (Run_client (NewKubernetesClient parse params)) = fmempty"
    "rsWorker (Run_client (NewKubernetesClient parse params)) = Idle"
    "channel (Run_client (NewKubernetesClient parse params)) = Channel params"
    "initialState (Run_client (NewKubernetesClient parse params)) = False"
    using one all assms by (simp_all add: Run_client_def NewKubernetesClient_def Let_def)
qed

lemma cache_run_followed: "cache_run ipam outs s \<Longrightarrow> cache_inv ipam s"
proof (induction rule: cache_run.induct)
  case (start params parse)
  then show ?case
    by (simp add: cache_inv_def notices_ok_def followed_def new_client_without_label newQueue_def)
next
  case (step s s')
  have kinv: "kube_inv (kube s)" by (rule cache_run_inv [OF step.hyps(1)])
  then have out: "output_inv (kube s)" by (simp add: kube_inv_def)
  from step.hyps(2) show ?case
  proof cases
    case (change n key)
    show ?thesis unfolding change(1) by (rule cache_inv_change [OF step.IH change(3,4)])
  next
    case (notify key n ns ord env c)
    show ?thesis unfolding notify(1) by (rule cache_inv_notify [OF step.IH out notify(2,5)])
  next
    case (fetch key env)
    show ?thesis unfolding fetch(1) by (rule cache_inv_fetch [OF step.IH fetch(2,4)])
  next
    case (apply_read key env ord out c)
    have "workResource ipam (env\<lparr>sendTo := out\<rparr>) key (kube s) = Some c" using apply_read(2,6) by simp
    from cache_inv_apply [OF step.IH kinv apply_read(2,3) this] show ?thesis unfolding apply_read(1) .
  next
    case (own ev ord env c)
    show ?thesis unfolding own(1) by (rule cache_inv_own [OF step.IH own(2,3,6)])
  qed
qed

text \<open>Nothing is left to do: every notice is handled, no key is queued or waits for a retry, and the
  worker waits for one.\<close>

definition quiet :: "cluster \<Rightarrow> bool" where
  "quiet s \<longleftrightarrow> (\<forall>key. notices s key = []) \<and> items (rsQueue (kube s)) = [] \<and> rsRetry (kube s) = [] \<and>
     rsWorker (kube s) = Waiting"

lemma quiet_lists:
  assumes "cache_run ipam outs s" and "quiet s" and "cached s key = Some obj"
    and "wants ipam obj = Some (g, hosts)" and "h \<in> set hosts"
  shows "lists_host (ipGroup (kube s)) g key h"
proof -
  have "kube_inv (kube s)" by (rule cache_run_inv [OF assms(1)])
  then have "set (items (rsQueue (kube s))) = dirty (rsQueue (kube s)) - held (rsWorker (kube s))"
    by (simp add: kube_inv_def queues_inv_def queue_ok_def)
  with assms(2) have "dirty (rsQueue (kube s)) = {}" by (simp add: quiet_def)
  with assms(2) cache_invD(5) [OF cache_run_followed [OF assms(1)], of key]
  show ?thesis using assms(3-5) by (auto simp: followed_def quiet_def)
qed

text \<open>C9. No change is lost. In every run of a client that was started without a namespace label, and
  so watches all namespaces or a given list of them, whatever the order in which the API server's
  changes, the handlers and the two parts of the worker follow each other, and whatever becomes of
  the messages: once nothing is left to do, the groups list every host of every cached ConfigMap or
  Ingress that asks for addresses and has its annotations, in the group that the annotations name.\<close>

theorem no_change_lost:
  assumes "cache_run ipam outs s" and "quiet s" and "cached s key = Some obj"
    and "wants ipam obj = Some (g, hosts)" and "h \<in> set hosts"
  shows "\<exists>hs. hosts_of (ipGroup (kube s)) g key = Some hs \<and> h \<in> set hs"
  using quiet_lists [OF assms] by (simp add: lists_host_iff)

subsection \<open>Every change reaches the Controller\<close>

text \<open>When every message is taken, then from the first one on the last message lists what the groups
  list; and until the first one somebody will still send it.\<close>

definition conveyed :: "K8sClient \<Rightarrow> bool" where
  "conveyed c \<longleftrightarrow>
     (initialState c \<longrightarrow> sent c \<noteq> [] \<and> (\<forall>g k h. lists_host (ipGroup c) g k h \<longrightarrow> lists_host (last (sent c)) g k h))"

definition starting :: "K8sClient \<Rightarrow> bool" where
  "starting c \<longleftrightarrow> initialState c \<or> rsWorker c \<noteq> Waiting \<or> 0 < timers c \<or> items (rsQueue c) \<noteq> []"

lemma conveyed_write: "channel c \<Longrightarrow> conveyed (writeIPGroups Acked c)"
  by (simp add: conveyed_def writeIPGroups_def)

lemma initialState_write: "initialState c \<Longrightarrow> initialState (writeIPGroups out c)"
  by (simp add: writeIPGroups_def split: send.split)

lemma conveyed_shrinks:
  "conveyed c \<Longrightarrow> shrinks key (ipGroup c) (ipGroup c') \<Longrightarrow> sent c' = sent c \<Longrightarrow> initialState c' = initialState c \<Longrightarrow>
     conveyed c'"
  unfolding conveyed_def shrinks_def by metis

text \<open>What a step of a handler keeps: the messages are up to date, and the first one stays sent.\<close>

definition keeps_up :: "K8sClient \<Rightarrow> K8sClient \<Rightarrow> bool" where
  "keeps_up c c' \<longleftrightarrow> (conveyed c \<longrightarrow> conveyed c') \<and> (initialState c \<longrightarrow> initialState c')"

lemma keeps_up_refl [simp]: "keeps_up c c"
  by (simp add: keeps_up_def)

lemma keeps_up_write: "channel c1 \<Longrightarrow> initialState c1 = initialState c \<Longrightarrow> keeps_up c (writeIPGroups Acked c1)"
  by (simp add: keeps_up_def conveyed_write initialState_write)

lemma keeps_up_shrinks:
  "shrinks key (ipGroup c) (ipGroup c') \<Longrightarrow> sent c' = sent c \<Longrightarrow> initialState c' = initialState c \<Longrightarrow> keeps_up c c'"
  using conveyed_shrinks by (simp add: keeps_up_def)

lemma keeps_up_queue [simp]:
  "keeps_up c (enqueueResource key c1) \<longleftrightarrow> keeps_up c c1"
  "keeps_up c (c1\<lparr>rsQueue := q, rsWorker := w\<rparr>) \<longleftrightarrow> keeps_up c c1"
  by (simp_all add: keeps_up_def conveyed_def enqueueResource_def)

lemma keeps_up_forget:
  assumes "channel c"
  shows "keeps_up c (forget_resource ord Acked key c)"
proof -
  have "channel (drop_spec ord spec c) = channel c" "initialState (drop_spec ord spec c) = initialState c" for spec
    by (simp_all add: drop_spec_def)
  then show ?thesis using assms keeps_up_write by (simp add: forget_resource_def case_prod_beta)
qed

lemma initialState_updated:
  "initialState (updated_configmap ord cm key c) = initialState c"
  "initialState (updated_ingress ord ing key c) = initialState c"
  by (simp_all add: updated_configmap_def updated_ingress_def drop_spec_def case_prod_beta Let_def)

lemma notice_keeps_up:
  assumes "about key n" and "output_inv c" and "channel c" and "sendTo env = Acked"
    and run: "kube_handle ipam ord env (event_of n) c = Some c'"
  shows "keeps_up c c'"
proof -
  have wf: "groups_wf (ipGroup c)" using assms(2) by (simp add: output_inv_def)
  note forget = keeps_up_forget [OF assms(3)]
  have upd: "keeps_up c (updated_configmap ord cm key' c)" "keeps_up c (updated_ingress ord ing key' c)" for cm ing key'
    using keeps_up_shrinks [OF updated_configmap_shrinks] keeps_up_shrinks [OF updated_ingress_shrinks [OF wf]]
    by (simp_all add: initialState_updated)
  show ?thesis
  proof (cases n)
    case (Added obj)
    then show ?thesis using run
      by (auto simp: addConfigMap_def addIngress_def bind_Some split: if_splits option.splits)
  next
    case (Deleted obj)
    then show ?thesis using run forget assms(4)
      by (auto simp: deleteConfigMap_def deleteIngress_def bind_Some split: if_splits option.splits)
  next
    case (Changed old cur)
    have "keeps_up c c'" if "updateConfigMap ord Acked old cur c = Some c'"
      using that by (cases rule: updateConfigMap_cases) (simp_all add: upd forget)
    moreover have "keeps_up c c'" if "updateIngress ord Acked old cur c = Some c'"
      using that by (cases rule: updateIngress_cases) (simp_all add: upd forget)
    ultimately show ?thesis using Changed run assms(4) by (auto split: if_splits)
  qed
qed

lemma sync_end_keeps_up:
  assumes "channel (snd r)" and "initialState (snd r) = initialState c" and "sent (snd r) = sent c"
    and "sendTo env = Acked" and "fst r \<or> \<not> updated (snd r) \<longrightarrow> ipGroup (snd r) = ipGroup c"
  shows "keeps_up c (sync_end env r)"
proof (cases "fst r \<or> \<not> updated (snd r)")
  case True
  with assms have "keeps_up c (snd r)" by (intro keeps_up_shrinks) simp_all
  with True show ?thesis by (auto simp: sync_end_def case_prod_beta)
next
  case False
  with assms keeps_up_write show ?thesis by (simp add: sync_end_def case_prod_beta)
qed

lemma work_keeps_up:
  assumes "answers c obj key env" and "kube_inv c" and "rsWorker c = Holds key" and "channel c"
    and "workResource ipam (env\<lparr>sendTo := Acked\<rparr>) key c = Some c'"
  shows "keeps_up c c'"
proof -
  have wf: "groups_wf (ipGroup c)" and kind: "watched_kind key"
    using assms(2,3) by (auto simp: kube_inv_def output_inv_def queues_inv_def)
  from assms(5) obtain failed c1 where s: "syncResource ipam (env\<lparr>sendTo := Acked\<rparr>) key c = Some (failed, c1)"
    and c': "c' = (if failed then c1\<lparr>rsRetry := rsRetry c1 @ [key]\<rparr> else c1)\<lparr>rsQueue := qDone key (rsQueue c1), rsWorker := Idle\<rparr>"
    by (rule workResource_cases)
  from assms(1) kind s show ?thesis
  proof (cases rule: sync_read)
    case (idle returned)
    have "keeps_up c c1" unfolding idle(3) by (rule sync_end_keeps_up) (simp_all add: assms(4))
    with c' idle(1) show ?thesis by simp
  next
    case (put o' g hosts)
    let ?p = "put_resource g (rkKind key) key hosts c"
    have "ipGroup ?p = ipGroup c" if "\<not> updated ?p"
      using that put_resource_effect(2) [OF wf refl, where key = key and gKey = g and hosts = hosts] by blast
    moreover have "channel ?p = channel c" "initialState ?p = initialState c"
      by (simp_all add: put_resource_def case_prod_beta)
    ultimately have "keeps_up c c1" unfolding put(4) by (intro sync_end_keeps_up) (simp_all add: assms(4))
    with c' put(1) show ?thesis by simp
  qed
qed

definition output_ready :: "cluster \<Rightarrow> bool" where
  "output_ready s \<longleftrightarrow>
     channel (kube s) \<and> items (nsQueue (kube s)) = [] \<and> conveyed (kube s) \<and> starting (kube s)"

lemma items_qAdd: "items q \<noteq> [] \<Longrightarrow> items (qAdd x q) \<noteq> []"
  by (simp add: qAdd_def Let_def)

lemma starting_handled:
  assumes "starting c" and "handled key c c'" and "keeps_up c c'"
  shows "starting c'"
  using assms handled_plumbing [OF assms(2)] items_qAdd [of "rsQueue c" key]
  by (auto simp: starting_def keeps_up_def)

lemma output_ready_own:
  assumes "output_ready s" and "own_event ev" and "enabled ev (kube s)" and "sendTo env = Acked"
    and run: "kube_handle ipam ord env ev (kube s) = Some c"
  shows "output_ready (s\<lparr>kube := c\<rparr>)"
proof -
  from assms(2) consider "ev = Timer" | "ev = EnterRs" | "ev = GetRs" | "ev = RetryRs" by (auto simp: own_event_def)
  then show ?thesis
  proof cases
    case 1
    let ?c = "(kube s)\<lparr>timers := timers (kube s) - 1\<rparr>"
    have c: "c = (if items (rsQueue (kube s)) = [] then writeIPGroups Acked ?c else ?c)"
      using run assms(1,4) by (auto simp: 1 startupTimer_def Let_def qLen_def output_ready_def)
    show ?thesis
    proof (cases "items (rsQueue (kube s)) = []")
      case True
      then have "initialState c" using assms(1) by (simp add: c writeIPGroups_def qLen_def output_ready_def)
      with True assms(1) conveyed_write [of ?c] show ?thesis by (simp add: output_ready_def starting_def c)
    next
      case False
      with assms(1) show ?thesis by (simp add: output_ready_def starting_def conveyed_def c)
    qed
  next
    case 2
    then show ?thesis using run assms(1)
      by (cases "initialState (kube s)") (auto simp: output_ready_def starting_def conveyed_def enterResource_def)
  next
    case 3
    then obtain r q where "c = (kube s)\<lparr>rsQueue := q, rsWorker := (case r of Some k \<Rightarrow> Holds k | None \<Rightarrow> Idle)\<rparr>"
      using run by (auto simp: getResource_def split: option.splits)
    then show ?thesis using assms(1)
      by (auto simp: output_ready_def starting_def conveyed_def split: option.splits)
  next
    case 4
    then obtain key rest where "rsRetry (kube s) = key # rest" using assms(3) by (auto simp: neq_Nil_conv)
    then have "c = (kube s)\<lparr>rsRetry := rest, rsQueue := qAdd key (rsQueue (kube s))\<rparr>" using 4 run by simp
    then show ?thesis using assms(1) items_qAdd [of "rsQueue (kube s)" key]
      by (auto simp: output_ready_def starting_def conveyed_def)
  qed
qed

lemma cache_run_output: "cache_run ipam {Acked} s \<Longrightarrow> output_ready s"
proof (induction rule: cache_run.induct)
  case (start params parse)
  then show ?case
    by (simp add: output_ready_def conveyed_def starting_def new_client_without_label newQueue_def)
next
  case (step s s')
  have kinv: "kube_inv (kube s)" and inv: "cache_inv ipam s"
    using cache_run_inv cache_run_followed step.hyps(1) by blast+
  then have out: "output_inv (kube s)" by (simp add: kube_inv_def)
  have ch: "channel (kube s)" and conv: "conveyed (kube s)" and st: "starting (kube s)" and ns: "items (nsQueue (kube s)) = []"
    using step.IH by (simp_all add: output_ready_def)
  from step.hyps(2) show ?case
  proof cases
    case (notify key n ns' ord env c)
    have a: "about key n" using cache_invD(4) [OF inv, of key] notify(2) by (simp add: notices_ok_def)
    note h = notice_handled [OF a out notify(5)]
    have k: "keeps_up (kube s) c" by (rule notice_keeps_up [OF a out ch _ notify(5)]) (use notify(4) in simp)
    from k conv starting_handled [OF st h k] handled_plumbing [OF h] ch ns show ?thesis
      by (simp add: notify(1) output_ready_def keeps_up_def)
  next
    case (apply_read key env ord out c)
    have run: "workResource ipam (env\<lparr>sendTo := Acked\<rparr>) key (kube s) = Some c" using apply_read(2,5,6) by simp
    from cache_invD(3) [OF inv apply_read(3)] apply_read(2) obtain obj where read: "answers (kube s) obj key env" by auto
    from work_read(1) [OF read kinv apply_read(2) run] work_keeps_up [OF read kinv apply_read(2) ch run] conv ch ns
    show ?thesis by (simp add: apply_read(1) output_ready_def keeps_up_def starting_def same_plumbing_def)
  next
    case (own ev ord env c)
    from output_ready_own [OF step.IH own(2,3) _ own(6)] own(5) show ?thesis by (simp add: own(1))
  qed (use step.IH in \<open>simp_all add: output_ready_def\<close>)
qed

text \<open>C2. Every change reaches the Controller: in every run of a client that was started with a channel
  and without a namespace label, and so watches all namespaces or a given list of them, if the
  Controller takes the messages in time: once nothing is left to do and no start-up goroutine
  sleeps, a message has been sent, and the last one lists every host of every cached ConfigMap or
  Ingress that asks for addresses and has its annotations, in the group that the annotations name.\<close>

theorem changes_reach_controller:
  assumes "cache_run ipam {Acked} s" and "quiet s" and "timers (kube s) = 0"
  shows "sent (kube s) \<noteq> [] \<and>
    (\<forall>key obj g hosts h. cached s key = Some obj \<longrightarrow> wants ipam obj = Some (g, hosts) \<longrightarrow> h \<in> set hosts \<longrightarrow>
       (\<exists>hs. hosts_of (last (sent (kube s))) g key = Some hs \<and> h \<in> set hs))"
proof -
  have "output_ready s" by (rule cache_run_output [OF assms(1)])
  with assms(2,3) have "conveyed (kube s)" "initialState (kube s)"
    by (simp_all add: output_ready_def starting_def quiet_def)
  then show ?thesis
    using quiet_lists [OF assms(1,2)] unfolding conveyed_def lists_host_iff [symmetric] by blast
qed

subsection \<open>Playing a run\<close>

text \<open>The steps as commands: a change reported by the API server, the handler of the next notice on a key,
  the worker's read and the rest of its turn, and a step of the client's own goroutines; every range
  is ascending, and every message is taken.\<close>

datatype move = Api resourceKey notice | See resourceKey | Read kenv | Act | Own kevent

fun moved_key :: "move \<Rightarrow> resourceKey option" where
  "moved_key (Api key n) = Some key"
| "moved_key (See key) = Some key"
| "moved_key _ = None"

fun play_move :: "string \<Rightarrow> move \<Rightarrow> cluster \<Rightarrow> cluster option" where
  "play_move ipam (Api key n) s =
     (if fits (cached s key) n \<and> about key n \<and> getResourceInformer (kube s) (rkNamespace key) \<noteq> None
      then Some (s\<lparr>cached := (cached s)(key := after n), notices := (notices s)(key := notices s key @ [n])\<rparr>)
      else None)"
| "play_move ipam (See key) s =
     (case notices s key of
        [] \<Rightarrow> None
      | n # ns \<Rightarrow> do {
          c \<leftarrow> kube_handle ipam ascending (demo_env Acked []) (event_of n) (kube s);
          Some (s\<lparr>kube := c, notices := (notices s)(key := ns)\<rparr>)
        })"
| "play_move ipam (Read env) s =
     (case rsWorker (kube s) of
        Holds key \<Rightarrow>
          (if fetched s = None \<and> answers (kube s) (cached s key) key env then Some (s\<lparr>fetched := Some env\<rparr>) else None)
      | _ \<Rightarrow> None)"
| "play_move ipam Act s =
     (case rsWorker (kube s) of
        Holds key \<Rightarrow> do {
          env \<leftarrow> fetched s;
          c \<leftarrow> kube_handle ipam ascending (env\<lparr>sendTo := Acked\<rparr>) WorkRs (kube s);
          Some (s\<lparr>kube := c, fetched := None\<rparr>)
        }
      | _ \<Rightarrow> None)"
| "play_move ipam (Own ev) s =
     (if own_event ev \<and> enabled ev (kube s) then do {
        c \<leftarrow> kube_handle ipam ascending (demo_env Acked []) ev (kube s);
        Some (s\<lparr>kube := c\<rparr>)
      } else None)"

fun play_moves :: "string \<Rightarrow> move list \<Rightarrow> cluster \<Rightarrow> cluster option" where
  "play_moves ipam [] s = Some s"
| "play_moves ipam (m # ms) s = play_move ipam m s \<bind> play_moves ipam ms"

lemma demo_env_sendTo [simp]: "sendTo (demo_env out ings) = out"
  by (simp add: demo_env_def)

lemma play_move_step: "play_move ipam m s = Some s' \<Longrightarrow> cache_step ipam {Acked} s s'"
proof (cases m)
  case (Api key n)
  assume "play_move ipam m s = Some s'"
  with Api show ?thesis by (auto split: if_splits intro: cache_step.change)
next
  case (See key)
  assume "play_move ipam m s = Some s'"
  with See show ?thesis
    by (auto simp: bind_Some split: list.splits intro: cache_step.notify [OF _ fair_ascending, where env = "demo_env Acked []"])
next
  case (Read env)
  assume "play_move ipam m s = Some s'"
  with Read show ?thesis by (auto split: worker.splits if_splits intro: cache_step.fetch)
next
  case Act
  assume "play_move ipam m s = Some s'"
  with Act obtain key env c where "rsWorker (kube s) = Holds key" "fetched s = Some env"
      "kube_handle ipam ascending (env\<lparr>sendTo := Acked\<rparr>) WorkRs (kube s) = Some c" "s' = s\<lparr>kube := c, fetched := None\<rparr>"
    by (auto simp: bind_Some simp del: kube_handle.simps split: worker.splits)
  with cache_step.apply_read [OF this(1,2) fair_ascending _ this(3)] show ?thesis by simp
next
  case (Own ev)
  assume "play_move ipam m s = Some s'"
  with Own obtain c where "own_event ev" "enabled ev (kube s)"
      "kube_handle ipam ascending (demo_env Acked []) ev (kube s) = Some c" "s' = s\<lparr>kube := c\<rparr>"
    by (auto simp: bind_Some simp del: kube_handle.simps split: if_splits)
  with cache_step.own [OF this(1,2) fair_ascending _ this(3)] show ?thesis by simp
qed

lemma play_moves_run: "cache_run ipam {Acked} s \<Longrightarrow> play_moves ipam ms s = Some s' \<Longrightarrow> cache_run ipam {Acked} s'"
  by (induction ms arbitrary: s) (auto simp: bind_Some dest: cache_run.step [OF _ play_move_step])

lemma play_move_others:
  "play_move ipam m s = Some s' \<Longrightarrow> moved_key m \<noteq> Some key \<Longrightarrow> notices s' key = notices s key \<and> cached s' key = cached s key"
  by (cases m) (auto simp: bind_Some simp del: kube_handle.simps split: if_splits list.splits worker.splits)

lemma play_moves_others:
  "play_moves ipam ms s = Some s' \<Longrightarrow> list_all (\<lambda>m. moved_key m \<noteq> Some key) ms \<Longrightarrow>
     notices s' key = notices s key \<and> cached s' key = cached s key"
  by (induction ms arbitrary: s) (auto simp: bind_Some dest: play_move_others)

text \<open>The example: an Ingress appears, and is synchronised and sent.\<close>

definition first_cluster :: cluster where
  "first_cluster = \<lparr>kube = new_client, cached = (\<lambda>key. None), notices = (\<lambda>key. []), fetched = None\<rparr>"

lemma first_cluster_run: "cache_run ipam outs first_cluster"
  unfolding first_cluster_def new_client_def by (rule cache_run.start) (simp_all add: all_namespaces_def)

definition web_ab :: Ingress where
  "web_ab = demo_ingress net8 [''a'', ''b'']"

definition web_moves :: "move list" where
  "web_moves = [Own EnterRs, Api web_key (Added (KIngress web_ab)), See web_key, Own GetRs,
     Read (demo_env Acked [web_ab]), Act, Own EnterRs, Own Timer]"

text \<open>Moves that concern the one key leave a quiet cluster when they leave its queue and worker quiet.\<close>

lemma played_quiet:
  assumes "play_moves ipam ms first_cluster = Some s"
    and "list_all (\<lambda>m. moved_key m = None \<or> moved_key m = Some web_key) ms"
    and "notices s web_key = [] \<and> items (rsQueue (kube s)) = [] \<and> rsRetry (kube s) = [] \<and> rsWorker (kube s) = Waiting"
  shows "quiet s" and "key \<noteq> web_key \<Longrightarrow> cached s key = None"
proof -
  have others: "notices s key = [] \<and> cached s key = None" if "key \<noteq> web_key" for key
  proof -
    have "list_all (\<lambda>m. moved_key m \<noteq> Some key) ms" using assms(2) that by (auto simp: list_all_iff)
    from play_moves_others [OF assms(1) this] show ?thesis by (simp add: first_cluster_def)
  qed
  then have "notices s key = []" for key using assms(3) by (cases "key = web_key") simp_all
  with assms(3) show "quiet s" by (simp add: quiet_def)
  from others show "key \<noteq> web_key \<Longrightarrow> cached s key = None" by blast
qed

lemma web_played:
  obtains s where "cache_run ''infoblox'' {Acked} s" "quiet s" "timers (kube s) = 0"
    "cached s web_key = Some (KIngress web_ab)"
proof -
  have "case play_moves ''infoblox'' web_moves first_cluster of
     None \<Rightarrow> False
   | Some s \<Rightarrow> notices s web_key = [] \<and> items (rsQueue (kube s)) = [] \<and> rsRetry (kube s) = [] \<and>
       rsWorker (kube s) = Waiting \<and> timers (kube s) = 0 \<and> cached s web_key = Some (KIngress web_ab)"
    by code_simp
  then obtain s where s: "play_moves ''infoblox'' web_moves first_cluster = Some s"
    and q: "notices s web_key = [] \<and> items (rsQueue (kube s)) = [] \<and> rsRetry (kube s) = [] \<and> rsWorker (kube s) = Waiting"
    and r: "timers (kube s) = 0" "cached s web_key = Some (KIngress web_ab)"
    by (auto split: option.splits)
  show ?thesis
    by (rule that [OF play_moves_run [OF first_cluster_run s] played_quiet(1) [OF s _ q] r]) (simp add: web_moves_def)
qed

lemma web_ab_wants: "wants ''infoblox'' (KIngress web_ab) = Some (key8, [''a'', ''b''])"
  by code_simp

theorem no_change_lost_witness:
  "\<exists>s hs. cache_run ''infoblox'' {Acked} s \<and> hosts_of (ipGroup (kube s)) key8 web_key = Some hs \<and> ''b'' \<in> set hs"
proof -
  obtain s where s: "cache_run ''infoblox'' {Acked} s" "quiet s" "cached s web_key = Some (KIngress web_ab)"
    by (rule web_played)
  from no_change_lost [OF s web_ab_wants, of "''b''"] s(1) show ?thesis by auto
qed

theorem changes_reach_controller_witness:
  "\<exists>s hs. cache_run ''infoblox'' {Acked} s \<and> sent (kube s) \<noteq> [] \<and>
     hosts_of (last (sent (kube s))) key8 web_key = Some hs \<and> ''b'' \<in> set hs"
proof -
  obtain s where s: "cache_run ''infoblox'' {Acked} s" "quiet s" "timers (kube s) = 0"
    "cached s web_key = Some (KIngress web_ab)"
    by (rule web_played)
  have "''b'' \<in> set [''a'', ''b'']" by simp
  with changes_reach_controller [OF s(1-3)] s(1,4) web_ab_wants show ?thesis by metis
qed

subsection \<open>A stale read\<close>

text \<open>The Ingress is deleted after the worker has read it and before it adds it to the groups.\<close>

definition stale_moves :: "move list" where
  "stale_moves = [Own EnterRs, Api web_key (Added (KIngress web_ab)), See web_key, Own GetRs,
     Read (demo_env Acked [web_ab]), Api web_key (Deleted (KIngress web_ab)), See web_key, Act, Own EnterRs, Own Timer]"

text \<open>C34. A deleted resource can come back. Take a state in which the worker has read an Ingress, with its
  network annotations and its hosts, that is in no group yet, while every resource is in one group at
  most. If the handler of its deletion comes before the rest of the worker's turn, it changes nothing
  at all, and the turn then adds the hosts it has read: the deleted Ingress is in the groups, which
  are sent to the Controller when they can be, and its key is not queued again. If the deletion comes
  after the turn, the Ingress ends in no group.\<close>

theorem deleted_resource_comes_back:
  assumes "groups_wf (ipGroup c)" and "resources_unique (ipGroup c)" and "\<And>g. \<not> in_group (ipGroup c) key g"
    and "fair_range ord" and "checkValidIngress (KIngress ing) c = Some (Some key)"
    and "getResourceInformer c (rkNamespace key) = Some rsInf"
    and "ingByName env rsInf (rkName key) = Some ings" and "filter (is_resource key) ings = [ing]"
    and "network_of ipam (ingMeta ing) = Some net" and "ingress_hosts ing = Some hosts"
  shows "deleteIngress ord out (KIngress ing) c = Some c \<and>
    (\<exists>c1. workResource ipam env key c = Some c1 \<and>
       hosts_of (ipGroup c1) (group_of ing net) key = Some hosts \<and>
       sent c1 = (if can_write c \<and> channel c \<and> sendTo env = Acked then sent c @ [ipGroup c1] else sent c) \<and>
       dirty (rsQueue c1) = dirty (rsQueue c) \<and> rsRetry c1 = rsRetry c \<and>
       (\<exists>c2. deleteIngress ord out (KIngress ing) c1 = Some c2 \<and> (\<forall>g. \<not> in_group (ipGroup c2) key g)))"
proof
  from assms(5) have kind: "rkKind key = ''Ingress''"
    by (auto simp: checkValidIngress_def dest: valid_meta_key)
  have "enumerates (ord FindRange (fmdom (ipGroup c))) (ipGroup c)"
    using assms(4) by (simp add: enumerates_def fair_range_def)
  then have "\<not> fst (find_spec ord key c)" using getSpec_found [of _ "ipGroup c" key] assms(3) by (simp add: find_spec_def)
  then show "deleteIngress ord out (KIngress ing) c = Some c"
    by (simp add: deleteIngress_def assms(5) forget_resource_def case_prod_beta)
  let ?p = "put_resource (group_of ing net) ''Ingress'' key hosts c"
  let ?s = "sync_end env (False, ?p)"
  let ?w = "?s\<lparr>rsQueue := qDone key (rsQueue ?s), rsWorker := Idle\<rparr>"
  have sync: "syncResource ipam env key c = Some (False, ?s)"
    by (simp add: syncResource_def kind assms(6,7) sync_ingresses_one [OF assms(8-10)])
  then have work: "workResource ipam env key c = Some ?w" by (simp add: workResource_def Let_def)
  have none: "hosts_of (ipGroup c) g key = None" for g using assms(3) [of g] by (simp add: in_group_def)
  have hosts: "hosts_of (ipGroup ?p) g key = (if g = group_of ing net then Some hosts else None)" for g
    by (simp add: put_resource_effect(1) [OF assms(1) kind] none)
  then have "ipGroup ?p \<noteq> ipGroup c" using none by (metis option.distinct(1))
  then have up: "updated ?p" using put_resource_effect(2) [OF assms(1) kind] by simp
  have w: "can_write ?p = can_write c" "channel ?p = channel c" "sent ?p = sent c"
    by (simp_all add: put_resource_def case_prod_beta can_write_def)
  have g: "ipGroup ?w = ipGroup ?p" by simp
  have wf: "groups_wf (ipGroup ?w)" "resources_unique (ipGroup ?w)"
  proof -
    have key: "\<lparr>rkKind = ''Ingress'', rkName = rkName key, rkNamespace = rkNamespace key\<rparr> = key" using kind by (cases key) simp
    have "ipGroup ?w = snd (addToIPGroup (ipGroup c) (group_of ing net) ''Ingress'' (rkName key) (rkNamespace key) hosts)"
      by (simp add: g put_resource_def case_prod_beta)
    with addToIPGroup_wf [OF assms(1), of "''Ingress''"] addToIPGroup_unique [OF assms(1,2), of "''Ingress''" "rkName key" "rkNamespace key"]
    show "groups_wf (ipGroup ?w)" "resources_unique (ipGroup ?w)" using assms(3) by (simp_all only: key) simp_all
  qed
  have keep: "same_plumbing c ?s"
    by (rule sync_end_plumbing) (simp add: put_resource_plumbing)
  then have "rsInformers ?w = rsInformers c" by (simp add: same_plumbing_def)
  from informers_same [OF this] have "checkValidIngress (KIngress ing) ?w = Some (Some key)"
    using assms(5) by (simp only: checkValidIngress_def valid_meta_def kobj.case)
  moreover have "in_group (ipGroup ?w) key (group_of ing net)" by (simp add: g in_group_def hosts)
  ultimately have del: "\<exists>c2. deleteIngress ord out (KIngress ing) ?w = Some c2 \<and> hosts_of (ipGroup c2) g key = None" for g
    using delete_ingress_effect [OF assms(4) wf, of "KIngress ing" key "group_of ing net" out g key] by metis
  then obtain c2 where c2: "deleteIngress ord out (KIngress ing) ?w = Some c2" by blast
  with del have "hosts_of (ipGroup c2) g key = None" for g by (metis option.inject)
  with c2 have gone: "\<exists>c2. deleteIngress ord out (KIngress ing) ?w = Some c2 \<and> (\<forall>g. \<not> in_group (ipGroup c2) key g)"
    by (auto simp: in_group_def)
  have "sent ?w = (if can_write c \<and> channel c \<and> sendTo env = Acked then sent c @ [ipGroup ?w] else sent c)"
    using up by (simp add: g) (simp add: sync_end_def writeIPGroups_effect w)
  moreover have "dirty (rsQueue ?w) = dirty (rsQueue c)" "rsRetry ?w = rsRetry c"
    using keep by (simp_all add: same_plumbing_def qDone_def Let_def)
  moreover have "hosts_of (ipGroup ?w) (group_of ing net) key = Some hosts" by (simp add: g hosts)
  ultimately show "\<exists>c1. workResource ipam env key c = Some c1 \<and>
       hosts_of (ipGroup c1) (group_of ing net) key = Some hosts \<and>
       sent c1 = (if can_write c \<and> channel c \<and> sendTo env = Acked then sent c @ [ipGroup c1] else sent c) \<and>
       dirty (rsQueue c1) = dirty (rsQueue c) \<and> rsRetry c1 = rsRetry c \<and>
       (\<exists>c2. deleteIngress ord out (KIngress ing) c1 = Some c2 \<and> (\<forall>g. \<not> in_group (ipGroup c2) key g))"
    using work gone by blast
qed

theorem deleted_resource_comes_back_witness:
  "\<exists>c1 c2. deleteIngress ascending Acked (KIngress web_ab) new_client = Some new_client \<and>
     workResource ''infoblox'' (demo_env Acked [web_ab]) web_key new_client = Some c1 \<and>
     hosts_of (ipGroup c1) key8 web_key = Some [''a'', ''b''] \<and>
     deleteIngress ascending Acked (KIngress web_ab) c1 = Some c2 \<and> hosts_of (ipGroup c2) key8 web_key = None"
proof -
  have empty: "ipGroup new_client = fmempty" by code_simp
  then have g: "groups_wf (ipGroup new_client)" "resources_unique (ipGroup new_client)"
    "\<not> in_group (ipGroup new_client) web_key g" for g
    by (simp_all add: groups_wf_def resources_unique_def fmpred_iff in_group_def hosts_of_def)
  have net: "network_of ''infoblox'' (ingMeta web_ab) = Some (''default'', ''10.0.0.0/8'')"
    and key: "group_of web_ab (''default'', ''10.0.0.0/8'') = key8" by code_simp+
  have read: "ingByName (demo_env Acked [web_ab]) (startInformer (newRsInformer '''')) (rkName web_key) = Some [web_ab]"
    by (simp add: demo_env_def)
  have one: "filter (is_resource web_key) [web_ab] = [web_ab]" and hosts: "ingress_hosts web_ab = Some [''a'', ''b'']"
    unfolding web_ab_def by (rule demo_cached(2) demo_ingress_hosts)+
  have valid: "checkValidIngress (KIngress web_ab) new_client = Some (Some web_key)"
    unfolding web_ab_def by (rule demo_valid) simp
  from deleted_resource_comes_back [OF g fair_ascending valid demo_watches [OF refl] read one net hosts, of Acked]
  show ?thesis unfolding key in_group_def by auto
qed

text \<open>A whole run in which that happens: nothing is left to do, no cache has any object, and yet the last
  message to the Controller lists the hosts of the deleted Ingress.\<close>

lemma stale_run:
  "\<exists>s hs. cache_run ''infoblox'' {Acked} s \<and> quiet s \<and> timers (kube s) = 0 \<and> (\<forall>key. cached s key = None) \<and>
     hosts_of (last (sent (kube s))) key8 web_key = Some hs \<and> ''a'' \<in> set hs"
proof -
  have "case play_moves ''infoblox'' stale_moves first_cluster of
     None \<Rightarrow> False
   | Some s \<Rightarrow> (notices s web_key = [] \<and> items (rsQueue (kube s)) = [] \<and> rsRetry (kube s) = [] \<and>
       rsWorker (kube s) = Waiting) \<and> timers (kube s) = 0 \<and> cached s web_key = None \<and>
       hosts_of (last (sent (kube s))) key8 web_key = Some [''a'', ''b'']"
    by code_simp
  then obtain s where s: "play_moves ''infoblox'' stale_moves first_cluster = Some s"
    and q: "notices s web_key = [] \<and> items (rsQueue (kube s)) = [] \<and> rsRetry (kube s) = [] \<and> rsWorker (kube s) = Waiting"
    and r: "timers (kube s) = 0" "cached s web_key = None" "hosts_of (last (sent (kube s))) key8 web_key = Some [''a'', ''b'']"
    by (auto split: option.splits)
  have m: "list_all (\<lambda>m. moved_key m = None \<or> moved_key m = Some web_key) stale_moves" by (simp add: stale_moves_def)
  have "cached s key = None" for key using played_quiet(2) [OF s m q] r(2) by (cases "key = web_key") auto
  with play_moves_run [OF first_cluster_run s] played_quiet(1) [OF s m q] r show ?thesis by auto
qed

end
