(* ===== verification/Thread_Safe_Store.thy ===== *)
theory Thread_Safe_Store
  imports Prelude
begin

section \<open>The store behind an informer (vendor/k8s.io/client-go/tools/cache/thread_safe_store.go)\<close>

text \<open>
  The objects that an informer has seen, by key, with indices: for each index function a map from its
  values to the keys of the objects that have the value. The lock makes every operation atomic. An
  index function that returns an error makes an update panic; such a call is None. The operations are
  those that an informer calls. Seen from outside the store is a partial map from keys to objects; the
  locale \<open>indexed_store\<close> states it.
\<close>

type_synonym Index = "(string, string fset) fmap"
type_synonym Indices = "(string, Index) fmap"
type_synonym 'o Indexers = "(string, 'o \<Rightarrow> string list option) fmap"

record 'o threadSafeMap =
  tsItems :: "(string, 'o) fmap"
  tsIndexers :: "'o Indexers"
  tsIndices :: Indices

definition NewThreadSafeStore :: "'o Indexers \<Rightarrow> Indices \<Rightarrow> 'o threadSafeMap" where
  "NewThreadSafeStore ixers ixs = \<lparr>tsItems = fmempty, tsIndexers = ixers, tsIndices = ixs\<rparr>"

text \<open>A Go map of sets, read at a key; a missing set is empty.\<close>

definition set_at :: "Index \<Rightarrow> string \<Rightarrow> string fset" where
  "set_at index val = (case fmlookup index val of None \<Rightarrow> {||} | Some s \<Rightarrow> s)"

fun insert_key :: "string \<Rightarrow> string list \<Rightarrow> Index \<Rightarrow> Index" where
  "insert_key key [] index = index"
| "insert_key key (val # vals) index = insert_key key vals (fmupd val (finsert key (set_at index val)) index)"

fun delete_key :: "string \<Rightarrow> string list \<Rightarrow> Index \<Rightarrow> Index" where
  "delete_key key [] index = index"
| "delete_key key (val # vals) index =
     delete_key key vals
       (case fmlookup index val of None \<Rightarrow> index | Some s \<Rightarrow> fmupd val (s |-| {|key|}) index)"

fun deleteFromIndices ::
    "'o Indexers \<Rightarrow> string list \<Rightarrow> 'o \<Rightarrow> string \<Rightarrow> Indices \<Rightarrow> Indices option" where
  "deleteFromIndices ixers [] obj key ixs = Some ixs"
| "deleteFromIndices ixers (name # names) obj key ixs =
     (case fmlookup ixers name of
        None \<Rightarrow> deleteFromIndices ixers names obj key ixs
      | Some indexFunc \<Rightarrow> do {
          vals \<leftarrow> indexFunc obj;
          deleteFromIndices ixers names obj key
            (case fmlookup ixs name of
               None \<Rightarrow> ixs
             | Some index \<Rightarrow> fmupd name (delete_key key vals index) ixs)
        })"

fun addToIndices ::
    "'o Indexers \<Rightarrow> string list \<Rightarrow> 'o \<Rightarrow> string \<Rightarrow> Indices \<Rightarrow> Indices option" where
  "addToIndices ixers [] obj key ixs = Some ixs"
| "addToIndices ixers (name # names) obj key ixs =
     (case fmlookup ixers name of
        None \<Rightarrow> addToIndices ixers names obj key ixs
      | Some indexFunc \<Rightarrow> do {
          vals \<leftarrow> indexFunc obj;
          addToIndices ixers names obj key
            (fmupd name
               (insert_key key vals (case fmlookup ixs name of None \<Rightarrow> fmempty | Some index \<Rightarrow> index)) ixs)
        })"

text \<open>The range loops over the index functions.\<close>

datatype ix_site = DeleteIx | AddIx

type_synonym ix_order = "ix_site \<Rightarrow> string fset \<Rightarrow> string list"

definition updateIndices :: "ix_order \<Rightarrow> 'o Indexers \<Rightarrow> 'o option \<Rightarrow> 'o \<Rightarrow> string \<Rightarrow> Indices \<Rightarrow> Indices option" where
  "updateIndices ord ixers oldObj newObj key ixs = do {
     ixs1 \<leftarrow> (case oldObj of
                None \<Rightarrow> Some ixs
              | Some obj \<Rightarrow> deleteFromIndices ixers (ord DeleteIx (fmdom ixers)) obj key ixs);
     addToIndices ixers (ord AddIx (fmdom ixers)) newObj key ixs1
   }"

definition tsAdd :: "ix_order \<Rightarrow> string \<Rightarrow> 'o \<Rightarrow> 'o threadSafeMap \<Rightarrow> 'o threadSafeMap option" where
  "tsAdd ord key obj c =
     (let oldObject = fmlookup (tsItems c) key; c1 = c\<lparr>tsItems := fmupd key obj (tsItems c)\<rparr> in do {
        ixs \<leftarrow> updateIndices ord (tsIndexers c1) oldObject obj key (tsIndices c1);
        Some (c1\<lparr>tsIndices := ixs\<rparr>)
      })"

definition tsUpdate :: "ix_order \<Rightarrow> string \<Rightarrow> 'o \<Rightarrow> 'o threadSafeMap \<Rightarrow> 'o threadSafeMap option" where
  "tsUpdate ord key obj c =
     (let oldObject = fmlookup (tsItems c) key; c1 = c\<lparr>tsItems := fmupd key obj (tsItems c)\<rparr> in do {
        ixs \<leftarrow> updateIndices ord (tsIndexers c1) oldObject obj key (tsIndices c1);
        Some (c1\<lparr>tsIndices := ixs\<rparr>)
      })"

definition tsDelete :: "ix_order \<Rightarrow> string \<Rightarrow> 'o threadSafeMap \<Rightarrow> 'o threadSafeMap option" where
  "tsDelete ord key c =
     (case fmlookup (tsItems c) key of
        None \<Rightarrow> Some c
      | Some obj \<Rightarrow> do {
          ixs \<leftarrow> deleteFromIndices (tsIndexers c) (ord DeleteIx (fmdom (tsIndexers c))) obj key (tsIndices c);
          Some (c\<lparr>tsIndices := ixs, tsItems := fmdrop key (tsItems c)\<rparr>)
        })"

definition tsGet :: "string \<Rightarrow> 'o threadSafeMap \<Rightarrow> 'o option" where
  "tsGet key c = fmlookup (tsItems c) key"

text \<open>The error of an unknown index is None; an item that is not there is nil, the inner None.\<close>

definition tsByIndex :: "string \<Rightarrow> string \<Rightarrow> 'o threadSafeMap \<Rightarrow> 'o option list option" where
  "tsByIndex indexName indexKey c =
     (case fmlookup (tsIndexers c) indexName of
        None \<Rightarrow> None
      | Some indexFunc \<Rightarrow>
          Some (map (fmlookup (tsItems c))
            (sorted_list_of_fset
               (set_at (case fmlookup (tsIndices c) indexName of None \<Rightarrow> fmempty | Some index \<Rightarrow> index) indexKey))))"

subsection \<open>What the loops do to the indices\<close>

definition keys_at :: "Indices \<Rightarrow> string \<Rightarrow> string \<Rightarrow> string fset" where
  "keys_at ixs name val = set_at (case fmlookup ixs name of None \<Rightarrow> fmempty | Some index \<Rightarrow> index) val"

lemma set_at_empty [simp]: "set_at fmempty val = {||}"
  by (simp add: set_at_def)

lemma set_at_upd: "set_at (fmupd v s index) val = (if v = val then s else set_at index val)"
  by (simp add: set_at_def)

lemma set_at_insert: "set_at (insert_key key vals index) val = (if val \<in> set vals then finsert key (set_at index val) else set_at index val)"
  by (induction key vals index rule: insert_key.induct) (auto simp: set_at_upd)

lemma set_at_delete: "set_at (delete_key key vals index) val = (if val \<in> set vals then set_at index val |-| {|key|} else set_at index val)"
  by (induction key vals index rule: delete_key.induct) (auto simp: set_at_upd set_at_def split: option.splits)

lemma keys_at_upd: "keys_at (fmupd n index ixs) name val = (if n = name then set_at index val else keys_at ixs name val)"
  by (simp add: keys_at_def)

lemma deleteFromIndices_keys:
  "deleteFromIndices ixers names obj key ixs = Some ixs' \<Longrightarrow> fmlookup ixers name = Some f \<Longrightarrow> f obj = Some vals \<Longrightarrow>
     keys_at ixs' name val =
       (if name \<in> set names \<and> val \<in> set vals then keys_at ixs name val |-| {|key|} else keys_at ixs name val)"
proof (induction ixers names obj key ixs rule: deleteFromIndices.induct)
  case (2 ixers n names obj key ixs)
  show ?case
  proof (cases "fmlookup ixers n")
    case (Some f')
    with "2.prems"(1) obtain vs where vs: "f' obj = Some vs"
      and rest: "deleteFromIndices ixers names obj key
        (case fmlookup ixs n of None \<Rightarrow> ixs | Some index \<Rightarrow> fmupd n (delete_key key vs index) ixs) = Some ixs'"
      by (auto simp: bind_eq_Some_conv)
    have here: "keys_at (case fmlookup ixs n of None \<Rightarrow> ixs | Some index \<Rightarrow> fmupd n (delete_key key vs index) ixs) name val =
        (if n = name \<and> val \<in> set vs then keys_at ixs name val |-| {|key|} else keys_at ixs name val)"
      by (auto simp: keys_at_upd set_at_delete keys_at_def split: option.split)
    have "n = name \<Longrightarrow> vs = vals" using Some vs "2.prems"(2,3) by simp
    then show ?thesis unfolding "2.IH"(2) [OF Some vs rest "2.prems"(2,3)] here by (cases "n = name") simp_all
  qed (use "2" in auto)
qed simp

lemma addToIndices_keys:
  "addToIndices ixers names obj key ixs = Some ixs' \<Longrightarrow> fmlookup ixers name = Some f \<Longrightarrow> f obj = Some vals \<Longrightarrow>
     keys_at ixs' name val =
       (if name \<in> set names \<and> val \<in> set vals then finsert key (keys_at ixs name val) else keys_at ixs name val)"
proof (induction ixers names obj key ixs rule: addToIndices.induct)
  case (2 ixers n names obj key ixs)
  show ?case
  proof (cases "fmlookup ixers n")
    case (Some f')
    let ?index = "case fmlookup ixs n of None \<Rightarrow> fmempty | Some index \<Rightarrow> index"
    from Some "2.prems"(1) obtain vs where vs: "f' obj = Some vs"
      and rest: "addToIndices ixers names obj key (fmupd n (insert_key key vs ?index) ixs) = Some ixs'"
      by (auto simp: bind_eq_Some_conv)
    have here: "keys_at (fmupd n (insert_key key vs ?index) ixs) name val =
        (if n = name \<and> val \<in> set vs then finsert key (keys_at ixs name val) else keys_at ixs name val)"
      by (auto simp: keys_at_upd set_at_insert keys_at_def)
    have "n = name \<Longrightarrow> vs = vals" using Some vs "2.prems"(2,3) by simp
    then show ?thesis unfolding "2.IH"(2) [OF Some vs rest "2.prems"(2,3)] here by (cases "n = name") simp_all
  qed (use "2" in auto)
qed simp

text \<open>They panic exactly when an index function fails.\<close>

lemma indices_return:
  "(deleteFromIndices ixers names obj key ixs = None) =
     (\<exists>name f. name \<in> set names \<and> fmlookup ixers name = Some f \<and> f obj = None)"
  "(addToIndices ixers names obj key ixs = None) =
     (\<exists>name f. name \<in> set names \<and> fmlookup ixers name = Some f \<and> f obj = None)"
proof -
  show "(deleteFromIndices ixers names obj key ixs = None) =
     (\<exists>name f. name \<in> set names \<and> fmlookup ixers name = Some f \<and> f obj = None)"
  proof (induction names arbitrary: ixs)
    case (Cons n names)
    show ?case
    proof (cases "fmlookup ixers n")
      case (Some f)
      with Cons show ?thesis by (cases "f obj") auto
    qed (use Cons in auto)
  qed simp
  show "(addToIndices ixers names obj key ixs = None) =
     (\<exists>name f. name \<in> set names \<and> fmlookup ixers name = Some f \<and> f obj = None)"
  proof (induction names arbitrary: ixs)
    case (Cons n names)
    show ?case
    proof (cases "fmlookup ixers n")
      case (Some f)
      with Cons show ?thesis by (cases "f obj") auto
    qed (use Cons in auto)
  qed simp
qed

subsection \<open>The invariant\<close>

text \<open>The index functions work on all objects, and an index has at each value the keys of the objects
  that have the value, and no others.\<close>

definition has_val :: "('o \<Rightarrow> string list option) \<Rightarrow> string \<Rightarrow> 'o \<Rightarrow> bool" where
  "has_val f val obj \<longleftrightarrow> (case f obj of None \<Rightarrow> False | Some vals \<Rightarrow> val \<in> set vals)"

definition exact_index :: "('o \<Rightarrow> string list option) \<Rightarrow> (string, 'o) fmap \<Rightarrow> (string \<Rightarrow> string fset) \<Rightarrow> bool" where
  "exact_index f its ix \<longleftrightarrow>
     (\<forall>key obj. fmlookup its key = Some obj \<longrightarrow> f obj \<noteq> None) \<and>
     (\<forall>val key. key |\<in>| ix val \<longleftrightarrow> (\<exists>obj. fmlookup its key = Some obj \<and> has_val f val obj))"

definition indexed :: "'o Indexers \<Rightarrow> (string, 'o) fmap \<Rightarrow> Indices \<Rightarrow> bool" where
  "indexed ixers its ixs \<longleftrightarrow> (\<forall>name f. fmlookup ixers name = Some f \<longrightarrow> exact_index f its (keys_at ixs name))"

definition ts_ok :: "'o threadSafeMap \<Rightarrow> bool" where
  "ts_ok c \<longleftrightarrow> indexed (tsIndexers c) (tsItems c) (tsIndices c)"

lemma ts_ok_new: "ts_ok (NewThreadSafeStore ixers fmempty)"
  by (simp add: ts_ok_def indexed_def exact_index_def NewThreadSafeStore_def keys_at_def)

lemma exact_upd:
  assumes "exact_index f its ix" and "f obj = Some vals"
    and "\<And>val. ix' val = (if val \<in> set vals then finsert key (ix1 val) else ix1 val)"
    and "\<And>val key'. key' |\<in>| ix1 val \<longleftrightarrow> key' \<noteq> key \<and> key' |\<in>| ix val"
  shows "exact_index f (fmupd key obj its) ix'"
  using assms by (auto simp: exact_index_def has_val_def)

lemma exact_drop:
  assumes "exact_index f its ix" and "\<And>val key'. key' |\<in>| ix' val \<longleftrightarrow> key' \<noteq> key \<and> key' |\<in>| ix val"
  shows "exact_index f (fmdrop key its) ix'"
  using assms by (auto simp: exact_index_def)

lemma index_emptied:
  assumes "exact_index f its (keys_at ixs name)" and "fmlookup its key = Some obj"
    and "deleteFromIndices ixers names obj key ixs = Some ixs1" and "fmlookup ixers name = Some f" and "name \<in> set names"
  shows "key' |\<in>| keys_at ixs1 name val \<longleftrightarrow> key' \<noteq> key \<and> key' |\<in>| keys_at ixs name val"
proof -
  from assms(1,2) have "f obj \<noteq> None" unfolding exact_index_def by blast
  then obtain vals where v: "f obj = Some vals" by auto
  have "key |\<in>| keys_at ixs name val \<longleftrightarrow> val \<in> set vals"
    using assms(1,2) v by (auto simp: exact_index_def has_val_def)
  with assms(5) show ?thesis by (auto simp: deleteFromIndices_keys [OF assms(3,4) v])
qed

text \<open>\<open>updateIndices\<close> fails exactly when an index function does, and otherwise keeps the invariant.\<close>

lemma updateIndices_ok:
  assumes "fair_range ord" and "indexed ixers its ixs" and "updateIndices ord ixers (fmlookup its key) obj key ixs = Some ixs'"
  shows "indexed ixers (fmupd key obj its) ixs'"
  unfolding indexed_def
proof (intro allI impI)
  fix name f assume f: "fmlookup ixers name = Some f"
  with assms(2) have ex: "exact_index f its (keys_at ixs name)" by (simp add: indexed_def)
  from f assms(1) have mem: "name \<in> set (ord site (fmdom ixers))" for site
    by (auto simp: fair_range_def keys_iff)
  from assms(3) obtain ixs1 where del: "(case fmlookup its key of None \<Rightarrow> Some ixs
      | Some obj \<Rightarrow> deleteFromIndices ixers (ord DeleteIx (fmdom ixers)) obj key ixs) = Some ixs1"
    and add: "addToIndices ixers (ord AddIx (fmdom ixers)) obj key ixs1 = Some ixs'"
    by (auto simp: updateIndices_def bind_eq_Some_conv)
  have "f obj \<noteq> None"
    using add indices_return(2) [of ixers "ord AddIx (fmdom ixers)" obj key ixs1] f mem by auto
  then obtain vals where v: "f obj = Some vals" by auto
  show "exact_index f (fmupd key obj its) (keys_at ixs' name)"
  proof (rule exact_upd [OF ex v])
    show "keys_at ixs' name val = (if val \<in> set vals then finsert key (keys_at ixs1 name val) else keys_at ixs1 name val)" for val
      using mem by (simp add: addToIndices_keys [OF add f v])
    show "key' |\<in>| keys_at ixs1 name val \<longleftrightarrow> key' \<noteq> key \<and> key' |\<in>| keys_at ixs name val" for val key'
    proof (cases "fmlookup its key")
      case None
      then have "key |\<notin>| keys_at ixs name val" using ex by (simp add: exact_index_def)
      then show ?thesis using del None by auto
    next
      case (Some old)
      with del index_emptied [OF ex Some _ f mem] show ?thesis by simp
    qed
  qed
qed

lemma updateIndices_returns:
  assumes "fair_range ord" and "indexed ixers its ixs"
    and "\<And>name f. fmlookup ixers name = Some f \<Longrightarrow> f obj \<noteq> None"
  shows "\<exists>ixs'. updateIndices ord ixers (fmlookup its key) obj key ixs = Some ixs'"
proof -
  have mem: "name \<in> set (ord site (fmdom ixers)) \<Longrightarrow> fmlookup ixers name \<noteq> None" for name site
    using assms(1) by (simp add: fair_range_def keys_iff)
  have "addToIndices ixers (ord AddIx (fmdom ixers)) obj key ixs1 \<noteq> None" for ixs1
    using assms(3) by (auto simp: indices_return)
  moreover have "deleteFromIndices ixers (ord DeleteIx (fmdom ixers)) old key ixs \<noteq> None" if "fmlookup its key = Some old" for old
    using assms(2) that by (auto simp: indices_return indexed_def exact_index_def)
  ultimately show ?thesis by (fastforce simp: updateIndices_def split: option.split)
qed

subsection \<open>The store as a map with an index\<close>

locale indexed_store =
  fixes put :: "string \<Rightarrow> 'o \<Rightarrow> 's \<Rightarrow> 's option" and drop :: "string \<Rightarrow> 's \<Rightarrow> 's option"
    and by_index :: "string \<Rightarrow> 's \<Rightarrow> 'o option list option"
    and ok :: "'s \<Rightarrow> bool" and absMap :: "'s \<Rightarrow> string \<Rightarrow> 'o option" and vals :: "'o \<Rightarrow> string list option"
  assumes put: "ok s \<Longrightarrow> vals obj \<noteq> None \<Longrightarrow> \<exists>s'. put key obj s = Some s' \<and> ok s' \<and> absMap s' = (absMap s)(key \<mapsto> obj)"
    and drop: "ok s \<Longrightarrow> \<exists>s'. drop key s = Some s' \<and> ok s' \<and> absMap s' = (absMap s)(key := None)"
    and by_index: "ok s \<Longrightarrow> \<exists>ks. by_index val s = Some (map (absMap s) ks) \<and> distinct ks \<and>
      set ks = {key. \<exists>obj. absMap s key = Some obj \<and> has_val vals val obj}"
begin

lemma filter_one: "distinct ks \<Longrightarrow> (\<And>k. k \<in> set ks \<Longrightarrow> P (g k) \<Longrightarrow> k = key) \<Longrightarrow>
    filter P (map g ks) = (if key \<in> set ks \<and> P (g key) then [g key] else [])"
  by (induction ks) (auto simp: filter_empty_conv)

text \<open>Of the objects with a property that only objects under one key have, a look-up by index finds
  the one that is there.\<close>

lemma by_index_one:
  assumes "ok s" and "\<And>k obj. absMap s k = Some obj \<Longrightarrow> P obj \<Longrightarrow> k = key"
    and "\<And>obj. P obj \<Longrightarrow> has_val vals val obj"
  shows "\<exists>objs. by_index val s = Some (map Some objs) \<and>
    filter P objs = (case absMap s key of Some obj \<Rightarrow> (if P obj then [obj] else []) | None \<Rightarrow> [])"
proof -
  obtain ks where ks: "by_index val s = Some (map (absMap s) ks)" "distinct ks"
      "set ks = {key. \<exists>obj. absMap s key = Some obj \<and> has_val vals val obj}"
    using by_index [OF assms(1)] by blast
  let ?objs = "map (the \<circ> absMap s) ks"
  have "map (absMap s) ks = map Some ?objs" using ks(3) by auto
  moreover have "filter P ?objs = (if key \<in> set ks \<and> P ((the \<circ> absMap s) key) then [(the \<circ> absMap s) key] else [])"
    by (rule filter_one [OF ks(2)]) (use ks(3) assms(2) in fastforce)
  moreover have "(if key \<in> set ks \<and> P ((the \<circ> absMap s) key) then [(the \<circ> absMap s) key] else []) =
      (case absMap s key of Some obj \<Rightarrow> (if P obj then [obj] else []) | None \<Rightarrow> [])"
    using ks(3) assms(3) by (auto split: option.split)
  ultimately show ?thesis using ks(1) by metis
qed

end

lemma ts_put:
  assumes "fair_range ord" and "ts_ok s" and "\<forall>name f. fmlookup (tsIndexers s) name = Some f \<longrightarrow> f obj \<noteq> None"
  shows "\<exists>s'. tsAdd ord key obj s = Some s' \<and> ts_ok s' \<and> tsIndexers s' = tsIndexers s \<and>
    fmlookup (tsItems s') = (fmlookup (tsItems s))(key \<mapsto> obj)"
proof -
  obtain ixs where u: "updateIndices ord (tsIndexers s) (fmlookup (tsItems s) key) obj key (tsIndices s) = Some ixs"
    using updateIndices_returns [OF assms(1), of "tsIndexers s" "tsItems s" "tsIndices s" obj key] assms(2,3)
    by (auto simp: ts_ok_def)
  from updateIndices_ok [OF assms(1) _ this] assms(2) show ?thesis
    by (auto simp: tsAdd_def u ts_ok_def fun_eq_iff)
qed

lemma tsUpdate_is_Add: "tsUpdate = tsAdd"
  by (intro ext) (simp add: tsUpdate_def tsAdd_def)

lemma ts_drop:
  assumes "fair_range ord" and "ts_ok s"
  shows "\<exists>s'. tsDelete ord key s = Some s' \<and> ts_ok s' \<and> tsIndexers s' = tsIndexers s \<and>
    fmlookup (tsItems s') = (fmlookup (tsItems s))(key := None)"
proof (cases "fmlookup (tsItems s) key")
  case None
  with assms(2) show ?thesis by (auto simp: tsDelete_def)
next
  case (Some obj)
  let ?names = "ord DeleteIx (fmdom (tsIndexers s))"
  have ix: "exact_index f (tsItems s) (keys_at (tsIndices s) name)" "name \<in> set ?names"
    if "fmlookup (tsIndexers s) name = Some f" for name f
    using assms that by (auto simp: ts_ok_def indexed_def fair_range_def keys_iff)
  have "f obj \<noteq> None" if "fmlookup (tsIndexers s) name = Some f" for name f
    using ix(1) [OF that] Some unfolding exact_index_def by blast
  then have "deleteFromIndices (tsIndexers s) ?names obj key (tsIndices s) \<noteq> None"
    unfolding indices_return by blast
  then obtain ixs where d: "deleteFromIndices (tsIndexers s) ?names obj key (tsIndices s) = Some ixs" by auto
  have "indexed (tsIndexers s) (fmdrop key (tsItems s)) ixs"
    unfolding indexed_def
  proof (intro allI impI)
    fix name f assume f: "fmlookup (tsIndexers s) name = Some f"
    show "exact_index f (fmdrop key (tsItems s)) (keys_at ixs name)"
      by (rule exact_drop [OF ix(1) [OF f] index_emptied [OF ix(1) [OF f] Some d f ix(2) [OF f]]])
  qed
  with Some show ?thesis by (auto simp: tsDelete_def d ts_ok_def fun_eq_iff)
qed

lemma ts_by_index:
  assumes "ts_ok s" and "fmlookup (tsIndexers s) name = Some f"
  shows "\<exists>ks. tsByIndex name val s = Some (map (fmlookup (tsItems s)) ks) \<and> distinct ks \<and>
    set ks = {key. \<exists>obj. fmlookup (tsItems s) key = Some obj \<and> has_val f val obj}"
proof -
  let ?ks = "sorted_list_of_fset (keys_at (tsIndices s) name val)"
  have "set ?ks = {key. \<exists>obj. fmlookup (tsItems s) key = Some obj \<and> has_val f val obj}"
    using assms by (auto simp: ts_ok_def indexed_def exact_index_def)
  moreover have "distinct ?ks" by (simp add: sorted_list_of_fset.rep_eq)
  ultimately show ?thesis using assms(2) unfolding tsByIndex_def keys_at_def by auto
qed

end
