(* ===== verification/Informer_Cache.thy ===== *)
theory Informer_Cache
  imports Thread_Safe_Store Kube_Cache
begin

section \<open>The informers' caches\<close>

text \<open>
  How an informer of client-go keeps its cache (vendor/k8s.io/client-go/tools/cache, shared_informer.go
  and store.go): the deltas of one object are put into the store and passed on to the handlers. The
  client indexes the store by name. This theory shows that such a cache behaves as Kube_Cache assumes:
  what \<open>ByIndex\<close> answers for a key is what the deltas have left there, and every delta is a change
  with its notice.
\<close>

subsection \<open>Keys and indices\<close>

text \<open>\<^verbatim>\<open>meta.Accessor\<close>: namespace and name. The object of a missed deletion has none.\<close>

fun accessor :: "kobj \<Rightarrow> (string \<times> string) option" where
  "accessor (KConfigMap cm) = Some (omNamespace (cmMeta cm), omName (cmMeta cm))"
| "accessor (KIngress ing) = Some (omNamespace (ingMeta ing), omName (ingMeta ing))"
| "accessor (KNamespace name) = Some ('''', name)"
| "accessor (KTombstone key) = None"

definition MetaNameIndexFunc :: "kobj \<Rightarrow> string list option" where
  "MetaNameIndexFunc obj = (case accessor obj of None \<Rightarrow> None | Some (namespace, name) \<Rightarrow> Some [name])"

definition key_text :: "string \<Rightarrow> string \<Rightarrow> string" where
  "key_text namespace name = (if 0 < length namespace then namespace @ ''/'' @ name else name)"

definition MetaNamespaceKeyFunc :: "kobj \<Rightarrow> string option" where
  "MetaNamespaceKeyFunc obj =
     (case accessor obj of None \<Rightarrow> None | Some (namespace, name) \<Rightarrow> Some (key_text namespace name))"

definition DeletionHandlingMetaNamespaceKeyFunc :: "kobj \<Rightarrow> string option" where
  "DeletionHandlingMetaNamespaceKeyFunc obj =
     (case obj of KTombstone key \<Rightarrow> Some key | _ \<Rightarrow> MetaNamespaceKeyFunc obj)"

text \<open>The indexers that \<open>newRsInformer\<close> passes to both informers.\<close>

definition name_indexers :: "kobj Indexers" where
  "name_indexers = fmap_of_list [(''name'', MetaNameIndexFunc)]"

definition NewIndexer :: "kobj threadSafeMap" where
  "NewIndexer = NewThreadSafeStore name_indexers fmempty"

subsection \<open>Deltas\<close>

datatype DeltaType = DSync | DAdded | DUpdated | DDeleted

text \<open>\<open>syncing\<close>: the listener takes part in the present resync; notices of other syncs it does not get.
  The result has False for an error, then the store, and the notices passed on; None is a panic.\<close>

definition distribute :: "bool \<Rightarrow> bool \<Rightarrow> notice \<Rightarrow> notice list \<Rightarrow> notice list" where
  "distribute syncing sync n out = (if sync then (if syncing then out @ [n] else out) else out @ [n])"

fun HandleDeltas ::
    "ix_order \<Rightarrow> bool \<Rightarrow> (DeltaType \<times> kobj) list \<Rightarrow> kobj threadSafeMap \<Rightarrow> notice list \<Rightarrow>
     (bool \<times> kobj threadSafeMap \<times> notice list) option" where
  "HandleDeltas ord syncing [] ix out = Some (True, ix, out)"
| "HandleDeltas ord syncing ((dType, obj) # ds) ix out =
     (case DeletionHandlingMetaNamespaceKeyFunc obj of
        None \<Rightarrow> Some (False, ix, out)
      | Some key \<Rightarrow>
          if dType \<noteq> DDeleted then
            (case tsGet key ix of
               Some old \<Rightarrow> do {
                 ix1 \<leftarrow> tsUpdate ord key obj ix;
                 HandleDeltas ord syncing ds ix1 (distribute syncing (dType = DSync) (Changed old obj) out)
               }
             | None \<Rightarrow> do {
                 ix1 \<leftarrow> tsAdd ord key obj ix;
                 HandleDeltas ord syncing ds ix1 (distribute syncing (dType = DSync) (Added obj) out)
               })
          else do {
            ix1 \<leftarrow> tsDelete ord key ix;
            HandleDeltas ord syncing ds ix1 (distribute syncing False (Deleted obj) out)
          })"

subsection \<open>What a cache holds\<close>

text \<open>Kubernetes' names have no slash, so keys are unambiguous.\<close>

definition slash_free :: "resourceKey \<Rightarrow> bool" where
  "slash_free key \<longleftrightarrow> CHR ''/'' \<notin> set (rkNamespace key) \<and> CHR ''/'' \<notin> set (rkName key)"

definition store_key :: "resourceKey \<Rightarrow> string" where
  "store_key key = key_text (rkNamespace key) (rkName key)"

lemma split_slash: "x \<notin> set as \<Longrightarrow> x \<notin> set as' \<Longrightarrow> as @ x # bs = as' @ x # bs' \<longleftrightarrow> as = as' \<and> bs = bs'"
  by (induction as arbitrary: as') (case_tac as'; auto)+

lemma store_key_inj:
  assumes "slash_free key" and "slash_free key'" and "rkKind key = rkKind key'" and "store_key key = store_key key'"
  shows "key = key'"
proof -
  have slash: "CHR ''/'' \<in> set (store_key k) \<longleftrightarrow> rkNamespace k \<noteq> []" if "slash_free k" for k
    using that by (auto simp: slash_free_def store_key_def key_text_def)
  have "rkNamespace key = rkNamespace key' \<and> rkName key = rkName key'"
  proof (cases "rkNamespace key = []")
    case True
    with slash [OF assms(1)] slash [OF assms(2)] assms(4) show ?thesis by (simp add: store_key_def key_text_def)
  next
    case False
    then have "rkNamespace key' \<noteq> []" using slash [OF assms(1)] slash [OF assms(2)] assms(4) by simp
    with False assms(4) split_slash [of "CHR ''/''" "rkNamespace key" "rkNamespace key'" "rkName key" "rkName key'"] assms(1,2)
    show ?thesis by (simp add: slash_free_def store_key_def key_text_def)
  qed
  with assms(3) show ?thesis by (cases key; cases key') simp
qed

text \<open>The objects of an informer: all of one kind, each under the key of its metadata.\<close>

definition informer_ok :: "string \<Rightarrow> kobj threadSafeMap \<Rightarrow> bool" where
  "informer_ok kind ix \<longleftrightarrow>
     ts_ok ix \<and> tsIndexers ix = name_indexers \<and>
     (\<forall>k obj. fmlookup (tsItems ix) k = Some obj \<longrightarrow>
        (\<exists>key. obj_key obj = Some key \<and> rkKind key = kind \<and> slash_free key \<and> k = store_key key))"

definition cached_in :: "string \<Rightarrow> kobj threadSafeMap \<Rightarrow> resourceKey \<Rightarrow> kobj option" where
  "cached_in kind ix key =
     (if rkKind key = kind \<and> slash_free key then fmlookup (tsItems ix) (store_key key) else None)"

lemma obj_key_accessor: "obj_key obj = Some key \<Longrightarrow> accessor obj = Some (rkNamespace key, rkName key)"
  by (cases obj) (auto simp: obj_key_def)

lemma obj_key_text: "obj_key obj = Some key \<Longrightarrow> DeletionHandlingMetaNamespaceKeyFunc obj = Some (store_key key)"
  using obj_key_accessor [of obj key]
  by (auto simp: DeletionHandlingMetaNamespaceKeyFunc_def MetaNamespaceKeyFunc_def store_key_def split: kobj.splits)

lemma obj_key_index: "obj_key obj = Some key \<Longrightarrow> MetaNameIndexFunc obj = Some [rkName key]"
  by (simp add: MetaNameIndexFunc_def obj_key_accessor)

lemma name_indexers_lookup: "fmlookup name_indexers name = Some f \<longleftrightarrow> name = ''name'' \<and> f = MetaNameIndexFunc"
  by (auto simp: name_indexers_def)

lemma informer_ok_new: "informer_ok kind NewIndexer"
  by (simp add: informer_ok_def NewIndexer_def ts_ok_new) (simp add: NewThreadSafeStore_def)

lemma cached_in_key:
  assumes "informer_ok kind ix" and "cached_in kind ix key = Some obj"
  shows "obj_key obj = Some key"
  using assms store_key_inj by (auto simp: informer_ok_def cached_in_def split: if_splits) metis

subsection \<open>Putting and deleting\<close>

lemma informer_put:
  assumes "fair_range ord" and "informer_ok kind ix" and "obj_key obj = Some key" and "rkKind key = kind" and "slash_free key"
  shows "\<exists>ix'. tsAdd ord (store_key key) obj ix = Some ix' \<and> informer_ok kind ix' \<and>
    cached_in kind ix' = (cached_in kind ix)(key \<mapsto> obj)"
proof -
  from assms(2) have ix: "ts_ok ix" "tsIndexers ix = name_indexers" by (simp_all add: informer_ok_def)
  have "\<forall>name f. fmlookup (tsIndexers ix) name = Some f \<longrightarrow> f obj \<noteq> None"
    using ix(2) obj_key_index [OF assms(3)] by (simp add: name_indexers_lookup)
  from ts_put [where obj = obj and key = "store_key key", OF assms(1) ix(1) this] obtain ix' where p: "tsAdd ord (store_key key) obj ix = Some ix'" "ts_ok ix'"
      "tsIndexers ix' = tsIndexers ix" "fmlookup (tsItems ix') = (fmlookup (tsItems ix))(store_key key \<mapsto> obj)"
    by blast
  have "informer_ok kind ix'"
    using assms(2-5) p(2-4) by (auto simp: informer_ok_def)
  moreover have "cached_in kind ix' = (cached_in kind ix)(key \<mapsto> obj)"
    using assms(4,5) p(4) store_key_inj [of _ key] by (auto simp: cached_in_def)
  ultimately show ?thesis using p(1) by blast
qed

lemma informer_drop:
  assumes "fair_range ord" and "informer_ok kind ix" and "rkKind key = kind" and "slash_free key"
  shows "\<exists>ix'. tsDelete ord (store_key key) ix = Some ix' \<and> informer_ok kind ix' \<and>
    cached_in kind ix' = (cached_in kind ix)(key := None)"
proof -
  from assms(2) have ix: "ts_ok ix" "tsIndexers ix = name_indexers" by (simp_all add: informer_ok_def)
  from ts_drop [where key = "store_key key", OF assms(1) ix(1)] obtain ix' where p: "tsDelete ord (store_key key) ix = Some ix'" "ts_ok ix'"
      "tsIndexers ix' = tsIndexers ix" "fmlookup (tsItems ix') = (fmlookup (tsItems ix))(store_key key := None)"
    by blast
  have "informer_ok kind ix'"
    using assms(2) p(2-4) by (auto simp: informer_ok_def split: if_splits)
  moreover have "cached_in kind ix' = (cached_in kind ix)(key := None)"
    using assms(3,4) p(4) store_key_inj [of _ key] by (auto simp: cached_in_def)
  ultimately show ?thesis using p(1) by blast
qed

subsection \<open>Look-ups by name\<close>

definition name_store :: "kobj threadSafeMap \<Rightarrow> bool" where
  "name_store ix \<longleftrightarrow> ts_ok ix \<and> tsIndexers ix = name_indexers"

lemma name_store_laws:
  assumes "fair_range ord"
  shows "indexed_store (tsAdd ord) (tsDelete ord) (tsByIndex ''name'') name_store (\<lambda>ix. fmlookup (tsItems ix)) MetaNameIndexFunc"
proof
  fix ix :: "kobj threadSafeMap" and obj key val
  assume ix: "name_store ix"
  show "\<exists>ix'. tsDelete ord key ix = Some ix' \<and> name_store ix' \<and> fmlookup (tsItems ix') = (fmlookup (tsItems ix))(key := None)"
    using ts_drop [OF assms, of ix key] ix by (auto simp: name_store_def)
  show "\<exists>ks. tsByIndex ''name'' val ix = Some (map (fmlookup (tsItems ix)) ks) \<and> distinct ks \<and>
      set ks = {key. \<exists>obj. fmlookup (tsItems ix) key = Some obj \<and> has_val MetaNameIndexFunc val obj}"
    by (rule ts_by_index) (use ix in \<open>simp_all add: name_store_def name_indexers_lookup\<close>)
  assume "MetaNameIndexFunc obj \<noteq> None"
  then have "\<forall>name f. fmlookup (tsIndexers ix) name = Some f \<longrightarrow> f obj \<noteq> None"
    using ix by (simp add: name_store_def name_indexers_lookup)
  from ts_put [OF assms _ this] ix
  show "\<exists>ix'. tsAdd ord key obj ix = Some ix' \<and> name_store ix' \<and> fmlookup (tsItems ix') = (fmlookup (tsItems ix))(key \<mapsto> obj)"
    by (auto simp: name_store_def)
qed

interpretation by_name: indexed_store "tsAdd ascending" "tsDelete ascending" "tsByIndex ''name''" name_store
    "\<lambda>ix. fmlookup (tsItems ix)" MetaNameIndexFunc
  by (rule name_store_laws [OF fair_ascending])

lemma lookup_by_name:
  assumes "informer_ok kind ix" and "rkKind key = kind" and "slash_free key"
  shows "\<exists>objs. tsByIndex ''name'' (rkName key) ix = Some (map Some objs) \<and>
    filter (\<lambda>obj. obj_key obj = Some key) objs = opt_list (cached_in kind ix key)"
proof -
  have one: "k = store_key key" if "fmlookup (tsItems ix) k = Some obj" "obj_key obj = Some key" for k obj
    using assms(1) that unfolding informer_ok_def by fastforce
  have val: "has_val MetaNameIndexFunc (rkName key) obj" if "obj_key obj = Some key" for obj
    using obj_key_index [OF that] by (simp add: has_val_def)
  have store: "name_store ix" using assms(1) by (simp add: name_store_def informer_ok_def)
  have "\<exists>objs. tsByIndex ''name'' (rkName key) ix = Some (map Some objs) \<and>
      filter (\<lambda>obj. obj_key obj = Some key) objs = (case fmlookup (tsItems ix) (store_key key) of
        Some obj \<Rightarrow> (if obj_key obj = Some key then [obj] else []) | None \<Rightarrow> [])"
    by (rule by_name.by_index_one) (fact store one val)+
  then obtain objs where
    "tsByIndex ''name'' (rkName key) ix = Some (map Some objs)"
    "filter (\<lambda>obj. obj_key obj = Some key) objs = (case fmlookup (tsItems ix) (store_key key) of
        Some obj \<Rightarrow> (if obj_key obj = Some key then [obj] else []) | None \<Rightarrow> [])"
    by blast
  moreover have "(case fmlookup (tsItems ix) (store_key key) of
        Some obj \<Rightarrow> (if obj_key obj = Some key then [obj] else []) | None \<Rightarrow> []) = opt_list (cached_in kind ix key)"
  proof (cases "fmlookup (tsItems ix) (store_key key)")
    case (Some obj)
    then have "cached_in kind ix key = Some obj" using assms(2,3) by (simp add: cached_in_def)
    with cached_in_key [OF assms(1) this] Some show ?thesis by simp
  qed (simp add: cached_in_def)
  ultimately show ?thesis by metis
qed

text \<open>What \<open>syncResource\<close> gets from the informer, as the objects that it casts.\<close>

definition found_objects :: "kenv \<Rightarrow> rsInformer \<Rightarrow> resourceKey \<Rightarrow> kobj list option" where
  "found_objects env rsInf key =
     (if rkKind key = ''ConfigMap'' then map_option (map KConfigMap) (cmByName env rsInf (rkName key))
      else map_option (map KIngress) (ingByName env rsInf (rkName key)))"

lemma filter_kinds:
  "rkKind key = ''ConfigMap'' \<Longrightarrow>
     filter (\<lambda>obj. obj_key obj = Some key) (map KConfigMap cms) = map KConfigMap (filter (is_cm key) cms)"
  "rkKind key = ''Ingress'' \<Longrightarrow>
     filter (\<lambda>obj. obj_key obj = Some key) (map KIngress ings) = map KIngress (filter (is_resource key) ings)"
  by (cases key; induction cms; auto simp: obj_key_def is_cm_def)
    (cases key; induction ings; auto simp: obj_key_def is_resource_def)

text \<open>A cache that answers look-ups as the informer's does answers as Kube_Cache assumes.\<close>

lemma informer_answers:
  assumes "informer_ok (rkKind key) ix" and "slash_free key" and "rkKind key \<in> {''ConfigMap'', ''Ingress''}"
    and "getResourceInformer c (rkNamespace key) = Some rsInf"
    and "map_option (map Some) (found_objects env rsInf key) = tsByIndex ''name'' (rkName key) ix"
  shows "answers c (cached_in (rkKind key) ix key) key env"
proof -
  obtain objs where objs: "tsByIndex ''name'' (rkName key) ix = Some (map Some objs)"
      and f: "filter (\<lambda>obj. obj_key obj = Some key) objs = opt_list (cached_in (rkKind key) ix key)"
    using lookup_by_name [OF assms(1) refl assms(2)] by blast
  with assms(5) have found: "found_objects env rsInf key = Some objs" by (auto simp: inj_map_eq_map)
  from assms(3) consider "rkKind key = ''ConfigMap''" | "rkKind key = ''Ingress''" by blast
  then show ?thesis
  proof cases
    case 1
    with found obtain cms where "cmByName env rsInf (rkName key) = Some cms" "objs = map KConfigMap cms"
      by (auto simp: found_objects_def)
    with f show ?thesis by (simp add: answers_def assms(4) 1 filter_kinds(1) [OF 1])
  next
    case 2
    with found obtain ings where "ingByName env rsInf (rkName key) = Some ings" "objs = map KIngress ings"
      by (auto simp: found_objects_def)
    with f show ?thesis by (simp add: answers_def assms(4) 2 filter_kinds(2) [OF 2])
  qed
qed

subsection \<open>Deltas are changes\<close>

definition object_of :: "string \<Rightarrow> kobj \<Rightarrow> bool" where
  "object_of kind obj \<longleftrightarrow> (case obj_key obj of None \<Rightarrow> False | Some key \<Rightarrow> rkKind key = kind \<and> slash_free key)"

text \<open>The notices, each on what the cache has at the time, lead from one cache to the other.\<close>

fun notice_key :: "notice \<Rightarrow> resourceKey option" where
  "notice_key (Added obj) = obj_key obj"
| "notice_key (Changed old cur) = obj_key cur"
| "notice_key (Deleted obj) = obj_key obj"

fun follows :: "(resourceKey \<Rightarrow> kobj option) \<Rightarrow> notice list \<Rightarrow> (resourceKey \<Rightarrow> kobj option) \<Rightarrow> bool" where
  "follows cache [] cache' \<longleftrightarrow> cache' = cache"
| "follows cache (n # ns) cache' \<longleftrightarrow>
     (case notice_key n of None \<Rightarrow> False
      | Some key \<Rightarrow> fits (cache key) n \<and> about key n \<and> follows (cache(key := after n)) ns cache')"

lemma HandleDeltas_follows:
  assumes "fair_range ord"
  shows "informer_ok kind ix \<Longrightarrow> list_all (\<lambda>d. object_of kind (snd d)) ds \<Longrightarrow>
    \<exists>ix' ns. HandleDeltas ord True ds ix out = Some (True, ix', out @ ns) \<and> informer_ok kind ix' \<and>
      follows (cached_in kind ix) ns (cached_in kind ix')"
proof (induction ds arbitrary: ix out)
  case Nil
  then show ?case by auto
next
  case (Cons d ds)
  obtain t obj where d: "d = (t, obj)" by fastforce
  with Cons.prems(2) obtain key where key: "obj_key obj = Some key" "rkKind key = kind" "slash_free key"
    by (auto simp: object_of_def split: option.splits)
  from Cons.prems(2) have rest: "list_all (\<lambda>d. object_of kind (snd d)) ds" by simp
  have out: "distribute True sync n out = out @ [n]" for sync n by (simp add: distribute_def)
  show ?case
  proof (cases "t = DDeleted")
    case True
    obtain ix1 where del: "tsDelete ord (store_key key) ix = Some ix1" and ok: "informer_ok kind ix1"
        and c: "cached_in kind ix1 = (cached_in kind ix)(key := None)"
      using informer_drop [OF assms Cons.prems(1) key(2,3)] by blast
    from Cons.IH [OF ok rest, of "out @ [Deleted obj]", unfolded c] obtain ix' ns where
      "HandleDeltas ord True ds ix1 (out @ [Deleted obj]) = Some (True, ix', (out @ [Deleted obj]) @ ns)"
      "informer_ok kind ix'" "follows ((cached_in kind ix)(key := None)) ns (cached_in kind ix')"
      by blast
    then show ?thesis
      by (intro exI [of _ ix'] exI [of _ "Deleted obj # ns"]) (simp add: d True obj_key_text [OF key(1)] del out key(1) about_def)
  next
    case False
    obtain ix1 where put: "tsAdd ord (store_key key) obj ix = Some ix1" and ok: "informer_ok kind ix1"
        and c: "cached_in kind ix1 = (cached_in kind ix)(key \<mapsto> obj)"
      using informer_put [OF assms Cons.prems(1) key] by blast
    let ?n = "case tsGet (store_key key) ix of None \<Rightarrow> Added obj | Some old \<Rightarrow> Changed old obj"
    from Cons.IH [OF ok rest, of "out @ [?n]", unfolded c] obtain ix' ns where
      h: "HandleDeltas ord True ds ix1 (out @ [?n]) = Some (True, ix', (out @ [?n]) @ ns)"
      "informer_ok kind ix'" "follows ((cached_in kind ix)(key \<mapsto> obj)) ns (cached_in kind ix')"
      by blast
    have get: "tsGet (store_key key) ix = cached_in kind ix key" using key(2,3) by (simp add: tsGet_def cached_in_def)
    have n: "notice_key ?n = Some key" "fits (cached_in kind ix key) ?n" "about key ?n" "after ?n = Some obj"
      using key(1) cached_in_key [OF Cons.prems(1)] by (auto simp: get about_def split: option.splits)
    have "HandleDeltas ord True (d # ds) ix out = HandleDeltas ord True ds ix1 (out @ [?n])"
      by (simp add: d False obj_key_text [OF key(1)] tsUpdate_is_Add put out split: option.split)
    with h n show ?thesis by (intro exI [of _ ix'] exI [of _ "?n # ns"]) simp
  qed
qed

text \<open>Notices that lead from one cache to the other are changes of a run of Kube_Cache.\<close>

lemma follows_run:
  "follows (cached s) ns cache' \<Longrightarrow> cache_run ipam outs s \<Longrightarrow>
     (\<forall>n \<in> set ns. \<forall>key. notice_key n = Some key \<longrightarrow> getResourceInformer (kube s) (rkNamespace key) \<noteq> None) \<Longrightarrow>
     \<exists>s'. cache_run ipam outs s' \<and> kube s' = kube s \<and> cached s' = cache'"
proof (induction ns arbitrary: s)
  case (Cons n ns)
  from Cons.prems(1) obtain key where n: "notice_key n = Some key" "fits (cached s key) n" "about key n"
      and rest: "follows ((cached s)(key := after n)) ns cache'"
    by (auto split: option.splits)
  let ?s = "s\<lparr>cached := (cached s)(key := after n), notices := (notices s)(key := notices s key @ [n])\<rparr>"
  have "getResourceInformer (kube s) (rkNamespace key) \<noteq> None" using Cons.prems(3) n(1) by simp
  from cache_run.step [OF Cons.prems(2) cache_step.change [OF n(2,3) this]] have "cache_run ipam outs ?s" .
  from Cons.IH [of ?s, OF _ this] rest Cons.prems(3) show ?case by (simp del: fun_upd_apply not_None_eq)
qed auto

text \<open>C13. An informer's cache is a map from resources to objects, and its notices are its changes:
  whatever deltas the API server sends for ConfigMaps or for Ingresses, in whatever order the index
  functions are visited, the informer takes them without an error or a panic; it passes on one
  notice for each, which says what the cache had and what it has now; and looking a name up in the
  index finds, under a namespace, exactly the object that the deltas have left there.\<close>

theorem informer_refines:
  assumes "fair_range ord" and "list_all (\<lambda>d. object_of kind (snd d)) ds"
  shows "\<exists>ix ns. HandleDeltas ord True ds NewIndexer [] = Some (True, ix, ns) \<and>
    follows (\<lambda>key. None) ns (cached_in kind ix) \<and>
    (\<forall>key. rkKind key = kind \<longrightarrow> slash_free key \<longrightarrow>
       (\<exists>objs. tsByIndex ''name'' (rkName key) ix = Some (map Some objs) \<and>
          filter (\<lambda>obj. obj_key obj = Some key) objs = opt_list (cached_in kind ix key)))"
proof -
  from HandleDeltas_follows [OF assms(1) informer_ok_new assms(2), of "[]"] obtain ix ns where
      h: "HandleDeltas ord True ds NewIndexer [] = Some (True, ix, ns)" "informer_ok kind ix"
      "follows (cached_in kind NewIndexer) ns (cached_in kind ix)"
    by auto
  moreover have "cached_in kind NewIndexer = (\<lambda>key. None)"
    by (simp add: cached_in_def NewIndexer_def NewThreadSafeStore_def fun_eq_iff)
  ultimately show ?thesis using lookup_by_name [OF h(2)] by metis
qed

definition demo_deltas :: "(DeltaType \<times> kobj) list" where
  "demo_deltas = [(DAdded, KIngress (demo_ingress net8 [''a''])), (DUpdated, KIngress (demo_ingress net8 [''a'', ''b'']))]"

theorem informer_refines_witness:
  "\<exists>ix ns. HandleDeltas ascending True demo_deltas NewIndexer [] = Some (True, ix, ns) \<and>
     follows (\<lambda>key. None) ns (cached_in ''Ingress'' ix) \<and>
     tsByIndex ''name'' ''web'' ix = Some [Some (KIngress (demo_ingress net8 [''a'', ''b'']))]"
proof -
  have obj: "list_all (\<lambda>d. object_of ''Ingress'' (snd d)) demo_deltas" by code_simp
  have "case HandleDeltas ascending True demo_deltas NewIndexer [] of
      None \<Rightarrow> False
    | Some (ok, ix, ns) \<Rightarrow> tsByIndex ''name'' ''web'' ix = Some [Some (KIngress (demo_ingress net8 [''a'', ''b'']))]"
    by code_simp
  then show ?thesis using informer_refines [OF fair_ascending obj] by (fastforce split: option.splits)
qed

end
