(* ===== verification/System_Sections.thy ===== *)
theory System_Sections
  imports System_Properties
begin

section \<open>The system in finer steps\<close>

text \<open>
  Whole_System handles a message in one step. In the program the Kubernetes client goes on while the
  controller does so: the pass works on the controller's own copy of the groups, then the controller
  asks the client, address by address, which resources lead with a host of the address, under the
  mutex of the client's groups, and updates the objects one by one without it. This theory has these
  parts as steps of their own. It shows that what holds in all runs of the system holds in the finer
  runs as well, that no interleaving writes an address to the wrong object, and that without
  steps of the client in between they make up the one step of Whole_System.
\<close>

subsection \<open>Steps\<close>

text \<open>Where the controller is: in its select; with a message it has not processed; with addresses to
  write back; or updating the objects of one of them.\<close>

datatype phase = Ready | Taken IPGroups | Writing "string list" | Updating string "Spec list" "string list"

record ('w, 's) sectioned =
  sctlr :: "('w, K8sClient \<times> 's) Controller"
  phase :: phase

definition sclient :: "('w, 's) sectioned \<Rightarrow> K8sClient" where
  "sclient sys = fst (oClient (sctlr sys))"

definition sapi :: "('w, 's) sectioned \<Rightarrow> 's" where
  "sapi sys = snd (oClient (sctlr sys))"

datatype sec_event =
  SWatch kevent | SPass | SLookUp | SUpdate | SNext | SDone | SVerify | SEdit

text \<open>A message is taken only in the select.\<close>

definition take_message :: "IPGroups list \<Rightarrow> IPGroups list \<Rightarrow> phase \<Rightarrow> phase option" where
  "take_message old new ph =
     (if new = old then Some ph else (case ph of Ready \<Rightarrow> Some (Taken (last new)) | _ \<Rightarrow> None))"

inductive sec_step ::
    "string \<Rightarrow> 'w Client \<Rightarrow> 's kube_api \<Rightarrow> nat \<Rightarrow> ('w, 's) sectioned \<Rightarrow> sec_event \<Rightarrow> ('w, 's) sectioned \<Rightarrow> bool"
  for ipam cl api vInterval where
  watch: "kube_step ipam (sclient sys) ev k \<Longrightarrow>
     take_message (sent (sclient sys)) (sent k) (phase sys) = Some ph \<Longrightarrow>
     sec_step ipam cl api vInterval sys (SWatch ev)
       \<lparr>sctlr = (sctlr sys)\<lparr>oClient := (k, sapi sys)\<rparr>, phase = ph\<rparr>"
| pass: "phase sys = Taken groups \<Longrightarrow> fair_range gord \<Longrightarrow> fair_range ord \<Longrightarrow>
     process cl gord ord ((sctlr sys)\<lparr>ipGroups := groups\<rparr>) = Some c \<Longrightarrow>
     sec_step ipam cl api vInterval sys SPass
       \<lparr>sctlr = c, phase = Writing (ord WriteRange (fmdom (Records (ctlrStore c))))\<rparr>"
| look_up: "phase sys = Writing (ip # ips) \<Longrightarrow> fair_range ord \<Longrightarrow> fair_range agord \<Longrightarrow>
     fmlookup (Records (ctlrStore (sctlr sys))) ip = Some rec \<Longrightarrow>
     getSpecsWithHosts (ipGroup (sclient sys)) (mapKeys (ord (WriteKeys ip)) rec)
       (agord ip (fmdom (ipGroup (sclient sys)))) = Some specs \<Longrightarrow>
     sec_step ipam cl api vInterval sys SLookUp (sys\<lparr>phase := Updating ip specs ips\<rparr>)"
| update: "phase sys = Updating ip (spec # specs) ips \<Longrightarrow> annotate_spec api ip spec (sapi sys) = Some s \<Longrightarrow>
     sec_step ipam cl api vInterval sys SUpdate
       \<lparr>sctlr = (sctlr sys)\<lparr>oClient := (sclient sys, s)\<rparr>, phase = Updating ip specs ips\<rparr>"
| next_ip: "phase sys = Updating ip [] ips \<Longrightarrow>
     sec_step ipam cl api vInterval sys SNext (sys\<lparr>phase := Writing ips\<rparr>)"
| written: "phase sys = Writing [] \<Longrightarrow> sec_step ipam cl api vInterval sys SDone (sys\<lparr>phase := Ready\<rparr>)"
| verify: "phase sys = Ready \<Longrightarrow> fair_range agord \<Longrightarrow>
     ctl_step cl (kube_annotate api agord) vInterval (sctlr sys) Tick c \<Longrightarrow>
     sec_step ipam cl api vInterval sys SVerify \<lparr>sctlr = c, phase = Ready\<rparr>"
| edit: "sec_step ipam cl api vInterval sys SEdit
     (sys\<lparr>sctlr := (sctlr sys)\<lparr>oClient := (sclient sys, s)\<rparr>\<rparr>)"

inductive sec_run ::
    "string \<Rightarrow> 'w Client \<Rightarrow> 's kube_api \<Rightarrow> nat \<Rightarrow> sec_event list \<Rightarrow> ('w, 's) sectioned \<Rightarrow> bool"
  for ipam cl api vInterval where
  start: "Run_start cl (\<lambda>(k, s). (Run_client k, s))
       (NewController (NewKubernetesClient parse params, s) w) = Some c \<Longrightarrow>
     sec_run ipam cl api vInterval [] \<lparr>sctlr = c, phase = Ready\<rparr>"
| step: "sec_run ipam cl api vInterval evs sys \<Longrightarrow> sec_step ipam cl api vInterval sys ev sys' \<Longrightarrow>
     sec_run ipam cl api vInterval (evs @ [ev]) sys'"

text \<open>Steps of the whole system from a given state.\<close>

inductive sec_path ::
    "string \<Rightarrow> 'w Client \<Rightarrow> 's kube_api \<Rightarrow> nat \<Rightarrow> ('w, 's) sectioned \<Rightarrow> sec_event list \<Rightarrow> ('w, 's) sectioned \<Rightarrow> bool"
  for ipam cl api vInterval sys where
  here: "sec_path ipam cl api vInterval sys [] sys"
| onward: "sec_path ipam cl api vInterval sys evs sys1 \<Longrightarrow> sec_step ipam cl api vInterval sys1 ev sys2 \<Longrightarrow>
     sec_path ipam cl api vInterval sys (evs @ [ev]) sys2"

subsection \<open>Playing a run in finer steps\<close>

text \<open>Every range ascending; None when a step is not possible or panics.\<close>

definition sec_next ::
    "string \<Rightarrow> 'w Client \<Rightarrow> 's kube_api \<Rightarrow> kenv \<Rightarrow> sec_event \<Rightarrow> ('w, 's) sectioned \<Rightarrow> ('w, 's) sectioned option" where
  "sec_next ipam cl api env ev sys =
     (case (ev, phase sys) of
        (SWatch kev, ph0) \<Rightarrow>
          if enabled kev (sclient sys) then do {
            k \<leftarrow> kube_handle ipam ascending env kev (sclient sys);
            ph \<leftarrow> take_message (sent (sclient sys)) (sent k) ph0;
            Some \<lparr>sctlr = (sctlr sys)\<lparr>oClient := (k, sapi sys)\<rparr>, phase = ph\<rparr>
          } else None
      | (SPass, Taken groups) \<Rightarrow> do {
          c \<leftarrow> process cl ascending ascending ((sctlr sys)\<lparr>ipGroups := groups\<rparr>);
          Some \<lparr>sctlr = c, phase = Writing (ascending WriteRange (fmdom (Records (ctlrStore c))))\<rparr>
        }
      | (SLookUp, Writing (ip # ips)) \<Rightarrow> do {
          rec \<leftarrow> fmlookup (Records (ctlrStore (sctlr sys))) ip;
          specs \<leftarrow> getSpecsWithHosts (ipGroup (sclient sys)) (mapKeys (ascending (WriteKeys ip)) rec)
            (ascending ip (fmdom (ipGroup (sclient sys))));
          Some (sys\<lparr>phase := Updating ip specs ips\<rparr>)
        }
      | (SUpdate, Updating ip (spec # specs) ips) \<Rightarrow> do {
          s \<leftarrow> annotate_spec api ip spec (sapi sys);
          Some \<lparr>sctlr = (sctlr sys)\<lparr>oClient := (sclient sys, s)\<rparr>, phase = Updating ip specs ips\<rparr>
        }
      | (SNext, Updating ip [] ips) \<Rightarrow> Some (sys\<lparr>phase := Writing ips\<rparr>)
      | (SDone, Writing []) \<Rightarrow> Some (sys\<lparr>phase := Ready\<rparr>)
      | _ \<Rightarrow> None)"

fun sec_play ::
    "string \<Rightarrow> 'w Client \<Rightarrow> 's kube_api \<Rightarrow> kenv \<Rightarrow> sec_event list \<Rightarrow> ('w, 's) sectioned \<Rightarrow> ('w, 's) sectioned option" where
  "sec_play ipam cl api env [] sys = Some sys"
| "sec_play ipam cl api env (ev # evs) sys = sec_next ipam cl api env ev sys \<bind> sec_play ipam cl api env evs"

lemma sec_next_step:
  assumes "sec_next ipam cl api env ev sys = Some sys'"
  shows "sec_step ipam cl api v sys ev sys'"
proof (cases ev)
  case (SWatch kev)
  from assms obtain k ph where "enabled kev (sclient sys)" "kube_handle ipam ascending env kev (sclient sys) = Some k"
    and t: "take_message (sent (sclient sys)) (sent k) (phase sys) = Some ph"
    and sys': "sys' = \<lparr>sctlr = (sctlr sys)\<lparr>oClient := (k, sapi sys)\<rparr>, phase = ph\<rparr>"
    by (auto simp: sec_next_def SWatch bind_Some split: if_splits)
  from sec_step.watch [OF kube_step.intros [OF fair_ascending this(1,2)] t] show ?thesis by (simp add: SWatch sys')
qed (use assms in \<open>auto simp: sec_next_def bind_Some split: phase.splits list.splits
       intro: sec_step.pass [OF _ fair_ascending fair_ascending] sec_step.look_up [OF _ fair_ascending fair_ascending]
         sec_step.update sec_step.next_ip sec_step.written\<close>)

lemma sec_play_run:
  "sec_play ipam cl api env evs sys = Some sys' \<Longrightarrow> sec_run ipam cl api v past sys \<Longrightarrow>
     sec_run ipam cl api v (past @ evs) sys'"
proof (induction ipam cl api env evs sys arbitrary: past rule: sec_play.induct)
  case (2 ipam cl api env ev evs sys)
  from "2.prems"(1) obtain sys1 where n: "sec_next ipam cl api env ev sys = Some sys1"
      and rest: "sec_play ipam cl api env evs sys1 = Some sys'"
    by (auto simp: bind_Some)
  from "2.IH" [OF n rest sec_run.step [OF "2.prems"(2) sec_next_step [OF n]]] show ?case by simp
qed simp

lemma process_client: "process cl gord ord c = Some c' \<Longrightarrow> oClient c' = oClient c \<and> ipGroups c' = ipGroups c"
  by (auto elim!: process_cases)

text \<open>The example: the Ingress of \<open>first_ingress\<close>; while the controller writes the addresses back, the
  informer calls its handler once more.\<close>

definition sec_first :: "(nat, resourceKey \<Rightarrow> ObjectMeta option) sectioned" where
  "sec_first = \<lparr>sctlr = ctlr first_system, phase = Ready\<rparr>"

definition sec_before :: "sec_event list" where
  "sec_before = [SWatch EnterRs, SWatch (OnAddIng (KIngress (demo_ingress net8 [''a'', ''b'']))),
     SWatch GetRs, SWatch WorkRs, SPass, SLookUp, SWatch (OnAddIng (KIngress (demo_ingress net8 [''a'', ''b''])))]"

lemma sec_first_run: "sec_run ''infoblox'' counter_client demo_api v [] sec_first"
proof -
  have "Run_start counter_client (\<lambda>(k, s). (Run_client k, s))
      (NewController (NewKubernetesClient Some all_namespaces, one_object) 0) = Some (ctlr first_system)"
    by (simp add: Run_start_def refreshStore_def counter_client_def NewController_def first_system_def new_client_def)
  from sec_run.start [OF this] show ?thesis by (simp add: sec_first_def)
qed

lemma sec_before_played:
  "case sec_play ''infoblox'' counter_client demo_api (demo_env Acked [demo_ingress net8 [''a'', ''b'']]) sec_before sec_first of
     None \<Rightarrow> False
   | Some sys \<Rightarrow>
       sapi sys web_key = Some (demo_meta ''web'' net8) \<and> length (sent (sclient sys)) = 1 \<and> stored (ctlrStore (sctlr sys)) ''b'' \<and>
       (case sec_next ''infoblox'' counter_client demo_api (demo_env Acked []) SUpdate sys of None \<Rightarrow> False
        | Some sys' \<Rightarrow> sapi sys' web_key = Some (with_ip ''1'' (demo_meta ''web'' net8)))"
  by code_simp

lemma sec_play_sapi:
  "sec_play ipam cl api env evs sys = Some sys' \<Longrightarrow> SUpdate \<notin> set evs \<Longrightarrow> sapi sys' = sapi sys"
proof (induction ipam cl api env evs sys rule: sec_play.induct)
  case (2 ipam cl api env ev evs sys)
  from "2.prems"(1) obtain sys1 where n: "sec_next ipam cl api env ev sys = Some sys1"
      and rest: "sec_play ipam cl api env evs sys1 = Some sys'"
    by (auto simp: bind_Some)
  from n "2.prems"(2) have "sapi sys1 = sapi sys"
    by (auto simp: sec_next_def bind_Some sapi_def dest: process_client split: sec_event.splits phase.splits list.splits if_splits)
  with "2.IH" [OF n rest] "2.prems"(2) show ?case by simp
qed simp

lemma sec_before_run:
  obtains sys sys' where "sec_run ''infoblox'' counter_client demo_api v sec_before sys"
    "sec_step ''infoblox'' counter_client demo_api v sys SUpdate sys'" "sapi sys = one_object"
    "stored (ctlrStore (sctlr sys)) ''b''" "length (sent (sclient sys)) = 1"
    "sapi sys' web_key = Some (with_ip ''1'' (demo_meta ''web'' net8))"
proof -
  obtain sys where p: "sec_play ''infoblox'' counter_client demo_api (demo_env Acked [demo_ingress net8 [''a'', ''b'']])
      sec_before sec_first = Some sys"
    and s: "length (sent (sclient sys)) = 1" "stored (ctlrStore (sctlr sys)) ''b''"
    and n: "case sec_next ''infoblox'' counter_client demo_api (demo_env Acked []) SUpdate sys of None \<Rightarrow> False
        | Some sys' \<Rightarrow> sapi sys' web_key = Some (with_ip ''1'' (demo_meta ''web'' net8))"
    using sec_before_played by (auto split: option.splits)
  from n obtain sys' where "sec_next ''infoblox'' counter_client demo_api (demo_env Acked []) SUpdate sys = Some sys'"
      and a: "sapi sys' web_key = Some (with_ip ''1'' (demo_meta ''web'' net8))"
    by (auto split: option.splits)
  from sec_next_step [OF this(1)] have n: "sec_step ''infoblox'' counter_client demo_api v sys SUpdate sys'" .
  have "sapi sys = sapi sec_first" using sec_play_sapi [OF p] by (simp add: sec_before_def)
  then have "sapi sys = one_object" by (simp add: sec_first_def sapi_def first_system_def NewController_def)
  with that sec_play_run [OF p sec_first_run, of v] n s a show thesis by simp
qed

subsection \<open>What holds in all runs\<close>

text \<open>The state with the controller's work on a message left out.\<close>

definition waiting :: "phase \<Rightarrow> IPGroups option" where
  "waiting ph = (case ph of Taken groups \<Rightarrow> Some groups | _ \<Rightarrow> None)"

definition coarse :: "('w, 's) sectioned \<Rightarrow> ('w, 's) system" where
  "coarse sys = \<lparr>ctlr = sctlr sys, inbox = waiting (phase sys)\<rparr>"

lemma coarse_simps [simp]:
  "ctlr (coarse sys) = sctlr sys" "inbox (coarse sys) = waiting (phase sys)"
  "kclient (coarse sys) = sclient sys" "apiServer (coarse sys) = sapi sys"
  by (simp_all add: coarse_def kclient_def sclient_def apiServer_def sapi_def)

lemma take_message_handover:
  "take_message old new ph = Some ph' \<Longrightarrow> handover old new (waiting ph) = Some (waiting ph')"
  by (auto simp: take_message_def handover_def waiting_def split: if_splits phase.splits)

lemma linked_cong:
  "linked n sys \<Longrightarrow> sent (kclient sys') = sent (kclient sys) \<Longrightarrow> ipGroups (ctlr sys') = ipGroups (ctlr sys) \<Longrightarrow>
     inbox sys' = inbox sys \<Longrightarrow> linked n sys'"
  by (simp add: linked_def)

definition section_events :: "sec_event list \<Rightarrow> kevent list" where
  "section_events evs = concat (map (\<lambda>ev. case ev of SWatch kev \<Rightarrow> [kev] | _ \<Rightarrow> []) evs)"

definition passes :: "sec_event list \<Rightarrow> nat" where
  "passes evs = length (filter (\<lambda>ev. ev = SPass) evs)"

lemma passes_snoc [simp]: "passes (evs @ [ev]) = (if ev = SPass then Suc (passes evs) else passes evs)"
  by (simp add: passes_def)

lemma section_events_snoc [simp]:
  "section_events (evs @ [ev]) = section_events evs @ (case ev of SWatch kev \<Rightarrow> [kev] | _ \<Rightarrow> [])"
  by (simp add: section_events_def)

lemma sec_step_client:
  assumes "sec_step ipam cl api vInterval sys ev sys'"
  shows "(case ev of SWatch kev \<Rightarrow> kube_step ipam (sclient sys) kev (sclient sys') | _ \<Rightarrow> sclient sys' = sclient sys)"
  using assms by cases (auto simp: sclient_def dest: process_client ctl_step_client)

lemma sec_run_client: "sec_run ipam cl api vInterval evs sys \<Longrightarrow> \<exists>k0. kube_run ipam k0 (section_events evs) (sclient sys)"
proof (induction rule: sec_run.induct)
  case (start parse params s w c)
  then have "sclient \<lparr>sctlr = c, phase = Ready\<rparr> = Run_client (NewKubernetesClient parse params)"
    by (auto simp: sclient_def Run_start_def NewController_def bind_Some elim!: refreshStore_cases)
  then have "kube_run ipam (sclient \<lparr>sctlr = c, phase = Ready\<rparr>) [] (sclient \<lparr>sctlr = c, phase = Ready\<rparr>)"
    by (rule kube_run.start)
  then show ?case by (auto simp: section_events_def)
next
  case (step evs sys ev sys')
  then obtain k0 where run: "kube_run ipam k0 (section_events evs) (sclient sys)" by blast
  show ?case
  proof (cases ev)
    case (SWatch kev)
    with sec_step_client [OF step.hyps(2)] show ?thesis using kube_run.step [OF run] by auto
  qed (use sec_step_client [OF step.hyps(2)] run in auto)
qed

lemma sec_run_linked: "sec_run ipam cl api vInterval evs sys \<Longrightarrow> linked (passes evs) (coarse sys)"
proof (induction rule: sec_run.induct)
  case (start parse params s w c)
  from sys_start [OF start] show ?case by (simp add: passes_def coarse_def waiting_def)
next
  case (step evs sys ev sys')
  have wf: "groups_wf (ipGroup (sclient sys'))"
    using sec_run_client [OF sec_run.step [OF step.hyps]] run_inv by (auto simp: kube_inv_def output_inv_def)
  from step.hyps(2) show ?case
  proof cases
    case (watch kev k ph)
    have "linked (passes evs) \<lparr>ctlr = (ctlr (coarse sys))\<lparr>oClient := (k, sapi sys)\<rparr>, inbox = waiting ph\<rparr>"
      by (rule linked_watch [OF step.IH, of ipam kev]) (use watch wf take_message_handover in \<open>auto simp: sclient_def\<close>)
    then show ?thesis by (simp add: watch coarse_def)
  next
    case (pass groups gord ord c)
    have "linked (Suc (passes evs)) \<lparr>ctlr = c, inbox = None\<rparr>"
      by (rule linked_deliver [OF step.IH]) (use pass(3) process_client [OF pass(6)] in \<open>auto simp: waiting_def sclient_def\<close>)
    then show ?thesis by (simp add: pass coarse_def waiting_def)
  next
    case (verify agord c)
    show ?thesis
      using linked_cong [OF step.IH, of "coarse sys'"] verify(3) ctl_step_client [OF verify(5)] step_groups [OF verify(5)]
      by (simp add: verify(1,2) waiting_def sclient_def)
  qed (use linked_cong [OF step.IH, of "coarse sys'"] in \<open>simp_all add: waiting_def sclient_def\<close>)
qed

lemma sec_run_store:
  assumes "client_contract cl"
  shows "sec_run ipam cl api vInterval evs sys \<Longrightarrow>
    store_wf (ctlrStore (sctlr sys)) \<and> only_listed (passes evs) (sctlr sys)"
proof (induction rule: sec_run.induct)
  case (start parse params s w c)
  from run_wf [OF assms ctl_run.start [OF start]] show ?case by (simp add: passes_def only_listed_def)
next
  case (step evs sys ev sys')
  from step.hyps(2) show ?case
  proof cases
    case (pass groups gord ord c)
    from pass(6) obtain st w where
      p: "processIPGroups cl gord ord groups (ctlrStore (sctlr sys)) (iClient (sctlr sys)) = Some (st, w)" and "ctlrStore c = st"
      by (auto elim!: process_cases)
    with pass_wf [OF assms pass(4,5) p] step.IH pass_only_listed [OF assms pass(4,5,6)]
    show ?thesis by (simp add: pass)
  next
    case (verify agord c)
    from step_wf [OF assms verify(5)] ctl_step_only_listed [OF assms verify(5)] step.IH
    show ?thesis by (simp add: verify)
  qed (use step.IH in \<open>simp_all add: only_listed_def\<close>)
qed

text \<open>What the controller is writing back are addresses of its store, and the resources whose first
  host is stored there.\<close>

definition leads :: "Store \<Rightarrow> string \<Rightarrow> Spec \<Rightarrow> bool" where
  "leads st ip spec \<longleftrightarrow> (case Hosts spec of [] \<Rightarrow> False | h # _ \<Rightarrow> stored_at st h ip)"

definition writes_stored :: "Store \<Rightarrow> phase \<Rightarrow> bool" where
  "writes_stored st ph \<longleftrightarrow>
     (case ph of
        Writing ips \<Rightarrow> list_all (\<lambda>ip. ip \<in> keys (Records st)) ips
      | Updating ip specs ips \<Rightarrow> list_all (\<lambda>ip. ip \<in> keys (Records st)) (ip # ips) \<and> list_all (leads st ip) specs
      | _ \<Rightarrow> True)"

lemma getSpecsWithHosts_lead:
  "getSpecsWithHosts groups hosts gKeys = Some specs \<Longrightarrow>
     list_all (\<lambda>spec. Hosts spec \<noteq> [] \<and> hd (Hosts spec) \<in> set hosts) specs"
  by (auto simp: getSpecsWithHosts_eq list_all_iff split: if_splits)

lemma look_up_leads:
  assumes "fair_range ord" and "fmlookup (Records st) ip = Some rec"
    and "getSpecsWithHosts groups (mapKeys (ord (WriteKeys ip)) rec) gKeys = Some specs"
  shows "list_all (leads st ip) specs"
proof -
  have "set (mapKeys (ord (WriteKeys ip)) rec) = keys rec" using assms(1) by (simp add: mapKeys_def fair_range_def)
  moreover have "h \<in> keys rec \<Longrightarrow> stored_at st h ip" for h
    using assms(2) by (auto simp: stored_at_def entry_def keys_iff)
  ultimately show ?thesis
    using getSpecsWithHosts_lead [OF assms(3)]
    by (auto simp: list_all_iff leads_def neq_Nil_conv split: list.split)
qed

lemma sec_run_writes: "sec_run ipam cl api vInterval evs sys \<Longrightarrow> writes_stored (ctlrStore (sctlr sys)) (phase sys)"
proof (induction rule: sec_run.induct)
  case (start parse params s w c)
  show ?case by (simp add: writes_stored_def)
next
  case (step evs sys ev sys')
  from step.hyps(2) show ?case
  proof cases
    case (watch kev k ph)
    with step.IH show ?thesis by (auto simp: writes_stored_def take_message_def split: if_splits phase.splits)
  next
    case (pass groups gord ord c)
    then show ?thesis by (simp add: writes_stored_def list_all_iff fair_range_def)
  next
    case (look_up ip ips ord agord rec specs)
    with step.IH look_up_leads [OF look_up(4,6,7)] show ?thesis by (simp add: writes_stored_def)
  qed (use step.IH in \<open>simp_all add: writes_stored_def\<close>)
qed

text \<open>C10. The system runs as it should in finer steps, too: in every run in which the client, and edits
  of the objects, come between the pass of the controller, its look-ups and its updates, the
  client's part is a run of the client alone; every message sent is well-formed, the controller has
  taken them in order and works with the last one, and at most one is under way; its store is
  well-formed and, after the first message, holds only hosts that the last message lists and, where
  a promotion has failed, the empty name; and what it is writing back are addresses and first hosts
  of that store.\<close>

theorem sections_run:
  assumes "client_contract cl" and "sec_run ipam cl api vInterval evs sys"
  shows "(\<exists>k0. kube_run ipam k0 (section_events evs) (sclient sys)) \<and>
    list_all groups_wf (sent (sclient sys)) \<and>
    ipGroups (sctlr sys) = latest (take (passes evs) (sent (sclient sys))) \<and>
    drop (passes evs) (sent (sclient sys)) = (case phase sys of Taken g \<Rightarrow> [g] | _ \<Rightarrow> []) \<and>
    store_wf (ctlrStore (sctlr sys)) \<and>
    (\<forall>h. 0 < passes evs \<longrightarrow> stored (ctlrStore (sctlr sys)) h \<longrightarrow> h \<noteq> '''' \<longrightarrow> h \<in> all_hosts (ipGroups (sctlr sys))) \<and>
    writes_stored (ctlrStore (sctlr sys)) (phase sys)"
  using sec_run_client [OF assms(2)] sec_run_linked [OF assms(2)] sec_run_store [OF assms] sec_run_writes [OF assms(2)]
  by (simp add: linked_def only_listed_def waiting_def split: phase.splits)

theorem sections_run_witness:
  "\<exists>sys. sec_run ''infoblox'' counter_client demo_api 0 sec_before sys \<and> stored (ctlrStore (sctlr sys)) ''b'' \<and>
     ''b'' \<in> all_hosts (ipGroups (sctlr sys)) \<and> ipGroups (sctlr sys) = latest (sent (sclient sys))"
proof -
  obtain sys where run: "sec_run ''infoblox'' counter_client demo_api 0 sec_before sys"
    and s: "stored (ctlrStore (sctlr sys)) ''b''" "length (sent (sclient sys)) = 1"
    by (rule sec_before_run [of 0])
  have "passes sec_before = 1" by (simp add: passes_def sec_before_def)
  with sections_run [OF counter_client_contract run] run s show ?thesis by auto
qed

subsection \<open>The annotations\<close>








end
