(* ===== verification/Sections_Deliver.thy ===== *)
theory Sections_Deliver
  imports System_Sections
begin

section \<open>The finer steps make up the coarse ones\<close>

text \<open>
  The steps of the controller between taking a message and being ready for the next one, with
  nothing in between, do exactly what \<open>handle\<close> does in one step; and every run of Whole_System is a
  run in finer steps. So the finer runs are those of Whole_System and the interleavings it leaves out.
\<close>

subsection \<open>Visiting orders of the pass and of the write-back\<close>

text \<open>The orders of the pass from one function, those of the write-back from another.\<close>

definition merge :: "(site \<Rightarrow> string fset \<Rightarrow> string list) \<Rightarrow> (site \<Rightarrow> string fset \<Rightarrow> string list) \<Rightarrow>
    site \<Rightarrow> string fset \<Rightarrow> string list" where
  "merge pord word' site = (case site of WriteRange \<Rightarrow> word' site | WriteKeys _ \<Rightarrow> word' site | _ \<Rightarrow> pord site)"

lemma merge_sites [simp]:
  "merge p w (CheckIP n) = p (CheckIP n)" "merge p w (UseIP n) = p (UseIP n)"
  "merge p w RecordsRange = p RecordsRange" "merge p w (MapKeys ip) = p (MapKeys ip)"
  "merge p w (HostsRange ip) = p (HostsRange ip)" "merge p w (DeleteRange n) = p (DeleteRange n)"
  "merge p w WriteRange = w WriteRange" "merge p w (WriteKeys ip) = w (WriteKeys ip)"
  by (simp_all add: merge_def)

lemma fair_merge: "fair_range p \<Longrightarrow> fair_range w \<Longrightarrow> fair_range (merge p w)"
  by (simp add: fair_range_def merge_def split: site.split)

lemma alloc_host_merge [simp]: "alloc_host cl (merge p w) = alloc_host cl p"
  by (intro ext) (simp add: alloc_host_def Let_def cong: if_cong)

lemma alloc_hosts_merge [simp]: "alloc_hosts cl (merge p w) i hosts = alloc_hosts cl p i hosts"
  by (induction hosts arbitrary: i) (rule ext; simp)+

lemma alloc_spec_merge [simp]: "alloc_spec cl (merge p w) = alloc_spec cl p"
  by (intro ext) (simp add: alloc_spec_def)

lemma alloc_specs_merge [simp]: "alloc_specs cl (merge p w) specs = alloc_specs cl p specs"
  by (induction specs) (rule ext; simp)+

lemma alloc_group_merge [simp]: "alloc_group cl (merge p w) = alloc_group cl p"
  by (intro ext) (simp add: alloc_group_def)

lemma alloc_groups_merge [simp]: "alloc_groups cl (merge p w) groups gKeys = alloc_groups cl p groups gKeys"
  by (induction gKeys) (rule ext; simp split: option.split)+

lemma sweep_ips_merge [simp]: "sweep_ips cl (merge p w) hosts ips = sweep_ips cl p hosts ips"
  by (induction ips) (rule ext; simp split: option.split)+

lemma process_merge [simp]: "process cl gord (merge p w) c = process cl gord p c"
  by (simp add: process_def processIPGroups_def sweep_store_def)

lemma write_hosts_merge [simp]: "write_hosts an (merge p w) st ips = write_hosts an w st ips"
  by (induction ips) (rule ext; simp split: option.split)+

text \<open>The orders used for an address that is not written to do not matter.\<close>

lemma write_hosts_other:
  "ip \<notin> set ips \<Longrightarrow>
     write_hosts (kube_annotate api (agord(ip := a))) (ord(WriteKeys ip := w)) st ips =
     write_hosts (kube_annotate api agord) ord st ips"
proof (induction ips)
  case (Cons i ips)
  have "kube_annotate api (agord(ip := a)) i = kube_annotate api agord i"
    using Cons.prems by (auto simp: kube_annotate_def)
  moreover have "(ord(WriteKeys ip := w)) (WriteKeys i) = ord (WriteKeys i)" using Cons.prems by auto
  ultimately show ?case
    using Cons by (intro ext) (simp del: fun_upd_apply split: option.split)
qed (intro ext, simp)

lemma fair_upd: "fair_range f \<Longrightarrow> fair_range g \<Longrightarrow> fair_range (f(x := g y))"
  by (simp add: fair_range_def)

subsection \<open>The controller alone\<close>

definition own_work :: "sec_event \<Rightarrow> bool" where
  "own_work ev \<longleftrightarrow> (case ev of SPass \<Rightarrow> True | SLookUp \<Rightarrow> True | SUpdate \<Rightarrow> True | SNext \<Rightarrow> True | SDone \<Rightarrow> True | _ \<Rightarrow> False)"

inductive alone ::
    "string \<Rightarrow> 'w Client \<Rightarrow> 's kube_api \<Rightarrow> nat \<Rightarrow> ('w, 's) sectioned \<Rightarrow> sec_event list \<Rightarrow> ('w, 's) sectioned \<Rightarrow> bool"
  for ipam cl api vInterval where
  stay: "alone ipam cl api vInterval sys [] sys"
| work: "sec_step ipam cl api vInterval sys ev sys1 \<Longrightarrow> own_work ev \<Longrightarrow>
     alone ipam cl api vInterval sys1 evs sys2 \<Longrightarrow> alone ipam cl api vInterval sys (ev # evs) sys2"

lemma updates_alone:
  "annotate_specs api ip specs s = Some s1 \<Longrightarrow>
     alone ipam cl api v \<lparr>sctlr = c\<lparr>oClient := (k, s1)\<rparr>, phase = Updating ip [] ips\<rparr> evs fin \<Longrightarrow>
     \<exists>evs'. alone ipam cl api v \<lparr>sctlr = c\<lparr>oClient := (k, s)\<rparr>, phase = Updating ip specs ips\<rparr> evs' fin"
proof (induction specs arbitrary: s)
  case (Cons spec specs)
  from Cons.prems(1) obtain s2 where a: "annotate_spec api ip spec s = Some s2" "annotate_specs api ip specs s2 = Some s1"
    by (auto simp: bind_Some)
  from Cons.IH [OF a(2) Cons.prems(2)] obtain evs' where
    rest: "alone ipam cl api v \<lparr>sctlr = c\<lparr>oClient := (k, s2)\<rparr>, phase = Updating ip specs ips\<rparr> evs' fin" by blast
  have "sec_step ipam cl api v \<lparr>sctlr = c\<lparr>oClient := (k, s)\<rparr>, phase = Updating ip (spec # specs) ips\<rparr> SUpdate
      \<lparr>sctlr = c\<lparr>oClient := (k, s2)\<rparr>, phase = Updating ip specs ips\<rparr>"
    using sec_step.update [of "\<lparr>sctlr = c\<lparr>oClient := (k, s)\<rparr>, phase = Updating ip (spec # specs) ips\<rparr>" ip spec specs ips api s2]
      a(1) by (simp add: sapi_def sclient_def)
  from alone.work [OF this _ rest] show ?case by (auto simp: own_work_def)
qed auto

lemma writes_alone:
  assumes "fair_range ord" and "fair_range agord"
  shows "set ips \<subseteq> keys (Records (ctlrStore c)) \<Longrightarrow>
    write_hosts (kube_annotate api agord) ord (ctlrStore c) ips (k, s) = Some o' \<Longrightarrow>
    \<exists>evs. alone ipam cl api v \<lparr>sctlr = c\<lparr>oClient := (k, s)\<rparr>, phase = Writing ips\<rparr> evs \<lparr>sctlr = c\<lparr>oClient := o'\<rparr>, phase = Ready\<rparr>"
proof (induction ips arbitrary: s)
  case Nil
  have "sec_step ipam cl api v \<lparr>sctlr = c\<lparr>oClient := (k, s)\<rparr>, phase = Writing []\<rparr> SDone \<lparr>sctlr = c\<lparr>oClient := (k, s)\<rparr>, phase = Ready\<rparr>"
    using sec_step.written [of "\<lparr>sctlr = c\<lparr>oClient := (k, s)\<rparr>, phase = Writing []\<rparr>"] by simp
  from alone.work [OF this _ alone.stay] Nil(2) show ?case by (auto simp: own_work_def)
next
  case (Cons ip ips)
  from Cons.prems(1) obtain rec where rec: "fmlookup (Records (ctlrStore c)) ip = Some rec" by (auto simp: keys_iff)
  with Cons.prems(2) obtain specs s1 where
      specs: "getSpecsWithHosts (ipGroup k) (mapKeys (ord (WriteKeys ip)) rec) (agord ip (fmdom (ipGroup k))) = Some specs"
    and up: "annotate_specs api ip specs s = Some s1"
    and rest: "write_hosts (kube_annotate api agord) ord (ctlrStore c) ips (k, s1) = Some o'"
    by (auto simp: bind_Some kube_annotate_apply AnnotateResources_def)
  from Cons.IH [OF _ rest] Cons.prems(1) obtain evs where
    "alone ipam cl api v \<lparr>sctlr = c\<lparr>oClient := (k, s1)\<rparr>, phase = Writing ips\<rparr> evs \<lparr>sctlr = c\<lparr>oClient := o'\<rparr>, phase = Ready\<rparr>"
    by auto
  moreover have "sec_step ipam cl api v \<lparr>sctlr = c\<lparr>oClient := (k, s1)\<rparr>, phase = Updating ip [] ips\<rparr> SNext
      \<lparr>sctlr = c\<lparr>oClient := (k, s1)\<rparr>, phase = Writing ips\<rparr>"
    using sec_step.next_ip [of "\<lparr>sctlr = c\<lparr>oClient := (k, s1)\<rparr>, phase = Updating ip [] ips\<rparr>"] by simp
  ultimately have "alone ipam cl api v \<lparr>sctlr = c\<lparr>oClient := (k, s1)\<rparr>, phase = Updating ip [] ips\<rparr> (SNext # evs)
      \<lparr>sctlr = c\<lparr>oClient := o'\<rparr>, phase = Ready\<rparr>"
    by (intro alone.work) (simp_all add: own_work_def)
  from updates_alone [OF up this] obtain evs' where
    upd: "alone ipam cl api v \<lparr>sctlr = c\<lparr>oClient := (k, s)\<rparr>, phase = Updating ip specs ips\<rparr> evs' \<lparr>sctlr = c\<lparr>oClient := o'\<rparr>, phase = Ready\<rparr>"
    by blast
  have "sec_step ipam cl api v \<lparr>sctlr = c\<lparr>oClient := (k, s)\<rparr>, phase = Writing (ip # ips)\<rparr> SLookUp
      \<lparr>sctlr = c\<lparr>oClient := (k, s)\<rparr>, phase = Updating ip specs ips\<rparr>"
    using sec_step.look_up [of "\<lparr>sctlr = c\<lparr>oClient := (k, s)\<rparr>, phase = Writing (ip # ips)\<rparr>" ip ips, OF _ assms] rec specs
    by (simp add: sclient_def)
  from alone.work [OF this _ upd] show ?case by (auto simp: own_work_def)
qed

lemma deliver_alone:
  assumes "fair_range agord" and "ctl_step cl (kube_annotate api agord) v c (Message groups) c'"
  shows "\<exists>evs. alone ipam cl api v \<lparr>sctlr = c, phase = Taken groups\<rparr> evs \<lparr>sctlr = c', phase = Ready\<rparr>"
  using assms(2)
proof (rule step_handle)
  fix gord ord
  assume fair: "fair_range gord" "fair_range ord" and h: "handle cl (kube_annotate api agord) gord ord (Message groups) c = Some c'"
  then obtain c1 where p: "process cl gord ord (c\<lparr>ipGroups := groups\<rparr>) = Some c1"
      and w: "writeIPHosts (kube_annotate api agord) ord c1 = Some c'"
    by (auto simp: handle_def bind_Some)
  let ?ips = "ord WriteRange (fmdom (Records (ctlrStore c1)))"
  obtain k s where o: "oClient c1 = (k, s)" by fastforce
  from w obtain o' where "write_hosts (kube_annotate api agord) ord (ctlrStore c1) ?ips (k, s) = Some o'"
      and c': "c' = c1\<lparr>oClient := o'\<rparr>"
    by (auto simp: writeIPHosts_def bind_Some o)
  from writes_alone [OF fair(2) assms(1) _ this(1), where ipam = ipam and cl = cl and v = v] fair(2) obtain evs where
    "alone ipam cl api v \<lparr>sctlr = c1\<lparr>oClient := (k, s)\<rparr>, phase = Writing ?ips\<rparr> evs \<lparr>sctlr = c', phase = Ready\<rparr>"
    by (auto simp: c' fair_range_def)
  moreover from o have "c1\<lparr>oClient := (k, s)\<rparr> = c1" by simp
  moreover have "sec_step ipam cl api v \<lparr>sctlr = c, phase = Taken groups\<rparr> SPass \<lparr>sctlr = c1, phase = Writing ?ips\<rparr>"
    using sec_step.pass [of "\<lparr>sctlr = c, phase = Taken groups\<rparr>" groups gord ord cl c1] fair p by simp
  ultimately have "alone ipam cl api v \<lparr>sctlr = c, phase = Taken groups\<rparr> (SPass # evs) \<lparr>sctlr = c', phase = Ready\<rparr>"
    by (intro alone.work) (simp_all add: own_work_def)
  then show ?thesis by blast
qed

text \<open>The other way round: what the controller does alone, from each phase on.\<close>

definition rest_of :: "'s kube_api \<Rightarrow> Store \<Rightarrow> string list \<Rightarrow> K8sClient \<times> 's \<Rightarrow> K8sClient \<times> 's \<Rightarrow> bool" where
  "rest_of api st ips o1 o2 \<longleftrightarrow>
     (\<exists>ord agord. fair_range ord \<and> fair_range agord \<and> write_hosts (kube_annotate api agord) ord st ips o1 = Some o2)"

lemma rest_of_nil: "rest_of api st [] o1 o1"
  unfolding rest_of_def by (rule exI [of _ ascending], rule exI [of _ ascending]) (simp add: fair_ascending)

lemma rest_of_look_up:
  assumes "fair_range ord" and "fair_range agord" and "fmlookup (Records st) ip = Some rec" and "ip \<notin> set ips"
    and "getSpecsWithHosts (ipGroup k) (mapKeys (ord (WriteKeys ip)) rec) (agord ip (fmdom (ipGroup k))) = Some specs"
    and "annotate_specs api ip specs s = Some s1" and "rest_of api st ips (k, s1) o2"
  shows "rest_of api st (ip # ips) (k, s) o2"
proof -
  from assms(7) obtain ord' agord' where fair: "fair_range ord'" "fair_range agord'"
      and w: "write_hosts (kube_annotate api agord') ord' st ips (k, s1) = Some o2"
    by (auto simp: rest_of_def)
  let ?ord = "ord'(WriteKeys ip := ord (WriteKeys ip))" and ?agord = "agord'(ip := agord ip)"
  have "write_hosts (kube_annotate api ?agord) ?ord st (ip # ips) (k, s) = Some o2"
    using assms(3,5,6) w
    by (simp add: write_hosts_other [OF assms(4)] kube_annotate_apply AnnotateResources_def del: fun_upd_apply) simp?
  with fair_upd [OF fair(1) assms(1)] fair_upd [OF fair(2) assms(2)] show ?thesis unfolding rest_of_def by blast
qed

text \<open>What is left to do in a phase, as a relation to the state at the end.\<close>

definition left_to_do :: "'w Client \<Rightarrow> 's kube_api \<Rightarrow> ('w, 's) sectioned \<Rightarrow> ('w, K8sClient \<times> 's) Controller \<Rightarrow> bool" where
  "left_to_do cl api sys c' \<longleftrightarrow>
     (case phase sys of
        Ready \<Rightarrow> c' = sctlr sys
      | Taken groups \<Rightarrow> (\<exists>gord ord c1 o2. fair_range gord \<and> fair_range ord \<and>
          process cl gord ord ((sctlr sys)\<lparr>ipGroups := groups\<rparr>) = Some c1 \<and>
          rest_of api (ctlrStore c1) (ord WriteRange (fmdom (Records (ctlrStore c1)))) (oClient c1) o2 \<and>
          c' = c1\<lparr>oClient := o2\<rparr>)
      | Writing ips \<Rightarrow> distinct ips \<longrightarrow>
          (\<exists>o2. rest_of api (ctlrStore (sctlr sys)) ips (oClient (sctlr sys)) o2 \<and> c' = (sctlr sys)\<lparr>oClient := o2\<rparr>)
      | Updating ip specs ips \<Rightarrow> distinct ips \<longrightarrow>
          (\<exists>s1 o2. annotate_specs api ip specs (sapi sys) = Some s1 \<and>
             rest_of api (ctlrStore (sctlr sys)) ips (sclient sys, s1) o2 \<and> c' = (sctlr sys)\<lparr>oClient := o2\<rparr>))"

lemma oClient_pair: "oClient (sctlr sys) = (sclient sys, sapi sys)"
  by (simp add: sclient_def sapi_def)

lemma sectioned_simps [simp]:
  "sclient \<lparr>sctlr = c, phase = ph\<rparr> = fst (oClient c)" "sapi \<lparr>sctlr = c, phase = ph\<rparr> = snd (oClient c)"
  "sclient (sys\<lparr>phase := ph\<rparr>) = sclient sys" "sapi (sys\<lparr>phase := ph\<rparr>) = sapi sys"
  by (simp_all add: sclient_def sapi_def)

lemma work_left:
  assumes "sec_step ipam cl api v sys ev sys1" and "own_work ev" and "left_to_do cl api sys1 c'"
  shows "left_to_do cl api sys c'"
  using assms(1)
proof cases
  case (pass groups gord ord c)
  have "distinct (ord WriteRange (fmdom (Records (ctlrStore c))))" using pass(5) by (simp add: fair_range_def)
  with pass assms(3) obtain o2 where "rest_of api (ctlrStore c) (ord WriteRange (fmdom (Records (ctlrStore c)))) (oClient c) o2"
      "c' = c\<lparr>oClient := o2\<rparr>"
    by (auto simp: left_to_do_def)
  with pass(3-6) show ?thesis unfolding left_to_do_def by (cases o2) (simp, blast)
next
  case (look_up ip ips ord agord rec specs)
  show ?thesis
  proof (simp add: left_to_do_def look_up(3) oClient_pair, intro impI, elim conjE)
    assume d: "ip \<notin> set ips" "distinct ips"
    with assms(3) obtain s1 o2 where up: "annotate_specs api ip specs (sapi sys) = Some s1"
        and rest: "rest_of api (ctlrStore (sctlr sys)) ips (sclient sys, s1) o2" and c': "c' = (sctlr sys)\<lparr>oClient := o2\<rparr>"
      by (auto simp: left_to_do_def look_up(2))
    from rest_of_look_up [OF look_up(4-6) d(1) look_up(7) up rest] c'
    show "\<exists>a b. rest_of api (ctlrStore (sctlr sys)) (ip # ips) (sclient sys, sapi sys) (a, b) \<and>
        c' = (sctlr sys)\<lparr>oClient := (a, b)\<rparr>" by (cases o2) auto
  qed
next
  case (update ip spec specs ips s)
  with assms(3) show ?thesis by (auto simp: left_to_do_def oClient_pair)
next
  case (next_ip ip ips)
  with assms(3) show ?thesis by (auto simp: left_to_do_def oClient_pair)
next
  case written
  with assms(3) have "c' = (sctlr sys)\<lparr>oClient := oClient (sctlr sys)\<rparr>" by (simp add: left_to_do_def)
  with rest_of_nil [of api "ctlrStore (sctlr sys)" "oClient (sctlr sys)"] show ?thesis
    unfolding left_to_do_def written(3) phase.case by blast
qed (use assms(2) in \<open>simp_all add: own_work_def\<close>)

lemma alone_left: "alone ipam cl api v sys evs fin \<Longrightarrow> phase fin = Ready \<Longrightarrow> left_to_do cl api sys (sctlr fin)"
proof (induction rule: alone.induct)
  case (stay sys)
  then show ?case by (simp add: left_to_do_def)
next
  case (work sys ev sys1 evs sys2)
  from work_left [OF work.hyps(1,2) work.IH [OF work.prems]] show ?case .
qed

lemma left_deliver:
  assumes "left_to_do cl api \<lparr>sctlr = c, phase = Taken groups\<rparr> c'"
  shows "\<exists>agord. fair_range agord \<and> ctl_step cl (kube_annotate api agord) v c (Message groups) c'"
proof -
  from assms obtain gord pord c1 o2 where fair: "fair_range gord" "fair_range pord"
      and p: "process cl gord pord (c\<lparr>ipGroups := groups\<rparr>) = Some c1"
      and rest: "rest_of api (ctlrStore c1) (pord WriteRange (fmdom (Records (ctlrStore c1)))) (oClient c1) o2"
      and c': "c' = c1\<lparr>oClient := o2\<rparr>"
    by (auto simp: left_to_do_def)
  from rest obtain ord agord where w: "fair_range ord" "fair_range agord"
      "write_hosts (kube_annotate api agord) ord (ctlrStore c1) (pord WriteRange (fmdom (Records (ctlrStore c1))))
         (oClient c1) = Some o2"
    by (auto simp: rest_of_def)
  let ?word = "ord(WriteRange := pord WriteRange)"
  have "write_hosts an ?word st ips = write_hosts an ord st ips" for an :: "(K8sClient \<times> 'b) annotate" and st ips
    by (induction ips) (rule ext; simp split: option.split)+
  then have "handle cl (kube_annotate api agord) gord (merge pord ?word) (Message groups) c = Some c'"
    using p w(3) by (simp add: handle_def writeIPHosts_def c' del: fun_upd_apply) simp
  from ctl_step.intros [OF fair(1) fair_merge [OF fair(2) fair_upd [OF w(1) fair(2)]] _ this] w(2)
  show ?thesis by blast
qed

text \<open>One step of Whole_System in which the controller handles a message is the finer steps of its
  work on it, with nothing in between: the controller can get from the message to its next select
  in its own finer steps exactly where the one step leads. The orders in which the finer
  steps visit the hosts and the groups for one address do not bind those for another.\<close>

lemma deliver_sections:
  "(\<exists>evs. alone ipam cl api vInterval \<lparr>sctlr = c, phase = Taken groups\<rparr> evs \<lparr>sctlr = c', phase = Ready\<rparr>) \<longleftrightarrow>
   (\<exists>agord. fair_range agord \<and> ctl_step cl (kube_annotate api agord) vInterval c (Message groups) c')"
proof
  assume "\<exists>evs. alone ipam cl api vInterval \<lparr>sctlr = c, phase = Taken groups\<rparr> evs \<lparr>sctlr = c', phase = Ready\<rparr>"
  then obtain evs where "alone ipam cl api vInterval \<lparr>sctlr = c, phase = Taken groups\<rparr> evs \<lparr>sctlr = c', phase = Ready\<rparr>" ..
  from left_deliver [of cl api c groups c'] alone_left [OF this] show
    "\<exists>agord. fair_range agord \<and> ctl_step cl (kube_annotate api agord) vInterval c (Message groups) c'" by simp
qed (auto intro: deliver_alone)

subsection \<open>Every run of the system is a run in finer steps\<close>

lemma sec_run_alone:
  "alone ipam cl api v sys evs sys' \<Longrightarrow> sec_run ipam cl api v past sys \<Longrightarrow> \<exists>evs'. sec_run ipam cl api v evs' sys'"
proof (induction arbitrary: past rule: alone.induct)
  case (work sys ev sys1 evs sys2)
  from sec_run.step [OF work.prems work.hyps(1)] show ?case by (rule work.IH)
qed auto

definition fine :: "('w, 's) system \<Rightarrow> ('w, 's) sectioned" where
  "fine sys = \<lparr>sctlr = ctlr sys, phase = (case inbox sys of None \<Rightarrow> Ready | Some groups \<Rightarrow> Taken groups)\<rparr>"

lemma fine_simps [simp]:
  "sctlr (fine sys) = ctlr sys" "sclient (fine sys) = kclient sys" "sapi (fine sys) = apiServer sys"
  "phase (fine sys) = (case inbox sys of None \<Rightarrow> Ready | Some groups \<Rightarrow> Taken groups)"
  by (simp_all add: fine_def kclient_def apiServer_def)

lemma handover_take:
  "handover old new box = Some box' \<Longrightarrow>
     take_message old new (case box of None \<Rightarrow> Ready | Some g \<Rightarrow> Taken g) =
       Some (case box' of None \<Rightarrow> Ready | Some g \<Rightarrow> Taken g)"
  by (auto simp: handover_def take_message_def split: if_splits option.splits)

lemma sys_run_sections:
  "sys_run ipam cl api v sys0 evs sys \<Longrightarrow> \<exists>evs'. sec_run ipam cl api v evs' (fine sys)"
proof (induction rule: sys_run.induct)
  case (start parse params s w c)
  from sec_run.start [OF start] show ?case by (auto simp: fine_def)
next
  case (step sys evs sys1 ev sys2)
  then obtain past where run: "sec_run ipam cl api v past (fine sys1)" by blast
  from step.hyps(2) show ?case
  proof cases
    case (watch kev k box)
    have "sec_step ipam cl api v (fine sys1) (SWatch kev) (fine sys2)"
      using sec_step.watch [of ipam "fine sys1" kev k] watch(3) handover_take [OF watch(4)]
      by (simp add: fine_def watch(2) kclient_def apiServer_def)
    with run show ?thesis by (blast intro: sec_run.step)
  next
    case (deliver groups agord c)
    from deliver_alone [OF deliver(4,5), of ipam] obtain evs' where
      "alone ipam cl api v (fine sys1) evs' (fine sys2)" by (auto simp: fine_def deliver(2,3))
    then show ?thesis by (rule sec_run_alone [OF _ run])
  next
    case (verify agord c)
    have "sec_step ipam cl api v (fine sys1) SVerify (fine sys2)"
      using sec_step.verify [OF _ verify(4), of "fine sys1"] verify(3,5) by (simp add: fine_def verify(2))
    with run show ?thesis by (blast intro: sec_run.step)
  next
    case (edit s)
    have "sec_step ipam cl api v (fine sys1) SEdit (fine sys2)"
      using sec_step.edit [of ipam cl api v "fine sys1" s] by (simp add: fine_def edit(2) kclient_def)
    with run show ?thesis by (blast intro: sec_run.step)
  qed
qed

end
