(* ===== verification/Groups_Mutex.thy ===== *)
theory Groups_Mutex
  imports Sections_Deliver System_Properties
begin

section \<open>The mutex of the groups\<close>

text \<open>
  \<open>writeIPGroups\<close> takes the mutex of the client's groups and keeps it while it waits for the Controller,
  for three seconds at most. The Controller takes the same mutex for each address it writes back. Here
  the wait is a state of its own: \<open>offered\<close> has the groups that a goroutine of the client offers to the
  Controller, which it does with the mutex in hand.
\<close>

record ('w, 's) offering =
  base :: "('w, 's) sectioned"
  offered :: "IPGroups option"

datatype lock_event = Offer | Receive | Expire | Work sec_event

definition with_client :: "K8sClient \<Rightarrow> ('w, 's) sectioned \<Rightarrow> ('w, 's) sectioned" where
  "with_client k sys = sys\<lparr>sctlr := (sctlr sys)\<lparr>oClient := (k, sapi sys)\<rparr>\<rparr>"

text \<open>The condition of \<open>writeIPGroups\<close>, and what it does to the client after its select.\<close>

definition may_write :: "K8sClient \<Rightarrow> bool" where
  "may_write c \<longleftrightarrow> (qLen (rsQueue c) = 0 \<and> qLen (nsQueue c) = 0 \<or> initialState c) \<and> channel c"

inductive lock_step ::
    "string \<Rightarrow> 'w Client \<Rightarrow> 's kube_api \<Rightarrow> nat \<Rightarrow> ('w, 's) offering \<Rightarrow> lock_event \<Rightarrow> ('w, 's) offering \<Rightarrow> bool"
  for ipam cl api vInterval where
  offer: "offered sys = None \<Longrightarrow> may_write (sclient (base sys)) \<Longrightarrow>
     lock_step ipam cl api vInterval sys Offer (sys\<lparr>offered := Some (ipGroup (sclient (base sys)))\<rparr>)"
| receive: "offered sys = Some groups \<Longrightarrow> phase (base sys) = Ready \<Longrightarrow>
     lock_step ipam cl api vInterval sys Receive
       \<lparr>base = (with_client ((sclient (base sys))\<lparr>sent := sent (sclient (base sys)) @ [groups], initialState := True,
           updated := False\<rparr>) (base sys))\<lparr>phase := Taken groups\<rparr>, offered = None\<rparr>"
| expire: "offered sys = Some groups \<Longrightarrow>
     lock_step ipam cl api vInterval sys Expire
       \<lparr>base = with_client ((sclient (base sys))\<lparr>initialState := True, updated := False\<rparr>) (base sys), offered = None\<rparr>"
| work: "own_work ev \<Longrightarrow> sec_step ipam cl api vInterval (base sys) ev sys1 \<Longrightarrow>
     ev = SLookUp \<longrightarrow> offered sys = None \<Longrightarrow>
     lock_step ipam cl api vInterval sys (Work ev) (sys\<lparr>base := sys1\<rparr>)"

inductive lock_run ::
    "string \<Rightarrow> 'w Client \<Rightarrow> 's kube_api \<Rightarrow> nat \<Rightarrow> ('w, 's) offering \<Rightarrow> lock_event list \<Rightarrow> ('w, 's) offering \<Rightarrow> bool"
  for ipam cl api vInterval where
  stay: "lock_run ipam cl api vInterval sys [] sys"
| more: "lock_run ipam cl api vInterval sys evs sys1 \<Longrightarrow> lock_step ipam cl api vInterval sys1 ev sys2 \<Longrightarrow>
     lock_run ipam cl api vInterval sys (evs @ [ev]) sys2"

text \<open>The offer and what ends it are \<open>writeIPGroups\<close>.\<close>

lemma offer_write:
  assumes "lock_step ipam cl api vInterval sys Offer sys1" and "lock_step ipam cl api vInterval sys1 ev sys2"
  shows "ev = Receive \<Longrightarrow> sclient (base sys2) = writeIPGroups Acked (sclient (base sys))"
    and "ev = Expire \<Longrightarrow> sclient (base sys2) = writeIPGroups TimedOut (sclient (base sys))"
  using assms
  by (auto elim!: lock_step.cases simp: writeIPGroups_def may_write_def with_client_def sclient_def)

text \<open>The Controller has another address to look up before it is ready for a message; how many steps it
  can take until then.\<close>

definition must_look_up :: "phase \<Rightarrow> bool" where
  "must_look_up ph \<longleftrightarrow> (case ph of Writing ips \<Rightarrow> ips \<noteq> [] | Updating ip specs ips \<Rightarrow> ips \<noteq> [] | _ \<Rightarrow> False)"

definition steps_left :: "phase \<Rightarrow> nat" where
  "steps_left ph = (case ph of Updating ip specs ips \<Rightarrow> Suc (length specs) | _ \<Rightarrow> 0)"

lemma offer_kept:
  assumes "lock_step ipam cl api vInterval sys ev sys'" and "offered sys = Some groups"
    and "must_look_up (phase (base sys))" and "ev \<noteq> Expire"
  shows "offered sys' = Some groups \<and> must_look_up (phase (base sys')) \<and> sclient (base sys') = sclient (base sys) \<and>
    steps_left (phase (base sys)) = Suc (steps_left (phase (base sys')))"
  using assms(1)
proof cases
  case (work sev sys1)
  from work(4) show ?thesis
  proof cases
    case (update ip spec specs ips s)
    with work assms(2,3) show ?thesis by (simp add: must_look_up_def steps_left_def sclient_def)
  next
    case (next_ip ip ips)
    with work assms(2,3) show ?thesis by (simp add: must_look_up_def steps_left_def sclient_def)
  qed (use work assms(2,3) in \<open>simp_all add: must_look_up_def own_work_def\<close>)
qed (use assms(2-4) in \<open>simp_all add: must_look_up_def\<close>)

text \<open>C32. A message offered too early is lost: when the client offers its groups while the Controller
  still has addresses to look up, both wait for each other. The Controller takes only the few
  steps up to its next look-up and no message, until the three seconds are over; then the client
  goes on as if its groups had been sent.\<close>

theorem offer_in_vain:
  assumes "lock_run ipam cl api vInterval sys evs sys1" and "offered sys = Some groups"
    and "must_look_up (phase (base sys))" and "Expire \<notin> set evs"
  shows "sent (sclient (base sys1)) = sent (sclient (base sys)) \<and> phase (base sys1) \<noteq> Ready \<and>
    length evs \<le> steps_left (phase (base sys)) \<and>
    (\<forall>sys2. lock_step ipam cl api vInterval sys1 Expire sys2 \<longrightarrow>
       sent (sclient (base sys2)) = sent (sclient (base sys)) \<and> \<not> updated (sclient (base sys2)))"
proof -
  have "offered sys1 = Some groups \<and> must_look_up (phase (base sys1)) \<and> sclient (base sys1) = sclient (base sys) \<and>
      length evs + steps_left (phase (base sys1)) = steps_left (phase (base sys))"
    using assms
  proof (induction rule: lock_run.induct)
    case (more sys evs sys1 ev sys2)
    with offer_kept [OF more.hyps(2)] show ?case by auto
  qed simp
  moreover have "sent (sclient (base sys2)) = sent (sclient (base sys1)) \<and> \<not> updated (sclient (base sys2))"
    if "lock_step ipam cl api vInterval sys1 Expire sys2" for sys2
    using that by cases (simp_all add: with_client_def sclient_def)
  ultimately show ?thesis by (auto simp: must_look_up_def)
qed

text \<open>The example: two resources with an address each; the Controller has looked up the first one's.\<close>

definition mid_write :: "(nat, resourceKey \<Rightarrow> ObjectMeta option) sectioned option" where
  "mid_write = sec_play ''infoblox'' counter_client demo_api (demo_env Acked []) [SPass, SLookUp]
     (sec_first\<lparr>phase := Taken (two_groups [''a''])\<rparr>)"

lemma mid_write_played:
  "case mid_write of
     None \<Rightarrow> False
   | Some sys \<Rightarrow> (case phase sys of Updating ip specs ips \<Rightarrow> specs = [] \<and> ips \<noteq> [] | _ \<Rightarrow> False)"
  by code_simp

theorem offer_in_vain_witness:
  "\<exists>sys sys1 sys2 groups. offered sys = Some groups \<and> mid_write = Some (base sys) \<and>
     lock_run ''infoblox'' counter_client demo_api 30 sys [Work SNext] sys1 \<and>
     lock_step ''infoblox'' counter_client demo_api 30 sys1 Expire sys2 \<and>
     sent (sclient (base sys2)) = sent (sclient (base sys))"
proof -
  obtain sys ip ips where m: "mid_write = Some sys" and ph: "phase sys = Updating ip [] ips" "ips \<noteq> []"
    using mid_write_played by (auto split: option.splits phase.splits)
  let ?sys = "\<lparr>base = sys, offered = Some (ipGroup (sclient sys))\<rparr>"
  let ?sys1 = "?sys\<lparr>base := sys\<lparr>phase := Writing ips\<rparr>\<rparr>"
  have "lock_step ''infoblox'' counter_client demo_api 30 ?sys (Work SNext) ?sys1"
    by (rule lock_step.work) (simp_all add: own_work_def sec_step.next_ip [OF ph(1)])
  from lock_run.more [OF lock_run.stay this]
  have run: "lock_run ''infoblox'' counter_client demo_api 30 ?sys [Work SNext] ?sys1" by simp
  obtain sys2 where ex: "lock_step ''infoblox'' counter_client demo_api 30 ?sys1 Expire sys2"
    using lock_step.expire [of ?sys1, where ipam = "''infoblox''" and cl = counter_client and api = demo_api] by auto
  have "sent (sclient (base sys2)) = sent (sclient (base ?sys))"
    using offer_in_vain [OF run, of "ipGroup (sclient sys)"] ph ex by (simp add: must_look_up_def)
  with m run ex show ?thesis
    by (intro exI [of _ ?sys] exI [of _ ?sys1] exI [of _ sys2] exI [of _ "ipGroup (sclient sys)"]) simp
qed

end
