(* ===== verification/Cluster_System.thy ===== *)
theory Cluster_System
  imports Kube_Complete System_Sections
begin

section \<open>From the cluster to the store\<close>

text \<open>
  Everything together: the caches of the informers, the client, the channel and the controller with
  its finer steps. The client's part of these runs is a run of Kube_Cache, and with the controller
  it is one of System_Sections, so what holds there can be put together: once nothing is left to
  do, every host that a cached resource asks for has an address in the controller's store. What the
  controller's periodic check of the IPAM system does to it is at the end.
\<close>

inductive world_run ::
    "string \<Rightarrow> 'w Client \<Rightarrow> 's kube_api \<Rightarrow> nat \<Rightarrow> cluster \<Rightarrow> ('w, 's) sectioned \<Rightarrow> bool"
  for ipam cl api vInterval where
  start: "NamespaceLabel params = '''' \<Longrightarrow> Channel params \<Longrightarrow>
     Run_start cl (\<lambda>(k, s). (Run_client k, s)) (NewController (NewKubernetesClient parse params, s) w) = Some c \<Longrightarrow>
     world_run ipam cl api vInterval
       \<lparr>kube = Run_client (NewKubernetesClient parse params), cached = (\<lambda>key. None), notices = (\<lambda>key. []), fetched = None\<rparr>
       \<lparr>sctlr = c, phase = Ready\<rparr>"
| client: "world_run ipam cl api vInterval s sys \<Longrightarrow> cache_step ipam {Acked} s s' \<Longrightarrow>
     take_message (sent (sclient sys)) (sent (kube s')) (phase sys) = Some ph \<Longrightarrow>
     world_run ipam cl api vInterval s' \<lparr>sctlr = (sctlr sys)\<lparr>oClient := (kube s', sapi sys)\<rparr>, phase = ph\<rparr>"
| controller: "world_run ipam cl api vInterval s sys \<Longrightarrow> sec_step ipam cl api vInterval sys ev sys' \<Longrightarrow>
     (\<And>kev. ev \<noteq> SWatch kev) \<Longrightarrow> world_run ipam cl api vInterval s sys'"

lemma cache_step_kube:
  assumes "cache_step ipam outs s s'"
  obtains "kube s' = kube s" | ev where "kube_step ipam (kube s) ev (kube s')"
  using assms
proof cases
  case (notify key n ns ord env c)
  from kube_step.intros [OF notify(3) event_of_enabled notify(5)] show ?thesis using that(2) by (simp add: notify(1))
next
  case (apply_read key env ord out c)
  then have "enabled WorkRs (kube s)" by simp
  from kube_step.intros [OF apply_read(4) this apply_read(6)] show ?thesis using that(2) by (simp add: apply_read(1))
next
  case (own ev ord env c)
  from kube_step.intros [OF own(4,3,6)] show ?thesis using that(2) by (simp add: own(1))
qed (use that(1) in simp_all)

lemma world_run_parts:
  "world_run ipam cl api vInterval s sys \<Longrightarrow>
     cache_run ipam {Acked} s \<and> kube s = sclient sys \<and> (\<exists>evs. sec_run ipam cl api vInterval evs sys)"
proof (induction rule: world_run.induct)
  case (start params parse s w c)
  have "sclient \<lparr>sctlr = c, phase = Ready\<rparr> = Run_client (NewKubernetesClient parse params)"
    using start(3) by (auto simp: sclient_def Run_start_def NewController_def bind_Some elim!: refreshStore_cases)
  with cache_run.start [OF start(1,2)] sec_run.start [OF start(3), of ipam api vInterval] show ?case by auto
next
  case (client s sys s' ph)
  then obtain evs where run: "sec_run ipam cl api vInterval evs sys" and k: "kube s = sclient sys" by blast
  let ?sys = "\<lparr>sctlr = (sctlr sys)\<lparr>oClient := (kube s', sapi sys)\<rparr>, phase = ph\<rparr>"
  from client.hyps(2) have "\<exists>evs'. sec_run ipam cl api vInterval evs' ?sys"
  proof (cases rule: cache_step_kube)
    case 1
    then have "?sys = sys"
      using client.hyps(3) k by (cases sys) (auto simp: take_message_def sclient_def sapi_def)
    with run show ?thesis by auto
  next
    case (2 ev)
    then have "kube_step ipam (sclient sys) ev (kube s')" by (simp add: k)
    from sec_run.step [OF run sec_step.watch [OF this client.hyps(3)]] show ?thesis by blast
  qed
  with client show ?case using cache_run.step [OF _ client.hyps(2)] by (simp add: sclient_def)
next
  case (controller s sys ev sys')
  then obtain evs where run: "sec_run ipam cl api vInterval evs sys" by blast
  have "sclient sys' = sclient sys"
    using sec_step_client [OF controller.hyps(2)] controller.hyps(3) by (cases ev) auto
  with controller sec_run.step [OF run controller.hyps(2)] show ?case by auto
qed

subsection \<open>Runs in which the IPAM system refuses nothing\<close>

text \<open>A run with a client that gives up more often is a run with the client.\<close>

context client_order
begin

lemma refreshStore_le: "refreshStore cl c = Some r \<Longrightarrow> refreshStore cl' c = Some r"
  unfolding refreshStore_def by (auto elim!: bind_mono dest: client_leD(8) [OF le] split: if_splits)

lemma Run_start_le: "Run_start cl f c = Some r \<Longrightarrow> Run_start cl' f c = Some r"
  unfolding Run_start_def by (auto elim!: bind_mono dest: refreshStore_le)

lemma process_le: "process cl gord ord c = Some c' \<Longrightarrow> process cl' gord ord c = Some c'"
proof (erule process_cases)
  fix st w assume "processIPGroups cl gord ord (ipGroups c) (ctlrStore c) (iClient c) = Some (st, w)"
    and "c' = c\<lparr>ctlrStore := st, iClient := w\<rparr>"
  with pass_le [OF this(1)] show ?thesis by (simp add: process_def)
qed

lemma ctl_step_le:
  assumes "ctl_step cl an vInterval c ev c'"
  shows "ctl_step cl' an vInterval c ev c'"
  using assms
proof (rule step_handle)
  fix gord ord
  assume fair: "fair_range gord" "fair_range ord" "ev = Tick \<longrightarrow> vInterval \<noteq> 0"
    and h: "handle cl an gord ord ev c = Some c'"
  have "handle cl' an gord ord ev c = Some c'"
  proof (cases ev)
    case (Message groups)
    with h obtain c1 where "process cl gord ord (c\<lparr>ipGroups := groups\<rparr>) = Some c1" "writeIPHosts an ord c1 = Some c'"
      by (auto simp: handle_def bind_Some)
    with process_le [OF this(1)] Message show ?thesis by (simp add: handle_def)
  next
    case (Undecodable partial)
    with h show ?thesis by (simp add: handle_def)
  next
    case Tick
    with h obtain ch c1 where "refreshStore cl c = Some (ch, c1)"
        "(if ch then process cl gord ord c1 else Some c1) = Some c'"
      by (auto simp: handle_def bind_Some)
    with process_le [of gord ord c1 c'] refreshStore_le [of c] Tick show ?thesis
      by (cases ch) (simp_all add: handle_def)
  qed
  with fair show ?thesis by (rule ctl_step.intros)
qed

lemma world_run_le: "world_run ipam cl api vInterval s sys \<Longrightarrow> world_run ipam cl' api vInterval s sys"
proof (induction rule: world_run.induct)
  case (start params parse s w c)
  from world_run.start [OF start(1,2) Run_start_le [OF start(3)]] show ?case .
next
  case (client s sys s' ph)
  from world_run.client [OF client.IH client.hyps(2,3)] show ?case .
next
  case (controller s sys ev sys')
  from controller.hyps(2) have "sec_step ipam cl' api vInterval sys ev sys'"
  proof cases
    case (pass groups gord ord c)
    from sec_step.pass [OF pass(3-5) process_le [OF pass(6)]] show ?thesis by (simp only: pass(1,2))
  next
    case (verify agord c)
    from sec_step.verify [OF verify(3,4) ctl_step_le [OF verify(5)]] show ?thesis by (simp only: verify(1,2))
  next
    case (watch kev k ph)
    with controller.hyps(3) [of kev] show ?thesis by simp
  next
    case (look_up ip ips ord agord rec specs)
    from sec_step.look_up [OF look_up(3-7)] show ?thesis by (simp only: look_up(1,2))
  next
    case (update ip spec specs ips s)
    from sec_step.update [OF update(3,4)] show ?thesis by (simp only: update(1,2))
  next
    case (next_ip ip ips)
    from sec_step.next_ip [OF next_ip(3)] show ?thesis by (simp only: next_ip(1,2))
  next
    case written
    from sec_step.written [OF written(3)] show ?thesis by (simp only: written(1,2))
  next
    case (edit s)
    show ?thesis unfolding edit by (rule sec_step.edit)
  qed
  from world_run.controller [OF controller.IH this controller.hyps(3)] show ?case .
qed

end

subsection \<open>The stored hosts are the listed ones\<close>

definition stores_listed :: "('w, 'o) Controller \<Rightarrow> bool" where
  "stores_listed c \<longleftrightarrow> (\<forall>h. stored (ctlrStore c) h \<longleftrightarrow> h \<in> all_hosts (ipGroups c))"

lemma pass_stores:
  assumes "client_contract cl" and "fair_range gord" and "fair_range ord"
    and "processIPGroups (sure cl) gord ord groups st w = Some (st', w')"
  shows "stored st' h \<longleftrightarrow> h \<in> all_hosts groups"
  using pass_stored_listed [OF sure_contract [OF assms(1)] assms(2-4)]
    pass_listed_stored [OF sure_contract [OF assms(1)] assms(2-4) sure_grants] sure_promotes by blast

lemma tick_stores:
  assumes "client_contract cl" and "ctl_step (sure cl) an vInterval c Tick c'" and "stores_listed c"
  shows "stores_listed c'"
  using assms(2)
proof (cases rule: tick_cases)
  case (same w)
  with assms(3) show ?thesis by (simp add: stores_listed_def)
next
  case (changed gord ord st w st' w')
  from pass_stores [OF assms(1) changed(1,2,6)] changed(7) show ?thesis by (simp add: stores_listed_def)
qed

lemma sec_run_stores:
  assumes "client_contract cl"
  shows "sec_run ipam (sure cl) api vInterval evs sys \<Longrightarrow> 0 < passes evs \<longrightarrow> stores_listed (sctlr sys)"
proof (induction rule: sec_run.induct)
  case (start parse params s w c)
  show ?case by (simp add: passes_def)
next
  case (step evs sys ev sys')
  from step.hyps(2) show ?case
  proof cases
    case (pass groups gord ord c)
    from pass(6) show ?thesis
      by (rule process_cases) (use pass_stores [OF assms pass(4,5)] in \<open>auto simp: stores_listed_def pass(2)\<close>)
  next
    case (verify agord c)
    from tick_stores [OF assms verify(5)] step.IH show ?thesis by (simp add: verify(1,2))
  qed (use step.IH in \<open>simp_all add: stores_listed_def\<close>)
qed

text \<open>And none of them has two addresses or the empty one.\<close>

lemma sec_run_sound:
  assumes "client_contract cl"
  shows "sec_run ipam (sure cl) api vInterval evs sys \<Longrightarrow> store_sound (ctlrStore (sctlr sys))"
proof (induction rule: sec_run.induct)
  case (start parse params s w c)
  then obtain ch c1 where "refreshStore (sure cl) (NewController (NewKubernetesClient parse params, s) w) = Some (ch, c1)"
      "ctlrStore c = ctlrStore c1" by (auto simp: Run_start_def bind_Some)
  then show ?case by (auto elim!: refreshStore_cases dest: sure_reads)
next
  case (step evs sys ev sys')
  have wf: "store_wf (ctlrStore (sctlr sys))" using sec_run_store [OF sure_contract [OF assms] step.hyps(1)] by simp
  note sound = sure_pass(1) [OF assms]
  from step.hyps(2) show ?case
  proof cases
    case (pass groups gord ord c)
    from pass(6) show ?thesis
      by (rule process_cases) (use sound [OF pass(4,5) _ wf step.IH] in \<open>simp add: pass(2)\<close>)
  next
    case (verify agord c)
    from verify(5) show ?thesis
    proof (cases rule: tick_cases)
      case (same w)
      with step.IH show ?thesis by (simp add: verify(2))
    next
      case (changed gord ord st w st' w')
      have "store_sound st" by (rule sure_reads [OF changed(4)])
      moreover have "store_wf st"
        by (rule ipam_client.GetRecords_wf [OF _ changed(4)]) (simp add: ipam_client_def sure_contract [OF assms])
      ultimately show ?thesis using sound [OF changed(1,2,6)] changed(7) by (simp add: verify(2))
    qed
  qed (use step.IH in simp_all)
qed

text \<open>C1. Every host gets an address. The hypotheses: the client was started without a namespace
  label and with a channel; the Controller takes the messages in time; in the whole run the IPAM
  system refuses no A record and no promotion, yields an address for every reservation, and never
  reports a host with two addresses or the empty one. Then, however the changes in the cluster, the
  handlers, the worker, the controller's pass, its look-ups, its updates and its periodic checks
  interleave: once nothing is left to do, the controller's store has exactly the hosts of the
  client's last message, and every host of every cached ConfigMap or Ingress that asks for
  addresses and has its annotations is stored at exactly one address, a non-empty one.\<close>

theorem hosts_get_addresses:
  assumes "client_contract cl" and "world_run ipam (sure cl) api vInterval s sys"
    and "quiet s" and "timers (kube s) = 0" and "\<And>groups. phase sys \<noteq> Taken groups"
  shows "world_run ipam cl api vInterval s sys \<and>
    (\<forall>h. stored (ctlrStore (sctlr sys)) h \<longleftrightarrow> h \<in> all_hosts (last (sent (kube s)))) \<and>
    (\<forall>key obj g hosts h. cached s key = Some obj \<longrightarrow> wants ipam obj = Some (g, hosts) \<longrightarrow> h \<in> set hosts \<longrightarrow>
       (\<exists>ip. ip \<noteq> '''' \<and> (\<forall>ip'. stored_at (ctlrStore (sctlr sys)) h ip' \<longleftrightarrow> ip' = ip)))"
proof -
  from world_run_parts [OF assms(2)] obtain evs where cache: "cache_run ipam {Acked} s"
      and k: "kube s = sclient sys" and run: "sec_run ipam (sure cl) api vInterval evs sys" by blast
  have "output_ready s" by (rule cache_run_output [OF cache])
  with assms(3,4) have con: "conveyed (kube s)" "initialState (kube s)"
    by (simp_all add: output_ready_def starting_def quiet_def)
  then have ne: "sent (kube s) \<noteq> []" by (simp add: conveyed_def)
  have "waiting (phase sys) = None" using assms(5) by (simp add: waiting_def split: phase.split)
  with sec_run_linked [OF run] have "drop (passes evs) (sent (kube s)) = []"
      and groups: "ipGroups (sctlr sys) = latest (take (passes evs) (sent (kube s)))"
      and wf: "list_all groups_wf (sent (kube s))"
    by (simp_all add: linked_def k)
  then have "take (passes evs) (sent (kube s)) = sent (kube s)" and "0 < passes evs"
    using ne by (auto intro: gr0I)
  with groups ne have last: "ipGroups (sctlr sys) = last (sent (kube s))" by (simp add: latest_def)
  with sec_run_stores [OF assms(1) run] \<open>0 < passes evs\<close>
  have exact: "stored (ctlrStore (sctlr sys)) h \<longleftrightarrow> h \<in> all_hosts (last (sent (kube s)))" for h
    by (simp add: stores_listed_def)
  have "at_one_address (ctlrStore (sctlr sys)) h"
    if "cached s key = Some obj" "wants ipam obj = Some (g, hosts)" "h \<in> set hosts" for key obj g hosts h
  proof -
    have "lists_host (last (sent (kube s))) g key h"
      using quiet_lists [OF cache assms(3) that] con by (simp add: conveyed_def)
    then have "h \<in> all_hosts (last (sent (kube s)))"
      using wf ne by (auto simp: lists_host_iff all_hosts_of list_all_iff)
    with exact sound_at_one [OF sec_run_sound [OF assms(1) run]] show ?thesis by simp
  qed
  with sure.world_run_le [OF assms(2)] exact show ?thesis unfolding at_one_address_def by blast
qed

text \<open>The example: an Ingress appears in an empty cluster, and the controller handles the message.\<close>

fun world_client :: "string \<Rightarrow> move list \<Rightarrow> cluster \<times> ('w, 's) sectioned \<Rightarrow> (cluster \<times> ('w, 's) sectioned) option" where
  "world_client ipam [] p = Some p"
| "world_client ipam (m # ms) (s, sys) = do {
     s' \<leftarrow> play_move ipam m s;
     ph \<leftarrow> take_message (sent (sclient sys)) (sent (kube s')) (phase sys);
     world_client ipam ms (s', \<lparr>sctlr = (sctlr sys)\<lparr>oClient := (kube s', sapi sys)\<rparr>, phase = ph\<rparr>)
   }"

lemma world_client_run:
  "world_client ipam ms (s, sys) = Some (s', sys') \<Longrightarrow> world_run ipam cl api v s sys \<Longrightarrow> world_run ipam cl api v s' sys'"
  by (induction ipam ms "(s, sys)" arbitrary: s sys rule: world_client.induct)
    (auto simp: bind_Some dest: world_run.client [OF _ play_move_step])

lemma world_sections_run:
  "sec_play ipam cl api env evs sys = Some sys' \<Longrightarrow> world_run ipam cl api v s sys \<Longrightarrow>
     list_all (\<lambda>ev. case ev of SWatch _ \<Rightarrow> False | _ \<Rightarrow> True) evs \<Longrightarrow> world_run ipam cl api v s sys'"
proof (induction ipam cl api env evs sys rule: sec_play.induct)
  case (2 ipam cl api env ev evs sys)
  from "2.prems"(1) obtain sys1 where n: "sec_next ipam cl api env ev sys = Some sys1"
      and rest: "sec_play ipam cl api env evs sys1 = Some sys'"
    by (auto simp: bind_Some)
  have "world_run ipam cl api v s sys1"
    by (rule world_run.controller [OF "2.prems"(2) sec_next_step [OF n]]) (use "2.prems"(3) in auto)
  with "2.IH" [OF n rest] "2.prems"(3) show ?case by simp
qed simp

lemma first_world: "world_run ''infoblox'' counter_client demo_api v first_cluster sec_first"
proof -
  have "Run_start counter_client (\<lambda>(k, s). (Run_client k, s))
      (NewController (NewKubernetesClient Some all_namespaces, one_object) 0) = Some (ctlr first_system)"
    by (simp add: Run_start_def refreshStore_def counter_client_def NewController_def first_system_def new_client_def)
  from world_run.start [OF _ _ this] show ?thesis
    by (simp add: sec_first_def first_cluster_def new_client_def all_namespaces_def)
qed

lemma world_client_moves:
  "world_client ipam ms (s, sys) = Some (s', sys') \<Longrightarrow> play_moves ipam ms s = Some s'"
  by (induction ipam ms "(s, sys)" arbitrary: s sys rule: world_client.induct) (auto simp: bind_Some)

lemma play_moves_append: "play_moves ipam (ms @ ms') s = play_moves ipam ms s \<bind> play_moves ipam ms'"
proof (induction ms arbitrary: s)
  case (Cons m ms)
  then show ?case by (cases "play_move ipam m s") simp_all
qed simp

definition world_example :: "(cluster \<times> (nat, resourceKey \<Rightarrow> ObjectMeta option) sectioned) option" where
  "world_example = do {
     (s1, sys1) \<leftarrow> world_client ''infoblox'' (take 6 web_moves) (first_cluster, sec_first);
     sys2 \<leftarrow> sec_play ''infoblox'' counter_client demo_api (demo_env Acked []) [SPass, SLookUp, SUpdate, SNext, SDone] sys1;
     (s3, sys3) \<leftarrow> world_client ''infoblox'' (drop 6 web_moves) (s1, sys2);
     sys4 \<leftarrow> sec_play ''infoblox'' counter_client demo_api (demo_env Acked []) [SPass] sys3;
     Some (s3, sys4)
   }"

lemma world_example_played:
  "case world_example of
     None \<Rightarrow> False
   | Some (s, sys) \<Rightarrow>
       (notices s web_key = [] \<and> items (rsQueue (kube s)) = [] \<and> rsRetry (kube s) = [] \<and> rsWorker (kube s) = Waiting) \<and>
       timers (kube s) = 0 \<and> cached s web_key = Some (KIngress web_ab) \<and> waiting (phase sys) = None"
  by code_simp

lemma world_example_run:
  assumes "world_example = Some (s, sys)"
  shows "world_run ''infoblox'' counter_client demo_api v s sys" and "play_moves ''infoblox'' web_moves first_cluster = Some s"
proof -
  from assms obtain s1 sys1 sys2 sys3 where
      p: "world_client ''infoblox'' (take 6 web_moves) (first_cluster, sec_first) = Some (s1, sys1)"
      "sec_play ''infoblox'' counter_client demo_api (demo_env Acked []) [SPass, SLookUp, SUpdate, SNext, SDone] sys1 = Some sys2"
      "world_client ''infoblox'' (drop 6 web_moves) (s1, sys2) = Some (s, sys3)"
      "sec_play ''infoblox'' counter_client demo_api (demo_env Acked []) [SPass] sys3 = Some sys"
    by (auto simp: world_example_def bind_Some simp del: sec_play.simps)
  have "world_run ''infoblox'' counter_client demo_api v s1 sys2"
    by (rule world_sections_run [OF p(2) world_client_run [OF p(1) first_world]]) simp
  from world_client_run [OF p(3) this] have "world_run ''infoblox'' counter_client demo_api v s sys3" .
  from world_sections_run [OF p(4) this] show "world_run ''infoblox'' counter_client demo_api v s sys" by simp
  have "play_moves ''infoblox'' (take 6 web_moves @ drop 6 web_moves) first_cluster = Some s"
    by (simp only: play_moves_append world_client_moves [OF p(1)] world_client_moves [OF p(3)] bind.simps)
  then show "play_moves ''infoblox'' web_moves first_cluster = Some s" by (simp only: append_take_drop_id)
qed

theorem hosts_get_addresses_witness:
  "\<exists>s sys ip. world_run ''infoblox'' counter_client demo_api 30 s sys \<and> cached s web_key = Some (KIngress web_ab) \<and>
     ip \<noteq> '''' \<and> stored_at (ctlrStore (sctlr sys)) ''b'' ip"
proof -
  obtain s sys where e: "world_example = Some (s, sys)"
    and q: "notices s web_key = [] \<and> items (rsQueue (kube s)) = [] \<and> rsRetry (kube s) = [] \<and> rsWorker (kube s) = Waiting"
    and r: "timers (kube s) = 0" "cached s web_key = Some (KIngress web_ab)" "waiting (phase sys) = None"
    using world_example_played by (auto split: option.splits)
  note run = world_example_run [OF e]
  have "list_all (\<lambda>m. moved_key m = None \<or> moved_key m = Some web_key) web_moves" by (simp add: web_moves_def)
  then have quiet: "quiet s" by (rule played_quiet(1) [OF run(2) _ q])
  have idle: "phase sys \<noteq> Taken groups" for groups using r(3) by (auto simp: waiting_def)
  have "world_run ''infoblox'' (sure counter_client) demo_api 30 s sys"
    using run(1) by (simp only: counter_sure)
  note all = hosts_get_addresses [OF counter_client_contract this quiet r(1) idle, THEN conjunct2, THEN conjunct2]
  have "''b'' \<in> set [''a'', ''b'']" by simp
  then obtain ip where "ip \<noteq> ''''" "\<forall>ip'. stored_at (ctlrStore (sctlr sys)) ''b'' ip' \<longleftrightarrow> ip' = ip"
    using all [rule_format, OF r(2) web_ab_wants] by blast
  with run(1) [of 30] r(2) show ?thesis by blast
qed

subsection \<open>A tick moves a host\<close>

lemma tick_objects:
  assumes "ctl_step cl (kube_annotate api agord) vInterval c Tick c'"
  shows "oClient c' = oClient c"
  using assms by (cases rule: tick_cases) simp_all

text \<open>Without a message to process and without edits of the objects, no step changes an object.\<close>

lemma sec_step_sapi:
  assumes "sec_step ipam cl api vInterval sys ev sys'" and "ev \<notin> {SPass, SEdit}"
    and "\<And>ip specs ips. phase sys \<noteq> Updating ip specs ips" and "\<And>ips. phase sys \<noteq> Writing ips"
  shows "sapi sys' = sapi sys \<and> (\<forall>ip specs ips. phase sys' \<noteq> Updating ip specs ips) \<and> (\<forall>ips. phase sys' \<noteq> Writing ips)"
  using assms(1)
proof cases
  case (watch kev k ph)
  with assms(3,4) show ?thesis
    by (auto simp: sapi_def take_message_def split: if_splits phase.splits)
next
  case (verify agord c)
  then show ?thesis using tick_objects [OF verify(5)] by (simp add: sapi_def)
qed (use assms in \<open>simp_all add: sapi_def\<close>)

lemma sec_path_sapi:
  "sec_path ipam cl api vInterval sys evs sys' \<Longrightarrow> SPass \<notin> set evs \<Longrightarrow> SEdit \<notin> set evs \<Longrightarrow> phase sys = Ready \<Longrightarrow>
     sapi sys' = sapi sys \<and> (\<forall>ip specs ips. phase sys' \<noteq> Updating ip specs ips) \<and> (\<forall>ips. phase sys' \<noteq> Writing ips)"
proof (induction rule: sec_path.induct)
  case (onward evs sys1 ev sys2)
  then show ?case using sec_step_sapi [OF onward.hyps(2)] by auto
qed simp

text \<open>C33. A tick leaves annotations behind. When the records that the IPAM system reports differ from
  the controller's store, the tick makes them the store and processes the groups: a listed host
  that the IPAM system reports at another address is now stored there. (Otherwise the tick changes no
  store.) But the tick writes nothing back: the objects of the API server, with the old addresses in
  their annotations, stay as they are until the controller processes a next message or someone else
  edits them, whatever else happens.\<close>

theorem tick_leaves_annotations:
  assumes "client_contract cl" and "sec_step ipam cl api vInterval sys SVerify sys1"
    and "sec_path ipam cl api vInterval sys1 evs sys2" and "SPass \<notin> set evs" and "SEdit \<notin> set evs"
  shows "sapi sys2 = sapi sys \<and>
    (\<exists>st w. iGetRecords cl (iClient (sctlr sys)) = Some (st, w) \<and>
       (if st = ctlrStore (sctlr sys) then ctlrStore (sctlr sys1) = st
        else (\<exists>gord ord w'. fair_range gord \<and> fair_range ord \<and>
            processIPGroups cl gord ord (ipGroups (sctlr sys)) st w = Some (ctlrStore (sctlr sys1), w')) \<and>
          (\<forall>h ip. h \<in> all_hosts (ipGroups (sctlr sys)) \<longrightarrow> stored_at st h ip \<longrightarrow> stored_at (ctlrStore (sctlr sys1)) h ip)))"
proof (rule conjI)
  from assms(2) obtain agord c where s: "phase sys = Ready" "sys1 = \<lparr>sctlr = c, phase = Ready\<rparr>"
    and t: "ctl_step cl (kube_annotate api agord) vInterval (sctlr sys) Tick c"
    by cases simp
  from tick_objects [OF t] sec_path_sapi [OF assms(3-5)] show "sapi sys2 = sapi sys" by (simp add: s(2) sapi_def)
  from t show "\<exists>st w. iGetRecords cl (iClient (sctlr sys)) = Some (st, w) \<and>
       (if st = ctlrStore (sctlr sys) then ctlrStore (sctlr sys1) = st
        else (\<exists>gord ord w'. fair_range gord \<and> fair_range ord \<and>
            processIPGroups cl gord ord (ipGroups (sctlr sys)) st w = Some (ctlrStore (sctlr sys1), w')) \<and>
          (\<forall>h ip. h \<in> all_hosts (ipGroups (sctlr sys)) \<longrightarrow> stored_at st h ip \<longrightarrow> stored_at (ctlrStore (sctlr sys1)) h ip))"
  proof (cases rule: tick_cases)
    case (same w)
    then show ?thesis by (auto simp: s(2))
  next
    case (changed gord ord st w st' w')
    have "stored_at st' h ip" if "h \<in> all_hosts (ipGroups (sctlr sys))" "stored_at st h ip" for h ip
      by (rule pass_keeps [OF assms(1) changed(1,2,6) that])
    with changed show ?thesis by (intro exI [of _ st] exI [of _ w]) (auto simp: s(2))
  qed
qed

text \<open>In this run the record of a host has gone from the IPAM system; the tick stores the host at
  another address, and the resource keeps the annotation with the old one.\<close>

theorem tick_leaves_annotations_witness:
  "\<exists>evs sys ip. sec_run ''infoblox'' counter_client demo_api 30 evs sys \<and> phase sys = Ready \<and>
     sapi sys web_key = Some (with_ip ''1'' (demo_meta ''web'' net8)) \<and>
     stored_at (ctlrStore (sctlr sys)) ''a'' ip \<and> ip \<noteq> ''1''"
proof -
  let ?env = "demo_env Acked [demo_ingress net8 [''a'', ''b'']]"
  let ?evs = "take 6 sec_before @ [SUpdate, SNext, SDone]"
  have "case sec_play ''infoblox'' counter_client demo_api ?env ?evs sec_first of
      None \<Rightarrow> False
    | Some sys \<Rightarrow> (case phase sys of Ready \<Rightarrow> True | _ \<Rightarrow> False) \<and> sapi sys web_key = Some (with_ip ''1'' (demo_meta ''web'' net8)) \<and>
        (case handle counter_client (kube_annotate demo_api ascending) ascending ascending Tick (sctlr sys) of
           None \<Rightarrow> False
         | Some c \<Rightarrow> entry (ctlrStore c) ''11'' ''a'' \<noteq> None)"
    by code_simp
  then obtain sys c where p: "sec_play ''infoblox'' counter_client demo_api ?env ?evs sec_first = Some sys"
    and ph: "phase sys = Ready" and old: "sapi sys web_key = Some (with_ip ''1'' (demo_meta ''web'' net8))"
    and h: "handle counter_client (kube_annotate demo_api ascending) ascending ascending Tick (sctlr sys) = Some c"
    and c: "entry (ctlrStore c) ''11'' ''a'' \<noteq> None"
    by (auto simp del: not_None_eq split: option.splits phase.splits)
  have "ctl_step counter_client (kube_annotate demo_api ascending) 30 (sctlr sys) Tick c"
    by (rule ctl_step.intros [OF fair_ascending fair_ascending _ h]) simp
  note tick = sec_step.verify [OF ph fair_ascending this]
  from sec_run.step [OF sec_play_run [OF p sec_first_run] tick]
  have "sec_run ''infoblox'' counter_client demo_api 30 ([] @ ?evs @ [SVerify]) \<lparr>sctlr = c, phase = Ready\<rparr>" by simp
  moreover have "stored_at (ctlrStore c) ''a'' ''11''" using c(1) by (simp add: stored_at_def)
  moreover have "sapi \<lparr>sctlr = c, phase = Ready\<rparr> = sapi sys"
    using tick_leaves_annotations [OF counter_client_contract tick sec_path.here] by simp
  ultimately show ?thesis using old by fastforce
qed

end
