(* ===== verification/Request_Builder.thy ===== *)
theory Request_Builder
  imports Infoblox
begin

section \<open>The requests to the grid (pkg/manager/infoblox.go, requestBuilder)\<close>

text \<open>
  The client overrides the URLs and requests of the vendored library, to add its attribute as a
  filter when it reads A and CNAME records. The parts of Go's \<^verbatim>\<open>net/url\<close> that it uses are modelled on
  bytes: escaping with the modes of a host, a path and a query, and \<^verbatim>\<open>Values.Encode\<close>. The JSON body
  is that of the vendored library (Connector) and an argument here, and so is whether \<^verbatim>\<open>http.NewRequest\<close> accepts
  the URL.
\<close>

subsection \<open>Escaping, as in net/url\<close>

datatype escape_mode = EncodeHost | EncodePath | EncodeQuery

text \<open>Letters, digits and the unreserved marks are never escaped.\<close>

definition unreserved :: "char \<Rightarrow> bool" where
  "unreserved c \<longleftrightarrow> is_digit c \<or> (65 \<le> char_code c \<and> char_code c \<le> 90) \<or>
     (97 \<le> char_code c \<and> char_code c \<le> 122) \<or> c \<in> set ''-_.~''"

definition shouldEscape :: "char \<Rightarrow> escape_mode \<Rightarrow> bool" where
  "shouldEscape c mode =
     (if unreserved c then False
      else (case mode of
              EncodeHost \<Rightarrow> c \<notin> set ''!$&()*+,;=:[]<>'' \<union> {CHR 34, CHR 39}
            | EncodePath \<Rightarrow> c \<notin> set ''$&+,/:;=@''
            | EncodeQuery \<Rightarrow> True))"

definition hex_char :: "nat \<Rightarrow> char" where
  "hex_char n = ''0123456789ABCDEF'' ! n"

definition escape_char :: "escape_mode \<Rightarrow> char \<Rightarrow> string" where
  "escape_char mode c =
     (if shouldEscape c mode then
        (if c = CHR 32 \<and> mode = EncodeQuery then ''+''
         else [CHR ''%'', hex_char (of_char c div 16), hex_char (of_char c mod 16)])
      else [c])"

definition escape :: "escape_mode \<Rightarrow> string \<Rightarrow> string" where
  "escape mode s = concat (map (escape_char mode) s)"

fun joined :: "string \<Rightarrow> string list \<Rightarrow> string" where
  "joined sep [] = ''''"
| "joined sep [s] = s"
| "joined sep (s # ss) = s @ sep @ joined sep ss"

text \<open>\<^verbatim>\<open>Values.Encode\<close>: the pairs by ascending key.\<close>

definition encode_pair :: "string \<times> string \<Rightarrow> string" where
  "encode_pair kv = escape EncodeQuery (fst kv) @ ''='' @ escape EncodeQuery (snd kv)"

definition Encode :: "(string, string) fmap \<Rightarrow> string" where
  "Encode vals = joined ''&'' (map (\<lambda>k. encode_pair (k, map_get vals k)) (ascending () (fmdom vals)))"

text \<open>\<^verbatim>\<open>URL.String\<close> with a scheme and a host, and a path that does not begin with a slash.\<close>

record URL =
  uHost :: string
  uPath :: string
  uRawQuery :: string

definition EscapedPath :: "URL \<Rightarrow> string" where
  "EscapedPath u = (if uPath u = ''*'' then ''*'' else escape EncodePath (uPath u))"

definition URL_String :: "URL \<Rightarrow> string" where
  "URL_String u =
     ''https:'' @ ''//'' @ escape EncodeHost (uHost u) @
     (if EscapedPath u \<noteq> '''' \<and> hd (EscapedPath u) \<noteq> CHR ''/'' then ''/'' else '''') @ EscapedPath u @
     (if uRawQuery u \<noteq> '''' then ''?'' @ uRawQuery u else '''')"

subsection \<open>Building a request\<close>

record HostConfig =
  hcHost :: string
  hcVersion :: string
  hcPort :: string
  hcUsername :: string
  hcPassword :: string

datatype RequestType = CREATE | GET | DELETE | UPDATE

fun toString :: "RequestType \<Rightarrow> string" where
  "toString CREATE = ''POST''"
| "toString GET = ''GET''"
| "toString DELETE = ''DELETE''"
| "toString UPDATE = ''PUT''"

text \<open>What the constructors of the vendored objects set.\<close>

fun ObjectType :: "IBObject \<Rightarrow> string" where
  "ObjectType (ObjA _) = ''record:a''"
| "ObjectType (ObjCNAME _) = ''record:cname''"
| "ObjectType (ObjZone _) = ''zone_auth''"
| "ObjectType (ObjNetwork _) = ''network''"
| "ObjectType (ObjFixed _) = ''fixedaddress''"
| "ObjectType (ObjEADef _) = ''extensibleattributedef''"
| "ObjectType (ObjUser _) = ''userprofile''"

fun ReturnFields :: "IBObject \<Rightarrow> string list" where
  "ReturnFields (ObjA _) = [''extattrs'', ''ipv4addr'', ''name'', ''view'', ''zone'']"
| "ReturnFields (ObjCNAME _) = [''extattrs'', ''canonical'', ''name'', ''view'', ''zone'']"
| "ReturnFields (ObjZone _) = [''extattrs'', ''fqdn'', ''view'']"
| "ReturnFields (ObjNetwork _) = [''extattrs'', ''network'', ''network_view'']"
| "ReturnFields (ObjFixed _) = [''extattrs'', ''ipv4addr'', ''mac'', ''network'', ''network_view'']"
| "ReturnFields (ObjEADef _) = [''allowed_object_types'', ''comment'', ''flags'', ''list_values'', ''name'', ''type'']"
| "ReturnFields (ObjUser _) = [''name'']"

definition url_vals :: "RequestType \<Rightarrow> string \<Rightarrow> string list \<Rightarrow> (string, string) fmap" where
  "url_vals r objType returnFields =
     (if r = GET then
        (let vals = (if objType = ''record:a'' \<or> objType = ''record:cname''
                     then fmupd (''*'' @ EAKey @ ''~'') EAVal fmempty else fmempty)
         in if length returnFields > 0 then fmupd ''_return_fields'' (joined '','' returnFields) vals else vals)
      else fmempty)"

definition url_path :: "HostConfig \<Rightarrow> string \<Rightarrow> string \<Rightarrow> string" where
  "url_path cfg objType ref =
     joined ''/'' ([''wapi'', ''v'' @ hcVersion cfg] @ (if length ref > 0 then [ref] else [objType]))"

definition BuildUrl :: "HostConfig \<Rightarrow> RequestType \<Rightarrow> string \<Rightarrow> string \<Rightarrow> string list \<Rightarrow> string" where
  "BuildUrl cfg r objType ref returnFields =
     (let qry = (if r = GET then Encode (url_vals r objType returnFields) else '''')
      in URL_String \<lparr>uHost = hcHost cfg @ '':'' @ hcPort cfg, uPath = url_path cfg objType ref, uRawQuery = qry\<rparr>)"

record HttpRequest =
  reqMethod :: string
  reqUrl :: string
  reqBody :: string
  reqContentType :: string
  reqBasicAuth :: "string \<times> string"

text \<open>None is Go's error. The object may be nil, as it is when a record is deleted.\<close>

definition BuildRequest ::
    "(RequestType \<Rightarrow> IBObject \<Rightarrow> string) \<Rightarrow> (string \<Rightarrow> bool) \<Rightarrow> HostConfig \<Rightarrow> RequestType \<Rightarrow>
     IBObject option \<Rightarrow> string \<Rightarrow> HttpRequest option" where
  "BuildRequest buildBody urlParses cfg r obj ref =
     (let objType = (case obj of Some x \<Rightarrow> ObjectType x | None \<Rightarrow> '''');
          returnFields = (case obj of Some x \<Rightarrow> ReturnFields x | None \<Rightarrow> []);
          url = BuildUrl cfg r objType ref returnFields;
          body = (case obj of Some x \<Rightarrow> buildBody r x | None \<Rightarrow> '''')
      in if urlParses url
         then Some \<lparr>reqMethod = toString r, reqUrl = url, reqBody = body,
                    reqContentType = ''application/json'', reqBasicAuth = (hcUsername cfg, hcPassword cfg)\<rparr>
         else None)"

subsection \<open>What the receiver reads\<close>

definition unhex :: "char \<Rightarrow> nat option" where
  "unhex c =
     (if is_digit c then Some (nat (char_code c - 48))
      else if 65 \<le> char_code c \<and> char_code c \<le> 70 then Some (nat (char_code c - 55)) else None)"

fun unescape :: "escape_mode \<Rightarrow> string \<Rightarrow> string option" where
  "unescape mode [] = Some []"
| "unescape mode (c # cs) =
     (if c = CHR ''%'' then
        (case cs of
           a # b # rest \<Rightarrow>
             (case (unhex a, unhex b) of
                (Some x, Some y) \<Rightarrow> map_option ((#) (char_of (16 * x + y))) (unescape mode rest)
              | _ \<Rightarrow> None)
         | _ \<Rightarrow> None)
      else map_option ((#) (if c = CHR ''+'' \<and> mode = EncodeQuery then CHR 32 else c)) (unescape mode cs))"

definition parse_pair :: "string \<Rightarrow> (string \<times> string) option" where
  "parse_pair s = do {
     k \<leftarrow> unescape EncodeQuery (takeWhile (\<lambda>c. c \<noteq> CHR ''='') s);
     v \<leftarrow> unescape EncodeQuery (tl (dropWhile (\<lambda>c. c \<noteq> CHR ''='') s));
     Some (k, v)
   }"

definition parse_query :: "string \<Rightarrow> (string \<times> string) option list" where
  "parse_query q = (if q = '''' then [] else map parse_pair (split_on (CHR ''&'') q))"

lemma hex_digits:
  assumes "n < 16"
  shows "unhex (hex_char n) = Some n \<and> unreserved (hex_char n)"
proof -
  have "\<forall>n \<in> set [0..<16]. unhex (hex_char n) = Some n \<and> unreserved (hex_char n)" by code_simp
  with assms show ?thesis by simp
qed

lemma special_chars:
  "shouldEscape (CHR ''%'') mode" "shouldEscape (CHR ''+'') EncodeQuery"
  "\<not> unreserved (CHR ''&'')" "\<not> unreserved (CHR ''='')" "\<not> unreserved (CHR ''?'')"
  by (cases mode; simp only:; code_simp) code_simp+

lemma escape_char_cases:
  obtains (space) "mode = EncodeQuery" "c = CHR 32" "escape_char mode c = ''+''"
  | (hex) x y where "escape_char mode c = [CHR ''%'', hex_char x, hex_char y]"
      "x < 16" "y < 16" "char_of (16 * x + y) = c"
  | (plain) "escape_char mode c = [c]" "\<not> shouldEscape c mode"
proof (cases "shouldEscape c mode")
  case True
  show thesis
  proof (cases "c = CHR 32 \<and> mode = EncodeQuery")
    case False
    with True have "escape_char mode c = [CHR ''%'', hex_char (of_char c div 16), hex_char (of_char c mod 16)]"
      unfolding escape_char_def by simp
    then show thesis by (rule hex) (simp_all add: div_less_iff_less_mult)
  qed (use True space in \<open>simp add: escape_char_def\<close>)
qed (simp add: plain escape_char_def)

lemma escape_char_back:
  "unescape mode (escape_char mode c @ s) = map_option ((#) c) (unescape mode s)"
proof (cases mode c rule: escape_char_cases)
  case (hex x y)
  then show ?thesis by (simp add: hex_digits)
next
  case plain
  with special_chars(1) [of mode] special_chars(2) have "c \<noteq> CHR ''%''" "\<not> (c = CHR ''+'' \<and> mode = EncodeQuery)"
    by metis+
  with plain(1) show ?thesis by auto
qed simp

lemma unescape_escape: "unescape mode (escape mode s @ t) = map_option ((@) s) (unescape mode t)"
  by (induction s) (simp_all add: escape_def escape_char_back option.map_comp comp_def option.map_ident)

lemma escape_query_chars:
  assumes "c \<in> set (escape EncodeQuery s)"
  shows "unreserved c \<or> c = CHR ''+'' \<or> c = CHR ''%''"
proof -
  from assms obtain x where c: "c \<in> set (escape_char EncodeQuery x)" by (auto simp: escape_def)
  show ?thesis
  proof (cases EncodeQuery x rule: escape_char_cases)
    case (hex a b)
    with c hex_digits [of a] hex_digits [of b] show ?thesis by auto
  next
    case plain
    with c show ?thesis by (auto simp: shouldEscape_def split: if_splits)
  qed (use c in simp)
qed

subsection \<open>Properties\<close>

lemma split_on_app: "sep \<notin> set s \<Longrightarrow> split_on sep (s @ sep # t) = s # split_on sep t"
  by (induction s) auto

lemma split_joined:
  "ss \<noteq> [] \<Longrightarrow> (\<And>s. s \<in> set ss \<Longrightarrow> sep \<notin> set s) \<Longrightarrow> split_on sep (joined [sep] ss) = ss"
proof (induction "[sep]" ss rule: joined.induct)
  case (3 s s' ss)
  from "3.prems"(2) have "sep \<notin> set s" by simp
  then have "split_on sep (s @ sep # joined [sep] (s' # ss)) = s # split_on sep (joined [sep] (s' # ss))"
    by (rule split_on_app)
  with 3 show ?case by simp
qed (simp_all add: split_on_none)

lemma encode_pair_chars: "c \<in> set (encode_pair kv) \<Longrightarrow> c \<noteq> CHR ''&'' \<and> c \<noteq> CHR ''?''"
  using escape_query_chars [of c] special_chars by (auto simp: encode_pair_def)

lemma takeWhile_until: "c \<notin> set s \<Longrightarrow> takeWhile (\<lambda>x. x \<noteq> c) (s @ c # t) = s"
  by (induction s) auto

lemma dropWhile_until: "c \<notin> set s \<Longrightarrow> dropWhile (\<lambda>x. x \<noteq> c) (s @ c # t) = c # t"
  by (induction s) auto

lemma takeWhile_none: "c \<notin> set s \<Longrightarrow> takeWhile (\<lambda>x. x \<noteq> c) s = s"
  by (induction s) auto

lemma dropWhile_none: "c \<notin> set s \<Longrightarrow> dropWhile (\<lambda>x. x \<noteq> c) s = []"
  by (induction s) auto

lemma escape_no_question: "CHR ''?'' \<notin> set (escape mode s)"
proof -
  have "CHR ''?'' \<notin> set (escape_char mode c)" for c
  proof (cases mode c rule: escape_char_cases)
    case (hex x y)
    then show ?thesis using hex_digits [of x] hex_digits [of y] special_chars(5) by auto
  next
    case plain
    have "shouldEscape (CHR ''?'') mode" by (cases mode; simp only:; code_simp)
    with plain show ?thesis by auto
  qed simp
  then show ?thesis by (simp add: escape_def)
qed

lemma parse_encoded: "parse_pair (encode_pair kv) = Some kv"
proof -
  have "CHR ''='' \<notin> set (escape EncodeQuery (fst kv))"
    using escape_query_chars special_chars(4) by blast
  then show ?thesis
    using unescape_escape [of EncodeQuery "fst kv" "[]"] unescape_escape [of EncodeQuery "snd kv" "[]"]
    by (simp add: parse_pair_def encode_pair_def takeWhile_until dropWhile_until)
qed

lemma parse_Encode:
  "parse_query (Encode vals) = map (\<lambda>k. Some (k, map_get vals k)) (ascending () (fmdom vals))"
proof (cases "ascending () (fmdom vals)")
  case Nil
  then show ?thesis by (simp add: Encode_def parse_query_def)
next
  case (Cons k ks)
  let ?ss = "map (\<lambda>k. encode_pair (k, map_get vals k)) (k # ks)"
  have "joined ''&'' ?ss \<noteq> ''''" by (cases ks) (simp_all add: encode_pair_def)
  moreover have "split_on (CHR ''&'') (joined ''&'' ?ss) = ?ss"
    by (rule split_joined) (use encode_pair_chars in force)+
  ultimately show ?thesis by (simp add: Encode_def parse_query_def Cons parse_encoded del: joined.simps)
qed


lemma split_query:
  assumes "c \<notin> set s"
  shows "takeWhile (\<lambda>x. x \<noteq> c) (s @ (if q = '''' then '''' else c # q)) = s"
    and "tl (dropWhile (\<lambda>x. x \<noteq> c) (s @ (if q = '''' then '''' else c # q))) = q"
  by (cases "q = ''''"; simp add: assms takeWhile_until dropWhile_until takeWhile_none dropWhile_none)+

lemma joined_params:
  "map (\<lambda>k. Some (k, map_get (url_vals r objType rf) k)) (ascending () (fmdom (url_vals r objType rf))) =
     map Some (if r = GET then
       (if objType = ''record:a'' \<or> objType = ''record:cname'' then [(''*F5-IPAM~'', ''managed'')] else []) @
       (if rf = [] then [] else [(''_return_fields'', joined '','' rf)]) else [])"
proof -
  have sort: "ascending () {|''_return_fields'', ''*F5-IPAM~''|} = [''*F5-IPAM~'', ''_return_fields'']" by code_simp
  have one: "ascending () {|k|} = [k]" for k :: string by (simp add: ascending_def sorted_list_of_fset.rep_eq)
  have none: "ascending () ({||} :: string fset) = []" by (simp add: ascending_def sorted_list_of_fset.rep_eq)
  show ?thesis
    by (simp add: url_vals_def EAKey_def EAVal_def Let_def sort one none map_get_def)
qed

text \<open>C36. The request reaches the grid as it was meant: what stands before the first question mark of
  the URL is the host and the escaped path, which unescapes to the version and the reference, or,
  without a reference, the object type; and the query behind it decodes to exactly the attribute
  filter, for a GET of A or CNAME records, and the names of the fields to return, for any GET of an
  object. Requests of other kinds have no query.\<close>

theorem url_decodes:
  "\<exists>p. takeWhile (\<lambda>c. c \<noteq> CHR ''?'') (BuildUrl cfg r objType ref rf) =
        ''https://'' @ escape EncodeHost (hcHost cfg @ '':'' @ hcPort cfg) @ ''/'' @ p \<and>
      unescape EncodePath p = Some (''wapi/v'' @ hcVersion cfg @ ''/'' @ (if ref = '''' then objType else ref)) \<and>
      parse_query (tl (dropWhile (\<lambda>c. c \<noteq> CHR ''?'') (BuildUrl cfg r objType ref rf))) =
        map Some (if r = GET then
          (if objType = ''record:a'' \<or> objType = ''record:cname'' then [(''*F5-IPAM~'', ''managed'')] else []) @
          (if rf = [] then [] else [(''_return_fields'', joined '','' rf)]) else [])"
proof -
  have path: "url_path cfg objType ref = ''wapi/v'' @ hcVersion cfg @ ''/'' @ (if ref = '''' then objType else ref)"
    by (simp add: url_path_def)
  let ?p = "escape EncodePath (url_path cfg objType ref)"
  let ?base = "''https://'' @ escape EncodeHost (hcHost cfg @ '':'' @ hcPort cfg) @ ''/'' @ ?p"
  let ?q = "Encode (url_vals r objType rf)"
  have w: "escape_char EncodePath (CHR ''w'') = ''w''" by code_simp
  have e: "EscapedPath \<lparr>uHost = h, uPath = url_path cfg objType ref, uRawQuery = q\<rparr> = ?p" for h q
    by (simp add: EscapedPath_def path)
  have hd: "?p \<noteq> ''''" "hd ?p \<noteq> CHR ''/''" by (simp_all add: path escape_def w)
  have "Encode fmempty = ''''" by (simp add: Encode_def ascending_def sorted_list_of_fset.rep_eq)
  then have "(if r = GET then ?q else '''') = ?q" by (simp add: url_vals_def)
  then have url: "BuildUrl cfg r objType ref rf = ?base @ (if ?q = '''' then '''' else CHR ''?'' # ?q)"
    unfolding BuildUrl_def Let_def URL_String_def using hd by (simp add: e)
  have no: "CHR ''?'' \<notin> set ?base"
    using escape_no_question by auto
  have un: "unescape EncodePath ?p = Some (url_path cfg objType ref)"
    using unescape_escape [of EncodePath "url_path cfg objType ref" "[]"] by simp
  note parts = split_query [OF no, of ?q, folded url]
  show ?thesis
    using parts(1) un by (intro exI [of _ ?p]) (simp add: parts(2) parse_Encode joined_params path)
qed

end
