(* ===== verification/Logging.thy ===== *)
theory Logging
  imports Prelude
begin

section \<open>Logging (pkg/vlogger/log.go, log_null.go, console/log_console.go)\<close>

text \<open>
  The package-level logger: one logger for each level in an array, all of which are set to the same
  priority. Levels are Go ints, higher ones more urgent; syslog priorities run the other way. The
  loggers are objects behind pointers, so that a logger registered for several levels is one
  object: the array holds their addresses. Indexing the array out of range panics (None). Strings
  are lists of bytes; \<open>toLower\<close> is \<^verbatim>\<open>strings.ToLower\<close> on ASCII text.
\<close>

subsection \<open>Levels\<close>

type_synonym LogLevel = int

definition LL_DEBUG :: LogLevel where "LL_DEBUG = 0"
definition LL_INFO :: LogLevel where "LL_INFO = 1"
definition LL_WARNING :: LogLevel where "LL_WARNING = 2"
definition LL_ERROR :: LogLevel where "LL_ERROR = 3"
definition LL_CRITICAL :: LogLevel where "LL_CRITICAL = 4"
definition LL_LOGLEVEL_SIZE :: nat where "LL_LOGLEVEL_SIZE = 5"

lemmas LL_defs = LL_DEBUG_def LL_INFO_def LL_WARNING_def LL_ERROR_def LL_CRITICAL_def LL_LOGLEVEL_SIZE_def

definition is_level :: "LogLevel \<Rightarrow> bool" where
  "is_level l \<longleftrightarrow> 0 \<le> l \<and> l < int LL_LOGLEVEL_SIZE"

definition toLower_char :: "char \<Rightarrow> char" where
  "toLower_char c = (if CHR ''A'' \<le> c \<and> c \<le> CHR ''Z'' then char_of (of_char c + 32 :: nat) else c)"

definition toLower :: "string \<Rightarrow> string" where
  "toLower = map toLower_char"

definition LogLevel_String :: "LogLevel \<Rightarrow> string" where
  "LogLevel_String ll =
     (if ll = LL_DEBUG then ''debug'' else if ll = LL_INFO then ''info''
      else if ll = LL_WARNING then ''warning'' else if ll = LL_ERROR then ''error''
      else if ll = LL_CRITICAL then ''critical'' else ''invalid'')"

definition NewLogLevel :: "string \<Rightarrow> LogLevel option" where
  "NewLogLevel s0 =
     (let s = toLower s0 in
      if s = '''' then None
      else if s = ''debug'' then Some LL_DEBUG else if s = ''info'' then Some LL_INFO
      else if s = ''warning'' then Some LL_WARNING else if s = ''error'' then Some LL_ERROR
      else if s = ''critical'' then Some LL_CRITICAL else None)"

definition quote :: char where "quote = CHR 34"

text \<open>\<^verbatim>\<open>strings.Trim(s, "\"")\<close>\<close>

definition trim_quotes :: "string \<Rightarrow> string" where
  "trim_quotes s = rev (dropWhile (\<lambda>c. c = quote) (rev (dropWhile (\<lambda>c. c = quote) s)))"

definition MarshalJSON :: "LogLevel \<Rightarrow> string" where
  "MarshalJSON ll = [quote] @ LogLevel_String ll @ [quote]"

text \<open>None is Go's error; the level is left as it was.\<close>

definition UnmarshalJSON :: "string \<Rightarrow> LogLevel option" where
  "UnmarshalJSON data = NewLogLevel (trim_quotes data)"

subsection \<open>Loggers\<close>

text \<open>syslog's priorities; a logger prints what is at least as urgent as its own.\<close>

definition LOG_CRIT :: int where "LOG_CRIT = 2"
definition LOG_ERR :: int where "LOG_ERR = 3"
definition LOG_WARNING :: int where "LOG_WARNING = 4"
definition LOG_INFO :: int where "LOG_INFO = 6"
definition LOG_DEBUG :: int where "LOG_DEBUG = 7"

lemmas LOG_defs = LOG_CRIT_def LOG_ERR_def LOG_WARNING_def LOG_INFO_def LOG_DEBUG_def

datatype logger = Null int | Console int

definition newNullLogger :: logger where "newNullLogger = Null LOG_DEBUG"
definition NewConsoleLogger :: logger where "NewConsoleLogger = Console LOG_DEBUG"

fun set_level :: "int \<Rightarrow> logger \<Rightarrow> logger" where
  "set_level p (Null _) = Null p"
| "set_level p (Console _) = Console p"

text \<open>The methods Debug, Info, Warning, Error and Critical of a logger, by the priority they compare
  with and the tag they print.\<close>

datatype severity = Debug | Info | Warning | Error | Critical

fun threshold :: "severity \<Rightarrow> int" where
  "threshold Debug = LOG_DEBUG"
| "threshold Info = LOG_INFO"
| "threshold Warning = LOG_WARNING"
| "threshold Error = LOG_ERR"
| "threshold Critical = LOG_CRIT"

fun tag :: "severity \<Rightarrow> string" where
  "tag Debug = ''[DEBUG]''"
| "tag Info = ''[INFO]''"
| "tag Warning = ''[WARNING]''"
| "tag Error = ''[ERROR]''"
| "tag Critical = ''[CRITICAL]''"

fun print_log :: "severity \<Rightarrow> string \<Rightarrow> logger \<Rightarrow> string list" where
  "print_log sev msg (Null _) = []"
| "print_log sev msg (Console p) = (if p \<ge> threshold sev then [tag sev @ '' '' @ msg] else [])"

text \<open>The variants with a format print the formatted message; \<open>sprintf\<close> is \<^verbatim>\<open>fmt.Sprintf\<close>. A message that is
  filtered out is not formatted.\<close>

fun print_logf :: "(string \<Rightarrow> 'p list \<Rightarrow> string) \<Rightarrow> severity \<Rightarrow> string \<Rightarrow> 'p list \<Rightarrow> logger \<Rightarrow> string list" where
  "print_logf sprintf sev format params (Null _) = []"
| "print_logf sprintf sev format params (Console p) =
     (if p \<ge> threshold sev then (let msg = sprintf format params in [tag sev @ '' '' @ msg]) else [])"

lemma print_logf_formatted: "print_logf sprintf sev format params l = print_log sev (sprintf format params) l"
  by (cases l) simp_all

fun get_level :: "logger \<Rightarrow> int" where
  "get_level (Null p) = p"
| "get_level (Console p) = p"

lemma get_set_level [simp]: "get_level (set_level p l) = p"
  by (cases l) simp_all

subsection \<open>The package\<close>

record vlogger =
  loggers :: "logger list"
  vlog :: "nat list"
  logLevel :: LogLevel
  printed :: "string list"

fun index_of :: "severity \<Rightarrow> nat" where
  "index_of Debug = 0"
| "index_of Info = 1"
| "index_of Warning = 2"
| "index_of Error = 3"
| "index_of Critical = 4"

text \<open>The functions Debug, Info, Warning, Error and Critical of the package.\<close>

definition write_log :: "severity \<Rightarrow> string \<Rightarrow> vlogger \<Rightarrow> vlogger" where
  "write_log sev msg v =
     v\<lparr>printed := printed v @ print_log sev msg (loggers v ! (vlog v ! index_of sev))\<rparr>"

definition write_logf :: "(string \<Rightarrow> 'p list \<Rightarrow> string) \<Rightarrow> severity \<Rightarrow> string \<Rightarrow> 'p list \<Rightarrow> vlogger \<Rightarrow> vlogger" where
  "write_logf sprintf sev format params v =
     v\<lparr>printed := printed v @ print_logf sprintf sev format params (loggers v ! (vlog v ! index_of sev))\<rparr>"

lemma write_logf_formatted: "write_logf sprintf sev format params v = write_log sev (sprintf format params) v"
  by (simp add: write_logf_def write_log_def print_logf_formatted)

text \<open>A new logger is put at a new address; the loop writes it to the levels from \<open>lo\<close> to \<open>hi\<close>.\<close>

definition allocate :: "logger \<Rightarrow> vlogger \<Rightarrow> nat \<times> vlogger" where
  "allocate l v = (length (loggers v), v\<lparr>loggers := loggers v @ [l]\<rparr>)"

fun register_levels :: "int list \<Rightarrow> nat \<Rightarrow> vlogger \<Rightarrow> vlogger option" where
  "register_levels [] a v = Some v"
| "register_levels (level # levels) a v =
     (if is_level level then register_levels levels a (v\<lparr>vlog := (vlog v)[nat level := a]\<rparr>) else None)"

definition RegisterLogger :: "LogLevel \<Rightarrow> LogLevel \<Rightarrow> nat \<Rightarrow> vlogger \<Rightarrow> vlogger option" where
  "RegisterLogger lo hi a v = register_levels [lo..hi] a v"

definition logLevelToSyslogLevel :: "int list" where
  "logLevelToSyslogLevel = [LOG_DEBUG, LOG_INFO, LOG_WARNING, LOG_ERR, LOG_CRIT]"

fun set_all :: "int \<Rightarrow> nat list \<Rightarrow> logger list \<Rightarrow> logger list" where
  "set_all p [] ls = ls"
| "set_all p (a # as) ls = set_all p as (ls[a := set_level p (ls ! a)])"

definition SetLogLevel :: "LogLevel \<Rightarrow> vlogger \<Rightarrow> vlogger option" where
  "SetLogLevel level v =
     (if is_level level then
        (let slLogLevel = logLevelToSyslogLevel ! nat level
         in Some (v\<lparr>logLevel := level, loggers := set_all slLogLevel (vlog v) (loggers v)\<rparr>))
      else None)"

definition GetLogLevel :: "vlogger \<Rightarrow> LogLevel" where
  "GetLogLevel v = logLevel v"

text \<open>Closing visits the levels, and so closes a logger once for each level it has; neither of the two
  loggers has anything to clean up.\<close>

fun close_logger :: "logger \<Rightarrow> logger" where
  "close_logger (Null p) = Null p"
| "close_logger (Console p) = Console p"

fun close_all :: "nat list \<Rightarrow> logger list \<Rightarrow> logger list" where
  "close_all [] ls = ls"
| "close_all (a # as) ls = close_all as (ls[a := close_logger (ls ! a)])"

definition Close :: "vlogger \<Rightarrow> vlogger" where
  "Close v = v\<lparr>loggers := close_all (vlog v) (loggers v)\<rparr>"

text \<open>How Fatal and Panic end: an exit with a status, or a panic with a message; with the loggers as
  they are then.\<close>

datatype ending = Exited nat vlogger | Panicked string vlogger

definition Fatal :: "string \<Rightarrow> vlogger \<Rightarrow> ending" where
  "Fatal msg v = Exited 1 (Close (write_log Critical msg v))"

definition Panic :: "string \<Rightarrow> vlogger \<Rightarrow> ending" where
  "Panic msg v = Panicked msg (write_log Critical msg v)"

definition Fatalf :: "(string \<Rightarrow> 'p list \<Rightarrow> string) \<Rightarrow> string \<Rightarrow> 'p list \<Rightarrow> vlogger \<Rightarrow> ending" where
  "Fatalf sprintf format params v = Exited 1 (Close (write_logf sprintf Critical format params v))"

definition Panicf :: "(string \<Rightarrow> 'p list \<Rightarrow> string) \<Rightarrow> string \<Rightarrow> 'p list \<Rightarrow> vlogger \<Rightarrow> ending" where
  "Panicf sprintf format params v =
     (let msg = sprintf format params in Panicked msg (write_log Critical msg v))"

lemma formatted_endings:
  "Fatalf sprintf format params v = Fatal (sprintf format params) v"
  "Panicf sprintf format params v = Panic (sprintf format params) v"
  by (simp_all add: Fatalf_def Fatal_def Panicf_def Panic_def Let_def write_logf_formatted)

text \<open>The package after its initialisation: the null logger at every level, as \<open>init\<close> in log_null.go
  registers it.\<close>

definition log_init :: vlogger where
  "log_init = \<lparr>loggers = [newNullLogger], vlog = replicate LL_LOGLEVEL_SIZE 0, logLevel = LL_DEBUG, printed = []\<rparr>"

subsection \<open>Well-formedness\<close>

definition log_wf :: "vlogger \<Rightarrow> bool" where
  "log_wf v \<longleftrightarrow> length (vlog v) = LL_LOGLEVEL_SIZE \<and> (\<forall>a \<in> set (vlog v). a < length (loggers v))"

lemma log_wf_init: "log_wf log_init"
  by (simp add: log_wf_def log_init_def)

lemma length_set_all [simp]: "length (set_all p as ls) = length ls"
  by (induction as arbitrary: ls) simp_all

lemma set_level_twice [simp]: "set_level p (set_level q l) = set_level p l"
  by (cases l) simp_all

lemma set_all_nth:
  "(\<forall>a \<in> set as. a < length ls) \<Longrightarrow> i < length ls \<Longrightarrow>
     set_all p as ls ! i = (if i \<in> set as then set_level p (ls ! i) else ls ! i)"
  by (induction as arbitrary: ls) (auto simp: nth_list_update)

lemma register_levels_vlog:
  "register_levels levels a v = Some v' \<Longrightarrow>
     loggers v' = loggers v \<and> length (vlog v') = length (vlog v) \<and> logLevel v' = logLevel v \<and> printed v' = printed v \<and>
     (length (vlog v) = LL_LOGLEVEL_SIZE \<longrightarrow> (\<forall>i < LL_LOGLEVEL_SIZE.
        vlog v' ! i = (if int i \<in> set levels then a else vlog v ! i)))"
proof (induction levels arbitrary: v)
  case (Cons level levels)
  from Cons.prems have l: "is_level level"
      and r: "register_levels levels a (v\<lparr>vlog := (vlog v)[nat level := a]\<rparr>) = Some v'"
    by (auto split: if_splits)
  from Cons.IH [OF r] l show ?case by (auto simp: nth_list_update is_level_def)
qed simp

lemma register_levels_panics:
  "register_levels levels a v = None \<longleftrightarrow> (\<exists>level \<in> set levels. \<not> is_level level)"
  by (induction levels arbitrary: v) auto


subsection \<open>Properties\<close>

text \<open>What \<open>verifyArgs\<close> of main.go does first: a console logger at every level, then the level that
  the flag names. False: the name is not one.\<close>

definition start_logging :: "string \<Rightarrow> vlogger \<Rightarrow> (bool \<times> vlogger) option" where
  "start_logging ll v = do {
     let (a, v1) = allocate NewConsoleLogger v;
     v2 \<leftarrow> RegisterLogger LL_DEBUG (int LL_LOGLEVEL_SIZE - 1) a v1;
     (case NewLogLevel ll of
        None \<Rightarrow> Some (False, v2)
      | Some l \<Rightarrow> do { v3 \<leftarrow> SetLogLevel l v2; Some (True, v3) })
   }"

lemma is_level_cases: "is_level l \<longleftrightarrow> l = 0 \<or> l = 1 \<or> l = 2 \<or> l = 3 \<or> l = 4"
  by (auto simp: is_level_def LL_defs)

lemma LogLevel_String_simps:
  "LogLevel_String 0 = ''debug''" "LogLevel_String 1 = ''info''" "LogLevel_String 2 = ''warning''"
  "LogLevel_String 3 = ''error''" "LogLevel_String 4 = ''critical''"
  by (simp_all add: LogLevel_String_def LL_defs)

lemma LogLevel_String_other: "\<not> is_level l \<Longrightarrow> LogLevel_String l = ''invalid''"
  by (simp add: LogLevel_String_def LL_defs is_level_cases)

lemma LogLevel_String_inj: "is_level l \<Longrightarrow> LogLevel_String ll = LogLevel_String l \<longleftrightarrow> ll = l"
  by (cases "is_level ll") (auto simp: is_level_cases [of l] is_level_cases [of ll] LogLevel_String_simps LogLevel_String_other)

lemma NewLogLevel_names:
  "NewLogLevel s = Some 0 \<longleftrightarrow> toLower s = ''debug''" "NewLogLevel s = Some 1 \<longleftrightarrow> toLower s = ''info''"
  "NewLogLevel s = Some 2 \<longleftrightarrow> toLower s = ''warning''" "NewLogLevel s = Some 3 \<longleftrightarrow> toLower s = ''error''"
  "NewLogLevel s = Some 4 \<longleftrightarrow> toLower s = ''critical''"
  by (simp_all add: NewLogLevel_def LL_defs Let_def)

lemma NewLogLevel_level: "NewLogLevel s = Some l \<Longrightarrow> is_level l"
  unfolding NewLogLevel_def Let_def is_level_cases LL_defs by (simp split: if_split_asm)

lemma NewLogLevel_iff: "NewLogLevel s = Some l \<longleftrightarrow> is_level l \<and> toLower s = LogLevel_String l"
proof (cases "is_level l")
  case True
  then consider "l = 0" | "l = 1" | "l = 2" | "l = 3" | "l = 4" unfolding is_level_cases by blast
  then show ?thesis
    by cases (simp_all add: NewLogLevel_names LogLevel_String_simps is_level_cases)
qed (use NewLogLevel_level in blast)

text \<open>Setting the logging up never panics, and knows the levels that have a name.\<close>

lemma start_logging_returns:
  shows "start_logging ll v \<noteq> None"
    "start_logging ll v = Some (known, v') \<Longrightarrow> known \<longleftrightarrow> NewLogLevel ll \<noteq> None"
proof -
  obtain a v1 where a: "allocate NewConsoleLogger v = (a, v1)" by (metis prod.exhaust)
  have "register_levels [0..4] a v1 \<noteq> None"
    by (simp add: register_levels_panics is_level_def LL_defs del: not_None_eq)
  then obtain v2 where "register_levels [0..4] a v1 = Some v2" by blast
  then have r: "start_logging ll v =
      (case NewLogLevel ll of None \<Rightarrow> Some (False, v2) | Some l \<Rightarrow> SetLogLevel l v2 \<bind> (\<lambda>v3. Some (True, v3)))"
    by (simp add: start_logging_def a RegisterLogger_def LL_defs)
  show "start_logging ll v \<noteq> None"
  proof (cases "NewLogLevel ll")
    case (Some l)
    from NewLogLevel_level [OF Some] show ?thesis by (simp add: r Some SetLogLevel_def Let_def)
  qed (simp add: r)
  show "known \<longleftrightarrow> NewLogLevel ll \<noteq> None" if "start_logging ll v = Some (known, v')"
    using that by (auto simp: start_logging_def allocate_def bind_eq_Some_conv split: option.splits)
qed

text \<open>Levels survive printing and reading: the JSON text of a level reads back as that level, of
  the numbers that are no level it does not read back at all, and a name is read, in upper or
  lower case, exactly when it is the name of a level.\<close>

lemma level_roundtrip:
  "UnmarshalJSON (MarshalJSON ll) = (if is_level ll then Some ll else None) \<and>
   (NewLogLevel s = Some l \<longleftrightarrow> is_level l \<and> toLower s = LogLevel_String l)"
proof -
  have nm: "LogLevel_String ll \<in> {''debug'', ''info'', ''warning'', ''error'', ''critical'', ''invalid''}"
    by (simp add: LogLevel_String_def)
  have trim: "trim_quotes (MarshalJSON ll) = LogLevel_String ll"
    using nm by (auto simp: trim_quotes_def MarshalJSON_def quote_def)
  have low: "toLower (LogLevel_String ll) = LogLevel_String ll"
    using nm by (elim insertE emptyE; simp only:; code_simp)
  have read: "NewLogLevel (LogLevel_String ll) = Some l' \<longleftrightarrow> is_level l' \<and> ll = l'" for l'
    unfolding NewLogLevel_iff low using LogLevel_String_inj by blast
  have "UnmarshalJSON (MarshalJSON ll) = (if is_level ll then Some ll else None)"
  proof (cases "NewLogLevel (LogLevel_String ll)")
    case None
    with read [of ll] have "\<not> is_level ll" by (metis option.distinct(1))
    with None show ?thesis by (simp only: UnmarshalJSON_def trim if_False)
  next
    case (Some l')
    with read [of l'] have "is_level ll" "l' = ll" by blast+
    with Some show ?thesis by (simp only: UnmarshalJSON_def trim if_True)
  qed
  then show ?thesis by (simp add: NewLogLevel_iff)
qed

text \<open>C40. The array of loggers is indexed in bounds or the call panics: registering a logger for a
  range of levels panics exactly when the range is not empty and leaves the levels, setting a
  level exactly when it is not one; and otherwise the named levels have the new logger and the
  others keep theirs.\<close>

theorem register_bounds:
  assumes "length (vlog v) = LL_LOGLEVEL_SIZE"
  shows "(RegisterLogger lo hi a v = None \<longleftrightarrow> lo \<le> hi \<and> \<not> (is_level lo \<and> is_level hi)) \<and>
    (SetLogLevel lo v = None \<longleftrightarrow> \<not> is_level lo) \<and>
    (\<forall>v'. RegisterLogger lo hi a v = Some v' \<longrightarrow> length (vlog v') = LL_LOGLEVEL_SIZE \<and>
       (\<forall>i < LL_LOGLEVEL_SIZE. vlog v' ! i = (if lo \<le> int i \<and> int i \<le> hi then a else vlog v ! i)))"
proof (intro conjI allI impI)
  show "RegisterLogger lo hi a v = None \<longleftrightarrow> lo \<le> hi \<and> \<not> (is_level lo \<and> is_level hi)"
    by (auto simp: RegisterLogger_def register_levels_panics is_level_def)
  show "SetLogLevel lo v = None \<longleftrightarrow> \<not> is_level lo" by (simp add: SetLogLevel_def Let_def)
qed (use register_levels_vlog [of "[lo..hi]" a v] assms in \<open>auto simp: RegisterLogger_def\<close>)

theorem register_bounds_witness:
  "RegisterLogger 0 4 0 log_init \<noteq> None \<and> RegisterLogger 0 5 0 log_init = None"
proof -
  have "length (vlog log_init) = LL_LOGLEVEL_SIZE" by (simp add: log_init_def)
  note b = register_bounds [OF this]
  show ?thesis using b [of 0 4 0] b [of 0 5 0] by (simp add: is_level_def LL_defs)
qed

text \<open>The level filters: after the program has set up its logging, the level is the one the flag
  names, and a message is printed, with its tag, exactly when its own level is at least that. So a
  fatal message is printed whatever the flag says, before the process exits with status 1, and the
  message of a panic before it panics.\<close>

lemma level_filters:
  assumes "log_wf v0" and "start_logging ll v0 = Some (True, v)"
  shows "NewLogLevel ll = Some (GetLogLevel v) \<and>
    printed (write_log sev msg v) =
      printed v0 @ (if GetLogLevel v \<le> int (index_of sev) then [tag sev @ '' '' @ msg] else []) \<and>
    (\<exists>v1. Fatal msg v = Exited 1 v1 \<and> printed v1 = printed v0 @ [''[CRITICAL] '' @ msg]) \<and>
    (\<exists>v1. Panic msg v = Panicked msg v1 \<and> printed v1 = printed v0 @ [''[CRITICAL] '' @ msg])"
proof -
  let ?a = "length (loggers v0)"
  let ?v1 = "v0\<lparr>loggers := loggers v0 @ [NewConsoleLogger]\<rparr>"
  from assms(2) obtain v2 l where r: "register_levels [0..4] ?a ?v1 = Some v2"
      and l: "NewLogLevel ll = Some l" and s: "SetLogLevel l v2 = Some v"
    by (auto simp: start_logging_def allocate_def RegisterLogger_def LL_defs bind_eq_Some_conv split: option.splits)
  from assms(1) have len: "length (vlog v0) = 5" by (simp add: log_wf_def LL_defs)
  from register_levels_vlog [OF r] len
  have v2: "loggers v2 = loggers v0 @ [NewConsoleLogger]" "printed v2 = printed v0" "length (vlog v2) = 5"
    and at: "\<And>i. i < 5 \<Longrightarrow> vlog v2 ! i = ?a"
    by (auto simp: LL_defs)
  have i: "index_of sev < 5" for sev by (cases sev) simp_all
  have all: "\<forall>a \<in> set (vlog v2). a < length (loggers v2)"
    using at v2(1,3) by (auto simp: in_set_conv_nth)
  have mem: "?a \<in> set (vlog v2)" using at [of 0] v2(3) by (metis nth_mem zero_less_numeral)
  let ?p = "logLevelToSyslogLevel ! nat l"
  from s have lev: "is_level l" and v: "v = v2\<lparr>logLevel := l, loggers := set_all ?p (vlog v2) (loggers v2)\<rparr>"
    by (auto simp: SetLogLevel_def Let_def split: if_splits)
  have "loggers v ! ?a = Console ?p"
    using set_all_nth [OF all, of ?a] mem by (simp add: v v2(1) NewConsoleLogger_def)
  then have out: "printed (write_log sev msg v) = printed v0 @ print_log sev msg (Console ?p)" for sev
    using at [OF i [of sev]] by (simp add: write_log_def v v2(2))
  have level: "?p \<ge> threshold sev \<longleftrightarrow> l \<le> int (index_of sev)" for sev
  proof -
    from lev have "l = 0 \<or> l = 1 \<or> l = 2 \<or> l = 3 \<or> l = 4" by (auto simp: is_level_def LL_defs)
    then show ?thesis by (cases sev) (auto simp: logLevelToSyslogLevel_def LOG_defs)
  qed
  have "printed (write_log Critical msg v) = printed v0 @ [''[CRITICAL] '' @ msg]"
    using level [of Critical] lev out [of Critical] by (simp add: is_level_def LL_defs)
  moreover have "printed (write_log sev msg v) =
      printed v0 @ (if GetLogLevel v \<le> int (index_of sev) then [tag sev @ '' '' @ msg] else [])"
    using out [of sev] level [of sev] by (simp add: v GetLogLevel_def)
  moreover have "GetLogLevel v = l" by (simp add: v GetLogLevel_def)
  ultimately show ?thesis using l by (simp add: Fatal_def Panic_def Close_def)
qed

text \<open>A logger that is registered after the level was set prints below it: the package does not filter.\<close>

lemma late_logger_unfiltered:
  "case start_logging ''error'' log_init of
     None \<Rightarrow> False
   | Some (_, v) \<Rightarrow>
       (let (a, v1) = allocate NewConsoleLogger v in
        case RegisterLogger LL_DEBUG LL_CRITICAL a v1 of
          None \<Rightarrow> False
        | Some v2 \<Rightarrow> GetLogLevel v2 = LL_ERROR \<and> printed (write_log Debug ''m'' v2) = [''[DEBUG] m''])"
  by code_simp

end
