(* ===== verification/Json_Text.thy ===== *)
theory Json_Text
  imports Net_IP
begin

section \<open>JSON texts (Go's package encoding/json)\<close>

text \<open>
  What the Infoblox connector has of JSON: \<^verbatim>\<open>json.Marshal\<close> and \<^verbatim>\<open>json.Unmarshal\<close> on bytes, as they are
  in Go 1.9, the release the build image installs. A string in memory is any sequence of bytes;
  Go writes what is not UTF-8 as the replacement character, and reads it as such.\<close>

datatype json =
    JNull | JBool bool | JNum string | JStr string | JArr "json list" | JObj "(string \<times> json) list"

subsection \<open>UTF-8\<close>

definition byte :: "char \<Rightarrow> nat" where
  "byte c = of_char c"

definition within :: "nat \<Rightarrow> nat \<Rightarrow> char \<Rightarrow> bool" where
  "within lo hi c \<longleftrightarrow> lo \<le> byte c \<and> byte c \<le> hi"

text \<open>
  \<open>rune_len s\<close> is how many bytes the first character of \<open>s\<close> takes, as \<^verbatim>\<open>utf8.DecodeRune\<close> has it; 0 if
  the bytes are not UTF-8 there (or there are none).
\<close>

definition second_ok :: "char \<Rightarrow> char \<Rightarrow> bool" where
  "second_ok a b =
     (if byte a = 0xE0 then within 0xA0 0xBF b
      else if byte a = 0xED then within 0x80 0x9F b
      else if byte a = 0xF0 then within 0x90 0xBF b
      else if byte a = 0xF4 then within 0x80 0x8F b
      else within 0x80 0xBF b)"

definition rune_len :: "string \<Rightarrow> nat" where
  "rune_len s =
     (case s of
        [] \<Rightarrow> 0
      | a # t \<Rightarrow>
          if byte a < 0x80 then 1
          else if within 0xC2 0xDF a then (case t of b # _ \<Rightarrow> if second_ok a b then 2 else 0 | _ \<Rightarrow> 0)
          else if within 0xE0 0xEF a then
            (case t of b # c # _ \<Rightarrow> if second_ok a b \<and> within 0x80 0xBF c then 3 else 0 | _ \<Rightarrow> 0)
          else if within 0xF0 0xF4 a then
            (case t of b # c # d # _ \<Rightarrow>
               if second_ok a b \<and> within 0x80 0xBF c \<and> within 0x80 0xBF d then 4 else 0 | _ \<Rightarrow> 0)
          else 0)"

lemma rune_len_le: "rune_len s \<le> length s"
  by (auto simp: rune_len_def split: list.split)

text \<open>\<^verbatim>\<open>utf8.EncodeRune\<close>, for the code points up to U+FFFF and the pairs beyond.\<close>

definition encode_rune :: "nat \<Rightarrow> string" where
  "encode_rune r =
     (if r < 0x80 then [char_of r]
      else if r < 0x800 then [char_of (0xC0 + r div 64), char_of (0x80 + r mod 64)]
      else if (0xD800 \<le> r \<and> r < 0xE000) \<or> 0x110000 \<le> r then [char_of (0xEF :: nat), char_of (0xBF :: nat), char_of (0xBD :: nat)]
      else if r < 0x10000 then [char_of (0xE0 + r div 4096), char_of (0x80 + r div 64 mod 64), char_of (0x80 + r mod 64)]
      else [char_of (0xF0 + r div 262144), char_of (0x80 + r div 4096 mod 64),
            char_of (0x80 + r div 64 mod 64), char_of (0x80 + r mod 64)])"

definition replacement :: string where
  "replacement = encode_rune 0xFFFD"

subsection \<open>Writing\<close>

text \<open>\<^verbatim>\<open>encodeState.string\<close> with the HTML characters escaped, as \<^verbatim>\<open>Marshal\<close> has it.\<close>

definition hex_low :: "nat \<Rightarrow> char" where
  "hex_low n = ''0123456789abcdef'' ! n"

definition html_safe :: "char \<Rightarrow> bool" where
  "html_safe c \<longleftrightarrow> 0x20 \<le> byte c \<and> c \<noteq> CHR 34 \<and> c \<noteq> CHR 92 \<and> c \<noteq> CHR ''<'' \<and> c \<noteq> CHR ''>'' \<and> c \<noteq> CHR ''&''"

definition write_ascii :: "char \<Rightarrow> string" where
  "write_ascii c =
     (if html_safe c then [c]
      else if c = CHR 92 \<or> c = CHR 34 then [CHR 92, c]
      else if byte c = 10 then [CHR 92, CHR ''n'']
      else if byte c = 13 then [CHR 92, CHR ''r'']
      else if byte c = 9 then [CHR 92, CHR ''t'']
      else [CHR 92, CHR ''u'', CHR ''0'', CHR ''0'', hex_low (byte c div 16), hex_low (byte c mod 16)])"

text \<open>The line separators U+2028 and U+2029 are written as escapes.\<close>

definition separator :: "string \<Rightarrow> char option" where
  "separator r =
     (if r = encode_rune 0x2028 then Some (CHR ''8'') else if r = encode_rune 0x2029 then Some (CHR ''9'') else None)"

definition u_escape :: "string \<Rightarrow> string" where
  "u_escape ds = CHR 92 # CHR ''u'' # ds"

function write_chars :: "string \<Rightarrow> string" where
  "write_chars [] = []"
| "write_chars (c # s) =
     (if byte c < 0x80 then write_ascii c @ write_chars s
      else if rune_len (c # s) = 0 then u_escape ''fffd'' @ write_chars s
      else (case separator (take (rune_len (c # s)) (c # s)) of
              Some d \<Rightarrow> u_escape (''202'' @ [d])
            | None \<Rightarrow> take (rune_len (c # s)) (c # s)) @ write_chars (drop (rune_len (c # s)) (c # s)))"
  by pat_completeness auto
termination by (relation "measure length") auto

definition write_string :: "string \<Rightarrow> string" where
  "write_string s = CHR 34 # write_chars s @ [CHR 34]"

fun write_json :: "json \<Rightarrow> string" and write_items :: "json list \<Rightarrow> string" and write_members :: "(string \<times> json) list \<Rightarrow> string" where
  "write_json JNull = ''null''"
| "write_json (JBool b) = (if b then ''true'' else ''false'')"
| "write_json (JNum n) = n"
| "write_json (JStr s) = write_string s"
| "write_json (JArr js) = ''['' @ write_items js @ '']''"
| "write_json (JObj ms) = ''{'' @ write_members ms @ ''}''"
| "write_items [] = ''''"
| "write_items [j] = write_json j"
| "write_items (j # js) = write_json j @ '','' @ write_items js"
| "write_members [] = ''''"
| "write_members [(k, j)] = write_string k @ '':'' @ write_json j"
| "write_members ((k, j) # ms) = write_string k @ '':'' @ write_json j @ '','' @ write_members ms"

text \<open>\<^verbatim>\<open>strconv.Itoa\<close>\<close>

fun digits_of :: "nat \<Rightarrow> string" where
  "digits_of n =
     (if n < 10 then [char_of (48 + n)] else digits_of (n div 10) @ [char_of (48 + n mod 10)])"

declare digits_of.simps [simp del]

definition Itoa :: "int \<Rightarrow> string" where
  "Itoa i = (if i < 0 then CHR ''-'' # digits_of (nat (- i)) else digits_of (nat i))"

subsection \<open>Reading\<close>

text \<open>The four hexadecimal digits of an escape.\<close>

definition getu4 :: "string \<Rightarrow> (nat \<times> string) option" where
  "getu4 s =
     (case s of
        a # b # c # d # t \<Rightarrow> do {
          w \<leftarrow> hex_digit a; x \<leftarrow> hex_digit b; y \<leftarrow> hex_digit c; z \<leftarrow> hex_digit d;
          Some (nat (((w * 16 + x) * 16 + y) * 16 + z), t)
        }
      | _ \<Rightarrow> None)"

text \<open>A high surrogate followed by an escaped low one is one character; a lone one is replaced.\<close>

definition read_escape :: "string \<Rightarrow> (nat \<times> string) option" where
  "read_escape s =
     (case s of b # u # t \<Rightarrow> if b = CHR 92 \<and> u = CHR ''u'' then getu4 t else None | _ \<Rightarrow> None)"

definition surrogate :: "nat \<Rightarrow> bool" where
  "surrogate r \<longleftrightarrow> 0xD800 \<le> r \<and> r < 0xE000"

text \<open>\<^verbatim>\<open>utf16.DecodeRune\<close>, None for the replacement character.\<close>

definition pair_rune :: "nat \<Rightarrow> nat \<Rightarrow> nat option" where
  "pair_rune r r1 =
     (if 0xD800 \<le> r \<and> r < 0xDC00 \<and> 0xDC00 \<le> r1 \<and> r1 < 0xE000
      then Some (0x10000 + (r - 0xD800) * 1024 + (r1 - 0xDC00)) else None)"

definition read_u :: "string \<Rightarrow> (string \<times> string) option" where
  "read_u s = do {
     (r, t) \<leftarrow> getu4 s;
     (if surrogate r then
        (case read_escape t of
           None \<Rightarrow> Some (replacement, t)
         | Some (r1, t1) \<Rightarrow>
             (case pair_rune r r1 of None \<Rightarrow> Some (replacement, t) | Some x \<Rightarrow> Some (encode_rune x, t1)))
      else Some (encode_rune r, t))
   }"

definition simple_escape :: "char \<Rightarrow> char option" where
  "simple_escape e =
     (if e = CHR 34 \<or> e = CHR 92 \<or> e = CHR ''/'' then Some e
      else if e = CHR ''b'' then Some (char_of (8 :: nat))
      else if e = CHR ''f'' then Some (char_of (12 :: nat))
      else if e = CHR ''n'' then Some (char_of (10 :: nat))
      else if e = CHR ''r'' then Some (char_of (13 :: nat))
      else if e = CHR ''t'' then Some (char_of (9 :: nat))
      else None)"

lemma getu4_length: "getu4 s = Some (r, t) \<Longrightarrow> length t < length s"
  by (auto simp: getu4_def bind_eq_Some_conv split: list.splits)

lemma read_escape_length: "read_escape s = Some (r, t) \<Longrightarrow> length t < length s"
  by (auto simp: read_escape_def split: list.splits if_splits dest!: getu4_length)

lemma read_u_length:
  assumes "read_u s = Some (r, t)"
  shows "length t < length s"
proof -
  from assms obtain r0 t0 where g: "getu4 s = Some (r0, t0)" by (auto simp: read_u_def bind_eq_Some_conv)
  with assms have "t = t0 \<or> (\<exists>r1. read_escape t0 = Some (r1, t))"
    by (auto simp: read_u_def split: option.splits if_splits)
  then show ?thesis using getu4_length [OF g] by (auto dest!: read_escape_length)
qed

text \<open>
  What stands between the quotes, and the text behind the closing one. None when the text is
  not a JSON string: it ends, holds a control character, or an escape is malformed.
\<close>

function read_chars :: "string \<Rightarrow> (string \<times> string) option" where
  "read_chars [] = None"
| "read_chars (c # s) =
     (if c = CHR 34 then Some ([], s)
      else if byte c < 0x20 then None
      else if c = CHR 92 then
        (case s of
           [] \<Rightarrow> None
         | e # t \<Rightarrow>
             if e = CHR ''u'' then
               (case read_u t of
                  None \<Rightarrow> None
                | Some (r, t1) \<Rightarrow> map_option (\<lambda>(str, rest). (r @ str, rest)) (read_chars t1))
             else
               (case simple_escape e of
                  None \<Rightarrow> None
                | Some x \<Rightarrow> map_option (\<lambda>(str, rest). (x # str, rest)) (read_chars t)))
      else if byte c < 0x80 then map_option (\<lambda>(str, rest). (c # str, rest)) (read_chars s)
      else if rune_len (c # s) = 0 then map_option (\<lambda>(str, rest). (replacement @ str, rest)) (read_chars s)
      else map_option (\<lambda>(str, rest). (take (rune_len (c # s)) (c # s) @ str, rest))
             (read_chars (drop (rune_len (c # s)) (c # s))))"
  by pat_completeness auto
termination by (relation "measure length") (auto dest: read_u_length)

text \<open>White space, and the texts of numbers.\<close>

definition is_space :: "char \<Rightarrow> bool" where
  "is_space c \<longleftrightarrow> byte c = 32 \<or> byte c = 9 \<or> byte c = 13 \<or> byte c = 10"

definition skip_space :: "string \<Rightarrow> string" where
  "skip_space s = dropWhile is_space s"

definition read_digits :: "string \<Rightarrow> (string \<times> string) option" where
  "read_digits s = (if takeWhile is_digit s = '''' then None else Some (takeWhile is_digit s, dropWhile is_digit s))"

definition read_whole :: "string \<Rightarrow> (string \<times> string) option" where
  "read_whole s = (case s of [] \<Rightarrow> None | c # t \<Rightarrow> if c = CHR ''0'' then Some ([c], t) else read_digits s)"

definition read_fraction :: "string \<Rightarrow> (string \<times> string) option" where
  "read_fraction s =
     (case s of
        c # t \<Rightarrow> if c = CHR ''.'' then map_option (\<lambda>(ds, r). (c # ds, r)) (read_digits t) else Some ('''', s)
      | [] \<Rightarrow> Some ('''', s))"

definition read_exponent :: "string \<Rightarrow> (string \<times> string) option" where
  "read_exponent s =
     (case s of
        c # t \<Rightarrow>
          if c = CHR ''e'' \<or> c = CHR ''E'' then
            (case t of
               sg # t1 \<Rightarrow>
                 if sg = CHR ''+'' \<or> sg = CHR ''-'' then map_option (\<lambda>(ds, r). (c # sg # ds, r)) (read_digits t1)
                 else map_option (\<lambda>(ds, r). (c # ds, r)) (read_digits t)
             | [] \<Rightarrow> None)
          else Some ('''', s)
      | [] \<Rightarrow> Some ('''', s))"

definition read_number :: "string \<Rightarrow> (string \<times> string) option" where
  "read_number s =
     (let (sign, s1) = (if take 1 s = ''-'' then (''-'', drop 1 s) else ('''', s)) in do {
        (whole, s2) \<leftarrow> read_whole s1;
        (fraction, s3) \<leftarrow> read_fraction s2;
        (exponent, s4) \<leftarrow> read_exponent s3;
        Some (sign @ whole @ fraction @ exponent, s4)
      })"

text \<open>Values, with fuel for the nesting; by \<open>read_fuel\<close> below, twice the length of the text is enough.\<close>

definition read_literal :: "string \<Rightarrow> json \<Rightarrow> string \<Rightarrow> (json \<times> string) option" where
  "read_literal lit j s = (if take (length lit) s = lit then Some (j, drop (length lit) s) else None)"

fun read_json :: "nat \<Rightarrow> string \<Rightarrow> (json \<times> string) option"
  and read_items :: "nat \<Rightarrow> string \<Rightarrow> (json list \<times> string) option"
  and read_members :: "nat \<Rightarrow> string \<Rightarrow> ((string \<times> json) list \<times> string) option" where
  "read_json 0 s = None"
| "read_json (Suc n) s =
     (case skip_space s of
        [] \<Rightarrow> None
      | c # t \<Rightarrow>
          if c = CHR ''{'' then
            (if take 1 (skip_space t) = ''}'' then Some (JObj [], drop 1 (skip_space t))
             else map_option (\<lambda>(ms, r). (JObj ms, r)) (read_members n t))
          else if c = CHR ''['' then
            (if take 1 (skip_space t) = '']'' then Some (JArr [], drop 1 (skip_space t))
             else map_option (\<lambda>(js, r). (JArr js, r)) (read_items n t))
          else if c = CHR 34 then map_option (\<lambda>(str, r). (JStr str, r)) (read_chars t)
          else if c = CHR ''t'' then read_literal ''true'' (JBool True) (c # t)
          else if c = CHR ''f'' then read_literal ''false'' (JBool False) (c # t)
          else if c = CHR ''n'' then read_literal ''null'' JNull (c # t)
          else map_option (\<lambda>(num, r). (JNum num, r)) (read_number (c # t)))"
| "read_items 0 s = None"
| "read_items (Suc n) s =
     (case read_json n s of
        None \<Rightarrow> None
      | Some (j, s1) \<Rightarrow>
          (case skip_space s1 of
             [] \<Rightarrow> None
           | c # s2 \<Rightarrow>
               if c = CHR '']'' then Some ([j], s2)
               else if c = CHR '','' then map_option (\<lambda>(js, r). (j # js, r)) (read_items n s2)
               else None))"
| "read_members 0 s = None"
| "read_members (Suc n) s =
     (case skip_space s of
        [] \<Rightarrow> None
      | q # t \<Rightarrow>
          if q \<noteq> CHR 34 then None
          else (case read_chars t of
            None \<Rightarrow> None
          | Some (k, s1) \<Rightarrow>
              if take 1 (skip_space s1) \<noteq> '':'' then None
              else (case read_json n (drop 1 (skip_space s1)) of
                None \<Rightarrow> None
              | Some (j, s2) \<Rightarrow>
                  (case skip_space s2 of
                     [] \<Rightarrow> None
                   | c # s3 \<Rightarrow>
                       if c = CHR ''}'' then Some ([(k, j)], s3)
                       else if c = CHR '','' then map_option (\<lambda>(ms, r). ((k, j) # ms, r)) (read_members n s3)
                       else None))))"

text \<open>The whole text is one value.\<close>

definition parse_json :: "string \<Rightarrow> json option" where
  "parse_json s =
     (case read_json (Suc (2 * length s)) s of
        Some (j, rest) \<Rightarrow> if skip_space rest = '''' then Some j else None
      | None \<Rightarrow> None)"

end
