(* ===== verification/Json_Laws.thy ===== *)
theory Json_Laws
  imports Json_Text
begin

section \<open>What is written is read back\<close>

text \<open>
  A reader of a JSON text gets the value back that was written, when its strings are UTF-8 and its
  numbers integers; and the readers' fuel is enough for every text.
\<close>

subsection \<open>Strings come back\<close>

function utf8_ok :: "string \<Rightarrow> bool" where
  "utf8_ok [] = True"
| "utf8_ok (c # s) = (if rune_len (c # s) = 0 then False else utf8_ok (drop (rune_len (c # s)) (c # s)))"
  by pat_completeness auto
termination by (relation "measure length") auto

lemma byte_char: "byte c = n \<Longrightarrow> c = char_of n"
  by (auto simp: byte_def)

lemma byte_less [simp]: "byte c < 256"
  by (simp add: byte_def)

lemma hex_low_digit:
  assumes "n < 16"
  shows "hex_digit (hex_low n) = Some (int n)"
proof -
  have "\<forall>n \<in> set [0..<16]. hex_digit (hex_low n) = Some (int n)" by code_simp
  with assms show ?thesis by simp
qed

lemma read_control:
  assumes "byte c < 128"
  shows "read_u (CHR ''0'' # CHR ''0'' # hex_low (byte c div 16) # hex_low (byte c mod 16) # t) = Some ([c], t)"
proof -
  have z: "hex_digit (CHR ''0'') = Some 0" by code_simp
  have "nat (int (byte c div 16) * 16 + int (byte c mod 16)) = byte c"
    by (metis div_mult_mod_eq nat_int of_nat_add of_nat_mult of_nat_numeral)
  then have "getu4 (CHR ''0'' # CHR ''0'' # hex_low (byte c div 16) # hex_low (byte c mod 16) # t) = Some (byte c, t)"
    using assms by (simp add: getu4_def z hex_low_digit)
  with assms show ?thesis by (simp add: read_u_def surrogate_def encode_rune_def) (simp add: byte_def)
qed

lemma read_ascii:
  assumes "byte c < 128"
  shows "read_chars (write_ascii c @ t) = map_option (\<lambda>(str, rest). (c # str, rest)) (read_chars t)"
proof -
  consider "html_safe c" | "\<not> html_safe c" "c = CHR 92 \<or> c = CHR 34" | "byte c = 10" | "byte c = 13" | "byte c = 9"
    | "\<not> html_safe c" "c \<noteq> CHR 92" "c \<noteq> CHR 34" "byte c \<noteq> 10" "byte c \<noteq> 13" "byte c \<noteq> 9"
    by metis
  then show ?thesis
  proof cases
    case 1
    with assms show ?thesis by (auto simp: write_ascii_def html_safe_def)
  next
    case 2
    then have "write_ascii c = [CHR 92, c]" "simple_escape c = Some c" "c \<noteq> CHR ''u''"
      by (auto simp: write_ascii_def simple_escape_def)
    then show ?thesis by (simp add: byte_def)
  next
    case 3
    then have c: "c = char_of (10 :: nat)" by (rule byte_char)
    show ?thesis unfolding c by (simp add: write_ascii_def html_safe_def simple_escape_def byte_def)
  next
    case 4
    then have c: "c = char_of (13 :: nat)" by (rule byte_char)
    show ?thesis unfolding c by (simp add: write_ascii_def html_safe_def simple_escape_def byte_def)
  next
    case 5
    then have c: "c = char_of (9 :: nat)" by (rule byte_char)
    show ?thesis unfolding c by (simp add: write_ascii_def html_safe_def simple_escape_def byte_def)
  next
    case 6
    then have "write_ascii c = CHR 92 # CHR ''u'' # CHR ''0'' # CHR ''0'' # hex_low (byte c div 16) # [hex_low (byte c mod 16)]"
      by (simp add: write_ascii_def)
    then show ?thesis using read_control [OF assms] by (simp add: byte_def)
  qed
qed

lemma rune_len_take:
  assumes "rune_len s \<noteq> 0"
  shows "rune_len (take (rune_len s) s @ t) = rune_len s"
proof -
  from assms obtain a s1 where s: "s = a # s1" by (cases s) (auto simp: rune_len_def)
  show ?thesis
  proof (cases s1)
    case Nil
    with assms show ?thesis by (auto simp: s rune_len_def split: if_splits)
  next
    case s1: (Cons b s2)
    show ?thesis
    proof (cases s2)
      case Nil
      with assms show ?thesis by (auto simp: s s1 rune_len_def split: if_splits)
    next
      case s2: (Cons c s3)
      show ?thesis
      proof (cases s3)
        case Nil
        with assms show ?thesis by (auto simp: s s1 s2 rune_len_def split: if_splits)
      next
        case (Cons d s4)
        with assms show ?thesis by (auto simp: s s1 s2 rune_len_def split: if_splits)
      qed
    qed
  qed
qed

lemma read_separator:
  assumes "separator r = Some d"
  shows "read_chars (u_escape (''202'' @ [d]) @ t) = map_option (\<lambda>(str, rest). (r @ str, rest)) (read_chars t)"
proof -
  have d: "hex_digit (CHR ''2'') = Some 2" "hex_digit (CHR ''0'') = Some 0"
    "hex_digit (CHR ''8'') = Some 8" "hex_digit (CHR ''9'') = Some 9" by code_simp+
  from assms consider "r = encode_rune 0x2028" "d = CHR ''8''" | "r = encode_rune 0x2029" "d = CHR ''9''"
    by (auto simp: separator_def split: if_splits)
  then have "read_u (CHR ''2'' # CHR ''0'' # CHR ''2'' # d # t) = Some (r, t)"
    by cases (simp_all add: read_u_def getu4_def d surrogate_def)
  then show ?thesis by (simp add: u_escape_def byte_def)
qed

lemma high_char:
  assumes "\<not> byte c < 128"
  shows "c \<noteq> CHR 34" "c \<noteq> CHR 92" "\<not> byte c < 32"
  using assms by (auto simp: byte_def)

lemma read_rune:
  assumes "\<not> byte c < 128" and "rune_len (c # s) \<noteq> 0"
  shows "read_chars (take (rune_len (c # s)) (c # s) @ t) =
    map_option (\<lambda>(str, rest). (take (rune_len (c # s)) (c # s) @ str, rest)) (read_chars t)"
proof -
  let ?n = "rune_len (c # s)"
  obtain m where m: "?n = Suc m" using assms(2) by (cases ?n) auto
  have n: "rune_len (c # take m s @ t) = Suc m" using rune_len_take [OF assms(2), of t] by (simp add: m)
  have "length (take m s) = m" using rune_len_le [of "c # s"] m by simp
  then show ?thesis using high_char [OF assms(1)] assms(1) by (simp add: m n)
qed

lemma read_write_chars: "utf8_ok s \<Longrightarrow> read_chars (write_chars s @ CHR 34 # t) = Some (s, t)"
proof (induction s rule: write_chars.induct)
  case (2 c s)
  show ?case
  proof (cases "byte c < 128")
    case True
    then have "rune_len (c # s) = 1" by (simp add: rune_len_def)
    with "2.prems" have "utf8_ok s" by simp
    with "2.IH"(1) True show ?thesis by (simp add: read_ascii)
  next
    case high: False
    let ?n = "rune_len (c # s)"
    from "2.prems" have n: "?n \<noteq> 0" and ok: "utf8_ok (drop ?n (c # s))" by (simp_all split: if_splits)
    have IH: "read_chars (write_chars (drop ?n (c # s)) @ CHR 34 # t) = Some (drop ?n (c # s), t)"
      using "2.IH"(3) high n ok by simp
    have glue: "take ?n (c # s) @ drop ?n (c # s) = c # s" by (rule append_take_drop_id)
    show ?thesis
    proof (cases "separator (take ?n (c # s))")
      case None
      with high n have "write_chars (c # s) = take ?n (c # s) @ write_chars (drop ?n (c # s))" by simp
      then show ?thesis using read_rune [OF high n, of "write_chars (drop ?n (c # s)) @ CHR 34 # t"] IH glue by simp
    next
      case (Some d)
      with high n have "write_chars (c # s) = u_escape (''202'' @ [d]) @ write_chars (drop ?n (c # s))" by simp
      then show ?thesis using read_separator [OF Some, of "write_chars (drop ?n (c # s)) @ CHR 34 # t"] IH glue by simp
    qed
  qed
qed simp

lemma read_write_string: "utf8_ok s \<Longrightarrow> \<exists>t. write_string s = CHR 34 # t \<and> read_chars (t @ rest) = Some (s, rest)"
  using read_write_chars [of s rest] by (simp add: write_string_def)

subsection \<open>Values come back\<close>

text \<open>The numbers that are written: integers.\<close>

definition int_text :: "string \<Rightarrow> bool" where
  "int_text n =
     (let ds = (if take 1 n = ''-'' then drop 1 n else n)
      in ds \<noteq> '''' \<and> list_all is_digit ds \<and> (hd ds = CHR ''0'' \<longrightarrow> tl ds = ''''))"

fun json_ok :: "json \<Rightarrow> bool" where
  "json_ok (JNum n) = int_text n"
| "json_ok (JStr s) = utf8_ok s"
| "json_ok (JArr js) = list_all json_ok js"
| "json_ok (JObj ms) = list_all (\<lambda>m. utf8_ok (fst m) \<and> json_ok (snd m)) ms"
| "json_ok _ = True"

definition ends_value :: "string \<Rightarrow> bool" where
  "ends_value s \<longleftrightarrow> s = '''' \<or> hd s = CHR '','' \<or> hd s = CHR '']'' \<or> hd s = CHR ''}''"

lemma ends_value_simps [simp]:
  "ends_value ''''" "ends_value (CHR '','' # s)" "ends_value (CHR '']'' # s)" "ends_value (CHR ''}'' # s)"
  by (simp_all add: ends_value_def)

lemma ends_value_no_digit:
  assumes "ends_value s"
  shows "takeWhile is_digit s = ''''" "dropWhile is_digit s = s"
  using assms by (cases s; auto simp: ends_value_def is_digit_def char_code_def)+

lemma ends_value_no_more:
  assumes "ends_value s"
  shows "read_fraction s = Some ('''', s)" "read_exponent s = Some ('''', s)"
  using assms by (cases s; auto simp: ends_value_def read_fraction_def read_exponent_def)+

lemma read_digits_all:
  assumes "ds \<noteq> ''''" and "list_all is_digit ds" and "ends_value rest"
  shows "read_digits (ds @ rest) = Some (ds, rest)"
  using assms ends_value_no_digit [OF assms(3)]
  by (simp add: read_digits_def list_all_iff takeWhile_append2 dropWhile_append2)

lemma read_int_text:
  assumes "int_text n" and "ends_value rest"
  shows "read_number (n @ rest) = Some (n, rest)"
proof -
  define ds where "ds = (if take 1 n = ''-'' then drop 1 n else n)"
  have ds: "ds \<noteq> ''''" "list_all is_digit ds" "hd ds = CHR ''0'' \<longrightarrow> tl ds = ''''"
    using assms(1) unfolding int_text_def Let_def ds_def by blast+
  obtain d ds' where dd: "ds = d # ds'" using ds(1) by (cases ds) auto
  have w: "read_whole (ds @ rest) = Some (ds, rest)"
    using ds(3) read_digits_all [OF ds(1,2) assms(2)] by (cases "d = CHR ''0''") (simp_all add: read_whole_def dd)
  show ?thesis
  proof (cases "take 1 n = ''-''")
    case True
    then have n: "n = CHR ''-'' # ds" by (cases n) (simp_all add: ds_def)
    show ?thesis using w ends_value_no_more [OF assms(2)] by (simp add: read_number_def n)
  next
    case False
    then have n: "n = ds" by (simp add: ds_def)
    with False dd have "d \<noteq> CHR ''-''" by simp
    with w n ends_value_no_more [OF assms(2)] show ?thesis by (simp add: read_number_def dd)
  qed
qed

text \<open>What a value can begin with.\<close>

definition value_start :: "char \<Rightarrow> bool" where
  "value_start c \<longleftrightarrow> \<not> is_space c \<and> c \<noteq> CHR '']'' \<and> c \<noteq> CHR ''}''"

definition number_start :: "char \<Rightarrow> bool" where
  "number_start c \<longleftrightarrow> c \<notin> set ''{[tfn'' \<and> c \<noteq> CHR 34"

lemma is_digit_byte: "is_digit c \<longleftrightarrow> 48 \<le> byte c \<and> byte c \<le> 57"
proof -
  have "char_code c = int (byte c)" by (simp only: char_code_def byte_def of_nat_of_char)
  then show ?thesis by (simp add: is_digit_def)
qed

lemma int_text_start:
  assumes "int_text n"
  shows "\<exists>c t. n = c # t \<and> value_start c \<and> number_start c"
proof -
  from assms obtain c t where n: "n = c # t" by (cases n) (auto simp: int_text_def)
  have "c = CHR ''-'' \<or> is_digit c"
    using assms by (auto simp: n int_text_def Let_def split: if_splits)
  then consider "c = CHR ''-''" | "48 \<le> byte c" "byte c \<le> 57" by (auto simp: is_digit_byte)
  then have "value_start c \<and> number_start c"
    by cases (auto simp: value_start_def number_start_def is_space_def byte_def)
  with n show ?thesis by blast
qed

lemma write_json_start: "json_ok j \<Longrightarrow> \<exists>c t. write_json j = c # t \<and> value_start c"
  using int_text_start
  by (cases j) (auto simp: value_start_def is_space_def byte_def write_string_def, blast)

lemma skip_start [simp]: "value_start c \<Longrightarrow> skip_space (c # s) = c # s"
  by (simp add: skip_space_def value_start_def)

lemma skip_marks [simp]:
  "skip_space (CHR '','' # s) = CHR '','' # s" "skip_space (CHR '']'' # s) = CHR '']'' # s"
  "skip_space (CHR ''}'' # s) = CHR ''}'' # s" "skip_space (CHR '':'' # s) = CHR '':'' # s"
  "skip_space (CHR 34 # s) = CHR 34 # s" "skip_space (CHR ''['' # s) = CHR ''['' # s"
  "skip_space (CHR ''{'' # s) = CHR ''{'' # s" "skip_space '''' = ''''"
  by (simp_all add: skip_space_def is_space_def byte_def)

lemma write_items_cons:
  "write_items (j # js) = write_json j @ (if js = [] then '''' else '','' @ write_items js)"
  by (cases js) simp_all

lemma write_members_cons:
  "write_members (m # ms) = write_string (fst m) @ '':'' @ write_json (snd m) @ (if ms = [] then '''' else '','' @ write_members ms)"
  by (cases m; cases ms) simp_all

lemma read_value_number:
  assumes "int_text n" and "ends_value rest"
  shows "read_json (Suc k) (n @ rest) = Some (JNum n, rest)"
proof -
  from int_text_start [OF assms(1)] obtain c t where n: "n = c # t" and c: "value_start c" "number_start c" by blast
  from read_int_text [OF assms] have "read_number (c # t @ rest) = Some (n, rest)" by (simp add: n)
  with c show ?thesis by (simp add: n number_start_def)
qed

lemma value_start_brackets: "value_start c \<Longrightarrow> take 1 (skip_space (c # s)) \<noteq> '']''"
  by (simp add: value_start_def skip_space_def)

lemma read_write:
  "json_ok j \<Longrightarrow> ends_value rest \<Longrightarrow> 2 * length (write_json j) < n \<Longrightarrow>
     read_json n (write_json j @ rest) = Some (j, rest)"
  "list_all json_ok js \<Longrightarrow> js \<noteq> [] \<Longrightarrow> 2 * length (write_items js) + 1 < n \<Longrightarrow>
     read_items n (write_items js @ CHR '']'' # rest) = Some (js, rest)"
  "list_all (\<lambda>m. utf8_ok (fst m) \<and> json_ok (snd m)) ms \<Longrightarrow> ms \<noteq> [] \<Longrightarrow> 2 * length (write_members ms) + 1 < n \<Longrightarrow>
     read_members n (write_members ms @ CHR ''}'' # rest) = Some (ms, rest)"
proof (induction j and js and ms arbitrary: n rest and n rest and n rest rule: write_json_write_items_write_members.induct)
  case (1 n rest)
  then obtain k where "n = Suc k" by (cases n) auto
  then show ?case by (simp add: read_literal_def value_start_def is_space_def byte_def)
next
  case (2 b n rest)
  then obtain k where "n = Suc k" by (cases n) auto
  then show ?case by (simp add: read_literal_def value_start_def is_space_def byte_def)
next
  case (3 num n rest)
  then obtain k where "n = Suc k" by (cases n) auto
  with 3 read_value_number show ?case by simp
next
  case (4 s n rest)
  then obtain k where k: "n = Suc k" by (cases n) auto
  from 4 read_write_string [of s rest] obtain t where "write_string s = CHR 34 # t" "read_chars (t @ rest) = Some (s, rest)"
    by auto
  then show ?case by (simp add: k)
next
  case (5 js n rest)
  then obtain k where k: "n = Suc k" by (cases n) auto
  show ?case
  proof (cases js)
    case Nil
    then show ?thesis by (simp add: k)
  next
    case (Cons j js')
    with "5.prems"(1) write_json_start [of j] obtain c t where c: "write_json j = c # t" "value_start c" by auto
    from "5.IH" [of k rest] "5.prems" Cons k
    have "read_items k (write_items js @ CHR '']'' # rest) = Some (js, rest)" by simp
    moreover have "take 1 (skip_space (write_items js @ CHR '']'' # rest)) \<noteq> '']''"
      unfolding Cons write_items_cons append_assoc c(1) append_Cons by (rule value_start_brackets [OF c(2)])
    ultimately show ?thesis by (simp add: k)
  qed
next
  case (6 ms n rest)
  then obtain k where k: "n = Suc k" by (cases n) auto
  show ?case
  proof (cases ms)
    case Nil
    then show ?thesis by (simp add: k)
  next
    case (Cons m ms')
    from "6.IH" [of k rest] "6.prems" Cons k
    have "read_members k (write_members ms @ CHR ''}'' # rest) = Some (ms, rest)" by simp
    moreover have "take 1 (skip_space (write_members ms @ CHR ''}'' # rest)) \<noteq> ''}''"
      by (simp add: Cons write_members_cons write_string_def)
    ultimately show ?thesis by (simp add: k)
  qed
next
  case (8 j n rest)
  then obtain k where k: "n = Suc k" by (cases n) auto
  from 8 k have "read_json k (write_json j @ CHR '']'' # rest) = Some (j, CHR '']'' # rest)" by simp
  then show ?case by (simp add: k)
next
  case (9 j j' js n rest)
  then obtain k where k: "n = Suc k" by (cases n) auto
  from "9.prems" k "9.IH"(1) [of "CHR '','' # write_items (j' # js) @ CHR '']'' # rest" k]
  have "read_json k (write_json j @ CHR '','' # write_items (j' # js) @ CHR '']'' # rest) =
      Some (j, CHR '','' # write_items (j' # js) @ CHR '']'' # rest)" by simp
  moreover from "9.prems" k "9.IH"(2) [of k rest]
  have "read_items k (write_items (j' # js) @ CHR '']'' # rest) = Some (j' # js, rest)" by simp
  ultimately show ?case by (simp add: k)
next
  case (11 key j n rest)
  then obtain k where k: "n = Suc k" by (cases n) auto
  let ?rest = "CHR '':'' # write_json j @ CHR ''}'' # rest"
  from "11.prems"(1) read_write_string [of key ?rest] obtain t where
    "write_string key = CHR 34 # t" "read_chars (t @ ?rest) = Some (key, ?rest)" by auto
  moreover from "11.prems" k "11.IH" [of "CHR ''}'' # rest" k]
  have "read_json k (write_json j @ CHR ''}'' # rest) = Some (j, CHR ''}'' # rest)" by simp
  ultimately show ?case by (simp add: k)
next
  case (12 key j m ms n rest)
  then obtain k where k: "n = Suc k" by (cases n) auto
  let ?more = "CHR '','' # write_members (m # ms) @ CHR ''}'' # rest"
  let ?rest = "CHR '':'' # write_json j @ ?more"
  from "12.prems"(1) read_write_string [of key ?rest] obtain t where
    "write_string key = CHR 34 # t" "read_chars (t @ ?rest) = Some (key, ?rest)" by auto
  moreover from "12.prems" k "12.IH"(1) [of ?more k]
  have "read_json k (write_json j @ ?more) = Some (j, ?more)" by simp
  moreover from "12.prems" k "12.IH"(2) [of k rest]
  have "read_members k (write_members (m # ms) @ CHR ''}'' # rest) = Some (m # ms, rest)" by simp
  ultimately show ?case by (simp add: k)
qed simp_all

lemma parse_write: "json_ok j \<Longrightarrow> parse_json (write_json j) = Some j"
  using read_write(1) [of j "''''" "Suc (2 * length (write_json j))"] by (simp add: parse_json_def)

subsection \<open>The fuel is enough\<close>

text \<open>Each reader consumes text, so more fuel than twice the length of the text changes nothing.\<close>

lemma skip_space_length: "length (skip_space s) \<le> length s"
  unfolding skip_space_def by (rule length_dropWhile_le)

lemma read_chars_length: "read_chars s = Some (x, r) \<Longrightarrow> length r < length s"
proof (induction s arbitrary: x r rule: read_chars.induct)
  case (2 c s)
  from "2.prems" consider "r = s" | e t where "s = e # t" "\<exists>u t1 x1. read_u t = Some (u, t1) \<and> read_chars t1 = Some (x1, r)"
      "c \<noteq> CHR 34" "\<not> byte c < 0x20" "c = CHR 92" "e = CHR ''u''"
    | e t x1 where "s = e # t" "read_chars t = Some (x1, r)" "c \<noteq> CHR 34" "\<not> byte c < 0x20" "c = CHR 92" "e \<noteq> CHR ''u''"
        "simple_escape e \<noteq> None"
    | x1 where "read_chars s = Some (x1, r)" "c \<noteq> CHR 34" "\<not> byte c < 0x20" "c \<noteq> CHR 92" "byte c < 0x80 \<or> rune_len (c # s) = 0"
    | x1 where "read_chars (drop (rune_len (c # s)) (c # s)) = Some (x1, r)" "c \<noteq> CHR 34" "\<not> byte c < 0x20" "c \<noteq> CHR 92"
        "\<not> byte c < 0x80" "rune_len (c # s) \<noteq> 0"
    by (auto split: if_splits list.splits option.splits)
  then show ?case
  proof cases
    case 2
    then obtain u t1 x1 where "read_u t = Some (u, t1)" "read_chars t1 = Some (x1, r)" by blast
    with "2.IH"(1) [of e t "(u, t1)" u t1] 2 read_u_length [OF this(1)] show ?thesis by fastforce
  next
    case 3
    with "2.IH"(2) [of e t] show ?thesis by fastforce
  next
    case 4
    with "2.IH"(3,4) show ?thesis by fastforce
  next
    case 5
    with "2.IH"(5) have "length r < length (drop (rune_len (c # s)) (c # s))" by blast
    with 5 show ?thesis by simp
  qed simp
qed simp

lemma read_digits_length: "read_digits s = Some (x, r) \<Longrightarrow> length r < length s"
proof -
  assume "read_digits s = Some (x, r)"
  then have "takeWhile is_digit s \<noteq> ''''" "r = dropWhile is_digit s" by (auto simp: read_digits_def split: if_splits)
  moreover have "length (takeWhile is_digit s) + length (dropWhile is_digit s) = length s"
    by (metis length_append takeWhile_dropWhile_id)
  ultimately show ?thesis by (cases "takeWhile is_digit s") auto
qed

lemma read_number_length:
  assumes "read_number s = Some (x, r)"
  shows "length r < length s"
proof -
  let ?s = "if take 1 s = ''-'' then drop 1 s else s"
  from assms obtain w s2 f s3 e where w: "read_whole ?s = Some (w, s2)" and f: "read_fraction s2 = Some (f, s3)"
      and e: "read_exponent s3 = Some (e, r)"
    by (auto simp: read_number_def bind_eq_Some_conv split: if_splits)
  have whole: "length s2 < length u" if "read_whole u = Some (w, s2)" for u
    using that by (auto simp: read_whole_def split: list.splits if_splits dest: read_digits_length)
  have "length s2 < length ?s" by (rule whole [OF w])
  moreover have "length s3 \<le> length s2"
    using f by (auto simp: read_fraction_def split: list.splits if_splits dest!: read_digits_length)
  moreover have "length r \<le> length s3"
    using e by (auto simp: read_exponent_def split: list.splits if_splits dest!: read_digits_length)
  moreover have "length ?s \<le> length s" by simp
  ultimately show ?thesis by linarith
qed

lemma skip_space_cons: "skip_space s = c # t \<Longrightarrow> length t < length s"
  using skip_space_length [of s] by simp

lemma read_length:
  "read_json n s = Some (j, r) \<Longrightarrow> length r < length s"
  "read_items n s = Some (js, r) \<Longrightarrow> length r < length s"
  "read_members n s = Some (ms, r) \<Longrightarrow> length r < length s"
proof (induction n s and n s and n s arbitrary: j r and js r and ms r rule: read_json_read_items_read_members.induct)
  case (2 n s)
  from "2.prems" obtain c t where ct: "skip_space s = c # t" by (auto split: list.splits)
  note len = skip_space_cons [OF ct]
  have sk: "length (drop 1 (skip_space t)) \<le> length t" using skip_space_length [of t] by simp
  from "2.prems" consider "r = drop 1 (skip_space t)" | ms where "read_members n t = Some (ms, r)" "c = CHR ''{''" "take 1 (skip_space t) \<noteq> ''}''"
    | js where "read_items n t = Some (js, r)" "c \<noteq> CHR ''{''" "c = CHR ''[''" "take 1 (skip_space t) \<noteq> '']''"
    | str where "read_chars t = Some (str, r)" | lit l where "read_literal lit l (c # t) = Some (j, r)" "lit \<noteq> ''''"
    | num where "read_number (c # t) = Some (num, r)"
    by (auto simp: ct split: if_splits)
  then show ?case
  proof cases
    case 1
    with sk len show ?thesis by simp
  next
    case 2
    with "2.IH"(1) [OF ct] len show ?thesis by fastforce
  next
    case 3
    with "2.IH"(2) [OF ct] len show ?thesis by fastforce
  next
    case 4
    with read_chars_length [OF 4] len show ?thesis by simp
  next
    case 5
    then have "r = drop (length lit) (c # t)" "0 < length lit" by (auto simp: read_literal_def split: if_splits)
    then have "length r \<le> length t" by (cases lit) simp_all
    with len show ?thesis by simp
  next
    case 6
    from read_number_length [OF 6] len show ?thesis by simp
  qed
next
  case (4 n s)
  then obtain j s1 c s2 where j: "read_json n s = Some (j, s1)" and c: "skip_space s1 = c # s2"
    by (auto split: option.splits list.splits)
  note len = "4.IH"(1) [OF j] skip_space_cons [OF c]
  show ?case
  proof (cases "c = CHR '']''")
    case True
    with "4.prems" j c len show ?thesis by simp
  next
    case False
    with "4.prems" j c obtain js' where "c = CHR '',''" "read_items n s2 = Some (js', r)" by (auto split: if_splits)
    with "4.IH"(2) [OF j refl c False] len show ?thesis by fastforce
  qed
next
  case (6 n s)
  then obtain q t k s1 j s2 c s3 where q: "skip_space s = q # t" "q = CHR 34" and k: "read_chars t = Some (k, s1)"
      and colon: "take 1 (skip_space s1) = '':''"
      and j: "read_json n (drop 1 (skip_space s1)) = Some (j, s2)" and c: "skip_space s2 = c # s3"
    by (auto split: option.splits list.splits if_splits)
  have "length s2 < length (drop 1 (skip_space s1))"
    using "6.IH"(1) [OF q(1) _ k refl _ j] q(2) colon by simp
  moreover have "length (drop 1 (skip_space s1)) \<le> length s1" using skip_space_length [of s1] by simp
  moreover note len = skip_space_cons [OF q(1)] skip_space_cons [OF c] read_chars_length [OF k]
  ultimately have l3: "length s3 < length s" by linarith
  show ?case
  proof (cases "c = CHR ''}''")
    case True
    with "6.prems" q k colon j c l3 show ?thesis by simp
  next
    case False
    with "6.prems" q k colon j c obtain ms' where "c = CHR '',''" "read_members n s3 = Some (ms', r)" by (auto split: if_splits)
    with "6.IH"(2) [OF q(1) _ k refl _ j refl c False] q(2) colon l3 show ?thesis by fastforce
  qed
qed simp_all

lemma read_fuel:
  "2 * length s < n \<Longrightarrow> n \<le> n' \<Longrightarrow> read_json n' s = read_json n s"
  "2 * length s + 1 < n \<Longrightarrow> n \<le> n' \<Longrightarrow> read_items n' s = read_items n s"
  "2 * length s + 1 < n \<Longrightarrow> n \<le> n' \<Longrightarrow> read_members n' s = read_members n s"
proof (induction n s and n s and n s arbitrary: n' and n' and n' rule: read_json_read_items_read_members.induct)
  case (2 n s)
  from "2.prems" obtain k where k: "n' = Suc k" "n \<le> k" by (cases n') auto
  show ?case
  proof (cases "skip_space s")
    case (Cons c t)
    have fuel: "2 * length t + 1 < n" using skip_space_cons [OF Cons] "2.prems"(1) by simp
    have "read_members k t = read_members n t" if "c = CHR ''{''" "take 1 (skip_space t) \<noteq> ''}''"
      using "2.IH"(1) [OF Cons that fuel k(2)] .
    moreover have "read_items k t = read_items n t" if "c \<noteq> CHR ''{''" "c = CHR ''[''" "take 1 (skip_space t) \<noteq> '']''"
      using "2.IH"(2) [OF Cons that fuel k(2)] .
    ultimately show ?thesis by (simp add: k(1) Cons)
  qed (simp add: k(1))
next
  case (4 n s)
  from "4.prems" obtain k where k: "n' = Suc k" "n \<le> k" by (cases n') auto
  from "4.prems"(1) have same: "read_json k s = read_json n s" using "4.IH"(1) [of k] k(2) by simp
  show ?case
  proof (cases "read_json n s")
    case None
    with same show ?thesis by (simp add: k(1))
  next
    case (Some js)
    obtain j s1 where js: "js = (j, s1)" by (cases js)
    show ?thesis
    proof (cases "skip_space s1")
      case Nil
      with Some same js show ?thesis by (simp add: k(1))
    next
      case (Cons c s2)
      have "length s1 < length s" using read_length(1) [of n s j s1] Some js by simp
      with skip_space_cons [OF Cons] "4.prems"(1) have fuel: "2 * length s2 + 1 < n" by linarith
      have "read_items k s2 = read_items n s2" if "c \<noteq> CHR '']''" "c = CHR '',''"
        using "4.IH"(2) [OF Some js [symmetric] Cons that fuel k(2)] .
      with Some same js Cons show ?thesis by (simp add: k(1))
    qed
  qed
next
  case (6 n s)
  from "6.prems" obtain k where k: "n' = Suc k" "n \<le> k" by (cases n') auto
  show ?case
  proof (cases "skip_space s = [] \<or> hd (skip_space s) \<noteq> CHR 34 \<or> read_chars (tl (skip_space s)) = None")
    case True
    then show ?thesis by (cases "skip_space s") (auto simp: k(1))
  next
    case False
    then obtain t str s1 where q: "skip_space s = CHR 34 # t" and str: "read_chars t = Some (str, s1)"
      by (cases "skip_space s") auto
    let ?v = "drop 1 (skip_space s1)"
    note l1 = skip_space_cons [OF q] read_chars_length [OF str]
    have lv: "length ?v \<le> length s1" using skip_space_length [of s1] by simp
    show ?thesis
    proof (cases "take 1 (skip_space s1) = '':''")
      case no: False
      then show ?thesis by (simp add: k(1) q str)
    next
      case colon: True
      have "2 * length ?v < n" using l1 lv "6.prems"(1) by linarith
      from "6.IH"(1) [OF q _ str refl _ this k(2)] colon have same: "read_json k ?v = read_json n ?v" by simp
      show ?thesis
      proof (cases "read_json n ?v")
        case None
        with same show ?thesis by (simp add: k(1) q str)
      next
        case (Some js)
        obtain j s2 where js: "js = (j, s2)" by (cases js)
        show ?thesis
        proof (cases "skip_space s2")
          case Nil
          with Some same js show ?thesis by (simp add: k(1) q str)
        next
          case (Cons c s3)
          have "length s2 < length ?v" using read_length(1) [of n ?v j s2] Some js by simp
          with l1 lv skip_space_cons [OF Cons] "6.prems"(1) have fuel: "2 * length s3 + 1 < n" by linarith
          have "read_members k s3 = read_members n s3" if "c \<noteq> CHR ''}''" "c = CHR '',''"
            using "6.IH"(2) [OF q _ str refl _ Some js [symmetric] Cons that fuel k(2)] colon by simp
          with Some same js Cons show ?thesis by (simp add: k(1) q str)
        qed
      qed
    qed
  qed
qed simp_all

text \<open>\<open>parse_json\<close> reads what any greater fuel reads.\<close>

lemma parse_json_fuel:
  "2 * length s < n \<Longrightarrow>
     parse_json s = (case read_json n s of
        Some (j, rest) \<Rightarrow> if skip_space rest = '''' then Some j else None
      | None \<Rightarrow> None)"
  using read_fuel(1) [of s "Suc (2 * length s)" n] by (simp add: parse_json_def)

end
