(* ===== verification/Wapi_Json.thy ===== *)
theory Wapi_Json
  imports Json_Laws Object_Manager
begin

section \<open>The JSON of the Infoblox objects (vendor/github.com/infobloxopen, objects.go)\<close>

text \<open>
  How \<^verbatim>\<open>json.Marshal\<close> writes the objects of the vendored library, with their tags (empty fields are
  omitted) and their methods \<^verbatim>\<open>MarshalJSON\<close>, and how \<^verbatim>\<open>json.Unmarshal\<close> fills a slice of them from the
  answer of the grid, with the methods \<^verbatim>\<open>UnmarshalJSON\<close> of the attributes. Reading has
  four outcomes: a value of the wrong type is an error that is kept while decoding goes
  on, an error of \<^verbatim>\<open>UnmarshalJSON\<close> ends it, and the method of the attributes panics on a value that is
  neither a number nor a string. The text of an error is not modelled.
\<close>

subsection \<open>Writing\<close>

definition omit_empty :: "string \<Rightarrow> string \<Rightarrow> (string \<times> json) list" where
  "omit_empty name v = (if v = '''' then [] else [(name, JStr v)])"

fun eaval_json :: "eaval \<Rightarrow> json" where
  "eaval_json (EAStr s) = JStr s"
| "eaval_json (EAInt i) = JNum (Itoa i)"
| "eaval_json (EABool b) = JStr (if b then ''True'' else ''False'')"

definition EA_json :: "EA \<Rightarrow> json" where
  "EA_json ea = JObj (map (\<lambda>k. (k, JObj [(''value'', eaval_json (the (fmlookup ea k)))])) (ascending () (fmdom ea)))"

definition omit_EA :: "EA \<Rightarrow> (string \<times> json) list" where
  "omit_EA ea = (if fmdom ea = {||} then [] else [(''extattrs'', EA_json ea)])"

definition json_A :: "RecordA \<Rightarrow> json" where
  "json_A r = JObj (omit_empty ''_ref'' (aRef r) @ omit_empty ''ipv4addr'' (aIpv4Addr r) @ omit_empty ''name'' (aName r) @
     omit_empty ''view'' (aView r) @ omit_empty ''zone'' (aZone r) @ omit_EA (aEa r))"

definition json_CNAME :: "RecordCNAME \<Rightarrow> json" where
  "json_CNAME r = JObj (omit_empty ''_ref'' (cRef r) @ omit_empty ''canonical'' (cCanonical r) @ omit_empty ''name'' (cName r) @
     omit_empty ''view'' (cView r) @ omit_empty ''zone'' (cZone r) @ omit_EA (cEa r))"

definition json_Zone :: "ZoneAuth \<Rightarrow> json" where
  "json_Zone z = JObj (omit_empty ''_ref'' (zRef z) @ omit_empty ''fqdn'' (zFqdn z) @ omit_empty ''view'' (zView z) @ omit_EA (zEa z))"

definition json_Network :: "Network \<Rightarrow> json" where
  "json_Network n = JObj (omit_empty ''_ref'' (nwRef n) @ omit_empty ''network_view'' (nwNetviewName n) @
     omit_empty ''network'' (nwCidr n) @ omit_EA (nwEa n))"

definition json_Fixed :: "FixedAddress \<Rightarrow> json" where
  "json_Fixed f = JObj (omit_empty ''_ref'' (fRef f) @ omit_empty ''network_view'' (fNetviewName f) @
     omit_empty ''network'' (fCidr f) @ omit_empty ''ipv4addr'' (fIPAddress f) @ omit_empty ''mac'' (fMac f) @ omit_EA (fEa f))"

definition json_EADef :: "EADefinition \<Rightarrow> json" where
  "json_EADef d = JObj (omit_empty ''_ref'' (eRef d) @ omit_empty ''comment'' (eComment d) @ omit_empty ''flags'' (eFlags d) @
     (if eListValues d = [] then [] else [(''list_values'', JArr (map (\<lambda>v. JObj [(''value'', JStr v)]) (eListValues d)))]) @
     omit_empty ''name'' (eName d) @ omit_empty ''type'' (eType d) @
     (if eAllowedObjectTypes d = [] then [] else [(''allowed_object_types'', JArr (map JStr (eAllowedObjectTypes d)))]))"

definition json_User :: "UserProfile \<Rightarrow> json" where
  "json_User u = JObj (omit_empty ''_ref'' (upRef u) @ omit_empty ''name'' (upName u))"

fun json_of :: "IBObject \<Rightarrow> json" where
  "json_of (ObjA r) = json_A r"
| "json_of (ObjCNAME r) = json_CNAME r"
| "json_of (ObjZone z) = json_Zone z"
| "json_of (ObjNetwork n) = json_Network n"
| "json_of (ObjFixed f) = json_Fixed f"
| "json_of (ObjEADef d) = json_EADef d"
| "json_of (ObjUser u) = json_User u"

subsection \<open>Reading\<close>

datatype outcome = Fine | Saved | Stopped | Crash

text \<open>Go on, unless decoding has ended.\<close>

definition and_then :: "'a \<times> outcome \<Rightarrow> ('a \<Rightarrow> 'a \<times> outcome) \<Rightarrow> 'a \<times> outcome" where
  "and_then r f =
     (case r of
        (x, Fine) \<Rightarrow> f x
      | (x, Saved) \<Rightarrow> (let (y, out) = f x in (y, if out = Fine then Saved else out))
      | (x, out) \<Rightarrow> (x, out))"

type_synonym 'a decoder = "json \<Rightarrow> 'a \<Rightarrow> 'a \<times> outcome"

text \<open>A null leaves a string as it is.\<close>

fun dec_string :: "string decoder" where
  "dec_string (JStr s) old = (s, Fine)"
| "dec_string JNull old = (old, Fine)"
| "dec_string _ old = (old, Saved)"

text \<open>The slice is empty before: each element is decoded into a zero value.\<close>

fun dec_elems :: "'a decoder \<Rightarrow> 'a \<Rightarrow> json list \<Rightarrow> 'a list \<times> outcome" where
  "dec_elems dec zero [] = ([], Fine)"
| "dec_elems dec zero (j # js) =
     (case dec j zero of
        (x, Fine) \<Rightarrow> (case dec_elems dec zero js of (xs, out) \<Rightarrow> (x # xs, out))
      | (x, Saved) \<Rightarrow> (case dec_elems dec zero js of (xs, out) \<Rightarrow> (x # xs, if out = Fine then Saved else out))
      | (x, out) \<Rightarrow> ([x], out))"

fun dec_slice :: "'a decoder \<Rightarrow> 'a \<Rightarrow> 'a list decoder" where
  "dec_slice dec zero (JArr js) old = dec_elems dec zero js"
| "dec_slice dec zero JNull old = ([], Fine)"
| "dec_slice dec zero _ old = (old, Saved)"

text \<open>
  The name of a member is compared with the tags without regard to case; the letters with a
  fold outside ASCII are the long s and the Kelvin sign. The tags are in lower case.
\<close>

definition lower_char :: "char \<Rightarrow> char" where
  "lower_char c = (if 65 \<le> byte c \<and> byte c \<le> 90 then char_of (byte c + 32) else c)"

fun fold_name :: "string \<Rightarrow> string" where
  "fold_name [] = []"
| "fold_name (a # b # c # s) =
     (if byte a = 0xC5 \<and> byte b = 0xBF then CHR ''s'' # fold_name (c # s)
      else if byte a = 0xE2 \<and> byte b = 0x84 \<and> byte c = 0xAA then CHR ''k'' # fold_name s
      else lower_char a # fold_name (b # c # s))"
| "fold_name [a, b] = (if byte a = 0xC5 \<and> byte b = 0xBF then ''s'' else [lower_char a, lower_char b])"
| "fold_name [a] = [lower_char a]"

fun dec_members :: "(string \<Rightarrow> ('r decoder) option) \<Rightarrow> (string \<times> json) list \<Rightarrow> 'r \<Rightarrow> 'r \<times> outcome" where
  "dec_members field [] r = (r, Fine)"
| "dec_members field ((k, j) # ms) r =
     (case field (fold_name k) of
        None \<Rightarrow> dec_members field ms r
      | Some dec \<Rightarrow> and_then (dec j r) (dec_members field ms))"

fun dec_struct :: "(string \<Rightarrow> ('r decoder) option) \<Rightarrow> 'r decoder" where
  "dec_struct field (JObj ms) r = dec_members field ms r"
| "dec_struct field JNull r = (r, Fine)"
| "dec_struct field _ r = (r, Saved)"

definition into :: "('r \<Rightarrow> 'a) \<Rightarrow> ('a \<Rightarrow> 'r \<Rightarrow> 'r) \<Rightarrow> 'a decoder \<Rightarrow> 'r decoder" where
  "into get put dec j r = (case dec j (get r) of (x, out) \<Rightarrow> (put x r, out))"

subsection \<open>Attributes\<close>

text \<open>The last member of a name counts.\<close>

definition member :: "string \<Rightarrow> (string \<times> json) list \<Rightarrow> json option" where
  "member k ms = map_of (rev ms) k"

text \<open>\<^verbatim>\<open>json.Number.Int64\<close>: the number and whether there was no error.\<close>

definition digits_value :: "string \<Rightarrow> int" where
  "digits_value ds = foldl (\<lambda>n c. n * 10 + (char_code c - 48)) 0 ds"

definition Int64 :: "string \<Rightarrow> int \<times> bool" where
  "Int64 s =
     (let neg = (take 1 s = ''-''); ds = (if neg then drop 1 s else s)
      in if ds = '''' \<or> \<not> list_all is_digit ds then (0, False)
         else (let n = (if neg then - digits_value ds else digits_value ds)
               in if n > 2 ^ 63 - 1 then (2 ^ 63 - 1, False)
                  else if n < - (2 ^ 63) then (- (2 ^ 63), False)
                  else (n, True)))"

text \<open>The value of an attribute and whether its number was read; None is the panic.\<close>

fun dec_eaval :: "json option \<Rightarrow> (eaval \<times> bool option) option" where
  "dec_eaval (Some (JNum n)) = (case Int64 n of (i, ok) \<Rightarrow> Some (EAInt i, Some ok))"
| "dec_eaval (Some (JStr s)) =
     Some (if s = ''True'' then EABool True else if s = ''False'' then EABool False else EAStr s, None)"
| "dec_eaval _ = None"

text \<open>The values of the map are objects, or null.\<close>

fun inner_map :: "json \<Rightarrow> ((string \<times> json) list) option" where
  "inner_map (JObj ms) = Some ms"
| "inner_map JNull = Some []"
| "inner_map _ = None"

text \<open>
  The loop over the map, in the order \<open>ks\<close>: every value is stored, and the error is that of the
  last number.
\<close>

fun dec_EA_loop :: "(string \<times> json) list \<Rightarrow> string list \<Rightarrow> EA \<Rightarrow> bool \<Rightarrow> EA \<times> outcome" where
  "dec_EA_loop m [] ea ok = (ea, if ok then Fine else Stopped)"
| "dec_EA_loop m (k # ks) ea ok =
     (case dec_eaval (member k m \<bind> inner_map \<bind> member ''value'') of
        None \<Rightarrow> (ea, Crash)
      | Some (v, None) \<Rightarrow> dec_EA_loop m ks (fmupd k v ea) ok
      | Some (v, Some ok') \<Rightarrow> dec_EA_loop m ks (fmupd k v ea) ok')"

definition dec_EA :: "(string fset \<Rightarrow> string list) \<Rightarrow> EA decoder" where
  "dec_EA eord j old =
     (case inner_map j of
        None \<Rightarrow> (old, Stopped)
      | Some m \<Rightarrow>
          if \<exists>e \<in> set m. inner_map (snd e) = None then (old, Stopped)
          else dec_EA_loop m (eord (fset_of_list (map fst m))) fmempty True)"

text \<open>A list value of an attribute definition is an object whose values are strings.\<close>

definition dec_list_value :: "string decoder" where
  "dec_list_value j old =
     (case inner_map j of
        None \<Rightarrow> (old, Stopped)
      | Some m \<Rightarrow>
          if \<exists>e \<in> set m. snd (dec_string (snd e) '''') \<noteq> Fine then (old, Stopped)
          else (case member ''value'' m of None \<Rightarrow> '''' | Some v \<Rightarrow> fst (dec_string v ''''), Fine))"

subsection \<open>The objects\<close>

definition zero_A :: RecordA where
  "zero_A = \<lparr>aRef = '''', aIpv4Addr = '''', aName = '''', aView = '''', aZone = '''', aEa = fmempty\<rparr>"

definition field_A :: "(string fset \<Rightarrow> string list) \<Rightarrow> string \<Rightarrow> RecordA decoder option" where
  "field_A eord = map_of
     [(''_ref'', into aRef (\<lambda>x r. r\<lparr>aRef := x\<rparr>) dec_string),
      (''ipv4addr'', into aIpv4Addr (\<lambda>x r. r\<lparr>aIpv4Addr := x\<rparr>) dec_string),
      (''name'', into aName (\<lambda>x r. r\<lparr>aName := x\<rparr>) dec_string),
      (''view'', into aView (\<lambda>x r. r\<lparr>aView := x\<rparr>) dec_string),
      (''zone'', into aZone (\<lambda>x r. r\<lparr>aZone := x\<rparr>) dec_string),
      (''extattrs'', into aEa (\<lambda>x r. r\<lparr>aEa := x\<rparr>) (dec_EA eord))]"

definition zero_CNAME :: RecordCNAME where
  "zero_CNAME = \<lparr>cRef = '''', cCanonical = '''', cName = '''', cView = '''', cZone = '''', cEa = fmempty\<rparr>"

definition field_CNAME :: "(string fset \<Rightarrow> string list) \<Rightarrow> string \<Rightarrow> RecordCNAME decoder option" where
  "field_CNAME eord = map_of
     [(''_ref'', into cRef (\<lambda>x r. r\<lparr>cRef := x\<rparr>) dec_string),
      (''canonical'', into cCanonical (\<lambda>x r. r\<lparr>cCanonical := x\<rparr>) dec_string),
      (''name'', into cName (\<lambda>x r. r\<lparr>cName := x\<rparr>) dec_string),
      (''view'', into cView (\<lambda>x r. r\<lparr>cView := x\<rparr>) dec_string),
      (''zone'', into cZone (\<lambda>x r. r\<lparr>cZone := x\<rparr>) dec_string),
      (''extattrs'', into cEa (\<lambda>x r. r\<lparr>cEa := x\<rparr>) (dec_EA eord))]"

definition zero_Zone :: ZoneAuth where
  "zero_Zone = \<lparr>zRef = '''', zFqdn = '''', zView = '''', zEa = fmempty\<rparr>"

definition field_Zone :: "(string fset \<Rightarrow> string list) \<Rightarrow> string \<Rightarrow> ZoneAuth decoder option" where
  "field_Zone eord = map_of
     [(''_ref'', into zRef (\<lambda>x r. r\<lparr>zRef := x\<rparr>) dec_string),
      (''fqdn'', into zFqdn (\<lambda>x r. r\<lparr>zFqdn := x\<rparr>) dec_string),
      (''view'', into zView (\<lambda>x r. r\<lparr>zView := x\<rparr>) dec_string),
      (''extattrs'', into zEa (\<lambda>x r. r\<lparr>zEa := x\<rparr>) (dec_EA eord))]"

definition zero_Network :: Network where
  "zero_Network = \<lparr>nwRef = '''', nwNetviewName = '''', nwCidr = '''', nwEa = fmempty\<rparr>"

definition field_Network :: "(string fset \<Rightarrow> string list) \<Rightarrow> string \<Rightarrow> Network decoder option" where
  "field_Network eord = map_of
     [(''_ref'', into nwRef (\<lambda>x r. r\<lparr>nwRef := x\<rparr>) dec_string),
      (''network_view'', into nwNetviewName (\<lambda>x r. r\<lparr>nwNetviewName := x\<rparr>) dec_string),
      (''network'', into nwCidr (\<lambda>x r. r\<lparr>nwCidr := x\<rparr>) dec_string),
      (''extattrs'', into nwEa (\<lambda>x r. r\<lparr>nwEa := x\<rparr>) (dec_EA eord))]"

definition zero_Fixed :: FixedAddress where
  "zero_Fixed = \<lparr>fRef = '''', fNetviewName = '''', fCidr = '''', fIPAddress = '''', fMac = '''', fEa = fmempty\<rparr>"

definition field_Fixed :: "(string fset \<Rightarrow> string list) \<Rightarrow> string \<Rightarrow> FixedAddress decoder option" where
  "field_Fixed eord = map_of
     [(''_ref'', into fRef (\<lambda>x r. r\<lparr>fRef := x\<rparr>) dec_string),
      (''network_view'', into fNetviewName (\<lambda>x r. r\<lparr>fNetviewName := x\<rparr>) dec_string),
      (''network'', into fCidr (\<lambda>x r. r\<lparr>fCidr := x\<rparr>) dec_string),
      (''ipv4addr'', into fIPAddress (\<lambda>x r. r\<lparr>fIPAddress := x\<rparr>) dec_string),
      (''mac'', into fMac (\<lambda>x r. r\<lparr>fMac := x\<rparr>) dec_string),
      (''extattrs'', into fEa (\<lambda>x r. r\<lparr>fEa := x\<rparr>) (dec_EA eord))]"

definition field_EADef :: "string \<Rightarrow> EADefinition decoder option" where
  "field_EADef = map_of
     [(''_ref'', into eRef (\<lambda>x r. r\<lparr>eRef := x\<rparr>) dec_string),
      (''comment'', into eComment (\<lambda>x r. r\<lparr>eComment := x\<rparr>) dec_string),
      (''flags'', into eFlags (\<lambda>x r. r\<lparr>eFlags := x\<rparr>) dec_string),
      (''list_values'', into eListValues (\<lambda>x r. r\<lparr>eListValues := x\<rparr>) (dec_slice dec_list_value '''')),
      (''name'', into eName (\<lambda>x r. r\<lparr>eName := x\<rparr>) dec_string),
      (''type'', into eType (\<lambda>x r. r\<lparr>eType := x\<rparr>) dec_string),
      (''allowed_object_types'', into eAllowedObjectTypes (\<lambda>x r. r\<lparr>eAllowedObjectTypes := x\<rparr>) (dec_slice dec_string ''''))]"

definition field_User :: "string \<Rightarrow> UserProfile decoder option" where
  "field_User = map_of
     [(''_ref'', into upRef (\<lambda>x r. r\<lparr>upRef := x\<rparr>) dec_string),
      (''name'', into upName (\<lambda>x r. r\<lparr>upName := x\<rparr>) dec_string)]"

text \<open>\<^verbatim>\<open>json.Unmarshal\<close>: a text that is no JSON leaves the target as it is.\<close>

definition Unmarshal :: "'a decoder \<Rightarrow> 'a \<Rightarrow> string \<Rightarrow> 'a \<times> outcome" where
  "Unmarshal dec old text = (case parse_json text of None \<Rightarrow> (old, Saved) | Some j \<Rightarrow> dec j old)"

definition Unmarshal_list :: "(string \<Rightarrow> 'r decoder option) \<Rightarrow> 'r \<Rightarrow> string \<Rightarrow> 'r list \<times> outcome" where
  "Unmarshal_list field zero text = Unmarshal (dec_slice (dec_struct field) zero) [] text"

end
