(* ===== verification/Wapi_Laws.thy ===== *)
theory Wapi_Laws
  imports Wapi_Json
begin

section \<open>The objects come back\<close>

text \<open>
  A slice of objects that the library writes is read back as it was: numbers, attributes, the
  members of each object, and the objects of a list. What the attributes may be for that is
  \<open>EA_ok\<close>: a string \<^verbatim>\<open>True\<close> comes back as a truth value, so it is excluded.
\<close>

subsection \<open>Numbers come back\<close>


lemma char_code_digit: "n < 10 \<Longrightarrow> char_code (char_of (48 + n)) = 48 + int n"
proof -
  assume "n < 10"
  then have "byte (char_of (48 + n)) = 48 + n" by (simp add: byte_def)
  then show ?thesis by (metis byte_def char_code_def of_nat_add of_nat_numeral of_nat_of_char)
qed

lemma digits_of_facts:
  "digits_of n \<noteq> '''' \<and> list_all is_digit (digits_of n) \<and> digits_value (digits_of n) = int n \<and>
     (hd (digits_of n) = CHR ''0'' \<longrightarrow> tl (digits_of n) = '''')"
proof (induction n rule: digits_of.induct)
  case (1 n)
  show ?case
  proof (cases "n < 10")
    case True
    then show ?thesis by (simp add: digits_of.simps [of n] digits_value_def is_digit_def char_code_digit)
  next
    case False
    note IH = "1.IH" [OF False]
    have val: "digits_value (digits_of n) = int n"
      using IH False by (simp add: digits_of.simps [of n] digits_value_def char_code_digit) presburger
    have "n div 10 \<noteq> 0" using False by auto
    moreover have "digits_value (digits_of (n div 10)) = 0" if "hd (digits_of (n div 10)) = CHR ''0''"
      using IH that by (cases "digits_of (n div 10)") (auto simp: digits_value_def char_code_def)
    ultimately have "hd (digits_of (n div 10)) \<noteq> CHR ''0''" using IH by auto
    with IH val False show ?thesis
      by (simp add: digits_of.simps [of n] is_digit_def char_code_digit)
  qed
qed

lemma digits_of_no_sign: "take 1 (digits_of n) \<noteq> ''-''"
proof
  assume "take 1 (digits_of n) = ''-''"
  then have "\<exists>t. digits_of n = CHR ''-'' # t" by (cases "digits_of n") auto
  with digits_of_facts [of n] show False by (auto simp: is_digit_byte byte_def)
qed

lemma int_text_Itoa: "int_text (Itoa i)"
  using digits_of_facts [of "nat i"] digits_of_facts [of "nat (- i)"] digits_of_no_sign [of "nat i"]
  by (simp add: int_text_def Itoa_def Let_def)

lemma Int64_Itoa:
  assumes "- (2 ^ 63) \<le> i" and "i < 2 ^ 63"
  shows "Int64 (Itoa i) = (i, True)"
  using digits_of_facts [of "nat i"] digits_of_facts [of "nat (- i)"] digits_of_no_sign [of "nat i"] assms
  by (auto simp: Int64_def Itoa_def Let_def)

subsection \<open>Attributes come back\<close>

fun eaval_ok :: "eaval \<Rightarrow> bool" where
  "eaval_ok (EAStr s) = (utf8_ok s \<and> s \<noteq> ''True'' \<and> s \<noteq> ''False'')"
| "eaval_ok (EAInt i) = (- (2 ^ 63) \<le> i \<and> i < 2 ^ 63)"
| "eaval_ok (EABool b) = True"

definition EA_ok :: "EA \<Rightarrow> bool" where
  "EA_ok ea = fmpred (\<lambda>k v. utf8_ok k \<and> eaval_ok v) ea"

lemma dec_eaval_json: "eaval_ok v \<Longrightarrow> \<exists>ok. dec_eaval (Some (eaval_json v)) = Some (v, ok) \<and> (ok = None \<or> ok = Some True)"
  by (cases v) (auto simp: Int64_Itoa)

lemma eaval_json_ok: "eaval_ok v \<Longrightarrow> json_ok (eaval_json v)"
proof (cases v)
  case (EABool b)
  have "utf8_ok ''True''" "utf8_ok ''False''" by code_simp+
  with EABool show ?thesis by (simp del: utf8_ok.simps)
qed (auto simp: int_text_Itoa)

lemma EA_json_ok:
  assumes "EA_ok ea"
  shows "json_ok (EA_json ea)"
proof -
  have "utf8_ok ''value''" by code_simp
  with assms show ?thesis
    by (auto simp: EA_json_def EA_ok_def list_all_iff fmpred_iff keys_iff eaval_json_ok)
qed

lemma member_map:
  assumes "distinct ks"
  shows "member k (map (\<lambda>k. (k, f k)) ks) = (if k \<in> set ks then Some (f k) else None)"
proof -
  have "map_of (rev (map (\<lambda>k. (k, f k)) ks)) k = (if k \<in> set (rev ks) then Some (f k) else None)"
    unfolding rev_map by (simp add: map_of_map_restrict restrict_map_def)
  then show ?thesis by (simp add: member_def)
qed

lemma dec_EA_loop_all:
  assumes "\<And>k. k \<in> set ks \<Longrightarrow> \<exists>v ok. fmlookup ea k = Some v \<and>
      dec_eaval (member k m \<bind> inner_map \<bind> member ''value'') = Some (v, ok) \<and> (ok = None \<or> ok = Some True)"
  shows "\<exists>ea'. dec_EA_loop m ks ea0 True = (ea', Fine) \<and>
     (\<forall>k. fmlookup ea' k = (if k \<in> set ks then fmlookup ea k else fmlookup ea0 k))"
  using assms
proof (induction ks arbitrary: ea0)
  case (Cons k ks)
  from Cons.prems [of k] obtain v ok where v: "fmlookup ea k = Some v" "ok = None \<or> ok = Some True"
      "dec_eaval (member k m \<bind> inner_map \<bind> member ''value'') = Some (v, ok)" by auto
  from Cons.IH [of "fmupd k v ea0"] Cons.prems obtain ea' where
      "dec_EA_loop m ks (fmupd k v ea0) True = (ea', Fine)"
      "\<forall>x. fmlookup ea' x = (if x \<in> set ks then fmlookup ea x else fmlookup (fmupd k v ea0) x)"
    by auto
  with v show ?case by (intro exI [of _ ea']) auto
qed simp

lemma dec_EA_json:
  assumes "fair_range (\<lambda>_ :: unit. eord)" and "EA_ok ea"
  shows "dec_EA eord (EA_json ea) old = (ea, Fine)"
proof -
  let ?ks = "ascending () (fmdom ea)"
  let ?val = "\<lambda>k. JObj [(''value'', eaval_json (the (fmlookup ea k)))]"
  let ?m = "map (\<lambda>k. (k, ?val k)) ?ks"
  have ks: "distinct ?ks" "set ?ks = keys ea" by simp_all
  have names: "fset_of_list (map fst ?m) = fmdom ea"
    by (rule fset_inject [THEN iffD1]) (simp add: fset_of_list.rep_eq comp_def)
  have ord: "set (eord (fmdom ea)) = keys ea" using assms(1) by (simp add: fair_range_def)
  have "\<exists>v ok. fmlookup ea k = Some v \<and>
      dec_eaval (member k ?m \<bind> inner_map \<bind> member ''value'') = Some (v, ok) \<and> (ok = None \<or> ok = Some True)"
    if "k \<in> set (eord (fmdom ea))" for k
  proof -
    from that ord obtain v where v: "fmlookup ea k = Some v" by (auto simp: keys_iff)
    with assms(2) have "eaval_ok v" by (auto simp: EA_ok_def)
    moreover have "member k ?m = Some (?val k)" using that ord ks by (simp add: member_map)
    ultimately show ?thesis using dec_eaval_json [of v] v by (simp add: member_def)
  qed
  from dec_EA_loop_all [of "eord (fmdom ea)" ea ?m fmempty, OF this] obtain ea' where
      run: "dec_EA_loop ?m (eord (fmdom ea)) fmempty True = (ea', Fine)"
      and ea': "\<forall>k. fmlookup ea' k = (if k \<in> keys ea then fmlookup ea k else None)"
    by (auto simp: ord)
  have "ea' = ea" by (rule fmap_ext) (use ea' in \<open>auto simp: keys_iff\<close>)
  with run names show ?thesis by (auto simp: dec_EA_def EA_json_def)
qed

subsection \<open>Members come back\<close>

lemma dec_omit_empty:
  assumes "field (fold_name name) = Some (into get put dec_string)" and "put '''' r = r"
  shows "dec_members field (omit_empty name v @ ms) r = dec_members field ms (put v r)"
  using assms by (simp add: omit_empty_def into_def and_then_def)

lemma dec_omit_EA:
  assumes "field (fold_name ''extattrs'') = Some (into get put (dec_EA eord))" and "put fmempty r = r"
    and "fair_range (\<lambda>_ :: unit. eord)" and "EA_ok ea"
  shows "dec_members field (omit_EA ea) r = (put ea r, Fine)"
proof (cases "ea = fmempty")
  case True
  with assms(2) show ?thesis by (simp add: omit_EA_def)
next
  case False
  then have "fmdom ea \<noteq> {||}" by (metis fmempty_keys fset_fmdom fset_simps(1))
  with assms show ?thesis by (simp add: omit_EA_def into_def and_then_def dec_EA_json)
qed

lemma tags_fold [simp]:
  "fold_name ''_ref'' = ''_ref''" "fold_name ''ipv4addr'' = ''ipv4addr''" "fold_name ''name'' = ''name''"
  "fold_name ''view'' = ''view''" "fold_name ''zone'' = ''zone''" "fold_name ''extattrs'' = ''extattrs''"
  "fold_name ''canonical'' = ''canonical''" "fold_name ''fqdn'' = ''fqdn''" "fold_name ''network_view'' = ''network_view''"
  "fold_name ''network'' = ''network''" "fold_name ''mac'' = ''mac''" "fold_name ''comment'' = ''comment''"
  "fold_name ''flags'' = ''flags''" "fold_name ''list_values'' = ''list_values''" "fold_name ''type'' = ''type''"
  "fold_name ''allowed_object_types'' = ''allowed_object_types''"
  by code_simp+

declare fold_name.simps [simp del]

lemma member_A_aRef:
  "aRef r = '''' \<Longrightarrow> dec_members (field_A eord) (omit_empty ''_ref'' v @ ms) r = dec_members (field_A eord) ms (r\<lparr>aRef := v\<rparr>)"
  by (rule dec_omit_empty [where put = "\<lambda>x r. r\<lparr>aRef := x\<rparr>" and get = aRef]) (cases r, simp_all add: field_A_def)

lemma member_A_aIpv4Addr:
  "aIpv4Addr r = '''' \<Longrightarrow> dec_members (field_A eord) (omit_empty ''ipv4addr'' v @ ms) r = dec_members (field_A eord) ms (r\<lparr>aIpv4Addr := v\<rparr>)"
  by (rule dec_omit_empty [where put = "\<lambda>x r. r\<lparr>aIpv4Addr := x\<rparr>" and get = aIpv4Addr]) (cases r, simp_all add: field_A_def)

lemma member_A_aName:
  "aName r = '''' \<Longrightarrow> dec_members (field_A eord) (omit_empty ''name'' v @ ms) r = dec_members (field_A eord) ms (r\<lparr>aName := v\<rparr>)"
  by (rule dec_omit_empty [where put = "\<lambda>x r. r\<lparr>aName := x\<rparr>" and get = aName]) (cases r, simp_all add: field_A_def)

lemma member_A_aView:
  "aView r = '''' \<Longrightarrow> dec_members (field_A eord) (omit_empty ''view'' v @ ms) r = dec_members (field_A eord) ms (r\<lparr>aView := v\<rparr>)"
  by (rule dec_omit_empty [where put = "\<lambda>x r. r\<lparr>aView := x\<rparr>" and get = aView]) (cases r, simp_all add: field_A_def)

lemma member_A_aZone:
  "aZone r = '''' \<Longrightarrow> dec_members (field_A eord) (omit_empty ''zone'' v @ ms) r = dec_members (field_A eord) ms (r\<lparr>aZone := v\<rparr>)"
  by (rule dec_omit_empty [where put = "\<lambda>x r. r\<lparr>aZone := x\<rparr>" and get = aZone]) (cases r, simp_all add: field_A_def)

lemma member_A_EA:
  "aEa r = fmempty \<Longrightarrow> fair_range (\<lambda>_ :: unit. eord) \<Longrightarrow> EA_ok ea \<Longrightarrow>
     dec_members (field_A eord) (omit_EA ea) r = (r\<lparr>aEa := ea\<rparr>, Fine)"
  by (rule dec_omit_EA [where put = "\<lambda>x r. r\<lparr>aEa := x\<rparr>" and get = aEa]) (cases r, simp_all add: field_A_def)

lemma dec_json_A:
  assumes "fair_range (\<lambda>_ :: unit. eord)" and "EA_ok (aEa r)"
  shows "dec_struct (field_A eord) (json_A r) zero_A = (r, Fine)"
  using assms by (simp add: json_A_def zero_A_def member_A_aRef member_A_aIpv4Addr member_A_aName member_A_aView member_A_aZone member_A_EA)

lemma member_CNAME_cRef:
  "cRef r = '''' \<Longrightarrow> dec_members (field_CNAME eord) (omit_empty ''_ref'' v @ ms) r = dec_members (field_CNAME eord) ms (r\<lparr>cRef := v\<rparr>)"
  by (rule dec_omit_empty [where put = "\<lambda>x r. r\<lparr>cRef := x\<rparr>" and get = cRef]) (cases r, simp_all add: field_CNAME_def)

lemma member_CNAME_cCanonical:
  "cCanonical r = '''' \<Longrightarrow> dec_members (field_CNAME eord) (omit_empty ''canonical'' v @ ms) r = dec_members (field_CNAME eord) ms (r\<lparr>cCanonical := v\<rparr>)"
  by (rule dec_omit_empty [where put = "\<lambda>x r. r\<lparr>cCanonical := x\<rparr>" and get = cCanonical]) (cases r, simp_all add: field_CNAME_def)

lemma member_CNAME_cName:
  "cName r = '''' \<Longrightarrow> dec_members (field_CNAME eord) (omit_empty ''name'' v @ ms) r = dec_members (field_CNAME eord) ms (r\<lparr>cName := v\<rparr>)"
  by (rule dec_omit_empty [where put = "\<lambda>x r. r\<lparr>cName := x\<rparr>" and get = cName]) (cases r, simp_all add: field_CNAME_def)

lemma member_CNAME_cView:
  "cView r = '''' \<Longrightarrow> dec_members (field_CNAME eord) (omit_empty ''view'' v @ ms) r = dec_members (field_CNAME eord) ms (r\<lparr>cView := v\<rparr>)"
  by (rule dec_omit_empty [where put = "\<lambda>x r. r\<lparr>cView := x\<rparr>" and get = cView]) (cases r, simp_all add: field_CNAME_def)

lemma member_CNAME_cZone:
  "cZone r = '''' \<Longrightarrow> dec_members (field_CNAME eord) (omit_empty ''zone'' v @ ms) r = dec_members (field_CNAME eord) ms (r\<lparr>cZone := v\<rparr>)"
  by (rule dec_omit_empty [where put = "\<lambda>x r. r\<lparr>cZone := x\<rparr>" and get = cZone]) (cases r, simp_all add: field_CNAME_def)

lemma member_CNAME_EA:
  "cEa r = fmempty \<Longrightarrow> fair_range (\<lambda>_ :: unit. eord) \<Longrightarrow> EA_ok ea \<Longrightarrow>
     dec_members (field_CNAME eord) (omit_EA ea) r = (r\<lparr>cEa := ea\<rparr>, Fine)"
  by (rule dec_omit_EA [where put = "\<lambda>x r. r\<lparr>cEa := x\<rparr>" and get = cEa]) (cases r, simp_all add: field_CNAME_def)

lemma dec_json_CNAME:
  assumes "fair_range (\<lambda>_ :: unit. eord)" and "EA_ok (cEa r)"
  shows "dec_struct (field_CNAME eord) (json_CNAME r) zero_CNAME = (r, Fine)"
  using assms by (simp add: json_CNAME_def zero_CNAME_def member_CNAME_cRef member_CNAME_cCanonical member_CNAME_cName member_CNAME_cView member_CNAME_cZone member_CNAME_EA)

lemma member_Zone_zRef:
  "zRef r = '''' \<Longrightarrow> dec_members (field_Zone eord) (omit_empty ''_ref'' v @ ms) r = dec_members (field_Zone eord) ms (r\<lparr>zRef := v\<rparr>)"
  by (rule dec_omit_empty [where put = "\<lambda>x r. r\<lparr>zRef := x\<rparr>" and get = zRef]) (cases r, simp_all add: field_Zone_def)

lemma member_Zone_zFqdn:
  "zFqdn r = '''' \<Longrightarrow> dec_members (field_Zone eord) (omit_empty ''fqdn'' v @ ms) r = dec_members (field_Zone eord) ms (r\<lparr>zFqdn := v\<rparr>)"
  by (rule dec_omit_empty [where put = "\<lambda>x r. r\<lparr>zFqdn := x\<rparr>" and get = zFqdn]) (cases r, simp_all add: field_Zone_def)

lemma member_Zone_zView:
  "zView r = '''' \<Longrightarrow> dec_members (field_Zone eord) (omit_empty ''view'' v @ ms) r = dec_members (field_Zone eord) ms (r\<lparr>zView := v\<rparr>)"
  by (rule dec_omit_empty [where put = "\<lambda>x r. r\<lparr>zView := x\<rparr>" and get = zView]) (cases r, simp_all add: field_Zone_def)

lemma member_Zone_EA:
  "zEa r = fmempty \<Longrightarrow> fair_range (\<lambda>_ :: unit. eord) \<Longrightarrow> EA_ok ea \<Longrightarrow>
     dec_members (field_Zone eord) (omit_EA ea) r = (r\<lparr>zEa := ea\<rparr>, Fine)"
  by (rule dec_omit_EA [where put = "\<lambda>x r. r\<lparr>zEa := x\<rparr>" and get = zEa]) (cases r, simp_all add: field_Zone_def)

lemma dec_json_Zone:
  assumes "fair_range (\<lambda>_ :: unit. eord)" and "EA_ok (zEa r)"
  shows "dec_struct (field_Zone eord) (json_Zone r) zero_Zone = (r, Fine)"
  using assms by (simp add: json_Zone_def zero_Zone_def member_Zone_zRef member_Zone_zFqdn member_Zone_zView member_Zone_EA)

lemma member_Network_nwRef:
  "nwRef r = '''' \<Longrightarrow> dec_members (field_Network eord) (omit_empty ''_ref'' v @ ms) r = dec_members (field_Network eord) ms (r\<lparr>nwRef := v\<rparr>)"
  by (rule dec_omit_empty [where put = "\<lambda>x r. r\<lparr>nwRef := x\<rparr>" and get = nwRef]) (cases r, simp_all add: field_Network_def)

lemma member_Network_nwNetviewName:
  "nwNetviewName r = '''' \<Longrightarrow> dec_members (field_Network eord) (omit_empty ''network_view'' v @ ms) r = dec_members (field_Network eord) ms (r\<lparr>nwNetviewName := v\<rparr>)"
  by (rule dec_omit_empty [where put = "\<lambda>x r. r\<lparr>nwNetviewName := x\<rparr>" and get = nwNetviewName]) (cases r, simp_all add: field_Network_def)

lemma member_Network_nwCidr:
  "nwCidr r = '''' \<Longrightarrow> dec_members (field_Network eord) (omit_empty ''network'' v @ ms) r = dec_members (field_Network eord) ms (r\<lparr>nwCidr := v\<rparr>)"
  by (rule dec_omit_empty [where put = "\<lambda>x r. r\<lparr>nwCidr := x\<rparr>" and get = nwCidr]) (cases r, simp_all add: field_Network_def)

lemma member_Network_EA:
  "nwEa r = fmempty \<Longrightarrow> fair_range (\<lambda>_ :: unit. eord) \<Longrightarrow> EA_ok ea \<Longrightarrow>
     dec_members (field_Network eord) (omit_EA ea) r = (r\<lparr>nwEa := ea\<rparr>, Fine)"
  by (rule dec_omit_EA [where put = "\<lambda>x r. r\<lparr>nwEa := x\<rparr>" and get = nwEa]) (cases r, simp_all add: field_Network_def)

lemma dec_json_Network:
  assumes "fair_range (\<lambda>_ :: unit. eord)" and "EA_ok (nwEa r)"
  shows "dec_struct (field_Network eord) (json_Network r) zero_Network = (r, Fine)"
  using assms by (simp add: json_Network_def zero_Network_def member_Network_nwRef member_Network_nwNetviewName member_Network_nwCidr member_Network_EA)

lemma member_Fixed_fRef:
  "fRef r = '''' \<Longrightarrow> dec_members (field_Fixed eord) (omit_empty ''_ref'' v @ ms) r = dec_members (field_Fixed eord) ms (r\<lparr>fRef := v\<rparr>)"
  by (rule dec_omit_empty [where put = "\<lambda>x r. r\<lparr>fRef := x\<rparr>" and get = fRef]) (cases r, simp_all add: field_Fixed_def)

lemma member_Fixed_fNetviewName:
  "fNetviewName r = '''' \<Longrightarrow> dec_members (field_Fixed eord) (omit_empty ''network_view'' v @ ms) r = dec_members (field_Fixed eord) ms (r\<lparr>fNetviewName := v\<rparr>)"
  by (rule dec_omit_empty [where put = "\<lambda>x r. r\<lparr>fNetviewName := x\<rparr>" and get = fNetviewName]) (cases r, simp_all add: field_Fixed_def)

lemma member_Fixed_fCidr:
  "fCidr r = '''' \<Longrightarrow> dec_members (field_Fixed eord) (omit_empty ''network'' v @ ms) r = dec_members (field_Fixed eord) ms (r\<lparr>fCidr := v\<rparr>)"
  by (rule dec_omit_empty [where put = "\<lambda>x r. r\<lparr>fCidr := x\<rparr>" and get = fCidr]) (cases r, simp_all add: field_Fixed_def)

lemma member_Fixed_fIPAddress:
  "fIPAddress r = '''' \<Longrightarrow> dec_members (field_Fixed eord) (omit_empty ''ipv4addr'' v @ ms) r = dec_members (field_Fixed eord) ms (r\<lparr>fIPAddress := v\<rparr>)"
  by (rule dec_omit_empty [where put = "\<lambda>x r. r\<lparr>fIPAddress := x\<rparr>" and get = fIPAddress]) (cases r, simp_all add: field_Fixed_def)

lemma member_Fixed_fMac:
  "fMac r = '''' \<Longrightarrow> dec_members (field_Fixed eord) (omit_empty ''mac'' v @ ms) r = dec_members (field_Fixed eord) ms (r\<lparr>fMac := v\<rparr>)"
  by (rule dec_omit_empty [where put = "\<lambda>x r. r\<lparr>fMac := x\<rparr>" and get = fMac]) (cases r, simp_all add: field_Fixed_def)

lemma member_Fixed_EA:
  "fEa r = fmempty \<Longrightarrow> fair_range (\<lambda>_ :: unit. eord) \<Longrightarrow> EA_ok ea \<Longrightarrow>
     dec_members (field_Fixed eord) (omit_EA ea) r = (r\<lparr>fEa := ea\<rparr>, Fine)"
  by (rule dec_omit_EA [where put = "\<lambda>x r. r\<lparr>fEa := x\<rparr>" and get = fEa]) (cases r, simp_all add: field_Fixed_def)

lemma dec_json_Fixed:
  assumes "fair_range (\<lambda>_ :: unit. eord)" and "EA_ok (fEa r)"
  shows "dec_struct (field_Fixed eord) (json_Fixed r) zero_Fixed = (r, Fine)"
  using assms by (simp add: json_Fixed_def zero_Fixed_def member_Fixed_fRef member_Fixed_fNetviewName member_Fixed_fCidr member_Fixed_fIPAddress member_Fixed_fMac member_Fixed_EA)

lemma member_EADef_strings:
  "eRef d = '''' \<Longrightarrow> dec_members field_EADef (omit_empty ''_ref'' v @ ms) d = dec_members field_EADef ms (d\<lparr>eRef := v\<rparr>)"
  "eComment d = '''' \<Longrightarrow> dec_members field_EADef (omit_empty ''comment'' v @ ms) d = dec_members field_EADef ms (d\<lparr>eComment := v\<rparr>)"
  "eFlags d = '''' \<Longrightarrow> dec_members field_EADef (omit_empty ''flags'' v @ ms) d = dec_members field_EADef ms (d\<lparr>eFlags := v\<rparr>)"
  "eName d = '''' \<Longrightarrow> dec_members field_EADef (omit_empty ''name'' v @ ms) d = dec_members field_EADef ms (d\<lparr>eName := v\<rparr>)"
  "eType d = '''' \<Longrightarrow> dec_members field_EADef (omit_empty ''type'' v @ ms) d = dec_members field_EADef ms (d\<lparr>eType := v\<rparr>)"
  by (cases d; simp add: omit_empty_def into_def and_then_def field_EADef_def)+

lemma dec_elems_all:
  "(\<And>x. x \<in> set xs \<Longrightarrow> dec (enc x) zero = (x, Fine)) \<Longrightarrow> dec_elems dec zero (map enc xs) = (xs, Fine)"
  by (induction xs) auto

lemma dec_list_values: "dec_elems dec_list_value '''' (map (\<lambda>v. JObj [(''value'', JStr v)]) vs) = (vs, Fine)"
  by (rule dec_elems_all) (simp add: dec_list_value_def member_def)

lemma dec_strings: "dec_elems dec_string '''' (map JStr vs) = (vs, Fine)"
  by (rule dec_elems_all) simp

lemma member_EADef_lists:
  "eListValues d = [] \<Longrightarrow>
     dec_members field_EADef ((if vs = [] then [] else [(''list_values'', JArr (map (\<lambda>v. JObj [(''value'', JStr v)]) vs))]) @ ms) d =
     dec_members field_EADef ms (d\<lparr>eListValues := vs\<rparr>)"
  "eAllowedObjectTypes d = [] \<Longrightarrow>
     dec_members field_EADef (if ts = [] then [] else [(''allowed_object_types'', JArr (map JStr ts))]) d =
     (d\<lparr>eAllowedObjectTypes := ts\<rparr>, Fine)"
  by (cases d; simp add: into_def and_then_def field_EADef_def dec_list_values dec_strings)+

lemma member_User_strings:
  "upRef u = '''' \<Longrightarrow> dec_members field_User (omit_empty ''_ref'' v @ ms) u = dec_members field_User ms (u\<lparr>upRef := v\<rparr>)"
  "upName u = '''' \<Longrightarrow> dec_members field_User (omit_empty ''name'' v) u = (u\<lparr>upName := v\<rparr>, Fine)"
  by (cases u; simp add: omit_empty_def into_def and_then_def field_User_def)+

lemma dec_json_User: "dec_struct field_User (json_User u) \<lparr>upRef = '''', upName = ''''\<rparr> = (u, Fine)"
  by (simp add: json_User_def member_User_strings)

lemma dec_json_EADef: "dec_struct field_EADef (json_EADef d) zeroEADef = (d, Fine)"
  by (simp add: json_EADef_def zeroEADef_def member_EADef_strings member_EADef_lists)

subsection \<open>Lists of objects come back\<close>

definition A_ok :: "RecordA \<Rightarrow> bool" where
  "A_ok r \<longleftrightarrow> list_all utf8_ok [aRef r, aIpv4Addr r, aName r, aView r, aZone r] \<and> EA_ok (aEa r)"

definition CNAME_ok :: "RecordCNAME \<Rightarrow> bool" where
  "CNAME_ok r \<longleftrightarrow> list_all utf8_ok [cRef r, cCanonical r, cName r, cView r, cZone r] \<and> EA_ok (cEa r)"

definition Zone_ok :: "ZoneAuth \<Rightarrow> bool" where
  "Zone_ok z \<longleftrightarrow> list_all utf8_ok [zRef z, zFqdn z, zView z] \<and> EA_ok (zEa z)"

definition Network_ok :: "Network \<Rightarrow> bool" where
  "Network_ok n \<longleftrightarrow> list_all utf8_ok [nwRef n, nwNetviewName n, nwCidr n] \<and> EA_ok (nwEa n)"

definition Fixed_ok :: "FixedAddress \<Rightarrow> bool" where
  "Fixed_ok f \<longleftrightarrow> list_all utf8_ok [fRef f, fNetviewName f, fCidr f, fIPAddress f, fMac f] \<and> EA_ok (fEa f)"

definition EADef_ok :: "EADefinition \<Rightarrow> bool" where
  "EADef_ok d \<longleftrightarrow> list_all utf8_ok [eRef d, eComment d, eFlags d, eName d, eType d] \<and>
     list_all utf8_ok (eListValues d) \<and> list_all utf8_ok (eAllowedObjectTypes d)"

fun object_ok :: "IBObject \<Rightarrow> bool" where
  "object_ok (ObjA r) = A_ok r"
| "object_ok (ObjCNAME r) = CNAME_ok r"
| "object_ok (ObjZone z) = Zone_ok z"
| "object_ok (ObjNetwork n) = Network_ok n"
| "object_ok (ObjFixed f) = Fixed_ok f"
| "object_ok (ObjEADef d) = EADef_ok d"
| "object_ok (ObjUser u) = (utf8_ok (upRef u) \<and> utf8_ok (upName u))"

lemma tags_utf8 [simp]:
  "utf8_ok ''_ref''" "utf8_ok ''ipv4addr''" "utf8_ok ''name''" "utf8_ok ''view''" "utf8_ok ''zone''"
  "utf8_ok ''extattrs''" "utf8_ok ''canonical''" "utf8_ok ''fqdn''" "utf8_ok ''network_view''" "utf8_ok ''network''"
  "utf8_ok ''mac''" "utf8_ok ''comment''" "utf8_ok ''flags''" "utf8_ok ''list_values''" "utf8_ok ''type''"
  "utf8_ok ''allowed_object_types''" "utf8_ok ''value''"
  by code_simp+

declare utf8_ok.simps(2) [simp del]

definition member_ok :: "string \<times> json \<Rightarrow> bool" where
  "member_ok m \<longleftrightarrow> utf8_ok (fst m) \<and> json_ok (snd m)"

lemma omit_ok [simp]:
  "utf8_ok name \<Longrightarrow> utf8_ok v \<Longrightarrow> list_all member_ok (omit_empty name v)"
  "EA_ok ea \<Longrightarrow> list_all member_ok (omit_EA ea)"
  by (simp_all add: omit_empty_def omit_EA_def EA_json_ok member_ok_def)

lemma json_ok_object [simp]: "json_ok (JObj ms) = list_all member_ok ms"
  by (simp add: list_all_iff member_ok_def)

lemma json_of_ok: "object_ok obj \<Longrightarrow> json_ok (json_of obj)"
  by (cases obj)
     (simp_all del: json_ok.simps(4) add: json_A_def A_ok_def json_CNAME_def CNAME_ok_def json_Zone_def Zone_ok_def
       json_Network_def Network_ok_def json_Fixed_def Fixed_ok_def json_EADef_def EADef_ok_def json_User_def,
      simp add: list_all_iff member_ok_def)

lemma Unmarshal_write:
  assumes "\<And>x. x \<in> set xs \<Longrightarrow> json_ok (enc x) \<and> dec_struct field (enc x) zero = (x, Fine)"
  shows "Unmarshal_list field zero (write_json (JArr (map enc xs))) = (xs, Fine)"
proof -
  have "json_ok (JArr (map enc xs))" using assms by (simp add: list_all_iff)
  from parse_write [OF this] dec_elems_all [of xs "dec_struct field" enc zero] assms show ?thesis
    by (simp add: Unmarshal_list_def Unmarshal_def)
qed

lemma Unmarshal_A:
  assumes "list_all A_ok xs" and "fair_range (\<lambda>_ :: unit. eord)"
  shows "Unmarshal_list (field_A eord) zero_A (write_json (JArr (map json_A xs))) = (xs, Fine)"
  by (rule Unmarshal_write) (use assms json_of_ok [of "ObjA _"] in \<open>auto simp: list_all_iff A_ok_def dec_json_A\<close>)

lemma Unmarshal_CNAME:
  assumes "list_all CNAME_ok xs" and "fair_range (\<lambda>_ :: unit. eord)"
  shows "Unmarshal_list (field_CNAME eord) zero_CNAME (write_json (JArr (map json_CNAME xs))) = (xs, Fine)"
  by (rule Unmarshal_write) (use assms json_of_ok [of "ObjCNAME _"] in \<open>auto simp: list_all_iff CNAME_ok_def dec_json_CNAME\<close>)

lemma Unmarshal_Zone:
  assumes "list_all Zone_ok xs" and "fair_range (\<lambda>_ :: unit. eord)"
  shows "Unmarshal_list (field_Zone eord) zero_Zone (write_json (JArr (map json_Zone xs))) = (xs, Fine)"
  by (rule Unmarshal_write) (use assms json_of_ok [of "ObjZone _"] in \<open>auto simp: list_all_iff Zone_ok_def dec_json_Zone\<close>)

lemma Unmarshal_Network:
  assumes "list_all Network_ok xs" and "fair_range (\<lambda>_ :: unit. eord)"
  shows "Unmarshal_list (field_Network eord) zero_Network (write_json (JArr (map json_Network xs))) = (xs, Fine)"
  by (rule Unmarshal_write) (use assms json_of_ok [of "ObjNetwork _"] in \<open>auto simp: list_all_iff Network_ok_def dec_json_Network\<close>)

lemma Unmarshal_Fixed:
  assumes "list_all Fixed_ok xs" and "fair_range (\<lambda>_ :: unit. eord)"
  shows "Unmarshal_list (field_Fixed eord) zero_Fixed (write_json (JArr (map json_Fixed xs))) = (xs, Fine)"
  by (rule Unmarshal_write) (use assms json_of_ok [of "ObjFixed _"] in \<open>auto simp: list_all_iff Fixed_ok_def dec_json_Fixed\<close>)

lemma Unmarshal_User:
  "list_all (\<lambda>u. object_ok (ObjUser u)) xs \<Longrightarrow>
     Unmarshal_list field_User \<lparr>upRef = '''', upName = ''''\<rparr> (write_json (JArr (map json_User xs))) = (xs, Fine)"
  by (rule Unmarshal_write) (use json_of_ok [of "ObjUser _"] in \<open>auto simp: list_all_iff dec_json_User\<close>)

lemma Unmarshal_EADef:
  "list_all EADef_ok xs \<Longrightarrow> Unmarshal_list field_EADef zeroEADef (write_json (JArr (map json_EADef xs))) = (xs, Fine)"
  by (rule Unmarshal_write) (use json_of_ok [of "ObjEADef _"] in \<open>auto simp: list_all_iff dec_json_EADef\<close>)

text \<open>C37. What the grid sends is what the client gets: a list of A records, CNAME records, zones,
  networks, fixed addresses or attribute definitions, written as the library writes JSON (empty fields left out, attributes
  wrapped, strings with Go's escapes), is read back by the library's decoding as the same list and without an error,
  whatever the order in which Go visits the attributes; the strings have to be UTF-8, numbers
  of 64 bits, and no attribute the text True or False.\<close>

theorem objects_come_back:
  assumes "fair_range (\<lambda>_ :: unit. eord)"
  shows "(list_all A_ok as \<longrightarrow> Unmarshal_list (field_A eord) zero_A (write_json (JArr (map json_A as))) = (as, Fine)) \<and>
    (list_all CNAME_ok cs \<longrightarrow> Unmarshal_list (field_CNAME eord) zero_CNAME (write_json (JArr (map json_CNAME cs))) = (cs, Fine)) \<and>
    (list_all Zone_ok zs \<longrightarrow> Unmarshal_list (field_Zone eord) zero_Zone (write_json (JArr (map json_Zone zs))) = (zs, Fine)) \<and>
    (list_all Network_ok ns \<longrightarrow> Unmarshal_list (field_Network eord) zero_Network (write_json (JArr (map json_Network ns))) = (ns, Fine)) \<and>
    (list_all Fixed_ok fs \<longrightarrow> Unmarshal_list (field_Fixed eord) zero_Fixed (write_json (JArr (map json_Fixed fs))) = (fs, Fine)) \<and>
    (list_all EADef_ok ds \<longrightarrow> Unmarshal_list field_EADef zeroEADef (write_json (JArr (map json_EADef ds))) = (ds, Fine))"
  using Unmarshal_A [OF _ assms] Unmarshal_CNAME [OF _ assms] Unmarshal_Zone [OF _ assms] Unmarshal_Network [OF _ assms]
    Unmarshal_Fixed [OF _ assms] Unmarshal_EADef
  by blast

theorem objects_come_back_witness:
  "Unmarshal_list (field_A (ascending ())) zero_A (write_json (JArr (map json_A
     [\<lparr>aRef = ''record:a/1'', aIpv4Addr = ''10.0.0.7'', aName = ''a<b.com'', aView = ''default'', aZone = '''',
        aEa = fmupd ''Site'' (EAInt 7) (fmupd ''F5-IPAM'' (EAStr ''managed'') fmempty)\<rparr>, zero_A]))) =
   ([\<lparr>aRef = ''record:a/1'', aIpv4Addr = ''10.0.0.7'', aName = ''a<b.com'', aView = ''default'', aZone = '''',
        aEa = fmupd ''Site'' (EAInt 7) (fmupd ''F5-IPAM'' (EAStr ''managed'') fmempty)\<rparr>, zero_A], Fine)"
proof -
  have ok: "list_all A_ok [\<lparr>aRef = ''record:a/1'', aIpv4Addr = ''10.0.0.7'', aName = ''a<b.com'', aView = ''default'', aZone = '''',
        aEa = fmupd ''Site'' (EAInt 7) (fmupd ''F5-IPAM'' (EAStr ''managed'') fmempty)\<rparr>, zero_A]"
    by code_simp
  have "fair_range (\<lambda>_ :: unit. ascending () :: string fset \<Rightarrow> string list)"
    using fair_ascending by (simp add: fair_range_def)
  from objects_come_back [OF this] ok show ?thesis by blast
qed

end
