(* ===== verification/Connector.thy ===== *)
theory Connector
  imports Wapi_Laws Request_Builder
begin

section \<open>The connector (vendor/github.com/infobloxopen, connector.go)\<close>

text \<open>
  The connector sends the requests of Request_Builder and decodes the answers. What is behind HTTP is
  the argument \<open>wapi\<close>: what \<^verbatim>\<open>http.Client.Do\<close> answers, with the grid as its state, whether
  \<^verbatim>\<open>http.NewRequest\<close> accepts a URL, and the order in which Go visits the attributes it decodes. None is
  a panic; there are two: \<^verbatim>\<open>makeRequest\<close> goes on with the nil request when building it has failed,
  and an attribute of the grid may be of a kind the decoder does not expect.
\<close>

record HttpResponse =
  respCode :: int
  respStatus :: string
  respBody :: string
  respReadErr :: "string option"

record 'h wapi =
  doRequest :: "HttpRequest \<Rightarrow> 'h \<Rightarrow> (string + HttpResponse) \<times> 'h"
  acceptsUrl :: "string \<Rightarrow> bool"
  attrOrder :: "string fset \<Rightarrow> string list"
  wapiConfig :: HostConfig

fun toMethod :: "RequestType \<Rightarrow> string" where
  "toMethod CREATE = ''POST''"
| "toMethod GET = ''GET''"
| "toMethod DELETE = ''DELETE''"
| "toMethod UPDATE = ''PUT''"

subsection \<open>Requests\<close>

definition newline :: string where "newline = [char_of (10 :: nat)]"

definition getHttpResponseError :: "HttpResponse \<Rightarrow> string" where
  "getHttpResponseError resp =
     ''WAPI request error: '' @ Itoa (respCode resp) @ ''('' @ [CHR 39] @ respStatus resp @ [CHR 39] @ '')'' @ newline @
     ''Contents:'' @ newline @ respBody resp @ newline"

text \<open>The body is what has been read when reading it fails. The nil request is None.\<close>

definition SendRequest :: "'h wapi \<Rightarrow> HttpRequest option \<Rightarrow> 'h \<Rightarrow> ((string \<times> string option) \<times> 'h) option" where
  "SendRequest w req h =
     (case req of
        None \<Rightarrow> None
      | Some rq \<Rightarrow>
          (case doRequest w rq h of
             (Inl e, h') \<Rightarrow> Some (('''', Some e), h')
           | (Inr resp, h') \<Rightarrow>
               (if \<not> (respCode resp = 200 \<or> (respCode resp = 201 \<and> reqMethod rq = toMethod CREATE))
                then Some (('''', Some (getHttpResponseError resp)), h')
                else Some ((respBody resp, respReadErr resp), h'))))"

text \<open>No constructor of the objects sets search attributes, so the second part of the body is never written.\<close>

fun EaSearch :: "IBObject \<Rightarrow> EA" where
  "EaSearch _ = fmempty"

definition EASearch_json :: "EA \<Rightarrow> json" where
  "EASearch_json eas = JObj (map (\<lambda>k. (''*'' @ k, eaval_json (the (fmlookup eas k)))) (ascending () (fmdom eas)))"

definition BuildBody :: "RequestType \<Rightarrow> IBObject \<Rightarrow> string" where
  "BuildBody t obj =
     (let objJson = write_json (json_of obj); eaSearch = EaSearch obj
      in if t = GET \<and> map_len eaSearch > 0
         then butlast objJson @ '','' @ tl (write_json (EASearch_json eaSearch)) else objJson)"

definition request :: "'h wapi \<Rightarrow> RequestType \<Rightarrow> IBObject option \<Rightarrow> string \<Rightarrow> HttpRequest option" where
  "request w t obj ref = BuildRequest BuildBody (acceptsUrl w) (wapiConfig w) t obj ref"

definition makeRequest ::
    "'h wapi \<Rightarrow> RequestType \<Rightarrow> IBObject option \<Rightarrow> string \<Rightarrow> 'h \<Rightarrow> ((string \<times> string option) \<times> 'h) option" where
  "makeRequest w t obj ref h = SendRequest w (request w t obj ref) h"

subsection \<open>Operations\<close>

definition json_error :: "outcome \<Rightarrow> string option" where
  "json_error out = (if out = Fine then None else Some ''json'')"

definition wapi_Create :: "'h wapi \<Rightarrow> IBObject \<Rightarrow> 'h \<Rightarrow> ((string \<times> string option) \<times> 'h) option" where
  "wapi_Create w obj h = do {
     ((resp, err), h') \<leftarrow> makeRequest w CREATE (Some obj) '''' h;
     (if err \<noteq> None \<or> length resp = 0 then Some (('''', err), h')
      else (case Unmarshal dec_string '''' resp of (ref, out) \<Rightarrow> Some ((ref, json_error out), h')))
   }"

text \<open>An error does not end \<open>GetObject\<close> when there is an answer all the same: it is decoded, and the
  error is that of decoding.\<close>

definition wapi_Get ::
    "'h wapi \<Rightarrow> (string \<Rightarrow> 'r decoder option) \<Rightarrow> 'r \<Rightarrow> IBObject \<Rightarrow> string \<Rightarrow> 'h \<Rightarrow> (('r list \<times> string option) \<times> 'h) option" where
  "wapi_Get w field zero obj ref h = do {
     ((resp, err), h') \<leftarrow> makeRequest w GET (Some obj) ref h;
     (if length resp = 0 then Some (([], err), h')
      else (case Unmarshal_list field zero resp of
              (res, out) \<Rightarrow> if out = Crash then None else Some ((res, json_error out), h')))
   }"

definition wapi_Delete :: "'h wapi \<Rightarrow> string \<Rightarrow> 'h \<Rightarrow> ((string \<times> string option) \<times> 'h) option" where
  "wapi_Delete w ref h = do {
     ((resp, err), h') \<leftarrow> makeRequest w DELETE None ref h;
     (if err \<noteq> None then Some (('''', err), h')
      else (case Unmarshal dec_string '''' resp of (refRes, out) \<Rightarrow> Some ((refRes, json_error out), h')))
   }"

definition wapi_Update :: "'h wapi \<Rightarrow> IBObject \<Rightarrow> string \<Rightarrow> 'h \<Rightarrow> ((string \<times> string option) \<times> 'h) option" where
  "wapi_Update w obj ref h = do {
     ((resp, err), h') \<leftarrow> makeRequest w UPDATE (Some obj) ref h;
     (if err \<noteq> None then Some (('''', err), h')
      else (case Unmarshal dec_string '''' resp of (refRes, out) \<Rightarrow> Some ((refRes, json_error out), h')))
   }"

definition zero_User :: UserProfile where
  "zero_User = \<lparr>upRef = '''', upName = ''''\<rparr>"

definition validateConnector :: "'h wapi \<Rightarrow> 'h \<Rightarrow> (string option \<times> 'h) option" where
  "validateConnector w h = do {
     ((_, err), h') \<leftarrow> wapi_Get w field_User zero_User (ObjUser zero_User) '''' h;
     Some (err, h')
   }"

subsection \<open>The connector as the client sees it\<close>

text \<open>A panic ends the process: \<open>Crashed\<close>, after which nothing is sent any more; the answers that the functions need
  to have a value are then placeholders, and Http_Infoblox turns a result with \<open>Crashed\<close> into none.\<close>

datatype 'h wapi_process = Alive 'h | Crashed

definition run_alive :: "('h \<Rightarrow> ('a \<times> 'h) option) \<Rightarrow> 'a \<Rightarrow> 'h wapi_process \<Rightarrow> 'a \<times> 'h wapi_process" where
  "run_alive f other p =
     (case p of
        Crashed \<Rightarrow> (other, Crashed)
      | Alive h \<Rightarrow> (case f h of None \<Rightarrow> (other, Crashed) | Some (r, h') \<Rightarrow> (r, Alive h')))"

definition ended :: "string option" where "ended = Some ''panic''"

definition http_connector :: "'h wapi \<Rightarrow> ('h wapi_process) IBConnector" where
  "http_connector w =
     \<lparr>Validate = run_alive (validateConnector w) ended,
      CreateObject = (\<lambda>obj. run_alive (wapi_Create w obj) ('''', ended)),
      UpdateObject = (\<lambda>obj ref. run_alive (wapi_Update w obj ref) ('''', ended)),
      DeleteObject = (\<lambda>ref. run_alive (wapi_Delete w ref) ('''', ended)),
      GetRecordsA = (\<lambda>q. run_alive (wapi_Get w (field_A (attrOrder w)) zero_A q '''') ([], ended)),
      GetRecordsCNAME = (\<lambda>q. run_alive (wapi_Get w (field_CNAME (attrOrder w)) zero_CNAME q '''') ([], ended)),
      GetZones = (\<lambda>q. run_alive (wapi_Get w (field_Zone (attrOrder w)) zero_Zone q '''') ([], ended)),
      GetNetworks = (\<lambda>q. run_alive (wapi_Get w (field_Network (attrOrder w)) zero_Network q '''') ([], ended)),
      GetFixedAddresses = (\<lambda>q. run_alive (wapi_Get w (field_Fixed (attrOrder w)) zero_Fixed q '''') ([], ended)),
      GetEADefinitions = (\<lambda>q. run_alive (wapi_Get w field_EADef zeroEADef q '''') ([], ended))\<rparr>"

end
