(* ===== verification/Connector_Grid.thy ===== *)
theory Connector_Grid
  imports Connector
begin

section \<open>A connector over a server that answers for a grid\<close>

text \<open>
  The Infoblox client and what is proved of it are over an \<open>IBConnector\<close> whose answers are arbitrary. Here
  the connector of the library is put in its place: over a server that answers the
  requests as the grid would (the reference of the object that was created, changed or deleted; the list of the
  objects that were asked for; an error for an error), it is that grid. \<open>serves\<close> says what such a server
  does, on the very requests that the request builder makes.
\<close>

definition error_reply :: "bool \<Rightarrow> string + HttpResponse \<Rightarrow> string \<Rightarrow> bool" where
  "error_reply create answer e \<longleftrightarrow>
     (case answer of
        Inl e' \<Rightarrow> e = e'
      | Inr resp \<Rightarrow> respCode resp \<noteq> 200 \<and> \<not> (respCode resp = 201 \<and> create) \<and> e = getHttpResponseError resp)"

definition text_reply :: "bool \<Rightarrow> string + HttpResponse \<Rightarrow> string \<Rightarrow> bool" where
  "text_reply create answer body \<longleftrightarrow>
     (case answer of
        Inl e \<Rightarrow> False
      | Inr resp \<Rightarrow> (respCode resp = 200 \<or> (respCode resp = 201 \<and> create)) \<and> respBody resp = body \<and> respReadErr resp = None)"

definition ref_reply :: "bool \<Rightarrow> string + HttpResponse \<Rightarrow> string \<times> string option \<Rightarrow> bool" where
  "ref_reply create answer res \<longleftrightarrow>
     (case res of
        (ref, None) \<Rightarrow> utf8_ok ref \<and> text_reply create answer (write_json (JStr ref))
      | (ref, Some e) \<Rightarrow> ref = '''' \<and> error_reply create answer e)"

definition list_reply :: "('r \<Rightarrow> json) \<Rightarrow> ('r \<Rightarrow> bool) \<Rightarrow> string + HttpResponse \<Rightarrow> 'r list \<times> string option \<Rightarrow> bool" where
  "list_reply enc ok answer res \<longleftrightarrow>
     (case res of
        (xs, None) \<Rightarrow> list_all ok xs \<and> text_reply False answer (write_json (JArr (map enc xs)))
      | (xs, Some e) \<Rightarrow> xs = [] \<and> error_reply False answer e)"

definition valid_reply :: "string + HttpResponse \<Rightarrow> string option \<Rightarrow> bool" where
  "valid_reply answer res \<longleftrightarrow>
     (case res of
        None \<Rightarrow> \<exists>us. list_reply json_User (\<lambda>u. object_ok (ObjUser u)) answer (us, None)
      | Some e \<Rightarrow> error_reply False answer e)"

text \<open>The server answers a request as the operation of the grid does.\<close>

definition answers ::
    "'h wapi \<Rightarrow> RequestType \<Rightarrow> IBObject option \<Rightarrow> string \<Rightarrow> ('h \<Rightarrow> 'a \<times> 'h) \<Rightarrow> (string + HttpResponse \<Rightarrow> 'a \<Rightarrow> bool) \<Rightarrow> bool" where
  "answers w t obj ref op good \<longleftrightarrow>
     (\<exists>rq. request w t obj ref = Some rq \<and>
        (\<forall>h. snd (doRequest w rq h) = snd (op h) \<and> good (fst (doRequest w rq h)) (fst (op h))))"

definition serves :: "'h wapi \<Rightarrow> 'h IBConnector \<Rightarrow> bool" where
  "serves w g \<longleftrightarrow>
     fair_range (\<lambda>_ :: unit. attrOrder w) \<and>
     answers w GET (Some (ObjUser zero_User)) '''' (Validate g) valid_reply \<and>
     (\<forall>obj. answers w CREATE (Some obj) '''' (CreateObject g obj) (ref_reply True)) \<and>
     (\<forall>obj ref. answers w UPDATE (Some obj) ref (UpdateObject g obj ref) (ref_reply False)) \<and>
     (\<forall>ref. answers w DELETE None ref (DeleteObject g ref) (ref_reply False)) \<and>
     (\<forall>q. answers w GET (Some (ObjA q)) '''' (GetRecordsA g (ObjA q)) (list_reply json_A A_ok)) \<and>
     (\<forall>q. answers w GET (Some (ObjCNAME q)) '''' (GetRecordsCNAME g (ObjCNAME q)) (list_reply json_CNAME CNAME_ok)) \<and>
     (\<forall>q. answers w GET (Some (ObjZone q)) '''' (GetZones g (ObjZone q)) (list_reply json_Zone Zone_ok)) \<and>
     (\<forall>q. answers w GET (Some (ObjNetwork q)) '''' (GetNetworks g (ObjNetwork q)) (list_reply json_Network Network_ok)) \<and>
     (\<forall>q. answers w GET (Some (ObjFixed q)) '''' (GetFixedAddresses g (ObjFixed q)) (list_reply json_Fixed Fixed_ok)) \<and>
     (\<forall>q. answers w GET (Some (ObjEADef q)) '''' (GetEADefinitions g (ObjEADef q)) (list_reply json_EADef EADef_ok))"

subsection \<open>The connector over such a server\<close>

lemma answers_request:
  assumes "answers w t obj ref op good"
  obtains rq where "request w t obj ref = Some rq" "reqMethod rq = toMethod t"
    "\<And>h. snd (doRequest w rq h) = snd (op h)" "\<And>h. good (fst (doRequest w rq h)) (fst (op h))"
proof -
  from assms obtain rq where rq: "request w t obj ref = Some rq"
      "\<forall>h. snd (doRequest w rq h) = snd (op h) \<and> good (fst (doRequest w rq h)) (fst (op h))"
    unfolding answers_def by blast
  have "reqMethod rq = toString t" using rq(1) by (auto simp: request_def BuildRequest_def Let_def split: if_splits)
  also have "\<dots> = toMethod t" by (cases t) simp_all
  finally show thesis using that rq by blast
qed

lemma make_text:
  assumes "request w t obj ref = Some rq" and "reqMethod rq = toMethod t"
    and "text_reply (t = CREATE) (fst (doRequest w rq h)) body" and "snd (doRequest w rq h) = h'"
  shows "makeRequest w t obj ref h = Some ((body, None), h')"
  using assms by (cases "doRequest w rq h"; cases t)
    (auto simp: makeRequest_def SendRequest_def text_reply_def split: sum.splits)

lemma make_error:
  assumes "request w t obj ref = Some rq" and "reqMethod rq = toMethod t"
    and "error_reply (t = CREATE) (fst (doRequest w rq h)) e" and "snd (doRequest w rq h) = h'"
  shows "makeRequest w t obj ref h = Some (('''', Some e), h')"
  using assms by (cases "doRequest w rq h"; cases t)
    (auto simp: makeRequest_def SendRequest_def error_reply_def split: sum.splits)

lemma Unmarshal_ref: "utf8_ok ref \<Longrightarrow> Unmarshal dec_string '''' (write_json (JStr ref)) = (ref, Fine)"
  by (simp add: Unmarshal_def parse_write del: write_json.simps)

lemma write_json_nonempty: "json_ok j \<Longrightarrow> write_json j \<noteq> ''''"
  using write_json_start by fastforce

text \<open>What \<open>makeRequest\<close> returns when the server answers for an operation.\<close>

lemma ref_answer:
  assumes "answers w t obj ref op (ref_reply (t = CREATE))"
  obtains (granted) r h' where "op h = ((r, None), h')" "utf8_ok r"
      "makeRequest w t obj ref h = Some ((write_json (JStr r), None), h')"
  | (failed) e h' where "op h = (('''', Some e), h')" "makeRequest w t obj ref h = Some (('''', Some e), h')"
  using assms
proof (rule answers_request)
  fix rq
  assume rq: "request w t obj ref = Some rq" "reqMethod rq = toMethod t"
    and st: "\<And>h. snd (doRequest w rq h) = snd (op h)"
    and good: "\<And>h. ref_reply (t = CREATE) (fst (doRequest w rq h)) (fst (op h))"
  obtain r err h' where op: "op h = ((r, err), h')" by (metis surj_pair)
  show thesis
  proof (cases err)
    case None
    with good [of h] op show thesis
      by (intro granted [of r h'] make_text [OF rq]) (use st [of h] in \<open>simp_all add: ref_reply_def\<close>)
  next
    case (Some e)
    with good [of h] op show thesis
      by (intro failed [of e h'] make_error [OF rq]) (use st [of h] in \<open>simp_all add: ref_reply_def\<close>)
  qed
qed

lemma list_answer:
  assumes "answers w GET obj ref op (list_reply enc ok)"
  obtains (granted) xs h' where "op h = ((xs, None), h')" "list_all ok xs"
      "makeRequest w GET obj ref h = Some ((write_json (JArr (map enc xs)), None), h')"
  | (failed) e h' where "op h = (([], Some e), h')" "makeRequest w GET obj ref h = Some (('''', Some e), h')"
  using assms
proof (rule answers_request)
  fix rq
  assume rq: "request w GET obj ref = Some rq" "reqMethod rq = toMethod GET"
    and st: "\<And>h. snd (doRequest w rq h) = snd (op h)"
    and good: "\<And>h. list_reply enc ok (fst (doRequest w rq h)) (fst (op h))"
  obtain r err h' where op: "op h = ((r, err), h')" by (metis surj_pair)
  show thesis
  proof (cases err)
    case None
    with good [of h] op show thesis
      by (intro granted [of r h'] make_text [OF rq]) (use st [of h] in \<open>simp_all add: list_reply_def\<close>)
  next
    case (Some e)
    with good [of h] op show thesis
      by (intro failed [of e h'] make_error [OF rq]) (use st [of h] in \<open>simp_all add: list_reply_def\<close>)
  qed
qed

lemma create_answer: "answers w CREATE (Some obj) '''' op (ref_reply True) \<Longrightarrow> wapi_Create w obj h = Some (op h)"
  by (rule ref_answer [of w CREATE "Some obj" "''''" op h])
     (simp_all add: wapi_Create_def Unmarshal_ref json_error_def write_json_nonempty del: write_json.simps)

lemma update_answer: "answers w UPDATE (Some obj) ref op (ref_reply False) \<Longrightarrow> wapi_Update w obj ref h = Some (op h)"
  by (rule ref_answer [of w UPDATE "Some obj" ref op h])
     (simp_all add: wapi_Update_def Unmarshal_ref json_error_def del: write_json.simps)

lemma delete_answer: "answers w DELETE None ref op (ref_reply False) \<Longrightarrow> wapi_Delete w ref h = Some (op h)"
  by (rule ref_answer [of w DELETE None ref op h])
     (simp_all add: wapi_Delete_def Unmarshal_ref json_error_def del: write_json.simps)

lemma get_answer:
  assumes "answers w GET (Some q) '''' op (list_reply enc ok)"
    and "\<And>xs. list_all ok xs \<Longrightarrow> Unmarshal_list field zero (write_json (JArr (map enc xs))) = (xs, Fine)"
  shows "wapi_Get w field zero q '''' h = Some (op h)"
  by (rule list_answer [OF assms(1), of h])
     (simp_all add: wapi_Get_def assms(2) json_error_def del: write_json.simps, simp)

lemma validate_answer:
  assumes "answers w GET (Some (ObjUser zero_User)) '''' op valid_reply"
  shows "validateConnector w h = Some (op h)"
  using assms
proof (rule answers_request)
  fix rq
  assume rq: "request w GET (Some (ObjUser zero_User)) '''' = Some rq" "reqMethod rq = toMethod GET"
    and st: "\<And>h. snd (doRequest w rq h) = snd (op h)"
    and good: "\<And>h. valid_reply (fst (doRequest w rq h)) (fst (op h))"
  obtain err h' where op: "op h = (err, h')" by (metis surj_pair)
  show ?thesis
  proof (cases err)
    case None
    with good [of h] op obtain us where us: "list_all (\<lambda>u. object_ok (ObjUser u)) us"
        and t: "text_reply False (fst (doRequest w rq h)) (write_json (JArr (map json_User us)))"
      by (auto simp: valid_reply_def list_reply_def simp del: object_ok.simps write_json.simps)
    have "makeRequest w GET (Some (ObjUser zero_User)) '''' h = Some ((write_json (JArr (map json_User us)), None), h')"
      by (rule make_text [OF rq]) (use t st [of h] op in simp_all)
    with Unmarshal_User [OF us] None op show ?thesis
      by (simp add: validateConnector_def wapi_Get_def json_error_def zero_User_def del: write_json.simps)
  next
    case (Some e)
    with good [of h] op have t: "error_reply False (fst (doRequest w rq h)) e" by (simp add: valid_reply_def)
    have "makeRequest w GET (Some (ObjUser zero_User)) '''' h = Some (('''', Some e), h')"
      by (rule make_error [OF rq]) (use t st [of h] op in simp_all)
    with Some op show ?thesis by (simp add: validateConnector_def wapi_Get_def)
  qed
qed

definition keep_alive :: "'a \<times> 'h \<Rightarrow> 'a \<times> 'h wapi_process" where
  "keep_alive r = (fst r, Alive (snd r))"

lemma run_alive_some: "f h = Some r \<Longrightarrow> run_alive f other (Alive h) = keep_alive r"
  by (cases r) (simp add: run_alive_def keep_alive_def)

text \<open>On a server that answers for a grid, the connector does what the grid does, and never panics.\<close>

lemma connector_serves:
  assumes "serves w g"
  shows "Validate (http_connector w) (Alive h) = keep_alive (Validate g h)"
    "CreateObject (http_connector w) obj (Alive h) = keep_alive (CreateObject g obj h)"
    "UpdateObject (http_connector w) obj ref (Alive h) = keep_alive (UpdateObject g obj ref h)"
    "DeleteObject (http_connector w) ref (Alive h) = keep_alive (DeleteObject g ref h)"
    "GetRecordsA (http_connector w) (ObjA a) (Alive h) = keep_alive (GetRecordsA g (ObjA a) h)"
    "GetRecordsCNAME (http_connector w) (ObjCNAME c) (Alive h) = keep_alive (GetRecordsCNAME g (ObjCNAME c) h)"
    "GetZones (http_connector w) (ObjZone z) (Alive h) = keep_alive (GetZones g (ObjZone z) h)"
    "GetNetworks (http_connector w) (ObjNetwork n) (Alive h) = keep_alive (GetNetworks g (ObjNetwork n) h)"
    "GetFixedAddresses (http_connector w) (ObjFixed f) (Alive h) = keep_alive (GetFixedAddresses g (ObjFixed f) h)"
    "GetEADefinitions (http_connector w) (ObjEADef d) (Alive h) = keep_alive (GetEADefinitions g (ObjEADef d) h)"
proof -
  note s0 = assms [unfolded serves_def]
  note fair = conjunct1 [OF s0] and s1 = conjunct2 [OF s0]
  note val = conjunct1 [OF s1] and s2 = conjunct2 [OF s1]
  note cre = conjunct1 [OF s2] and s3 = conjunct2 [OF s2]
  note upd = conjunct1 [OF s3] and s4 = conjunct2 [OF s3]
  note del = conjunct1 [OF s4] and s5 = conjunct2 [OF s4]
  note ra = conjunct1 [OF s5] and s6 = conjunct2 [OF s5]
  note rc = conjunct1 [OF s6] and s7 = conjunct2 [OF s6]
  note rz = conjunct1 [OF s7] and s8 = conjunct2 [OF s7]
  note rn = conjunct1 [OF s8] and s9 = conjunct2 [OF s8]
  note rf = conjunct1 [OF s9] and s10 = conjunct2 [OF s9]
  show "Validate (http_connector w) (Alive h) = keep_alive (Validate g h)"
    unfolding http_connector_def IBConnector.simps by (rule run_alive_some, rule validate_answer [OF val])
  show "CreateObject (http_connector w) obj (Alive h) = keep_alive (CreateObject g obj h)"
    unfolding http_connector_def IBConnector.simps by (rule run_alive_some, rule create_answer [OF spec [OF cre]])
  show "UpdateObject (http_connector w) obj ref (Alive h) = keep_alive (UpdateObject g obj ref h)"
    unfolding http_connector_def IBConnector.simps by (rule run_alive_some, rule update_answer [OF spec [OF spec [OF upd]]])
  show "DeleteObject (http_connector w) ref (Alive h) = keep_alive (DeleteObject g ref h)"
    unfolding http_connector_def IBConnector.simps by (rule run_alive_some, rule delete_answer [OF spec [OF del]])
  show "GetRecordsA (http_connector w) (ObjA a) (Alive h) = keep_alive (GetRecordsA g (ObjA a) h)"
    unfolding http_connector_def IBConnector.simps
    by (rule run_alive_some, rule get_answer [OF spec [OF ra] Unmarshal_A [OF _ fair]])
  show "GetRecordsCNAME (http_connector w) (ObjCNAME c) (Alive h) = keep_alive (GetRecordsCNAME g (ObjCNAME c) h)"
    unfolding http_connector_def IBConnector.simps
    by (rule run_alive_some, rule get_answer [OF spec [OF rc] Unmarshal_CNAME [OF _ fair]])
  show "GetZones (http_connector w) (ObjZone z) (Alive h) = keep_alive (GetZones g (ObjZone z) h)"
    unfolding http_connector_def IBConnector.simps
    by (rule run_alive_some, rule get_answer [OF spec [OF rz] Unmarshal_Zone [OF _ fair]])
  show "GetNetworks (http_connector w) (ObjNetwork n) (Alive h) = keep_alive (GetNetworks g (ObjNetwork n) h)"
    unfolding http_connector_def IBConnector.simps
    by (rule run_alive_some, rule get_answer [OF spec [OF rn] Unmarshal_Network [OF _ fair]])
  show "GetFixedAddresses (http_connector w) (ObjFixed f) (Alive h) = keep_alive (GetFixedAddresses g (ObjFixed f) h)"
    unfolding http_connector_def IBConnector.simps
    by (rule run_alive_some, rule get_answer [OF spec [OF rf] Unmarshal_Fixed [OF _ fair]])
  show "GetEADefinitions (http_connector w) (ObjEADef d) (Alive h) = keep_alive (GetEADefinitions g (ObjEADef d) h)"
    unfolding http_connector_def IBConnector.simps
    by (rule run_alive_some, rule get_answer [OF spec [OF s10] Unmarshal_EADef])
qed

end
