(* ===== verification/Http_Infoblox.thy ===== *)
theory Http_Infoblox
  imports Connector_Grid Infoblox_Properties Controller_Pass World_Map
begin

section \<open>The Infoblox client over HTTP\<close>

text \<open>
  The client of infoblox.go with the connector of the library in the place of the grid. When the server
  serves the grid, each method does over HTTP what it does on the grid, and so does a pass of the
  controller: the two clients are related as in World_Map, by the map that puts the grid into
  a process that is alive.
\<close>

definition over_http :: "'h wapi \<Rightarrow> 'h IBloxClient \<Rightarrow> 'h wapi_process IBloxClient" where
  "over_http w cl = \<lparr>conn = http_connector w, objMgr = objMgr cl, ea = ea cl\<rparr>"

definition alive :: "'h ibox \<Rightarrow> 'h wapi_process ibox" where
  "alive s = \<lparr>recordRef = recordRef s, grid = Alive (grid s)\<rparr>"

lemma over_http_fields [simp]:
  "conn (over_http w cl) = http_connector w" "objMgr (over_http w cl) = objMgr cl" "ea (over_http w cl) = ea cl"
  by (simp_all add: over_http_def)

lemma alive_fields [simp]: "recordRef (alive s) = recordRef s" "grid (alive s) = Alive (grid s)"
  by (simp_all add: alive_def)

lemma alive_updates [simp]:
  "(alive s)\<lparr>grid := Alive v\<rparr> = alive (s\<lparr>grid := v\<rparr>)"
  "(alive s)\<lparr>recordRef := r\<rparr> = alive (s\<lparr>recordRef := r\<rparr>)"
  "(alive s)\<lparr>recordRef := r, grid := Alive v\<rparr> = alive (s\<lparr>recordRef := r, grid := v\<rparr>)"
  "\<lparr>recordRef = r, grid = Alive v\<rparr> = alive \<lparr>recordRef = r, grid = v\<rparr>"
  by (simp_all add: alive_def)

lemma keep_alive_pair: "keep_alive (r, h) = (r, Alive h)"
  by (simp add: keep_alive_def)

lemma keep_alive_case: "(case keep_alive r of (x, v) \<Rightarrow> g x v) = (case r of (x, v) \<Rightarrow> g x (Alive v))"
  by (simp add: keep_alive_def split_beta)

lemma keep_alive_snd: "snd (keep_alive r) = Alive (snd r)"
  by (simp add: keep_alive_def)

lemmas alive_simps = keep_alive_pair keep_alive_case keep_alive_snd

subsection \<open>The object manager\<close>

lemma manager_served:
  assumes "serves w g"
  shows "AllocateIP (http_connector w) om nv cidr ip mac vm (Alive h) = keep_alive (AllocateIP g om nv cidr ip mac vm h)"
    "GetFixedAddress (http_connector w) nv cidr ip mac (Alive h) = keep_alive (GetFixedAddress g nv cidr ip mac h)"
    "ReleaseIP (http_connector w) nv cidr ip mac (Alive h) = keep_alive (ReleaseIP g nv cidr ip mac h)"
    "GetEADefinition (http_connector w) n (Alive h) = keep_alive (GetEADefinition g n h)"
    "CreateEADefinition (http_connector w) d (Alive h) = keep_alive (CreateEADefinition g d h)"
proof -
  note cs = connector_serves [OF assms]
  show fixed: "GetFixedAddress (http_connector w) nv cidr ip mac (Alive h) = keep_alive (GetFixedAddress g nv cidr ip mac h)"
    by (simp add: GetFixedAddress_def Let_def cs alive_simps split: prod.split)
  show "AllocateIP (http_connector w) om nv cidr ip mac vm (Alive h) = keep_alive (AllocateIP g om nv cidr ip mac vm h)"
    by (simp add: AllocateIP_def Let_def cs alive_simps split: prod.split)
  show "ReleaseIP (http_connector w) nv cidr ip mac (Alive h) = keep_alive (ReleaseIP g nv cidr ip mac h)"
    by (simp add: ReleaseIP_def fixed cs alive_simps split: prod.split option.split)
  show "GetEADefinition (http_connector w) n (Alive h) = keep_alive (GetEADefinition g n h)"
    by (simp add: GetEADefinition_def Let_def cs alive_simps split: prod.split)
  show "CreateEADefinition (http_connector w) d (Alive h) = keep_alive (CreateEADefinition g d h)"
    by (simp add: CreateEADefinition_def Let_def cs alive_simps split: prod.split)
qed

subsection \<open>The methods of the client\<close>

lemma queries_served [simp]:
  "queryA (over_http w cl) = queryA cl" "queryCNAME (over_http w cl) = queryCNAME cl"
  by (simp_all add: queryA_def queryCNAME_def fun_eq_iff)

lemma getters_served:
  assumes "serves w (conn cl)"
  shows "getARecord (over_http w cl) a (alive s) = map_prod id alive (getARecord cl a s)"
    "getCNAMERecord (over_http w cl) c (alive s) = map_prod id alive (getCNAMERecord cl c s)"
    "getNetworkCIDR (over_http w cl) nv ip (alive s) = map_option (map_prod id alive) (getNetworkCIDR cl nv ip s)"
proof -
  note cs = connector_serves [OF assms]
  show "getARecord (over_http w cl) a (alive s) = map_prod id alive (getARecord cl a s)"
    by (simp add: getARecord_def Let_def cs alive_simps split: prod.split)
  show "getCNAMERecord (over_http w cl) c (alive s) = map_prod id alive (getCNAMERecord cl c s)"
    by (simp add: getCNAMERecord_def Let_def cs alive_simps split: prod.split)
  show "getNetworkCIDR (over_http w cl) nv ip (alive s) = map_option (map_prod id alive) (getNetworkCIDR cl nv ip s)"
    by (simp add: getNetworkCIDR_def Let_def cs alive_simps split: prod.split Option.bind_split)
qed

lemma addresses_served:
  assumes "serves w (conn cl)"
  shows "GetNextAddr (over_http w cl) nv c (alive s) = map_prod id alive (GetNextAddr cl nv c s)"
    "ReleaseAddr (over_http w cl) nv c ip (alive s) = alive (ReleaseAddr cl nv c ip s)"
  by (simp_all add: GetNextAddr_def ReleaseAddr_def Let_def manager_served [OF assms] alive_simps split: prod.split)

lemma creations_served:
  assumes "serves w (conn cl)"
  shows "CreateARecord (over_http w cl) h ip nv (alive s) = map_prod id alive (CreateARecord cl h ip nv s)"
    "CreateCNAMERecord (over_http w cl) h a nv (alive s) = alive (CreateCNAMERecord cl h a nv s)"
  by (simp_all add: CreateARecord_def CreateCNAMERecord_def Let_def getters_served [OF assms]
      connector_serves [OF assms] alive_simps split: prod.split)

lemma delete_A_served:
  assumes "serves w (conn cl)"
  shows "delete_A (over_http w cl) n nv c res (alive s) = map_option alive (delete_A cl n nv c res s)"
  by (induction res arbitrary: s)
     (auto simp: getters_served [OF assms] connector_serves [OF assms] alive_simps split: Option.bind_splits)

lemma delete_CNAME_served:
  assumes "serves w (conn cl)"
  shows "delete_CNAME (over_http w cl) n ip nv c res (alive s) = map_option alive (delete_CNAME cl n ip nv c res s)"
  by (induction res arbitrary: s)
     (auto simp: getters_served [OF assms] connector_serves [OF assms] alive_simps split: Option.bind_splits)

lemma deletions_served:
  assumes "serves w (conn cl)"
  shows "DeleteARecord (over_http w cl) h ip nv c (alive s) = map_option alive (DeleteARecord cl h ip nv c s)"
    "DeleteCNAMERecord (over_http w cl) h ip nv c (alive s) = map_option alive (DeleteCNAMERecord cl h ip nv c s)"
  by (auto simp: DeleteARecord_def DeleteCNAMERecord_def Let_def getters_served [OF assms]
      delete_A_served [OF assms] delete_CNAME_served [OF assms] addresses_served [OF assms]
      split: prod.split Option.bind_splits)

lemma repoint_served:
  assumes "serves w (conn cl)"
  shows "repoint (over_http w cl) a nv hs (alive s) = map_prod id alive (repoint cl a nv hs s)"
  by (induction hs arbitrary: s)
     (auto simp: connector_serves [OF assms] alive_simps split: prod.split option.split)

lemma promotion_served:
  assumes "serves w (conn cl)"
  shows "CNAMEToA (over_http w cl) hs d ip nv c (alive s) = map_option (map_prod id alive) (CNAMEToA cl hs d ip nv c s)"
  by (auto simp: CNAMEToA_def Let_def deletions_served [OF assms] repoint_served [OF assms]
      connector_serves [OF assms] alive_simps split: list.split option.split prod.split Option.bind_splits)

lemma added_served:
  assumes "serves w (conn cl)"
  shows "add_A_records (over_http w cl) res st (alive s) = map_option (map_prod id alive) (add_A_records cl res st s)"
    "add_CNAME_records (over_http w cl) resA resC st (alive s) =
       map_option (map_prod id alive) (add_CNAME_records cl resA resC st s)"
proof -
  show "add_A_records (over_http w cl) res st (alive s) = map_option (map_prod id alive) (add_A_records cl res st s)"
    by (induction res arbitrary: st s) (auto simp: getters_served [OF assms] split: Option.bind_splits)
  show "add_CNAME_records (over_http w cl) resA resC st (alive s) =
       map_option (map_prod id alive) (add_CNAME_records cl resA resC st s)"
    by (induction resC arbitrary: st s) (auto simp: getters_served [OF assms] Let_def split: Option.bind_splits)
qed

lemma zones_served:
  assumes "serves w (conn cl)"
  shows "read_zones (over_http w cl) zs st (alive s) = map_option (map_prod id alive) (read_zones cl zs st s)"
  by (induction zs arbitrary: st s)
     (auto simp: getters_served [OF assms] added_served [OF assms] Let_def split: prod.split Option.bind_splits)

lemma records_served:
  assumes "serves w (conn cl)"
  shows "GetRecords (over_http w cl) (alive s) = map_option (map_prod id alive) (GetRecords cl s)"
  by (auto simp: GetRecords_def Let_def connector_serves [OF assms] zones_served [OF assms] alive_simps split: prod.split)

text \<open>
  Whether the process outlives what it does: a connector that panics leaves \<open>Crashed\<close> behind, which no
  later call changes, so that the state after a call, a pass or a start tells. Then there is no result, as
  after any other panic.
\<close>

definition until_crash :: "('a \<times> 'h wapi_process ibox) option \<Rightarrow> ('a \<times> 'h wapi_process ibox) option" where
  "until_crash r = do {
     (x, s) \<leftarrow> r;
     if grid s = Crashed then None else Some (x, s)
   }"

lemma until_crash_Some [simp]: "until_crash (Some (x, s)) = (if grid s = Crashed then None else Some (x, s))"
  by (simp add: until_crash_def)

lemma crashed_stays:
  "snd (Validate (http_connector w) Crashed) = Crashed" "snd (CreateObject (http_connector w) obj Crashed) = Crashed"
  "snd (UpdateObject (http_connector w) obj ref Crashed) = Crashed" "snd (DeleteObject (http_connector w) ref Crashed) = Crashed"
  "snd (GetRecordsA (http_connector w) obj Crashed) = Crashed" "snd (GetRecordsCNAME (http_connector w) obj Crashed) = Crashed"
  "snd (GetZones (http_connector w) obj Crashed) = Crashed" "snd (GetNetworks (http_connector w) obj Crashed) = Crashed"
  "snd (GetFixedAddresses (http_connector w) obj Crashed) = Crashed"
  "snd (GetEADefinitions (http_connector w) obj Crashed) = Crashed"
  by (simp_all add: http_connector_def run_alive_def)

lemma infoblox_map:
  assumes "serves w (conn cl)"
  shows "world_map (infoblox_ops cl) (infoblox_ops (over_http w cl)) alive"
  by unfold_locales
     (simp_all add: infoblox_ops_def creations_served [OF assms] deletions_served [OF assms]
       promotion_served [OF assms] addresses_served [OF assms] records_served [OF assms])

subsection \<open>A server for a grid that counts\<close>

text \<open>The grid answers every query with the same lists, and counts the objects that are created and deleted.\<close>

definition counting_grid :: "nat IBConnector" where
  "counting_grid =
     \<lparr>Validate = (\<lambda>v. (None, v)),
      CreateObject = (\<lambda>obj v. ((''fixedaddress/Zg:10.0.0.7/default'', None), Suc v)),
      UpdateObject = (\<lambda>obj ref v. ((''record:a/r9'', None), v)),
      DeleteObject = (\<lambda>ref v. ((''record:a/r9'', None), Suc v)),
      GetRecordsA = (\<lambda>q v. (([demo_A], None), v)),
      GetRecordsCNAME = (\<lambda>q v. (([demo_CNAME], None), v)),
      GetZones = (\<lambda>q v. (([demo_zone], None), v)),
      GetNetworks = (\<lambda>q v. (([demo_net], None), v)),
      GetFixedAddresses = (\<lambda>q v. (([], None), v)),
      GetEADefinitions = (\<lambda>q v. (([], None), v))\<rparr>"

definition demo_config :: HostConfig where
  "demo_config = \<lparr>hcHost = ''grid'', hcVersion = ''2.2'', hcPort = ''443'', hcUsername = ''u'', hcPassword = ''p''\<rparr>"

definition get_url :: "IBObject \<Rightarrow> string" where
  "get_url obj = BuildUrl demo_config GET (ObjectType obj) '''' (ReturnFields obj)"

definition listing :: "string \<Rightarrow> string" where
  "listing url =
     write_json (JArr
       (if url = get_url (ObjA zero_A) then [json_A demo_A]
        else if url = get_url (ObjCNAME zero_CNAME) then [json_CNAME demo_CNAME]
        else if url = get_url (ObjZone zero_Zone) then [json_Zone demo_zone]
        else if url = get_url (ObjNetwork zero_Network) then [json_Network demo_net]
        else []))"

definition counting_server :: "nat wapi" where
  "counting_server =
     \<lparr>doRequest = (\<lambda>rq v.
        (Inr \<lparr>respCode = (if reqMethod rq = ''POST'' then 201 else 200), respStatus = '''',
              respBody = (if reqMethod rq = ''GET'' then listing (reqUrl rq)
                          else if reqMethod rq = ''POST'' then write_json (JStr ''fixedaddress/Zg:10.0.0.7/default'')
                          else write_json (JStr ''record:a/r9'')),
              respReadErr = None\<rparr>,
         if reqMethod rq = ''POST'' \<or> reqMethod rq = ''DELETE'' then Suc v else v)),
      acceptsUrl = (\<lambda>_. True), attrOrder = ascending (), wapiConfig = demo_config\<rparr>"

lemma listings_of_urls:
  "listing (get_url (ObjA q)) = write_json (JArr (map json_A [demo_A]))"
  "listing (get_url (ObjCNAME c)) = write_json (JArr (map json_CNAME [demo_CNAME]))"
  "listing (get_url (ObjZone z)) = write_json (JArr (map json_Zone [demo_zone]))"
  "listing (get_url (ObjNetwork n)) = write_json (JArr (map json_Network [demo_net]))"
  "listing (get_url (ObjFixed f)) = write_json (JArr (map json_Fixed []))"
  "listing (get_url (ObjEADef d)) = write_json (JArr (map json_EADef []))"
  "listing (get_url (ObjUser u)) = write_json (JArr (map json_User []))"
  unfolding get_url_def ObjectType.simps ReturnFields.simps by code_simp+

lemma demo_objects_ok:
  "A_ok demo_A" "CNAME_ok demo_CNAME" "Zone_ok demo_zone" "Network_ok demo_net"
  "utf8_ok ''fixedaddress/Zg:10.0.0.7/default''" "utf8_ok ''record:a/r9''"
  by code_simp+

lemma counting_request:
  "request counting_server t obj ref =
     Some \<lparr>reqMethod = toString t,
       reqUrl = BuildUrl demo_config t (case obj of Some x \<Rightarrow> ObjectType x | None \<Rightarrow> '''') ref
         (case obj of Some x \<Rightarrow> ReturnFields x | None \<Rightarrow> []),
       reqBody = (case obj of Some x \<Rightarrow> BuildBody t x | None \<Rightarrow> ''''), reqContentType = ''application/json'',
       reqBasicAuth = (''u'', ''p'')\<rparr>"
  by (simp add: request_def BuildRequest_def counting_server_def Let_def demo_config_def)

lemma counting_lists:
  assumes "listing (get_url obj) = write_json (JArr (map enc xs))" and "list_all ok xs"
    and "\<And>v. op v = ((xs, None), v)"
  shows "answers counting_server GET (Some obj) '''' op (list_reply enc ok)"
  using assms(1,2)
  by (simp add: answers_def counting_request assms(3) list_reply_def text_reply_def)
     (simp add: counting_server_def get_url_def)

lemma counting_serves: "serves counting_server counting_grid"
  unfolding serves_def
proof (intro conjI allI)
  show "fair_range (\<lambda>_ :: unit. attrOrder counting_server)"
    using fair_ascending by (simp add: counting_server_def fair_range_def)
  show "answers counting_server GET (Some (ObjUser zero_User)) '''' (Validate counting_grid) valid_reply"
    using listings_of_urls(7) [of zero_User]
    by (simp add: answers_def counting_request counting_grid_def valid_reply_def list_reply_def text_reply_def)
       (simp add: counting_server_def get_url_def exI [of _ "[]"])
next
  fix q show "answers counting_server GET (Some (ObjA q)) '''' (GetRecordsA counting_grid (ObjA q)) (list_reply json_A A_ok)"
    by (rule counting_lists [OF listings_of_urls(1)]) (simp_all add: counting_grid_def demo_objects_ok)
next
  fix q show "answers counting_server GET (Some (ObjCNAME q)) '''' (GetRecordsCNAME counting_grid (ObjCNAME q))
      (list_reply json_CNAME CNAME_ok)"
    by (rule counting_lists [OF listings_of_urls(2)]) (simp_all add: counting_grid_def demo_objects_ok)
next
  fix q show "answers counting_server GET (Some (ObjZone q)) '''' (GetZones counting_grid (ObjZone q)) (list_reply json_Zone Zone_ok)"
    by (rule counting_lists [OF listings_of_urls(3)]) (simp_all add: counting_grid_def demo_objects_ok)
next
  fix q show "answers counting_server GET (Some (ObjNetwork q)) '''' (GetNetworks counting_grid (ObjNetwork q))
      (list_reply json_Network Network_ok)"
    by (rule counting_lists [OF listings_of_urls(4)]) (simp_all add: counting_grid_def demo_objects_ok)
next
  fix q show "answers counting_server GET (Some (ObjFixed q)) '''' (GetFixedAddresses counting_grid (ObjFixed q))
      (list_reply json_Fixed Fixed_ok)"
    by (rule counting_lists [OF listings_of_urls(5)]) (simp_all add: counting_grid_def)
next
  fix q show "answers counting_server GET (Some (ObjEADef q)) '''' (GetEADefinitions counting_grid (ObjEADef q))
      (list_reply json_EADef EADef_ok)"
    by (rule counting_lists [OF listings_of_urls(6)]) (simp_all add: counting_grid_def)
qed (simp_all add: answers_def counting_request ref_reply_def text_reply_def counting_grid_def
      demo_objects_ok, simp_all add: counting_server_def)

subsection \<open>The client and a pass over HTTP\<close>

lemma created_conn: "NewInfobloxClient c cmp v = (Inr (cl, s), v') \<Longrightarrow> conn cl = c"
  by (auto simp: NewInfobloxClient_def Let_def split: prod.splits option.splits)

lemma created_served:
  assumes "serves w g"
  shows "NewInfobloxClient (http_connector w) cmp (Alive v) =
    (case NewInfobloxClient g cmp v of
       (Inl e, v') \<Rightarrow> (Inl e, Alive v')
     | (Inr (cl, s), v') \<Rightarrow> (Inr (over_http w cl, alive s), Alive v'))"
  by (auto simp: NewInfobloxClient_def Let_def connector_serves [OF assms] manager_served [OF assms]
      alive_simps over_http_def split: prod.splits option.splits)

lemma pass_over_http:
  assumes "serves w (conn cl)"
  shows "processIPGroups (infoblox_ops (over_http w cl)) gord ord groups st (alive t) =
    map_option (map_prod id alive) (processIPGroups (infoblox_ops cl) gord ord groups st t)"
  by (rule world_map.pass_map [OF infoblox_map [OF assms]])

definition counting_client :: "nat IBloxClient" where
  "counting_client = \<lparr>conn = counting_grid, objMgr = \<lparr>cmpType = ''k8s'', tenantID = ''0''\<rparr>,
     ea = fmupd EAKey (EAStr EAVal) fmempty\<rparr>"

lemma counting_created:
  "NewInfobloxClient counting_grid ''k8s'' 0 = (Inr (counting_client, \<lparr>recordRef = fmempty, grid = 1\<rparr>), 1)"
  by (simp add: NewInfobloxClient_def Let_def counting_grid_def counting_client_def GetEADefinition_def
      CreateEADefinition_def)

end
