(* ===== verification/World_Run.thy ===== *)
theory World_Run
  imports World_Map System_Sections
begin

section \<open>Runs with one client in the place of another\<close>

text \<open>
  What World_Map shows of a pass goes on to the handlers of the controller and to the steps of the whole system: from
  a state and its image the two systems can do the same, and get to a state and its image.
\<close>

definition ctlr_map :: "('w \<Rightarrow> 'v) \<Rightarrow> ('w, 'o) Controller \<Rightarrow> ('v, 'o) Controller" where
  "ctlr_map f c = \<lparr>iClient = f (iClient c), oClient = oClient c, ctlrStore = ctlrStore c, ipGroups = ipGroups c\<rparr>"

definition system_map :: "('w \<Rightarrow> 'v) \<Rightarrow> ('w, 's) sectioned \<Rightarrow> ('v, 's) sectioned" where
  "system_map f sys = \<lparr>sctlr = ctlr_map f (sctlr sys), phase = phase sys\<rparr>"

lemma ctlr_map_fields [simp]:
  "iClient (ctlr_map f c) = f (iClient c)" "oClient (ctlr_map f c) = oClient c"
  "ctlrStore (ctlr_map f c) = ctlrStore c" "ipGroups (ctlr_map f c) = ipGroups c"
  by (simp_all add: ctlr_map_def)

lemma ctlr_map_updates:
  "(ctlr_map f c)\<lparr>iClient := f w\<rparr> = ctlr_map f (c\<lparr>iClient := w\<rparr>)"
  "(ctlr_map f c)\<lparr>oClient := k\<rparr> = ctlr_map f (c\<lparr>oClient := k\<rparr>)"
  "(ctlr_map f c)\<lparr>ctlrStore := st\<rparr> = ctlr_map f (c\<lparr>ctlrStore := st\<rparr>)"
  "(ctlr_map f c)\<lparr>ipGroups := groups\<rparr> = ctlr_map f (c\<lparr>ipGroups := groups\<rparr>)"
  "(ctlr_map f c)\<lparr>iClient := f w, ctlrStore := st\<rparr> = ctlr_map f (c\<lparr>iClient := w, ctlrStore := st\<rparr>)"
  by (simp_all add: ctlr_map_def)

lemma ctlr_map_new: "NewController k (f w) = ctlr_map f (NewController k w)"
  by (simp add: NewController_def ctlr_map_def)

lemma system_map_fields [simp]:
  "sctlr (system_map f sys) = ctlr_map f (sctlr sys)" "phase (system_map f sys) = phase sys"
  "sclient (system_map f sys) = sclient sys" "sapi (system_map f sys) = sapi sys"
  by (simp_all add: system_map_def sclient_def sapi_def)

lemma system_map_updates:
  "(system_map f sys)\<lparr>phase := ph\<rparr> = system_map f (sys\<lparr>phase := ph\<rparr>)"
  "(system_map f sys)\<lparr>sctlr := ctlr_map f c\<rparr> = system_map f (sys\<lparr>sctlr := c\<rparr>)"
  "\<lparr>sctlr = ctlr_map f c, phase = ph\<rparr> = system_map f \<lparr>sctlr = c, phase = ph\<rparr>"
  by (simp_all add: system_map_def)

lemmas map_updates = ctlr_map_updates system_map_updates

context world_map
begin

lemma refresh_map: "refreshStore cl' (ctlr_map f c) = map_option (map_prod id (ctlr_map f)) (refreshStore cl c)"
  by (auto simp: refreshStore_def map_GetRecords ctlr_map_updates ctlr_map_def split: Option.bind_splits)

lemma process_map: "process cl' gord ord (ctlr_map f c) = map_option (ctlr_map f) (process cl gord ord c)"
  unfolding process_def
  by (intro map_bind [where k = "map_prod id f"]) (auto simp: pass_map ctlr_map_def)

lemma start_map: "Run_start cl' startOrch (ctlr_map f c) = map_option (ctlr_map f) (Run_start cl startOrch c)"
  unfolding Run_start_def
  by (intro map_bind [where k = "map_prod id (ctlr_map f)"]) (auto simp: refresh_map ctlr_map_updates)

lemma write_map: "writeIPHosts note_ip ord (ctlr_map f c) = map_option (ctlr_map f) (writeIPHosts note_ip ord c)"
  unfolding writeIPHosts_def
  by (intro map_bind [where k = id]) (auto simp: ctlr_map_updates option.map_id)

lemma handle_map: "handle cl' note_ip gord ord ev (ctlr_map f c) = map_option (ctlr_map f) (handle cl note_ip gord ord ev c)"
proof (cases ev)
  case (Message groups)
  show ?thesis unfolding handle_def Message event.case
    by (intro map_bind [where k = "ctlr_map f"]) (auto simp: write_map process_map ctlr_map_updates)
next
  case (Undecodable partial)
  then show ?thesis by (simp add: handle_def ctlr_map_updates)
next
  case Tick
  show ?thesis unfolding handle_def Tick event.case
    by (intro map_bind [where k = "map_prod id (ctlr_map f)"]) (auto simp: refresh_map process_map)
qed

lemma ctl_step_map:
  "ctl_step cl' note_ip v (ctlr_map f c) ev d \<longleftrightarrow> (\<exists>c'. ctl_step cl note_ip v c ev c' \<and> d = ctlr_map f c')"
proof
  assume "ctl_step cl' note_ip v (ctlr_map f c) ev d"
  then show "\<exists>c'. ctl_step cl note_ip v c ev c' \<and> d = ctlr_map f c'"
    by (rule step_handle) (auto simp: handle_map intro: ctl_step.intros)
next
  assume "\<exists>c'. ctl_step cl note_ip v c ev c' \<and> d = ctlr_map f c'"
  then obtain c' where c': "ctl_step cl note_ip v c ev c'" "d = ctlr_map f c'" by blast
  from c'(1) show "ctl_step cl' note_ip v (ctlr_map f c) ev d"
    by (rule step_handle) (auto simp: handle_map c'(2) intro!: ctl_step.intros)
qed

lemma step_map_to:
  assumes "sec_step ipam cl api v sys ev sys'"
  shows "sec_step ipam cl' api v (system_map f sys) ev (system_map f sys')"
  using assms
proof cases
  case (watch kev k ph)
  from sec_step.watch [of ipam "system_map f sys" kev k ph cl' api v] watch show ?thesis
    by (simp add: map_updates)
next
  case (pass groups gord ord c)
  from sec_step.pass [of "system_map f sys" groups gord ord cl' "ctlr_map f c" ipam api v] pass show ?thesis
    by (simp add: map_updates process_map)
next
  case (look_up ip ips ord agord rec specs)
  from sec_step.look_up [of "system_map f sys" ip ips ord agord rec specs ipam cl' api v] look_up show ?thesis
    by (simp add: map_updates)
next
  case (update ip spec specs ips s)
  from sec_step.update [of "system_map f sys" ip spec specs ips api s ipam cl' v] update show ?thesis
    by (simp add: map_updates)
next
  case (next_ip ip ips)
  from sec_step.next_ip [of "system_map f sys" ip ips ipam cl' api v] next_ip show ?thesis
    by (simp add: map_updates)
next
  case written
  from sec_step.written [of "system_map f sys" ipam cl' api v] written show ?thesis
    by (simp add: map_updates)
next
  case (verify agord c)
  from sec_step.verify [of "system_map f sys" agord cl' api v "ctlr_map f c" ipam] verify show ?thesis
    by (auto simp: map_updates ctl_step_map)
next
  case (edit s)
  from sec_step.edit [of ipam cl' api v "system_map f sys" s] edit show ?thesis
    by (simp add: map_updates)
qed

lemma step_map_from:
  assumes "sec_step ipam cl' api v (system_map f sys) ev d"
  shows "\<exists>sys'. sec_step ipam cl api v sys ev sys' \<and> d = system_map f sys'"
  using assms
proof cases
  case (watch kev k ph)
  from sec_step.watch [of ipam sys kev k ph cl api v] watch show ?thesis
    by (auto simp: map_updates)
next
  case (pass groups gord ord c)
  then obtain c' where "process cl gord ord ((sctlr sys)\<lparr>ipGroups := groups\<rparr>) = Some c'" "c = ctlr_map f c'"
    by (auto simp: ctlr_map_updates process_map)
  from sec_step.pass [OF _ _ _ this(1), of ipam api v] this(2) pass show ?thesis
    by (auto simp: map_updates)
next
  case (look_up ip ips ord agord rec specs)
  from sec_step.look_up [of sys ip ips ord agord rec specs ipam cl api v] look_up show ?thesis
    by (auto simp: map_updates intro!: exI [of _ "sys\<lparr>phase := Updating ip specs ips\<rparr>"])
next
  case (update ip spec specs ips s)
  from sec_step.update [of sys ip spec specs ips api s ipam cl v] update show ?thesis
    by (auto simp: map_updates)
next
  case (next_ip ip ips)
  from sec_step.next_ip [of sys ip ips ipam cl api v] next_ip show ?thesis
    by (auto simp: map_updates intro!: exI [of _ "sys\<lparr>phase := Writing ips\<rparr>"])
next
  case written
  from sec_step.written [of sys ipam cl api v] written show ?thesis
    by (auto simp: map_updates intro!: exI [of _ "sys\<lparr>phase := Ready\<rparr>"])
next
  case (verify agord c)
  then obtain c' where "ctl_step cl (kube_annotate api agord) v (sctlr sys) Tick c'" "c = ctlr_map f c'"
    by (auto simp: ctl_step_map)
  from sec_step.verify [OF _ _ this(1), of ipam] this(2) verify show ?thesis
    by (auto simp: map_updates)
next
  case (edit s)
  from sec_step.edit [of ipam cl api v sys s] edit show ?thesis
    by (auto simp: map_updates intro!: exI [of _ "sys\<lparr>sctlr := (sctlr sys)\<lparr>oClient := (sclient sys, s)\<rparr>\<rparr>"])
qed

lemma path_map:
  "sec_path ipam cl' api v (system_map f sys) evs d \<longleftrightarrow>
     (\<exists>sys'. sec_path ipam cl api v sys evs sys' \<and> d = system_map f sys')"
proof
  assume "sec_path ipam cl' api v (system_map f sys) evs d"
  then show "\<exists>sys'. sec_path ipam cl api v sys evs sys' \<and> d = system_map f sys'"
  proof (induction rule: sec_path.induct)
    case (onward evs sys1 ev sys2)
    then show ?case by (metis step_map_from sec_path.onward)
  qed (blast intro: sec_path.here)
next
  assume "\<exists>sys'. sec_path ipam cl api v sys evs sys' \<and> d = system_map f sys'"
  then obtain sys' where "sec_path ipam cl api v sys evs sys'" "d = system_map f sys'" by blast
  then show "sec_path ipam cl' api v (system_map f sys) evs d"
  proof (induction arbitrary: d rule: sec_path.induct)
    case (onward evs sys1 ev sys2)
    then show ?case by (blast intro: sec_path.onward step_map_to)
  qed (simp add: sec_path.here)
qed

end

end
