(* ===== verification/Start_Up.thy ===== *)
theory Start_Up
  imports Json_Text Logging Request_Builder System_Properties Http_Infoblox World_Run
begin

section \<open>Start-up (main.go)\<close>

text \<open>
  From the parsed flags to the running controller: the checks of \<open>verifyArgs\<close>, the credentials files,
  and \<open>main\<close>, which builds the two clients and connects them. The flag library, the files, the
  connection to the cluster and the connector to the grid are arguments (\<open>surroundings\<close>).
\<close>

record Flags =
  fLogLevel :: string
  fOrch :: string
  fMgr :: string
  fVerifyInterval :: int
  fPrintVersion :: bool
  fInCluster :: bool
  fKubeConfig :: string
  fNamespaces :: "string list"
  fNamespaceLabel :: string
  fIbHost :: string
  fIbVersion :: string
  fIbPort :: int
  fIbUsername :: string
  fIbPassword :: string
  fCredsDir :: string

text \<open>What the flags are when the command line does not set them.\<close>

definition default_flags :: Flags where
  "default_flags = \<lparr>fLogLevel = ''INFO'', fOrch = '''', fMgr = '''', fVerifyInterval = 30, fPrintVersion = False,
     fInCluster = True, fKubeConfig = ''./config'', fNamespaces = [], fNamespaceLabel = '''',
     fIbHost = '''', fIbVersion = '''', fIbPort = 443, fIbUsername = '''', fIbPassword = '''',
     fCredsDir = ''''\<rparr>"

definition INFOBLOX :: string where "INFOBLOX = ''infoblox''"

text \<open>The checks after the log level is set.\<close>

definition check_args :: "Flags \<Rightarrow> string + Flags" where
  "check_args f =
     (if length (fOrch f) = 0 then Inl ''orchestration is required''
      else if length (fMgr f) = 0 then Inl ''ip-manager is required''
      else if fVerifyInterval f < 0 then Inl ''Cannot use negative verify interval.''
      else
        (let f = f\<lparr>fOrch := toLower (fOrch f), fMgr := toLower (fMgr f)\<rparr> in
         if length (fNamespaces f) \<noteq> 0 \<and> length (fNamespaceLabel f) \<noteq> 0
         then Inl ''cannot specify both namespace and namespace-label''
         else if fMgr f = INFOBLOX then
           (if length (fIbHost f) = 0 \<or> length (fIbVersion f) = 0
            then Inl ''missing required Infoblox parameter''
            else if (length (fIbUsername f) = 0 \<or> length (fIbPassword f) = 0) \<and> length (fCredsDir f) = 0
            then Inl ''missing Infoblox credentials''
            else if length (fIbUsername f) > 0 \<and> length (fIbPassword f) > 0 \<and> length (fCredsDir f) > 0
            then Inl ''please specify either credentials directory OR username/password, not both''
            else Inr f)
         else Inr f))"

definition verifyArgs :: "Flags \<Rightarrow> vlogger \<Rightarrow> ((string + Flags) \<times> vlogger) option" where
  "verifyArgs f v = do {
     (known, v1) \<leftarrow> start_logging (fLogLevel f) v;
     Some (if known then check_args f else Inl ''Unknown log level requested'', v1)
   }"

text \<open>None: a file cannot be read, and the process ends.\<close>

definition getCredentials :: "(string \<Rightarrow> string option) \<Rightarrow> Flags \<Rightarrow> Flags option" where
  "getCredentials readFile f =
     (if fMgr f = INFOBLOX \<and> length (fCredsDir f) > 0 then
        (let (usr, pass) =
           (if last (fCredsDir f) = CHR ''/''
            then (fCredsDir f @ ''infoblox-username'', fCredsDir f @ ''infoblox-password'')
            else (fCredsDir f @ ''/infoblox-username'', fCredsDir f @ ''/infoblox-password''))
         in do {
           u \<leftarrow> readFile usr;
           p \<leftarrow> readFile pass;
           Some (f\<lparr>fIbUsername := u, fIbPassword := p\<rparr>)
         })
      else Some f)"

definition host_config :: "Flags \<Rightarrow> HostConfig" where
  "host_config f =
     \<lparr>hcHost = fIbHost f, hcVersion = fIbVersion f, hcPort = Itoa (fIbPort f),
      hcUsername = fIbUsername f, hcPassword = fIbPassword f\<rparr>"

record 'v surroundings =
  readFile :: "string \<Rightarrow> string option"
  kubeConfigOk :: "bool \<Rightarrow> string \<Rightarrow> bool"
  kubeClientOk :: bool
  parseLabel :: "string \<Rightarrow> string option"
  connector :: "HostConfig \<Rightarrow> 'v IBConnector"
  gridState :: 'v

text \<open>What becomes of the process before it waits for a signal: it has exited with a status, or it
  runs the controller, with a client for the grid and a verify interval.\<close>

datatype ('v, 's) outcome =
    Exit nat
  | Running "'v IBloxClient" "('v ibox, K8sClient \<times> 's) Controller" nat

definition kube_params :: "Flags \<Rightarrow> KubeParams" where
  "kube_params f = \<lparr>Namespaces = fNamespaces f, NamespaceLabel = fNamespaceLabel f, Channel = True\<rparr>"

text \<open>The part after the credentials; \<open>s\<close> is the state of the API server.\<close>

definition build :: "'v surroundings \<Rightarrow> 's \<Rightarrow> Flags \<Rightarrow> ('v, 's) outcome" where
  "build env s f =
     (if fOrch f \<in> {''kubernetes'', ''k8s'', ''openshift''} then
        (if \<not> kubeConfigOk env (fInCluster f) (fKubeConfig f) then Exit 1
         else if \<not> kubeClientOk env then Exit 1
         else
           (let oClient = NewKubernetesClient (parseLabel env) (kube_params f) in
            if fMgr f = INFOBLOX then
              (case fst (NewInfobloxClient (connector env (host_config f)) (fOrch f) (gridState env)) of
                 Inl err \<Rightarrow> Exit 1
               | Inr (cl, ib) \<Rightarrow> Running cl (NewController (oClient, s) ib) (nat (fVerifyInterval f)))
            else Exit 1))
      else Exit 1)"

text \<open>\<open>parsed\<close>: the flags, None when they do not parse. The result None would be a panic.\<close>

definition main :: "'v surroundings \<Rightarrow> 's \<Rightarrow> Flags option \<Rightarrow> ('v, 's) outcome option" where
  "main env s parsed =
     (case parsed of
        None \<Rightarrow> Some (Exit 1)
      | Some f \<Rightarrow>
          (if fPrintVersion f then Some (Exit 0)
           else do {
             (r, v) \<leftarrow> verifyArgs f log_init;
             Some (case r of
                     Inl err \<Rightarrow> Exit 1
                   | Inr f' \<Rightarrow>
                       (case getCredentials (readFile env) f' of
                          None \<Rightarrow> Exit 1
                        | Some f'' \<Rightarrow> build env s f''))
           }))"


text \<open>The end: a signal closes the stop channel, and the client stops its informers and queues.\<close>

definition interrupted :: "('w, K8sClient \<times> 's) Controller \<Rightarrow> ('w, K8sClient \<times> 's) Controller option" where
  "interrupted c = do {
     k \<leftarrow> Stop_client (fst (oClient c));
     Some (c\<lparr>oClient := (k, snd (oClient c))\<rparr>)
   }"

text \<open>Whenever the signal comes, no stop channel is closed twice; every informer is stopped, and no key
  gets into the queues any more.\<close>

lemma interrupted_stops:
  assumes "sys_run ipam cl api vInterval sys0 evs sys"
  shows "\<exists>c k. interrupted (ctlr sys) = Some c \<and> k = fst (oClient c) \<and>
    (\<forall>ns rsInf. fmlookup (rsInformers k) ns = Some rsInf \<longrightarrow> infStopped rsInf) \<and>
    (\<forall>key. qAdd key (rsQueue k) = rsQueue k) \<and> (\<forall>ns. qAdd ns (nsQueue k) = nsQueue k)"
proof -
  have "informers_inv (kclient sys)"
    using sys_run_client [OF assms] run_inv by (auto simp: kube_inv_def)
  then have "fmpred (\<lambda>ns rsInf. stopInformer rsInf \<noteq> None) (rsInformers (kclient sys))"
    by (auto simp: informers_inv_def stopInformer_def fmpred_iff)
  then show ?thesis
    by (auto simp: interrupted_def Stop_client_def kclient_def qAdd_def qShutDown_def)
qed

subsection \<open>Properties\<close>

text \<open>The logging set-up never panics.\<close>

lemma verifyArgs_log_init:
  "\<exists>v. verifyArgs f log_init =
     Some (if NewLogLevel (fLogLevel f) = None then Inl ''Unknown log level requested'' else check_args f, v)"
proof -
  have "start_logging (fLogLevel f) log_init \<noteq> None"
    "\<And>known v. start_logging (fLogLevel f) log_init = Some (known, v) \<Longrightarrow> known \<longleftrightarrow> NewLogLevel (fLogLevel f) \<noteq> None"
    by (rule start_logging_returns)+
  then show ?thesis by (auto simp: verifyArgs_def)
qed

lemma main_eq:
  "main env s (Some f) = Some
     (if fPrintVersion f then Exit 0
      else if NewLogLevel (fLogLevel f) = None then Exit 1
      else (case check_args f of
              Inl err \<Rightarrow> Exit 1
            | Inr f' \<Rightarrow>
                (case getCredentials (readFile env) f' of None \<Rightarrow> Exit 1 | Some f'' \<Rightarrow> build env s f'')))"
  using verifyArgs_log_init [of f] by (auto simp: main_def)

lemma build_Running:
  assumes "build env s f = Running cl c n"
  obtains ib v where "fOrch f \<in> {''kubernetes'', ''k8s'', ''openshift''}" "fMgr f = INFOBLOX"
    "kubeConfigOk env (fInCluster f) (fKubeConfig f)" "kubeClientOk env"
    "NewInfobloxClient (connector env (host_config f)) (fOrch f) (gridState env) = (Inr (cl, ib), v)"
    "c = NewController (NewKubernetesClient (parseLabel env) (kube_params f), s) ib" "n = nat (fVerifyInterval f)"
  using assms
  by (cases "NewInfobloxClient (connector env (host_config f)) (fOrch f) (gridState env)")
    (auto simp: build_def Let_def split: if_splits sum.splits)

lemma NewInfobloxClient_conn:
  "NewInfobloxClient c cmp v = (Inr (cl, ib), v') \<Longrightarrow> conn cl = c"
  by (auto simp: NewInfobloxClient_def Let_def split: prod.splits option.splits)

text \<open>The credentials that are used: those of the flags, or those in the directory's files.\<close>

definition file_in :: "string \<Rightarrow> string \<Rightarrow> string" where
  "file_in dir name = (if last dir = CHR ''/'' then dir @ name else dir @ ''/'' @ name)"

definition credentials :: "'v surroundings \<Rightarrow> Flags \<Rightarrow> string option \<times> string option" where
  "credentials env f =
     (if fCredsDir f = '''' then (Some (fIbUsername f), Some (fIbPassword f))
      else (readFile env (file_in (fCredsDir f) ''infoblox-username''),
            readFile env (file_in (fCredsDir f) ''infoblox-password'')))"

lemma check_args_accepts:
  assumes "check_args f = Inr f'"
  shows "f' = f\<lparr>fOrch := toLower (fOrch f), fMgr := toLower (fMgr f)\<rparr>" "0 \<le> fVerifyInterval f"
    "fNamespaces f = [] \<or> fNamespaceLabel f = ''''"
    "toLower (fMgr f) = INFOBLOX \<Longrightarrow> fIbHost f \<noteq> '''' \<and> fIbVersion f \<noteq> '''' \<and>
       (fIbUsername f \<noteq> '''' \<and> fIbPassword f \<noteq> '''' \<longleftrightarrow> fCredsDir f = '''')"
  using assms by (auto simp: check_args_def Let_def split: if_splits)

text \<open>Of the defaults the flags that the usage text calls required have to be set, and the others may stay.\<close>

lemma required_flags:
  "check_args (default_flags\<lparr>fMgr := m, fOrch := orch, fIbHost := host, fIbVersion := ver, fIbUsername := user, fIbPassword := pass\<rparr>) =
     (if orch = '''' then Inl ''orchestration is required''
      else if m = '''' then Inl ''ip-manager is required''
      else if toLower m \<noteq> INFOBLOX \<or> host \<noteq> '''' \<and> ver \<noteq> '''' \<and> user \<noteq> '''' \<and> pass \<noteq> ''''
      then Inr (default_flags\<lparr>fMgr := toLower m, fOrch := toLower orch, fIbHost := host, fIbVersion := ver,
             fIbUsername := user, fIbPassword := pass\<rparr>)
      else if host = '''' \<or> ver = '''' then Inl ''missing required Infoblox parameter''
      else Inl ''missing Infoblox credentials'')"
  by (auto simp: check_args_def default_flags_def Let_def)

lemma getCredentials_read:
  assumes "getCredentials (readFile env) f = Some f'" and "fMgr f = INFOBLOX"
  shows "\<exists>u p. credentials env f = (Some u, Some p) \<and> f' = f\<lparr>fIbUsername := u, fIbPassword := p\<rparr>"
proof (cases "fCredsDir f = ''''")
  case True
  with assms show ?thesis by (simp add: getCredentials_def credentials_def)
next
  case False
  with assms show ?thesis
    by (auto simp: getCredentials_def credentials_def file_in_def bind_Some split: if_splits)
qed

text \<open>The process runs a controller only with a usable configuration: a level it knows, a
  Kubernetes orchestration and Infoblox in any case of letters, a verify interval that is not
  negative, not both namespaces and a label, a grid host and version, and credentials from exactly
  one source, which the connection to the grid then uses; and the flags never make it panic.\<close>

lemma main_configuration:
  "main env s parsed \<noteq> None \<and>
   (\<forall>cl c n f. main env s parsed = Some (Running cl c n) \<longrightarrow> parsed = Some f \<longrightarrow>
      NewLogLevel (fLogLevel f) \<noteq> None \<and>
      toLower (fOrch f) \<in> {''kubernetes'', ''k8s'', ''openshift''} \<and> toLower (fMgr f) = ''infoblox'' \<and>
      0 \<le> fVerifyInterval f \<and> n = nat (fVerifyInterval f) \<and>
      (fNamespaces f = [] \<or> fNamespaceLabel f = '''') \<and> fIbHost f \<noteq> '''' \<and> fIbVersion f \<noteq> '''' \<and>
      (fIbUsername f \<noteq> '''' \<and> fIbPassword f \<noteq> '''' \<longleftrightarrow> fCredsDir f = '''') \<and>
      (\<exists>user pass. credentials env f = (Some user, Some pass) \<and>
         conn cl = connector env \<lparr>hcHost = fIbHost f, hcVersion = fIbVersion f, hcPort = Itoa (fIbPort f),
           hcUsername = user, hcPassword = pass\<rparr>))"
proof (intro conjI allI impI)
  show "main env s parsed \<noteq> None" by (cases parsed) (simp_all add: main_eq, simp add: main_def)
next
  fix cl c n f
  assume "main env s parsed = Some (Running cl c n)" and "parsed = Some f"
  then have "main env s (Some f) = Some (Running cl c n)" by simp
  then obtain f' f'' where level: "NewLogLevel (fLogLevel f) \<noteq> None" and chk: "check_args f = Inr f'"
      and cred: "getCredentials (readFile env) f' = Some f''" and b: "build env s f'' = Running cl c n"
    by (auto simp: main_eq split: if_splits sum.splits option.splits)
  show "NewLogLevel (fLogLevel f) \<noteq> None" by (rule level)
  note ok = check_args_accepts [OF chk]
  from ok(2,3) show "0 \<le> fVerifyInterval f" "fNamespaces f = [] \<or> fNamespaceLabel f = ''''" by blast+
  have mgr: "fMgr f'' = INFOBLOX" using b by (rule build_Running)
  have "fMgr f'' = fMgr f'" using cred by (auto simp: getCredentials_def Let_def bind_Some split: if_splits)
  with mgr have mgr': "fMgr f' = INFOBLOX" by simp
  with ok(1) show "toLower (fMgr f) = ''infoblox''" by (simp add: INFOBLOX_def)
  from mgr' ok(1) have m: "toLower (fMgr f) = INFOBLOX" by simp
  from ok(4) [OF m] show "fIbHost f \<noteq> ''''" "fIbVersion f \<noteq> ''''"
    "fIbUsername f \<noteq> '''' \<and> fIbPassword f \<noteq> '''' \<longleftrightarrow> fCredsDir f = ''''" by blast+
  from getCredentials_read [OF cred mgr'] obtain u p
    where up: "credentials env f' = (Some u, Some p)" and f'': "f'' = f'\<lparr>fIbUsername := u, fIbPassword := p\<rparr>"
    by blast
  have cr: "credentials env f = (Some u, Some p)" using up by (auto simp: ok(1) credentials_def split: if_splits)
  from b obtain ib v where orch: "fOrch f'' \<in> {''kubernetes'', ''k8s'', ''openshift''}"
    and new: "NewInfobloxClient (connector env (host_config f'')) (fOrch f'') (gridState env) = (Inr (cl, ib), v)"
    and n: "n = nat (fVerifyInterval f'')"
    by (rule build_Running)
  from orch show "toLower (fOrch f) \<in> {''kubernetes'', ''k8s'', ''openshift''}" by (simp add: f'' ok(1))
  from n show "n = nat (fVerifyInterval f)" by (simp add: f'' ok(1))
  from NewInfobloxClient_conn [OF new] cr
  show "\<exists>user pass. credentials env f = (Some user, Some pass) \<and>
      conn cl = connector env \<lparr>hcHost = fIbHost f, hcVersion = fIbVersion f, hcPort = Itoa (fIbPort f),
        hcUsername = user, hcPassword = pass\<rparr>"
    by (simp add: host_config_def f'' ok(1))
qed


text \<open>An example: a cluster, a grid with networks, and credentials in files.\<close>

definition demo_flags :: Flags where
  "demo_flags = default_flags\<lparr>fOrch := ''K8S'', fMgr := ''Infoblox'', fNamespaces := [''ns''],
     fIbHost := ''10.1.1.1'', fIbVersion := ''2.5'', fCredsDir := ''/creds''\<rparr>"

definition demo_surroundings :: "nat surroundings" where
  "demo_surroundings = \<lparr>readFile = (\<lambda>path. if path = ''/creds/infoblox-username'' then Some ''admin''
       else if path = ''/creds/infoblox-password'' then Some ''secret'' else None),
     kubeConfigOk = (\<lambda>inCluster path. inCluster), kubeClientOk = True, parseLabel = Some,
     connector = (\<lambda>cfg. still_conn [demo_zone] [demo_A] [demo_CNAME] [demo_net]), gridState = 0\<rparr>"

lemma demo_main:
  "case main demo_surroundings one_object (Some demo_flags) of
     Some (Running cl c n) \<Rightarrow> n = 30 \<and> keys (rsInformers (fst (oClient c))) = {''ns''}
   | _ \<Rightarrow> False"
  by code_simp

lemma addNamespaces_keys:
  "'''' \<notin> set nss \<Longrightarrow> '''' \<notin> keys (rsInformers c) \<Longrightarrow>
     keys (rsInformers (addNamespaces nss c)) = keys (rsInformers c) \<union> set nss \<and>
     nsInformer (addNamespaces nss c) = nsInformer c"
proof (induction nss arbitrary: c)
  case (Cons ns nss)
  have "keys (rsInformers (snd (addNamespace ns c))) = insert ns (keys (rsInformers c)) \<and>
      nsInformer (snd (addNamespace ns c)) = nsInformer c"
    using Cons.prems
    by (auto simp: addNamespace_def watchingAll_iff Let_def keys_iff split: option.split)
  with Cons show ?case by simp
qed simp

text \<open>
  The state from which the runs of the system go: over any connector whose networks have CIDRs that parse, with
  the informers that the flags ask for. The function that lists the namespaces for the label does not
  panic exactly when the label parses.
\<close>

definition started :: "'v surroundings \<Rightarrow> Flags \<Rightarrow> 'v IBloxClient \<Rightarrow> 's kube_api \<Rightarrow> nat \<Rightarrow>
    ('v ibox, K8sClient \<times> 's) Controller \<Rightarrow> bool" where
  "started env f cl api n c \<longleftrightarrow>
    sys_run ''infoblox'' (infoblox_ops cl) api n \<lparr>ctlr = c, inbox = None\<rparr> [] \<lparr>ctlr = c, inbox = None\<rparr> \<and>
    store_wf (ctlrStore c) \<and> sent (fst (oClient c)) = [] \<and>
    (let k = fst (oClient c) in
       keys (rsInformers k) = (if fNamespaceLabel f \<noteq> '''' then {}
         else if fNamespaces f = [] then {''''} else set (fNamespaces f)) \<and>
       (nsInformer k \<noteq> None \<longleftrightarrow> fNamespaceLabel f \<noteq> '''') \<and>
       (listNamespaces k = None \<longleftrightarrow> fNamespaceLabel f \<noteq> '''' \<and> parseLabel env (fNamespaceLabel f) = None) \<and>
       (\<forall>ns rsInf. fmlookup (rsInformers k) ns = Some rsInf \<longrightarrow> infRunning rsInf))"

lemma main_start_returns:
  assumes "main env s (Some f) = Some (Running cl c0 n)" and "nets_parse cl"
  shows "\<exists>c. Run_start (infoblox_ops cl) startOrch c0 = Some c"
proof -
  have "iGetRecords (infoblox_ops cl) (iClient c0) \<noteq> None"
    using infoblox_never_panics [OF assms(2)] by (simp add: never_panics_def)
  then have "refreshStore (infoblox_ops cl) c0 \<noteq> None" by (auto simp: refreshStore_def bind_eq_None_conv)
  then obtain c1 ch where "refreshStore (infoblox_ops cl) c0 = Some (ch, c1)"
    by (metis not_None_eq surj_pair)
  then show ?thesis by (simp add: Run_start_def)
qed

lemma main_started:
  assumes "main env s (Some f) = Some (Running cl c0 n)" and "'''' \<notin> set (fNamespaces f)"
    and start: "Run_start (infoblox_ops cl) (\<lambda>(k, s). (Run_client k, s)) c0 = Some c"
  shows "started env f cl api n c"
proof -
  from assms(1) obtain f' f'' where chk: "check_args f = Inr f'"
      and cred: "getCredentials (readFile env) f' = Some f''" and b: "build env s f'' = Running cl c0 n"
    by (auto simp: main_eq split: if_splits sum.splits option.splits)
  have ns: "fNamespaces f'' = fNamespaces f" "fNamespaceLabel f'' = fNamespaceLabel f"
    using cred check_args_accepts(1) [OF chk] by (auto simp: getCredentials_def Let_def bind_Some split: if_splits)
  from b obtain ib where c0: "c0 = NewController (NewKubernetesClient (parseLabel env) (kube_params f''), s) ib"
    by (rule build_Running)
  let ?k = "NewKubernetesClient (parseLabel env) (kube_params f'')"
  from start obtain c1 ch where r: "refreshStore (infoblox_ops cl) c0 = Some (ch, c1)"
    by (auto simp: Run_start_def bind_Some)
  then have o1: "oClient c1 = (?k, s)" by (rule refreshStore_cases) (simp add: c0 NewController_def)
  with start r have c: "c = c1\<lparr>oClient := (Run_client ?k, s)\<rparr>" by (simp add: Run_start_def)
  note run = sys_run.start [OF start [unfolded c0]]
  have "linked (deliveries []) \<lparr>ctlr = c, inbox = None\<rparr>" by (rule sys_run_linked [OF run])
  then have "sent (Run_client ?k) = []" by (simp add: linked_def deliveries_def kclient_def c)
  moreover have "store_wf (ctlrStore c)" using sys_run_store [OF infoblox_contract run] by simp
  moreover have "keys (rsInformers ?k) = (if fNamespaceLabel f \<noteq> '''' then {}
         else if fNamespaces f = [] then {''''} else set (fNamespaces f)) \<and>
       (nsInformer ?k \<noteq> None \<longleftrightarrow> fNamespaceLabel f \<noteq> '''') \<and>
       (listNamespaces ?k = None \<longleftrightarrow> fNamespaceLabel f \<noteq> '''' \<and> parseLabel env (fNamespaceLabel f) = None)"
  proof -
    let ?c0 = "\<lparr>initialState = False, nsQueue = newQueue, rsQueue = newQueue, nsInformer = None,
       rsInformers = fmempty, ipGroup = fmempty, updated = False, channel = True,
       sent = [], rsRetry = [], nsRetry = [], timers = 0, rsWorker = Idle, nsWorker = Idle\<rparr>"
    show ?thesis
      using addNamespaces_keys [OF assms(2), of ?c0]
      by (simp add: NewKubernetesClient_def kube_params_def ns addNamespaceLabelInformer_def createLabel_def
          addNamespace_def watchingAllNamespaces_def Let_def)
  qed
  ultimately show ?thesis
    using run by (auto simp: c started_def Run_client_def startInformer_def Let_def)
qed

lemma main_conn:
  assumes "main env s (Some f) = Some (Running cl c n)"
  shows "\<exists>cfg. conn cl = connector env cfg"
proof -
  from assms obtain f'' where "build env s f'' = Running cl c n"
    by (auto simp: main_eq split: if_splits sum.splits option.splits)
  then show ?thesis by (rule build_Running) (auto dest: NewInfobloxClient_conn)
qed

text \<open>The process that \<open>main\<close> builds over the connector of the library is that over the grid which the server serves.\<close>

lemma main_served:
  assumes "main env s (Some f) = Some (Running cl c0 n)" and "conn cl = http_connector w" and "gridState env = Alive h"
    and "serves w g"
  shows "\<exists>clg c0g. cl = over_http w clg \<and> c0 = ctlr_map alive c0g \<and> conn clg = g \<and>
    main (\<lparr>readFile = readFile env, kubeConfigOk = kubeConfigOk env, kubeClientOk = kubeClientOk env,
       parseLabel = parseLabel env, connector = (\<lambda>_. g), gridState = h\<rparr>) s (Some f) = Some (Running clg c0g n)"
proof -
  let ?env = "\<lparr>readFile = readFile env, kubeConfigOk = kubeConfigOk env, kubeClientOk = kubeClientOk env,
       parseLabel = parseLabel env, connector = (\<lambda>_. g), gridState = h\<rparr>"
  from assms(1) obtain f' f'' where pre: "\<not> fPrintVersion f" "NewLogLevel (fLogLevel f) \<noteq> None" "check_args f = Inr f'"
      "getCredentials (readFile env) f' = Some f''" and b: "build env s f'' = Running cl c0 n"
    by (auto simp: main_eq split: if_splits sum.splits option.splits)
  from b obtain ib v where flags: "fOrch f'' \<in> {''kubernetes'', ''k8s'', ''openshift''}" "fMgr f'' = INFOBLOX"
      "kubeConfigOk env (fInCluster f'') (fKubeConfig f'')" "kubeClientOk env"
    and new: "NewInfobloxClient (connector env (host_config f'')) (fOrch f'') (gridState env) = (Inr (cl, ib), v)"
    and c0: "c0 = NewController (NewKubernetesClient (parseLabel env) (kube_params f''), s) ib" "n = nat (fVerifyInterval f'')"
    by (rule build_Running)
  have "connector env (host_config f'') = http_connector w" using NewInfobloxClient_conn [OF new] assms(2) by simp
  with new assms(3) have "NewInfobloxClient (http_connector w) (fOrch f'') (Alive h) = (Inr (cl, ib), v)" by simp
  then obtain clg sg v' where newg: "NewInfobloxClient g (fOrch f'') h = (Inr (clg, sg), v')"
    and cl: "cl = over_http w clg" "ib = alive sg"
    by (auto simp: created_served [OF assms(4)] split: prod.splits sum.splits)
  have "main ?env s (Some f) = Some (Running clg (NewController (NewKubernetesClient (parseLabel env) (kube_params f''), s) sg) n)"
    using pre flags newg c0(2) by (auto simp: main_eq build_def Let_def)
  with cl c0(1) NewInfobloxClient_conn [OF newg] show ?thesis by (auto simp: ctlr_map_new)
qed

text \<open>C27. \<open>main\<close> starts the system over HTTP: when the server behind the connector serves a grid whose networks have
  CIDRs that parse (see \<open>infoblox_pass_total\<close>), and the empty name is not among the namespaces of the flags, the controller and the
  Kubernetes client that \<open>main\<close> builds start without a panic of theirs or of the connector, whose process is alive
  after it, in a state from which the runs of the system go, with a well-formed store and no message yet; the
  client watches by the label when there is one, and otherwise exactly the namespaces of the flags, or all of them
  when none is given, and every informer runs. The informer that lists the namespaces for the label panics
  after that exactly when the label does not parse (\<open>panics_exactly\<close> has this panic among those of the runs).\<close>

theorem main_starts_system:
  assumes "main env s (Some f) = Some (Running cl c0 n)" and "conn cl = http_connector w" and "gridState env = Alive h"
    and "serves w g" and "\<forall>q v. list_all (\<lambda>n. ParseCIDR (nwCidr n) \<noteq> None) (fst (fst (GetNetworks g q v)))"
    and "'''' \<notin> set (fNamespaces f)"
  shows "\<exists>c. Run_start (infoblox_ops cl) (\<lambda>(k, s). (Run_client k, s)) c0 = Some c \<and> grid (iClient c) \<noteq> Crashed \<and>
    sys_run ''infoblox'' (infoblox_ops cl) api n \<lparr>ctlr = c, inbox = None\<rparr> [] \<lparr>ctlr = c, inbox = None\<rparr> \<and>
    store_wf (ctlrStore c) \<and> sent (fst (oClient c)) = [] \<and>
    (let k = fst (oClient c) in
       keys (rsInformers k) = (if fNamespaceLabel f \<noteq> '''' then {}
         else if fNamespaces f = [] then {''''} else set (fNamespaces f)) \<and>
       (nsInformer k \<noteq> None \<longleftrightarrow> fNamespaceLabel f \<noteq> '''') \<and>
       (listNamespaces k = None \<longleftrightarrow> fNamespaceLabel f \<noteq> '''' \<and> parseLabel env (fNamespaceLabel f) = None) \<and>
       (\<forall>ns rsInf. fmlookup (rsInformers k) ns = Some rsInf \<longrightarrow> infRunning rsInf))"
proof -
  obtain clg c0g where over: "cl = over_http w clg" "c0 = ctlr_map alive c0g" "conn clg = g"
    and m: "main (\<lparr>readFile = readFile env, kubeConfigOk = kubeConfigOk env, kubeClientOk = kubeClientOk env,
       parseLabel = parseLabel env, connector = (\<lambda>_. g), gridState = h\<rparr>) s (Some f) = Some (Running clg c0g n)"
    using main_served [OF assms(1-4)] by blast
  have "nets_parse clg" using assms(5) over(3) by (simp add: nets_parse_def)
  from main_start_returns [OF m this] obtain cg
    where g: "Run_start (infoblox_ops clg) (\<lambda>(k, s). (Run_client k, s)) c0g = Some cg" by blast
  have "world_map (infoblox_ops clg) (infoblox_ops cl) alive"
    unfolding over(1) by (rule infoblox_map) (simp add: over(3) assms(4))
  from world_map.start_map [OF this, of "\<lambda>(k, s). (Run_client k, s)" c0g] g over(2)
  have c: "Run_start (infoblox_ops cl) (\<lambda>(k, s). (Run_client k, s)) c0 = Some (ctlr_map alive cg)" by simp
  from main_started [OF assms(1,6) c] have "started env f cl api n (ctlr_map alive cg)" .
  with c show ?thesis by (intro exI [of _ "ctlr_map alive cg"]) (simp add: started_def)
qed

text \<open>The example over HTTP.\<close>

definition http_surroundings :: "nat wapi_process surroundings" where
  "http_surroundings = \<lparr>readFile = readFile demo_surroundings, kubeConfigOk = kubeConfigOk demo_surroundings,
     kubeClientOk = True, parseLabel = Some, connector = (\<lambda>_. http_connector counting_server), gridState = Alive 0\<rparr>"

lemma demo_main_http:
  "\<exists>cl c0. main http_surroundings one_object (Some demo_flags) = Some (Running cl c0 30)"
proof -
  let ?f = "demo_flags\<lparr>fOrch := ''k8s'', fMgr := ''infoblox'', fIbUsername := ''admin'', fIbPassword := ''secret''\<rparr>"
  have f: "check_args demo_flags = Inr (demo_flags\<lparr>fOrch := ''k8s'', fMgr := ''infoblox''\<rparr>)"
    "getCredentials (readFile demo_surroundings) (demo_flags\<lparr>fOrch := ''k8s'', fMgr := ''infoblox''\<rparr>) = Some ?f"
    "\<not> fPrintVersion demo_flags" "NewLogLevel (fLogLevel demo_flags) \<noteq> None"
    "fOrch ?f = ''k8s''" "fMgr ?f = INFOBLOX" "kubeConfigOk demo_surroundings (fInCluster ?f) (fKubeConfig ?f)"
    "nat (fVerifyInterval ?f) = 30"
    by code_simp+
  have "NewInfobloxClient (http_connector counting_server) ''k8s'' (Alive 0) =
      (Inr (over_http counting_server counting_client, alive \<lparr>recordRef = fmempty, grid = 1\<rparr>), Alive 1)"
    by (simp add: created_served [OF counting_serves] counting_created)
  with f show ?thesis by (simp add: main_eq build_def http_surroundings_def Let_def)
qed

theorem main_starts_system_witness:
  "\<exists>cl c0 c. main http_surroundings one_object (Some demo_flags) = Some (Running cl c0 30) \<and>
     grid (iClient c) \<noteq> Crashed \<and>
     sys_run ''infoblox'' (infoblox_ops cl) demo_api 30 \<lparr>ctlr = c, inbox = None\<rparr> [] \<lparr>ctlr = c, inbox = None\<rparr> \<and>
     keys (rsInformers (fst (oClient c))) = {''ns''}"
proof -
  obtain cl c0 where r: "main http_surroundings one_object (Some demo_flags) = Some (Running cl c0 30)"
    using demo_main_http by blast
  from main_conn [OF r] have c: "conn cl = http_connector counting_server"
    by (auto simp: http_surroundings_def)
  have "list_all (\<lambda>n. ParseCIDR (nwCidr n) \<noteq> None) [demo_net]" by code_simp
  then have nets: "\<forall>q v. list_all (\<lambda>n. ParseCIDR (nwCidr n) \<noteq> None) (fst (fst (GetNetworks counting_grid q v)))"
    by (simp add: counting_grid_def)
  have "'''' \<notin> set (fNamespaces demo_flags)" by (simp add: demo_flags_def)
  from main_starts_system [OF r c _ counting_serves nets this, of 0 demo_api] obtain c
    where "grid (iClient c) \<noteq> Crashed"
      and "sys_run ''infoblox'' (infoblox_ops cl) demo_api 30 \<lparr>ctlr = c, inbox = None\<rparr> [] \<lparr>ctlr = c, inbox = None\<rparr>"
      and "keys (rsInformers (fst (oClient c))) = (if fNamespaceLabel demo_flags \<noteq> '''' then {}
         else if fNamespaces demo_flags = [] then {''''} else set (fNamespaces demo_flags))"
    by (auto simp: Let_def http_surroundings_def)
  with r show ?thesis by (auto simp: demo_flags_def default_flags_def)
qed

end
