(* ===== verification/Call_Bounds.thy ===== *)
theory Call_Bounds
  imports Address_Ledger
begin

section \<open>How many calls a pass makes\<close>

text \<open>
  The log of \<open>traced\<close> counted: a pass reserves an address for each named group and for each spec of
  the others, and never in a loop of its own; the other calls are bounded by what the groups
  list and what the store holds. The counts are those of the code's loops, so they hold for every
  IPAM client, whatever it answers.
\<close>

subsection \<open>The bounds\<close>

definition addresses_due_key :: "IPGroups \<Rightarrow> GroupKey \<Rightarrow> nat" where
  "addresses_due_key groups gKey =
     (case fmlookup groups gKey of
        None \<Rightarrow> 0 | Some specs \<Rightarrow> (if gkName gKey = '''' then length specs else 1))"

definition addresses_due :: "IPGroups \<Rightarrow> nat" where
  "addresses_due groups = sum_list (map (addresses_due_key groups) (ascending () (fmdom groups)))"

definition listings_of :: "Spec list \<Rightarrow> nat" where
  "listings_of specs = sum_list (map (\<lambda>spec. length (Hosts spec)) specs)"

definition listings_key :: "IPGroups \<Rightarrow> GroupKey \<Rightarrow> nat" where
  "listings_key groups gKey = (case fmlookup groups gKey of None \<Rightarrow> 0 | Some specs \<Rightarrow> listings_of specs)"

definition listings :: "IPGroups \<Rightarrow> nat" where
  "listings groups = sum_list (map (listings_key groups) (ascending () (fmdom groups)))"

text \<open>The names an address can be asked about: its hosts, and the empty name of a failed promotion.\<close>

definition slots_at :: "Store \<Rightarrow> string \<Rightarrow> nat" where
  "slots_at st ip = (case fmlookup (Records st) ip of None \<Rightarrow> 0 | Some hosts \<Rightarrow> Suc (map_len hosts))"

definition slots :: "Store \<Rightarrow> nat" where
  "slots st = sum_list (map (slots_at st) (ascending () (fmdom (Records st))))"

subsection \<open>Counting calls\<close>

fun reserves :: "call \<Rightarrow> bool" where
  "reserves (CallGetNextAddr _ _ _) = True"
| "reserves _ = False"

fun releases :: "call \<Rightarrow> bool" where
  "releases (CallReleaseAddr _ _ _) = True"
| "releases _ = False"

fun creates :: "call \<Rightarrow> bool" where
  "creates (CallCreateA _ _ _ _) = True"
| "creates (CallCreateCNAME _ _ _) = True"
| "creates _ = False"

fun deletes :: "call \<Rightarrow> bool" where
  "deletes (CallDeleteA _ _ _ _) = True"
| "deletes (CallDeleteCNAME _ _ _ _) = True"
| "deletes (CallCNAMEToA _ _ _ _ _) = True"
| "deletes _ = False"

definition calls :: "(call \<Rightarrow> bool) \<Rightarrow> call list \<Rightarrow> nat" where
  "calls p l = length (filter p l)"

lemma calls_simps [simp]:
  "calls p [] = 0" "calls p (l @ l') = calls p l + calls p l'"
  "calls p (c # l) = (if p c then Suc (calls p l) else calls p l)"
  by (simp_all add: calls_def)

text \<open>What the log gains: exactly \<open>r\<close> reservations, and at most so many of the other calls.\<close>

definition spends :: "call list \<Rightarrow> call list \<Rightarrow> nat \<Rightarrow> nat \<Rightarrow> nat \<Rightarrow> nat \<Rightarrow> bool" where
  "spends l l' r k c d \<longleftrightarrow>
     calls reserves l' = calls reserves l + r \<and> calls releases l' \<le> calls releases l + k \<and>
     calls creates l' \<le> calls creates l + c \<and> calls deletes l' \<le> calls deletes l + d \<and>
     calls (\<lambda>x. x = CallGetRecords) l' = calls (\<lambda>x. x = CallGetRecords) l"

lemma spends_refl [simp, intro]: "spends l l 0 k c d"
  by (simp add: spends_def)

lemma spends_trans:
  "spends l l1 r k c d \<Longrightarrow> spends l1 l2 r' k' c' d' \<Longrightarrow> spends l l2 (r + r') (k + k') (c + c') (d + d')"
  by (simp add: spends_def)

subsection \<open>The first loop\<close>

abbreviation log_of :: "('w \<times> call list) alloc \<Rightarrow> call list" where
  "log_of s \<equiv> snd (lWorld s)"

lemma alloc_host_spends:
  assumes "alloc_host (traced cl) ord i h s = Some s'"
  shows "spends (log_of s) (log_of s') 0 0 1 0"
  using assms
  by (cases rule: alloc_host_cases) (auto simp: spends_def dest!: traced_CreateA traced_CreateCNAME)

lemma alloc_hosts_spends:
  "alloc_hosts (traced cl) ord i hs s = Some s' \<Longrightarrow> spends (log_of s) (log_of s') 0 0 (length hs) 0"
proof (induction hs arbitrary: i s)
  case (Cons h hs)
  then obtain s1 where s1: "alloc_host (traced cl) ord i h s = Some s1"
      and rest: "alloc_hosts (traced cl) ord (Suc i) hs s1 = Some s'" by (auto simp: bind_Some)
  from spends_trans [OF alloc_host_spends [OF s1] Cons.IH [OF rest]] show ?case by simp
qed simp

lemma reserve_spends:
  "reserve (traced cl) nv c s = Some s' \<Longrightarrow> spends (log_of s) (log_of s') 1 0 0 0"
  by (auto simp: reserve_def bind_Some spends_def dest!: traced_GetNextAddr)

lemma release_spends:
  "release_unused (traced cl) s = Some s' \<Longrightarrow> spends (log_of s) (log_of s') 0 1 0 0"
  by (auto simp: release_unused_def bind_Some spends_def dest!: traced_Release split: if_splits)

lemma alloc_spec_spends:
  assumes "alloc_spec (traced cl) ord spec s = Some s'"
  shows "spends (log_of s) (log_of s') (of_bool (lUniqueIP s)) (of_bool (lUniqueIP s)) (length (Hosts spec)) 0"
proof (cases "lUniqueIP s")
  case True
  with assms obtain r t where r: "reserve (traced cl) (Netview spec) (Cidr spec) s = Some r"
      and t: "alloc_hosts (traced cl) ord 0 (Hosts spec) r = Some t"
      and l: "(if lUniqueIP t then release_unused (traced cl) t else Some t) = Some s'"
    by (auto simp: alloc_spec_def bind_Some)
  have "lUniqueIP t" using alloc_hosts_unique [OF t] reserve_unique [OF r] True by simp
  with l have l': "release_unused (traced cl) t = Some s'" by simp
  from spends_trans [OF spends_trans [OF reserve_spends [OF r] alloc_hosts_spends [OF t]] release_spends [OF l']]
  show ?thesis using True by simp
next
  case False
  with assms have "alloc_hosts (traced cl) ord 0 (Hosts spec) s = Some s'"
    by (auto simp: alloc_spec_def bind_Some dest: alloc_hosts_unique split: if_splits)
  from alloc_hosts_spends [OF this] False show ?thesis by simp
qed

lemma alloc_specs_spends:
  "alloc_specs (traced cl) ord specs s = Some s' \<Longrightarrow>
     spends (log_of s) (log_of s') (of_bool (lUniqueIP s) * length specs) (of_bool (lUniqueIP s) * length specs)
       (listings_of specs) 0"
proof (induction specs arbitrary: s)
  case (Cons spec specs)
  then obtain s1 where s1: "alloc_spec (traced cl) ord spec s = Some s1"
      and rest: "alloc_specs (traced cl) ord specs s1 = Some s'" by (auto simp: bind_Some)
  from spends_trans [OF alloc_spec_spends [OF s1] Cons.IH [OF rest]] alloc_spec_unique [OF s1]
  show ?case by (simp add: listings_of_def algebra_simps)
qed (simp add: listings_of_def)

lemma alloc_group_spends:
  assumes "alloc_group (traced cl) ord gKey specs s = Some s'"
  defines "n \<equiv> (if gkName gKey = '''' then length specs else 1)"
  shows "spends (log_of s) (log_of s') n n (listings_of specs) 0"
proof (cases "gkName gKey = ''''")
  case True
  let ?s = "s\<lparr>lFirstHost := '''', lUniqueIP := True\<rparr>"
  from True assms(1) obtain t where t: "alloc_specs (traced cl) ord specs ?s = Some t"
      and l: "(if \<not> lUniqueIP t then release_unused (traced cl) t else Some t) = Some s'"
    by (auto simp: alloc_group_def bind_Some)
  have "lUniqueIP t" using alloc_specs_unique [OF t] by simp
  with l have "s' = t" by simp
  with alloc_specs_spends [OF t] True show ?thesis by (simp add: n_def)
next
  case False
  let ?s = "s\<lparr>lFirstHost := '''', lUniqueIP := False\<rparr>"
  from False assms(1) obtain r t where r: "reserve (traced cl) (gkNetview gKey) (gkCidr gKey) ?s = Some r"
      and t: "alloc_specs (traced cl) ord specs r = Some t"
      and l: "(if \<not> lUniqueIP t then release_unused (traced cl) t else Some t) = Some s'"
    by (auto simp: alloc_group_def bind_Some)
  have u: "\<not> lUniqueIP r" using reserve_unique [OF r] by simp
  then have l': "release_unused (traced cl) t = Some s'" using l alloc_specs_unique [OF t] by simp
  from spends_trans [OF spends_trans [OF reserve_spends [OF r] alloc_specs_spends [OF t]] release_spends [OF l']]
  show ?thesis using False u by (simp add: n_def)
qed

lemma alloc_groups_spends:
  "alloc_groups (traced cl) ord groups gKeys s = Some s' \<Longrightarrow>
     spends (log_of s) (log_of s') (sum_list (map (addresses_due_key groups) gKeys))
       (sum_list (map (addresses_due_key groups) gKeys)) (sum_list (map (listings_key groups) gKeys)) 0"
proof (induction gKeys arbitrary: s)
  case (Cons gKey gKeys)
  show ?case
  proof (cases "fmlookup groups gKey")
    case None
    with Cons show ?thesis by (simp add: addresses_due_key_def listings_key_def)
  next
    case (Some specs)
    with Cons.prems obtain s1 where s1: "alloc_group (traced cl) ord gKey specs s = Some s1"
        and rest: "alloc_groups (traced cl) ord groups gKeys s1 = Some s'" by (auto simp: bind_Some)
    from spends_trans [OF alloc_group_spends [OF s1] Cons.IH [OF rest]] Some show ?thesis
      by (simp add: addresses_due_key_def listings_key_def)
  qed
qed simp

text \<open>The order of the visits does not change a sum.\<close>

lemma sum_any_order:
  fixes f :: "'k::linorder \<Rightarrow> nat"
  assumes "fair_range ord"
  shows "sum_list (map f (ord x K)) = sum_list (map f (ascending y K))"
proof -
  have *: "distinct (ord x K)" "set (ord x K) = fset K" "distinct (ascending y K)" "set (ascending y K) = fset K"
    using assms fair_ascending by (simp_all add: fair_range_def)
  then show ?thesis by (simp add: sum_list_distinct_conv_sum_set)
qed

subsection \<open>The store the second loop starts from\<close>

lemma slots_sum: "slots st = (\<Sum>ip \<in> keys (Records st). slots_at st ip)"
  by (simp add: slots_def sum_list_distinct_conv_sum_set)

lemma map_len_upd: "map_len (fmupd k v m) = (if k \<in> keys m then map_len m else Suc (map_len m))"
  by (auto simp: map_len_def fcard_finsert_if finsert_absorb simp flip: fset_fmdom)

lemma slots_upd:
  "slots (st\<lparr>Records := fmupd ip hosts (Records st), Netviews := nvs, Cidrs := cs\<rparr>) + slots_at st ip =
     slots st + Suc (map_len hosts)"
proof -
  let ?st = "st\<lparr>Records := fmupd ip hosts (Records st), Netviews := nvs, Cidrs := cs\<rparr>"
  let ?K = "keys (Records st) - {ip}"
  have same: "slots_at ?st x = slots_at st x" if "x \<in> ?K" for x
    using that by (auto simp: slots_at_def)
  have fin: "finite ?K" by simp
  have "slots ?st = (\<Sum>x \<in> insert ip ?K. slots_at ?st x)" by (simp add: slots_sum)
  also have "\<dots> = Suc (map_len hosts) + (\<Sum>x \<in> ?K. slots_at st x)"
    using same by (subst sum.insert [OF fin]) (simp_all add: slots_at_def)
  finally have a: "slots ?st = Suc (map_len hosts) + (\<Sum>x \<in> ?K. slots_at st x)" .
  have "slots st = slots_at st ip + (\<Sum>x \<in> ?K. slots_at st x)"
  proof (cases "ip \<in> keys (Records st)")
    case True
    then show ?thesis unfolding slots_sum by (intro sum.remove) simp_all
  next
    case False
    then have "slots_at st ip = 0" by (simp add: slots_at_def keys_iff)
    with False show ?thesis by (simp add: slots_sum)
  qed
  with a show ?thesis by simp
qed

lemma slots_AddRecord: "slots (AddRecord st ip h t nv c) \<le> slots st + 2"
proof (cases "fmlookup (Records st) ip")
  case None
  with slots_upd [where st = st and ip = ip and hosts = "fmupd h t fmempty" and
      nvs = "fmupd ip nv (Netviews st)" and cs = "fmupd ip c (Cidrs st)"]
  show ?thesis by (simp add: AddRecord_def overwriteRecord_def slots_at_def map_len_upd)
next
  case (Some hosts)
  show ?thesis
  proof (cases "fmlookup hosts h")
    case None
    with Some slots_upd [where st = st and ip = ip and hosts = "fmupd h t hosts" and
      nvs = "fmupd ip nv (Netviews st)" and cs = "fmupd ip c (Cidrs st)"]
    show ?thesis by (simp add: AddRecord_def slots_at_def map_len_upd split: if_splits)
  qed (use Some in \<open>simp add: AddRecord_def\<close>)
qed

text \<open>The records grow with the requests for new ones.\<close>

definition grown :: "nat \<Rightarrow> ('w \<times> call list) alloc \<Rightarrow> bool" where
  "grown n s \<longleftrightarrow> slots (lStore s) \<le> n + 2 * calls creates (log_of s)"

lemma alloc_host_grown:
  assumes "alloc_host (traced cl) ord i h s = Some s'" and "grown n s"
  shows "grown n s'"
  using assms(1)
proof (cases rule: alloc_host_cases)
  case (granted w)
  show ?thesis using assms(2) traced_CreateA [OF granted(5)] slots_AddRecord [of "lStore s" "lCurAddr s" h recA "lNetview s" "lCidr s"]
    by (simp add: grown_def granted(6,7))
next
  case (cname w)
  show ?thesis using assms(2) traced_CreateCNAME [OF cname(5)] slots_AddRecord [of "lStore s" "lCurAddr s" h recCNAME "lNetview s" "lCidr s"]
    by (simp add: grown_def cname(6,7))
qed (use assms(2) in \<open>auto simp: grown_def dest!: traced_CreateA\<close>)

lemma alloc_groups_grown:
  assumes "alloc_groups (traced cl) ord groups gKeys s = Some s'" and "grown n s"
  shows "grown n s'"
proof (rule alloc_groups_rule [where P = "grown n" and Q = "grown n", OF _ _ _ _ assms])
  show "host_keeps (traced cl) ord (all_hosts groups) (grown n)"
    by (rule host_keepsI) (rule alloc_host_grown)
next
  fix nv c s s' assume "grown n s" and r: "reserve (traced cl) nv c s = Some s'"
  then show "grown n s'"
    using reserve_fields(1) [OF r] traced_GetNextAddr [OF reserve_fields(7) [OF r]] by (simp add: grown_def)
next
  fix s s' assume "grown n s" and "release_unused (traced cl) s = Some s'"
  then show "grown n s'"
    by (auto simp: release_unused_def bind_Some grown_def dest!: traced_Release split: if_splits)
qed (simp add: grown_def)

subsection \<open>The second loop\<close>

abbreviation swept_log :: "('w \<times> call list) sweep \<Rightarrow> call list" where
  "swept_log s \<equiv> snd (sWorld s)"

lemma sweep_host_spends:
  assumes "sweep_host (traced cl) G ip nv cidr h s = Some s'"
  shows "spends (swept_log s) (swept_log s') 0 0 0 1"
proof (cases "entry (sStore s) ip h = None \<or> h \<in> set G")
  case True
  with assms show ?thesis by (auto simp: sweep_host_def split: option.splits)
next
  case False
  then obtain t where t: "entry (sStore s) ip h = Some t" "h \<notin> set G" by auto
  show ?thesis
  proof (cases "t = recA")
    case True
    with t assms show ?thesis
      by (cases "removeElement (availHosts s) h = []")
         (auto simp: sweep_host_def Let_def bind_Some spends_def dest!: traced_DeleteA traced_CNAMEToA)
  next
    case False
    with t assms show ?thesis
      by (cases "t = recCNAME")
         (auto simp: sweep_host_def Let_def bind_Some spends_def dest!: traced_DeleteCNAME)
  qed
qed

lemma sweep_host_elsewhere:
  assumes "sweep_host cl G ip nv cidr h s = Some s'" and "y \<noteq> ip"
  shows "fmlookup (Records (sStore s')) y = fmlookup (Records (sStore s)) y"
  using assms
  by (auto simp: sweep_host_def Let_def bind_Some put_host_def split: option.splits if_splits)

lemma sweep_hosts_spends:
  "sweep_hosts (traced cl) G ip nv cidr hs s = Some s' \<Longrightarrow>
     spends (swept_log s) (swept_log s') 0 0 0 (length hs) \<and>
     (\<forall>y. y \<noteq> ip \<longrightarrow> fmlookup (Records (sStore s')) y = fmlookup (Records (sStore s)) y)"
proof (induction hs arbitrary: s)
  case (Cons h hs)
  then obtain s1 where s1: "sweep_host (traced cl) G ip nv cidr h s = Some s1"
      and rest: "sweep_hosts (traced cl) G ip nv cidr hs s1 = Some s'" by (auto simp: bind_Some)
  note IH = Cons.IH [OF rest]
  from spends_trans [OF sweep_host_spends [OF s1]] IH sweep_host_elsewhere [OF s1] show ?case
    by (metis add_0 length_Cons plus_1_eq_Suc)
qed simp

lemma sweep_ips_spends:
  assumes "fair_range ord"
  shows "sweep_ips (traced cl) ord G ips s = Some s' \<Longrightarrow> distinct ips \<Longrightarrow>
     spends (swept_log s) (swept_log s') 0 0 0 (sum_list (map (slots_at (sStore s)) ips))"
proof (induction ips arbitrary: s)
  case (Cons ip ips)
  show ?case
  proof (cases "fmlookup (Records (sStore s)) ip")
    case None
    with Cons show ?thesis by (simp add: slots_at_def)
  next
    case (Some hosts)
    let ?hs = "ord (HostsRange ip) (finsert '''' (fmdom hosts))"
    let ?s = "s\<lparr>availHosts := mapKeys (ord (MapKeys ip)) hosts\<rparr>"
    from Some Cons.prems(1) obtain s1 where
        s1: "sweep_hosts (traced cl) G ip (map_get (Netviews (sStore s)) ip) (map_get (Cidrs (sStore s)) ip) ?hs ?s = Some s1"
        and rest: "sweep_ips (traced cl) ord G ips s1 = Some s'" by (auto simp: bind_Some)
    note h = sweep_hosts_spends [OF s1]
    have "length ?hs = card (fset (finsert '''' (fmdom hosts)))"
      using assms by (metis distinct_card fair_range_def)
    also have "\<dots> \<le> slots_at (sStore s) ip"
      using Some card_insert_le_m1 [of "Suc (card (keys hosts))" "keys hosts" "''''"]
      by (simp add: slots_at_def map_len_def fcard.rep_eq)
    finally have len: "length ?hs \<le> slots_at (sStore s) ip" .
    have "map (slots_at (sStore s1)) ips = map (slots_at (sStore s)) ips"
      using h Cons.prems(2) by (auto simp: slots_at_def)
    with Cons.IH [OF rest] Cons.prems(2) have
      "spends (swept_log s1) (swept_log s') 0 0 0 (sum_list (map (slots_at (sStore s)) ips))" by simp
    with h len show ?thesis by (auto simp: spends_def)
  qed
qed simp

subsection \<open>The pass\<close>

text \<open>C16. A pass asks for no more than the groups and the store account for: it reserves exactly
  one address for each group with a name and one for each spec of the groups without, gives at
  most as many back, and asks for at most one record for each host a spec lists. Its deletions and
  promotions together are at most as many as the store held hosts and addresses when the pass
  began (\<open>slots\<close>: for each address its hosts and one more), plus two for each host a spec lists. It
  never reads the records. This holds for every IPAM client, whatever it answers, and every order
  of the loops.\<close>

theorem pass_call_bounds:
  assumes "processIPGroups (traced cl) gord ord groups st (w, []) = Some (st', (w', l))"
    and "fair_range gord" and "fair_range ord"
  shows "calls reserves l = addresses_due groups \<and> calls releases l \<le> addresses_due groups \<and>
    calls creates l \<le> listings groups \<and> calls deletes l \<le> slots st + 2 * listings groups \<and>
    CallGetRecords \<notin> set l"
proof -
  from assms(1) obtain a where
      a: "alloc_groups (traced cl) ord groups (gord GroupsRange (fmdom groups)) (alloc_start st (w, [])) = Some a"
      and s: "sweep_store (traced cl) ord (GetAllHosts groups (gord AllHostsRange (fmdom groups)))
        (lStore a) (lWorld a) = Some (st', (w', l))"
    by (auto simp: processIPGroups_def bind_Some)
  note order = sum_any_order [OF assms(2), where x = GroupsRange and y = "()" and K = "fmdom groups"]
  have first: "spends [] (log_of a) (addresses_due groups) (addresses_due groups) (listings groups) 0"
    using alloc_groups_spends [OF a] unfolding order
    by (simp add: addresses_due_def listings_def alloc_start_def)
  have "grown (slots st) a"
    by (rule alloc_groups_grown [OF a]) (simp add: grown_def alloc_start_def)
  with first have size: "slots (lStore a) \<le> slots st + 2 * listings groups" by (simp add: grown_def spends_def)
  from s obtain t where t: "sweep_ips (traced cl) ord (GetAllHosts groups (gord AllHostsRange (fmdom groups)))
      (ord RecordsRange (fmdom (Records (lStore a))))
      \<lparr>sStore = lStore a, sWorld = lWorld a, availHosts = [], toRemove = []\<rparr> = Some t"
      and l: "sWorld t = (w', l)"
    by (auto simp: sweep_store_def bind_Some)
  have "spends (log_of a) l 0 0 0 (slots (lStore a))"
    using sweep_ips_spends [OF assms(3) t] assms(3)
      sum_any_order [OF assms(3), where f = "slots_at (lStore a)" and x = RecordsRange and y = "()"]
    by (simp add: l slots_def fair_range_def)
  with first size have "spends [] l (addresses_due groups) (addresses_due groups) (listings groups)
      (slots st + 2 * listings groups)"
    by (auto simp: spends_def)
  then show ?thesis by (auto simp: spends_def calls_def filter_empty_conv)
qed

theorem pass_call_bounds_witness:
  "\<exists>st' w' l. processIPGroups (traced counter_client) ascending ascending demo_groups demo_store (0, []) =
       Some (st', (w', l)) \<and> calls reserves l = addresses_due demo_groups \<and> 0 < calls reserves l \<and>
       calls deletes l \<le> slots demo_store + 2 * listings demo_groups \<and> 0 < calls deletes l"
proof -
  let ?run = "processIPGroups (traced counter_client) ascending ascending demo_groups demo_store (0, [])"
  have "(case ?run of None \<Rightarrow> False | Some r \<Rightarrow> 0 < calls reserves (snd (snd r)) \<and> 0 < calls deletes (snd (snd r)))"
    by code_simp
  then obtain st' w' l where "?run = Some (st', (w', l))" "0 < calls reserves l" "0 < calls deletes l"
    by (auto split: option.splits)
  with pass_call_bounds [OF this(1) fair_ascending fair_ascending] show ?thesis by blast
qed

end
