(* ===== verification/Removal_Calls.thy ===== *)
theory Removal_Calls
  imports Controller_Run Address_Ledger
begin

section \<open>What a pass asks to have removed\<close>

text \<open>
  The second loop of \<open>processIPGroups\<close> in the log of \<open>traced\<close>: for every stored host that no group
  lists, a pass asks the IPAM system to remove its record, or to give its A record to another host
  of the address. From this follows what a tick does while the controller works with no groups.
\<close>

text \<open>The calls that concern the record of a host at an address.\<close>

fun removes :: "string \<Rightarrow> string \<Rightarrow> call \<Rightarrow> bool" where
  "removes h ip (CallDeleteA x y _ _) = (x = h \<and> y = ip)"
| "removes h ip (CallDeleteCNAME x y _ _) = (x = h \<and> y = ip)"
| "removes h ip (CallCNAMEToA _ x y _ _) = (x = h \<and> y = ip)"
| "removes h ip _ = False"








text \<open>And it asks for no other removal.\<close>

definition unlisted_only :: "string set \<Rightarrow> call list \<Rightarrow> bool" where
  "unlisted_only H l \<longleftrightarrow> (\<forall>c \<in> set l. \<forall>h ip. removes h ip c \<longrightarrow> h \<notin> H)"

lemma unlisted_only_snoc [simp]:
  "unlisted_only H (l @ [c]) \<longleftrightarrow> unlisted_only H l \<and> (\<forall>h ip. removes h ip c \<longrightarrow> h \<notin> H)"
  by (auto simp: unlisted_only_def)







subsection \<open>A tick without groups\<close>








end
