(* ===== verification/Restart.thy ===== *)
theory Restart
  imports Removal_Calls Infoblox_Properties
begin

section \<open>The first pass after a restart\<close>




subsection \<open>The references\<close>





subsection \<open>The deletion loop\<close>















subsection \<open>The pass\<close>







end
