(* ===== verification/Work_Ends.thy ===== *)
theory Work_Ends
  imports Sections_Deliver Call_Bounds
begin

section \<open>The work on a message ends\<close>

text \<open>
  From taking a message to its next select the controller works in steps of its own, with the
  client and edits of the objects in between. A measure on the phase bounds the number of its steps, and
  as long as no call panics the next one is possible: the controller always comes back.
\<close>

subsection \<open>A pass adds at most one address for each listed host\<close>

lemma addresses_AddRecord: "map_len (Records (AddRecord st ip h t nv c)) \<le> Suc (map_len (Records st))"
  by (auto simp: AddRecord_def overwriteRecord_def map_len_upd split: option.split)

definition addresses_grown :: "nat \<Rightarrow> ('w \<times> call list) alloc \<Rightarrow> bool" where
  "addresses_grown n s \<longleftrightarrow> map_len (Records (lStore s)) \<le> n + calls creates (log_of s)"

lemma alloc_host_addresses:
  assumes "alloc_host (traced cl) ord i h s = Some s'" and "addresses_grown n s"
  shows "addresses_grown n s'"
  using assms(1)
proof (cases rule: alloc_host_cases)
  case (granted w)
  show ?thesis using assms(2) traced_CreateA [OF granted(5)]
      addresses_AddRecord [of "lStore s" "lCurAddr s" h recA "lNetview s" "lCidr s"]
    by (simp add: addresses_grown_def granted(6,7))
next
  case (cname w)
  show ?thesis using assms(2) traced_CreateCNAME [OF cname(5)]
      addresses_AddRecord [of "lStore s" "lCurAddr s" h recCNAME "lNetview s" "lCidr s"]
    by (simp add: addresses_grown_def cname(6,7))
qed (use assms(2) in \<open>auto simp: addresses_grown_def dest!: traced_CreateA\<close>)

lemma alloc_groups_addresses:
  assumes "alloc_groups (traced cl) ord groups gKeys s = Some s'" and "addresses_grown n s"
  shows "addresses_grown n s'"
proof (rule alloc_groups_rule [where P = "addresses_grown n" and Q = "addresses_grown n", OF _ _ _ _ assms])
  show "host_keeps (traced cl) ord (all_hosts groups) (addresses_grown n)"
    by (rule host_keepsI) (rule alloc_host_addresses)
next
  fix nv c s s' assume "addresses_grown n s" and r: "reserve (traced cl) nv c s = Some s'"
  then show "addresses_grown n s'"
    using reserve_fields(1) [OF r] traced_GetNextAddr [OF reserve_fields(7) [OF r]] by (simp add: addresses_grown_def)
next
  fix s s' assume "addresses_grown n s" and "release_unused (traced cl) s = Some s'"
  then show "addresses_grown n s'"
    by (auto simp: release_unused_def bind_Some addresses_grown_def dest!: traced_Release split: if_splits)
qed (simp add: addresses_grown_def)

text \<open>The second loop adds none.\<close>

lemma keys_removeAt: "keys (Records (removeAt st host ip)) \<subseteq> keys (Records st)"
proof (cases "fmlookup (Records st) ip")
  case (Some hosts)
  then have "ip \<in> keys (Records st)" by (simp add: keys_iff)
  with Some show ?thesis by (auto simp: removeAt_def deleteRecord_def Let_def)
qed (simp add: removeAt_def)

lemma keys_DeleteHosts: "keys (Records (DeleteHosts ord st hosts)) \<subseteq> keys (Records st)"
proof (induction hosts arbitrary: ord st)
  case (Cons h hosts)
  have "keys (Records (deleteHost st h ips)) \<subseteq> keys (Records st)" for ips
    using keys_removeAt [of st h] by (simp add: deleteHost_cases split: option.split)
  with Cons.IH show ?case by fastforce
qed simp

lemma sweep_host_keys:
  assumes "sweep_host cl G ip nv cidr h s = Some s'"
  shows "fmdom (Records (sStore s')) = fmdom (Records (sStore s))"
proof -
  have "sStore s' = sStore s \<or> (\<exists>newA. put_host (sStore s) ip newA recA = Some (sStore s'))"
    using assms by (auto simp: sweep_host_def Let_def bind_Some split: option.splits if_splits)
  then show ?thesis using put_host_frame by metis
qed

lemma sweep_hosts_keys:
  "sweep_hosts cl G ip nv cidr hs s = Some s' \<Longrightarrow> fmdom (Records (sStore s')) = fmdom (Records (sStore s))"
  by (induction hs arbitrary: s) (auto simp: bind_Some dest: sweep_host_keys)

lemma sweep_ips_keys:
  "sweep_ips cl ord G ips s = Some s' \<Longrightarrow> fmdom (Records (sStore s')) = fmdom (Records (sStore s))"
  by (induction ips arbitrary: s) (auto simp: bind_Some dest!: sweep_hosts_keys split: option.splits)

lemma sweep_store_keys:
  assumes "sweep_store cl ord G st w = Some (st', w')"
  shows "keys (Records st') \<subseteq> keys (Records st)"
proof -
  let ?sweep = "sweep_ips cl ord G (ord RecordsRange (fmdom (Records st)))
      \<lparr>sStore = st, sWorld = w, availHosts = [], toRemove = []\<rparr>"
  from assms obtain s where s: "?sweep = Some s"
    by (cases ?sweep) (simp_all add: sweep_store_def)
  with assms have st': "st' = DeleteHosts (\<lambda>n. ord (DeleteRange n)) (sStore s) (toRemove s)"
    by (simp add: sweep_store_def)
  from sweep_ips_keys [OF s] have "fmdom (Records (sStore s)) = fmdom (Records st)" by simp
  then have "keys (Records (sStore s)) = keys (Records st)" by (metis fset_fmdom)
  with keys_DeleteHosts [of "\<lambda>n. ord (DeleteRange n)" "sStore s" "toRemove s"] show ?thesis
    unfolding st' by simp
qed

lemma pass_addresses:
  assumes "processIPGroups cl gord ord groups st w = Some (st', w')" and "fair_range gord"
  shows "map_len (Records st') \<le> map_len (Records st) + listings groups"
proof -
  have "map_option (map_prod id fst) (processIPGroups (traced cl) gord ord groups st (w, [])) = Some (st', w')"
    using erase_pass [of cl gord ord groups st "(w, [])"] assms(1) by simp
  then obtain r where run: "processIPGroups (traced cl) gord ord groups st (w, []) = Some r" and r: "st' = fst r"
    by auto
  from run obtain a where
      a: "alloc_groups (traced cl) ord groups (gord GroupsRange (fmdom groups)) (alloc_start st (w, [])) = Some a"
      and s: "sweep_store (traced cl) ord (GetAllHosts groups (gord AllHostsRange (fmdom groups)))
        (lStore a) (lWorld a) = Some (fst r, snd r)"
    by (auto simp: processIPGroups_def bind_Some)
  note order = sum_any_order [OF assms(2), where x = GroupsRange and y = "()" and K = "fmdom groups"]
  have "calls creates (log_of a) \<le> listings groups"
    using alloc_groups_spends [OF a] unfolding order by (simp add: spends_def alloc_start_def listings_def)
  moreover have "addresses_grown (map_len (Records st)) a"
    by (rule alloc_groups_addresses [OF a]) (simp add: addresses_grown_def alloc_start_def)
  moreover have "map_len (Records st') \<le> map_len (Records (lStore a))"
  proof -
    from s obtain w2 where "sweep_store (traced cl) ord (GetAllHosts groups (gord AllHostsRange (fmdom groups)))
        (lStore a) (lWorld a) = Some (st', w2)" by (metis r surj_pair fst_conv)
    from sweep_store_keys [OF this] show ?thesis by (simp add: map_len_def fcard.rep_eq card_mono)
  qed
  ultimately show ?thesis by (simp add: addresses_grown_def)
qed

subsection \<open>The measure\<close>

definition specs_key :: "IPGroups \<Rightarrow> GroupKey \<Rightarrow> nat" where
  "specs_key groups gKey = (case fmlookup groups gKey of None \<Rightarrow> 0 | Some specs \<Rightarrow> length specs)"

definition spec_total :: "IPGroups \<Rightarrow> nat" where
  "spec_total groups = sum_list (map (specs_key groups) (ascending () (fmdom groups)))"

definition work_left :: "nat \<Rightarrow> ('w, 's) sectioned \<Rightarrow> nat" where
  "work_left M sys =
     (case phase sys of
        Ready \<Rightarrow> 0
      | Taken groups \<Rightarrow> 2 + (map_len (Records (ctlrStore (sctlr sys))) + listings groups) * (2 + M)
      | Writing ips \<Rightarrow> 1 + length ips * (2 + M)
      | Updating ip specs ips \<Rightarrow> 2 + length specs + length ips * (2 + M))"

lemma own_work_simps [simp]:
  "own_work SPass" "own_work SLookUp" "own_work SUpdate" "own_work SNext" "own_work SDone"
  "\<not> own_work (SWatch kev)" "\<not> own_work SVerify" "\<not> own_work SEdit"
  by (simp_all add: own_work_def)

lemma work_left_phase:
  "ctlrStore (sctlr sys') = ctlrStore (sctlr sys) \<Longrightarrow> phase sys' = phase sys \<Longrightarrow> work_left M sys' = work_left M sys"
  by (simp add: work_left_def split: phase.split)

lemma look_up_length:
  assumes "getSpecsWithHosts groups hosts gKeys = Some specs"
  shows "length specs \<le> sum_list (map (specs_key groups) gKeys)"
proof -
  have "length specs \<le> length (range_concat (\<lambda>grp. grp) groups gKeys)"
    using assms by (auto simp: getSpecsWithHosts_eq split: if_splits)
  also have "\<dots> = sum_list (map (specs_key groups) gKeys)"
    by (induction gKeys) (simp_all add: specs_key_def split: option.split)
  finally show ?thesis .
qed

lemma work_decreases:
  assumes "sec_step ipam cl api v sys ev sys'" and "phase sys \<noteq> Ready"
    and "spec_total (ipGroup (sclient sys)) \<le> M"
  shows "work_left M sys' + of_bool (own_work ev) \<le> work_left M sys"
  using assms(1)
proof cases
  case (watch kev k ph)
  with assms(2) have "ph = phase sys" by (auto simp: take_message_def split: if_splits phase.splits)
  then show ?thesis using work_left_phase [of sys' sys M] by (simp add: watch)
next
  case (pass groups gord ord c)
  from pass(6) obtain st w where
      "processIPGroups cl gord ord groups (ctlrStore (sctlr sys)) (iClient (sctlr sys)) = Some (st, w)" "ctlrStore c = st"
    by (auto elim!: process_cases)
  with pass_addresses [OF this(1) pass(4)]
  have "map_len (Records (ctlrStore c)) \<le> map_len (Records (ctlrStore (sctlr sys))) + listings groups" by simp
  from mult_le_mono1 [OF this, of "2 + M"]
  have "map_len (Records (ctlrStore c)) * (2 + M) \<le> (map_len (Records (ctlrStore (sctlr sys))) + listings groups) * (2 + M)" .
  moreover have "length (ord WriteRange (fmdom (Records (ctlrStore c)))) = map_len (Records (ctlrStore c))"
    using pass(5) by (metis distinct_card fair_range_def fcard.rep_eq map_len_def)
  ultimately show ?thesis by (simp add: pass(1-3) work_left_def)
next
  case (look_up ip ips ord agord rec specs)
  have "length specs \<le> spec_total (ipGroup (sclient sys))"
    using look_up_length [OF look_up(7)] sum_any_order [OF look_up(5), where x = ip and y = "()"]
    by (simp add: spec_total_def)
  with assms(3) show ?thesis by (simp add: look_up(1-3) work_left_def)
next
  case (verify agord c)
  with assms(2) show ?thesis by simp
next
  case (edit s)
  then show ?thesis using work_left_phase [of sys' sys M] by simp
qed (simp_all add: work_left_def)

subsection \<open>Until the next select\<close>

text \<open>Steps of the whole system until the controller is in its select again; the client's groups never
  have more than \<open>M\<close> resources on the way.\<close>

inductive until_ready ::
    "string \<Rightarrow> 'w Client \<Rightarrow> 's kube_api \<Rightarrow> nat \<Rightarrow> nat \<Rightarrow> ('w, 's) sectioned \<Rightarrow> sec_event list \<Rightarrow> ('w, 's) sectioned \<Rightarrow> bool"
  for ipam cl api vInterval M sys where
  taken: "until_ready ipam cl api vInterval M sys [] sys"
| more: "until_ready ipam cl api vInterval M sys evs sys1 \<Longrightarrow> phase sys1 \<noteq> Ready \<Longrightarrow>
     spec_total (ipGroup (sclient sys1)) \<le> M \<Longrightarrow> sec_step ipam cl api vInterval sys1 ev sys2 \<Longrightarrow>
     until_ready ipam cl api vInterval M sys (evs @ [ev]) sys2"

lemma until_ready_measure:
  "until_ready ipam cl api v M sys evs sys' \<Longrightarrow> length (filter own_work evs) + work_left M sys' \<le> work_left M sys"
proof (induction rule: until_ready.induct)
  case (more evs sys1 ev sys2)
  from work_decreases [OF more.hyps(4,2,3)] more.IH show ?case by (cases "own_work ev") simp_all
qed simp

lemma until_ready_run:
  "until_ready ipam cl api v M sys evs sys' \<Longrightarrow> sec_run ipam cl api v past sys \<Longrightarrow> sec_run ipam cl api v (past @ evs) sys'"
proof (induction rule: until_ready.induct)
  case (more evs sys1 ev sys2)
  from sec_run.step [OF more.IH [OF more.prems] more.hyps(4)] show ?case by simp
qed simp

text \<open>Nothing of what the next step of the controller reads makes it panic.\<close>

definition no_panic_ahead :: "'s kube_api \<Rightarrow> ('w, 's) sectioned \<Rightarrow> bool" where
  "no_panic_ahead api sys \<longleftrightarrow>
     (case phase sys of
        Writing _ \<Rightarrow> \<forall>spec \<in> all_specs (ipGroup (sclient sys)). Hosts spec \<noteq> []
      | Updating ip specs _ \<Rightarrow> list_all (\<lambda>spec. annotate_spec api ip spec (sapi sys) \<noteq> None) specs
      | _ \<Rightarrow> True)"

lemma work_possible:
  assumes "client_contract cl" and "never_panics cl" and "sec_run ipam cl api v evs sys"
    and "phase sys \<noteq> Ready" and "no_panic_ahead api sys"
  shows "\<exists>ev sys'. own_work ev \<and> sec_step ipam cl api v sys ev sys'"
proof (cases "phase sys")
  case (Taken groups)
  have "store_wf (ctlrStore (sctlr sys))" using sec_run_store [OF assms(1,3)] by blast
  from pass_returns [OF assms(1) fair_ascending fair_ascending assms(2) this, of groups "iClient (sctlr sys)"]
  obtain c where "process cl ascending ascending ((sctlr sys)\<lparr>ipGroups := groups\<rparr>) = Some c"
    by (auto simp: process_def)
  from sec_step.pass [OF Taken fair_ascending fair_ascending this, of ipam api v] show ?thesis
    by (intro exI [of _ SPass]) auto
next
  case (Writing ips)
  show ?thesis
  proof (cases ips)
    case Nil
    with Writing sec_step.written [of sys ipam cl api v] show ?thesis
      by (intro exI [of _ SDone]) auto
  next
    case (Cons ip rest)
    have "ip \<in> keys (Records (ctlrStore (sctlr sys)))"
      using sec_run_writes [OF assms(3)] by (simp add: writes_stored_def Writing Cons)
    then obtain rec where rec: "fmlookup (Records (ctlrStore (sctlr sys))) ip = Some rec" by (auto simp: keys_iff)
    let ?groups = "ipGroup (sclient sys)"
    have "enumerates (ascending ip (fmdom ?groups)) ?groups" by (rule fair_enumerates [OF fair_ascending])
    from getSpecsWithHosts_panics [OF this] assms(5)
    obtain specs where "getSpecsWithHosts ?groups (mapKeys (ascending (WriteKeys ip)) rec) (ascending ip (fmdom ?groups)) = Some specs"
      by (fastforce simp: no_panic_ahead_def Writing)
    from sec_step.look_up [OF _ fair_ascending fair_ascending rec this, of rest ipam cl api v] Writing Cons
    show ?thesis by (intro exI [of _ SLookUp]) auto
  qed
next
  case (Updating ip specs ips)
  show ?thesis
  proof (cases specs)
    case Nil
    with Updating sec_step.next_ip [of sys ip ips ipam cl api v] show ?thesis
      by (intro exI [of _ SNext]) auto
  next
    case (Cons spec rest)
    with assms(5) Updating obtain s where "annotate_spec api ip spec (sapi sys) = Some s"
      by (auto simp: no_panic_ahead_def)
    with sec_step.update [of sys ip spec rest ips api s ipam cl v] Updating Cons show ?thesis
      by (intro exI [of _ SUpdate]) auto
  qed
qed (use assms(4) in simp)

text \<open>C11. The controller comes back from every message: however the handlers and workers of the client and edits of the
  objects interleave with its work, from taking a message to its next select it makes at most two
  steps, and for each address of its store and each host the message lists two more and one for
  each resource of the client; and whenever it is not in its select and what it reads next makes no
  call panic, its next step is possible. So it gets back to its select.\<close>

theorem work_ends:
  assumes "client_contract cl" and "never_panics cl"
    and "sec_run ipam cl api vInterval past sys" and "phase sys = Taken groups"
    and "until_ready ipam cl api vInterval M sys evs sys'"
  shows "length (filter own_work evs) \<le>
      2 + (map_len (Records (ctlrStore (sctlr sys))) + listings groups) * (2 + M) \<and>
    (phase sys' \<noteq> Ready \<longrightarrow> no_panic_ahead api sys' \<longrightarrow>
       (\<exists>ev sys''. own_work ev \<and> sec_step ipam cl api vInterval sys' ev sys''))"
  using until_ready_measure [OF assms(5)] work_possible [OF assms(1,2) until_ready_run [OF assms(5,3)]]
  by (simp add: work_left_def assms(4))

subsection \<open>An example\<close>

fun play_until ::
    "string \<Rightarrow> 'w Client \<Rightarrow> 's kube_api \<Rightarrow> kenv \<Rightarrow> nat \<Rightarrow> sec_event list \<Rightarrow> ('w, 's) sectioned \<Rightarrow> ('w, 's) sectioned option" where
  "play_until ipam cl api env M [] sys = Some sys"
| "play_until ipam cl api env M (ev # evs) sys =
     (case phase sys of Ready \<Rightarrow> None
      | _ \<Rightarrow> if spec_total (ipGroup (sclient sys)) \<le> M
            then sec_next ipam cl api env ev sys \<bind> play_until ipam cl api env M evs else None)"

lemma play_until_step:
  assumes "play_until ipam cl api env M (ev # evs) sys = Some sys'"
  obtains sys1 where "phase sys \<noteq> Ready" "spec_total (ipGroup (sclient sys)) \<le> M"
    "sec_next ipam cl api env ev sys = Some sys1" "play_until ipam cl api env M evs sys1 = Some sys'"
  using assms by (auto simp: bind_Some split: phase.splits if_splits)

lemma play_until_ready:
  "play_until ipam cl api env M evs sys1 = Some sys' \<Longrightarrow> until_ready ipam cl api v M sys past sys1 \<Longrightarrow>
     until_ready ipam cl api v M sys (past @ evs) sys'"
proof (induction evs arbitrary: past sys1)
  case (Cons ev evs)
  from Cons.prems(1) show ?case
  proof (rule play_until_step)
    fix sys2
    assume *: "phase sys1 \<noteq> Ready" "spec_total (ipGroup (sclient sys1)) \<le> M"
      "sec_next ipam cl api env ev sys1 = Some sys2" "play_until ipam cl api env M evs sys2 = Some sys'"
    from Cons.IH [OF *(4) until_ready.more [OF Cons.prems(2) *(1,2) sec_next_step [OF *(3)]]] show ?thesis by simp
  qed
qed simp

definition work_before :: "sec_event list" where
  "work_before = [SWatch EnterRs, SWatch (OnAddIng (KIngress (demo_ingress net8 [''a'', ''b'']))), SWatch GetRs, SWatch WorkRs]"

definition work_events :: "sec_event list" where
  "work_events = [SPass, SLookUp, SWatch (OnAddIng (KIngress (demo_ingress net8 [''a'', ''b'']))), SUpdate, SNext]"

lemma work_example_played:
  "case sec_play ''infoblox'' counter_client demo_api (demo_env Acked [demo_ingress net8 [''a'', ''b'']]) work_before sec_first of
     None \<Rightarrow> False
   | Some sys \<Rightarrow>
       (case phase sys of Taken groups \<Rightarrow> listings groups = 2 | _ \<Rightarrow> False) \<and> map_len (Records (ctlrStore (sctlr sys))) = 0 \<and>
       (case play_until ''infoblox'' counter_client demo_api (demo_env Acked [demo_ingress net8 [''a'', ''b'']]) 1 work_events sys of
          None \<Rightarrow> False
        | Some sys' \<Rightarrow> (case phase sys' of Writing [] \<Rightarrow> True | _ \<Rightarrow> False) \<and>
            list_all (\<lambda>spec. Hosts spec \<noteq> []) (concat (map snd (sorted_list_of_fmap (ipGroup (sclient sys'))))))"
  by code_simp

lemma all_specs_listed: "all_specs groups = set (concat (map snd (sorted_list_of_fmap groups)))"
proof -
  have "spec \<in> all_specs groups \<longleftrightarrow> (\<exists>entry \<in> set (sorted_list_of_fmap groups). spec \<in> set (snd entry))" for spec
    by (force simp: all_specs_iff sorted_list_of_fmap_def keys_iff)
  then show ?thesis by (intro set_eqI) simp
qed

theorem work_ends_witness:
  "\<exists>sys sys' ev sys''. until_ready ''infoblox'' counter_client demo_api 0 1 sys work_events sys' \<and>
     length (filter own_work work_events) \<le> 8 \<and> own_work ev \<and> sec_step ''infoblox'' counter_client demo_api 0 sys' ev sys''"
proof -
  let ?env = "demo_env Acked [demo_ingress net8 [''a'', ''b'']]"
  obtain sys groups sys' where before: "sec_play ''infoblox'' counter_client demo_api ?env work_before sec_first = Some sys"
    and taken: "phase sys = Taken groups" "listings groups = 2" "map_len (Records (ctlrStore (sctlr sys))) = 0"
    and after: "play_until ''infoblox'' counter_client demo_api ?env 1 work_events sys = Some sys'"
    and ready: "phase sys' = Writing []"
    and hosts: "list_all (\<lambda>spec. Hosts spec \<noteq> []) (concat (map snd (sorted_list_of_fmap (ipGroup (sclient sys')))))"
    using work_example_played by (auto split: option.splits phase.splits list.splits)
  note run = sec_play_run [OF before sec_first_run, of 0, simplified]
  note till = play_until_ready [OF after until_ready.taken, of 0, simplified]
  have "no_panic_ahead demo_api sys'"
    using hosts by (simp add: no_panic_ahead_def ready all_specs_listed list_all_iff)
  with work_ends [OF counter_client_contract counter_client_never_panics run taken(1) till] ready taken(2,3) till
  show ?thesis by fastforce
qed

end
