(* ===== verification/Connector_Panics.thy ===== *)
theory Connector_Panics
  imports Http_Infoblox
begin

section \<open>Where the connector ends the process\<close>

text \<open>
  Two things make the connector panic: an attribute of the grid whose value is neither a number nor a
  string, on any object of an answer, and a URL that \<^verbatim>\<open>http.NewRequest\<close> refuses. What follows for the client.
\<close>

lemma dec_EA_loop_crash:
  assumes "k \<in> set ks" and "dec_eaval (member k m \<bind> inner_map \<bind> member ''value'') = None"
  shows "snd (dec_EA_loop m ks ea0 ok) = Crash"
  using assms by (induction ks arbitrary: ea0 ok) (auto split: option.split)

definition attrs_json :: "(string \<times> json) list \<Rightarrow> json" where
  "attrs_json attrs = JObj (map (\<lambda>(k, v). (k, JObj [(''value'', v)])) attrs)"

fun plain_value :: "json \<Rightarrow> bool" where
  "plain_value (JNum _) = True"
| "plain_value (JStr _) = True"
| "plain_value _ = False"

lemma dec_EA_crash:
  assumes "fair_range (\<lambda>_ :: unit. eord)" and "(k, v) \<in> set attrs" and "distinct (map fst attrs)"
    and "\<not> plain_value v"
  shows "snd (dec_EA eord (attrs_json attrs) old) = Crash"
proof -
  let ?m = "map (\<lambda>(k, v). (k, JObj [(''value'', v)])) attrs"
  have names: "map fst ?m = map fst attrs" by (simp add: case_prod_beta comp_def)
  have "(k, JObj [(''value'', v)]) \<in> set (rev ?m)" using assms(2) by force
  moreover have "distinct (map fst (rev ?m))" using assms(3) unfolding rev_map [symmetric] names by simp
  ultimately have "member k ?m = Some (JObj [(''value'', v)])" by (simp add: member_def)
  then have "dec_eaval (member k ?m \<bind> inner_map \<bind> member ''value'') = None"
    using assms(4) by (cases v) (simp_all add: member_def)
  moreover have "k \<in> set (eord (fset_of_list (map fst ?m)))"
    using assms(1,2) names by (force simp: fair_range_def fset_of_list.rep_eq)
  ultimately have "snd (dec_EA_loop ?m (eord (fset_of_list (map fst ?m))) fmempty True) = Crash"
    by (intro dec_EA_loop_crash)
  then show ?thesis by (auto simp: dec_EA_def attrs_json_def)
qed

text \<open>A crash in one element is the outcome of the list, whatever the other elements are.\<close>

lemma dec_elems_crash:
  assumes "\<And>x. x \<in> set xs \<Longrightarrow> snd (dec (enc x) zero) = Fine" and "snd (dec j zero) = Crash"
  shows "snd (dec_elems dec zero (map enc xs @ j # js)) = Crash"
  using assms(1)
proof (induction xs)
  case Nil
  with assms(2) show ?case by (cases "dec j zero") simp
next
  case (Cons x xs)
  then have "snd (dec (enc x) zero) = Fine" "snd (dec_elems dec zero (map enc xs @ j # js)) = Crash" by auto
  then show ?case by (cases "dec (enc x) zero"; cases "dec_elems dec zero (map enc xs @ j # js)") simp
qed

definition zone_with :: "ZoneAuth \<Rightarrow> (string \<times> json) list \<Rightarrow> json" where
  "zone_with z attrs =
     JObj (omit_empty ''_ref'' (zRef z) @ omit_empty ''fqdn'' (zFqdn z) @ omit_empty ''view'' (zView z) @
           [(''extattrs'', attrs_json attrs)])"

lemma dec_zone_with:
  assumes "snd (dec_EA eord (attrs_json attrs) fmempty) = Crash"
  shows "snd (dec_struct (field_Zone eord) (zone_with z attrs) zero_Zone) = Crash"
proof -
  have "fold_name ''extattrs'' = ''extattrs''" by code_simp
  then have "snd (dec_members (field_Zone eord) [(''extattrs'', attrs_json attrs)] r) = Crash" if "zEa r = fmempty" for r
    using assms that by (auto simp: field_Zone_def into_def and_then_def split: prod.split outcome.split)
  then show ?thesis
    by (simp add: zone_with_def zero_Zone_def member_Zone_zRef member_Zone_zFqdn member_Zone_zView del: dec_members.simps)
qed

lemma GetZones_crash:
  assumes "request w GET (Some obj) '''' = Some rq" and "reqMethod rq = toMethod GET"
    and "text_reply False (fst (doRequest w rq h)) body" and "body \<noteq> ''''"
    and "snd (Unmarshal_list (field_Zone (attrOrder w)) zero_Zone body) = Crash"
  shows "GetZones (http_connector w) obj (Alive h) = (([], ended), Crashed)"
proof -
  have "makeRequest w GET (Some obj) '''' h = Some ((body, None), snd (doRequest w rq h))"
    by (rule make_text [OF assms(1,2)]) (simp_all add: assms(3))
  then have "wapi_Get w (field_Zone (attrOrder w)) zero_Zone obj '''' h = None"
    using assms(4,5) by (auto simp: wapi_Get_def split: prod.split)
  then show ?thesis by (simp add: http_connector_def run_alive_def)
qed

text \<open>C25. One attribute the library does not expect stops the controller: when a zone in the grid's answer to the first
  request of GetRecords has an attribute whose value is a list, an object, a boolean or null (what Infoblox sends
  for an attribute with several values), the decoder panics, in whatever order the attributes are visited and whatever
  the other zones and attributes are; no record has been read, the process is gone, and nothing that the client
  would send after that reaches the grid.\<close>

theorem foreign_attribute_ends_process:
  assumes "fair_range (\<lambda>_ :: unit. attrOrder w)" and "conn cl = http_connector w" and "grid s = Alive h"
    and "request w GET (Some (ObjZone zero_Zone)) '''' = Some rq"
    and "text_reply False (fst (doRequest w rq h)) (write_json (JArr (map json_Zone zs @ zone_with z attrs # rest)))"
    and "list_all Zone_ok zs" and "json_ok (zone_with z attrs)" and "list_all json_ok rest"
    and "(k, v) \<in> set attrs" and "distinct (map fst attrs)" and "\<not> plain_value v"
  shows "GetRecords cl s = Some (NewStore, s\<lparr>grid := Crashed\<rparr>) \<and>
    GetNextAddr cl nv c (s\<lparr>grid := Crashed\<rparr>) = ('''', s\<lparr>grid := Crashed\<rparr>) \<and>
    CreateARecord cl host ip nv (s\<lparr>grid := Crashed\<rparr>) = (False, s\<lparr>grid := Crashed\<rparr>)"
proof -
  let ?j = "JArr (map json_Zone zs @ zone_with z attrs # rest)"
  have ok: "json_ok ?j"
    using assms(6-8) json_of_ok [of "ObjZone _"] by (auto simp: list_all_iff)
  have "snd (dec_EA (attrOrder w) (attrs_json attrs) fmempty) = Crash"
    by (rule dec_EA_crash [OF assms(1,9-11)])
  note bad = dec_zone_with [OF this]
  have "snd (dec_struct (field_Zone (attrOrder w)) (json_Zone x) zero_Zone) = Fine" if "x \<in> set zs" for x
    using dec_json_Zone [OF assms(1), of x] that assms(6) by (simp add: list_all_iff Zone_ok_def)
  note crash = dec_elems_crash [of zs "dec_struct (field_Zone (attrOrder w))" json_Zone, OF this bad]
  have "snd (Unmarshal_list (field_Zone (attrOrder w)) zero_Zone (write_json ?j)) = Crash"
    by (simp add: Unmarshal_list_def Unmarshal_def parse_write [OF ok] crash del: write_json.simps)
  moreover have "reqMethod rq = toMethod GET"
    using assms(4) by (auto simp: request_def BuildRequest_def Let_def split: if_splits)
  ultimately have zones: "GetZones (http_connector w) (ObjZone zero_Zone) (Alive h) = (([], ended), Crashed)"
    using GetZones_crash [OF assms(4) _ assms(5) write_json_nonempty [OF ok]] by blast
  have "GetRecords cl s = Some (NewStore, s\<lparr>grid := Crashed\<rparr>)"
    using zones by (simp add: GetRecords_def Let_def assms(2,3) zero_Zone_def [symmetric] ended_def)
  moreover have "GetNextAddr cl nv c (s\<lparr>grid := Crashed\<rparr>) = ('''', s\<lparr>grid := Crashed\<rparr>)"
    by (simp add: GetNextAddr_def AllocateIP_def Let_def assms(2) http_connector_def run_alive_def ended_def)
  moreover have "CreateARecord cl host ip nv (s\<lparr>grid := Crashed\<rparr>) = (False, s\<lparr>grid := Crashed\<rparr>)"
    by (simp add: CreateARecord_def getARecord_def Let_def assms(2) http_connector_def run_alive_def ended_def)
  ultimately show ?thesis by blast
qed

text \<open>A grid with one zone that has the list-valued attribute Sites beside the plain attribute of the controller.\<close>

definition listed_attrs :: "(string \<times> json) list" where
  "listed_attrs = [(''F5-IPAM'', JStr ''managed''), (''Sites'', JArr [JStr ''north'', JStr ''south''])]"

definition listing_server :: "nat wapi" where
  "listing_server = counting_server\<lparr>doRequest := (\<lambda>rq v.
     (Inr \<lparr>respCode = 200, respStatus = ''OK'', respBody = write_json (JArr [json_Zone demo_zone, zone_with demo_zone listed_attrs]),
           respReadErr = None\<rparr>, Suc v))\<rparr>"

theorem foreign_attribute_ends_process_witness:
  "GetRecords (over_http listing_server counting_client) \<lparr>recordRef = fmempty, grid = Alive 0\<rparr> =
     Some (NewStore, \<lparr>recordRef = fmempty, grid = Crashed\<rparr>)"
proof -
  let ?s = "\<lparr>recordRef = fmempty, grid = Alive 0\<rparr> :: nat wapi_process ibox"
  have fair: "fair_range (\<lambda>_ :: unit. attrOrder listing_server)"
    using fair_ascending by (simp add: listing_server_def counting_server_def fair_range_def)
  have "\<exists>rq. request listing_server GET (Some (ObjZone zero_Zone)) '''' = Some rq"
    by (simp add: request_def BuildRequest_def Let_def listing_server_def counting_server_def)
  then obtain rq where rq: "request listing_server GET (Some (ObjZone zero_Zone)) '''' = Some rq" ..
  have reply: "text_reply False (fst (doRequest listing_server rq 0))
      (write_json (JArr (map json_Zone [demo_zone] @ zone_with demo_zone listed_attrs # [])))"
    by (simp add: text_reply_def listing_server_def)
  have ok: "json_ok (zone_with demo_zone listed_attrs)" by code_simp
  have attr: "(''Sites'', JArr [JStr ''north'', JStr ''south'']) \<in> set listed_attrs" "distinct (map fst listed_attrs)"
      "\<not> plain_value (JArr [JStr ''north'', JStr ''south''])" by code_simp+
  from foreign_attribute_ends_process [OF fair over_http_fields(1) _ rq reply _ ok _ attr, of ?s counting_client]
  show ?thesis by (simp add: demo_objects_ok)
qed

text \<open>A URL that \<^verbatim>\<open>http.NewRequest\<close> refuses, with the first request already: the error of building it is
  overwritten, and the nil request is sent.\<close>

lemma refused_url_ends_process:
  assumes "\<not> acceptsUrl w (BuildUrl (wapiConfig w) GET ''userprofile'' '''' [''name''])"
  shows "snd (NewInfobloxClient (http_connector w) cmp (Alive h)) = Crashed"
proof -
  have "request w GET (Some (ObjUser zero_User)) '''' = None"
    using assms by (simp add: request_def BuildRequest_def Let_def)
  then have "Validate (http_connector w) (Alive h) = (ended, Crashed)"
    by (simp add: http_connector_def run_alive_def validateConnector_def wapi_Get_def makeRequest_def SendRequest_def)
  then show ?thesis by (simp add: NewInfobloxClient_def ended_def)
qed

end
