(* ===== verification/Http_System.thy ===== *)
theory Http_System
  imports Http_Infoblox World_Run
begin

section \<open>The system over HTTP\<close>

text \<open>
  The client over HTTP in the whole system: its start and its runs, by World_Run.
\<close>

lemma play_path:
  "sec_play ipam cl api env evs sys1 = Some sys2 \<Longrightarrow> sec_path ipam cl api v sys past sys1 \<Longrightarrow>
     sec_path ipam cl api v sys (past @ evs) sys2"
proof (induction ipam cl api env evs sys1 arbitrary: past rule: sec_play.induct)
  case (2 ipam cl api env ev evs sys1)
  from "2.prems"(1) obtain sys3 where n: "sec_next ipam cl api env ev sys1 = Some sys3"
      and rest: "sec_play ipam cl api env evs sys3 = Some sys2"
    by (auto simp: bind_Some)
  from "2.IH" [OF n rest sec_path.onward [OF "2.prems"(2) sec_next_step [OF n]]] show ?case by simp
qed simp

text \<open>C12. What is proved of the system over a grid holds of the system over HTTP: when the server answers the
  requests as the grid would, the client that NewInfobloxClient sets up over the connector of the
  library has the same outcome, with the same state, as on the grid itself; the controller starts with the same store;
  and from then on the two systems can do exactly the same, each step of the handlers, workers, passes, ticks and
  updates leading to the same groups, store, objects, grid and references. So the connector neither loses an answer nor ends the
  process.\<close>

theorem http_refines_grid:
  assumes "serves w g" and "NewInfobloxClient g cmp v = (Inr (cl, s), v')"
  shows "NewInfobloxClient (http_connector w) cmp (Alive v) = (Inr (over_http w cl, alive s), Alive v') \<and>
    Run_start (infoblox_ops (over_http w cl)) startOrch (NewController orch (alive s)) =
      map_option (ctlr_map alive) (Run_start (infoblox_ops cl) startOrch (NewController orch s)) \<and>
    (sec_path ipam (infoblox_ops (over_http w cl)) api vInterval (system_map alive sys) evs d \<longleftrightarrow>
      (\<exists>sys'. sec_path ipam (infoblox_ops cl) api vInterval sys evs sys' \<and> d = system_map alive sys'))"
proof (intro conjI)
  have "serves w (conn cl)" using assms(1) created_conn [OF assms(2)] by simp
  note over = infoblox_map [OF this]
  show "NewInfobloxClient (http_connector w) cmp (Alive v) = (Inr (over_http w cl, alive s), Alive v')"
    by (simp add: created_served [OF assms(1)] assms(2))
  show "Run_start (infoblox_ops (over_http w cl)) startOrch (NewController orch (alive s)) =
      map_option (ctlr_map alive) (Run_start (infoblox_ops cl) startOrch (NewController orch s))"
    unfolding ctlr_map_new by (rule world_map.start_map [OF over])
  show "sec_path ipam (infoblox_ops (over_http w cl)) api vInterval (system_map alive sys) evs d \<longleftrightarrow>
      (\<exists>sys'. sec_path ipam (infoblox_ops cl) api vInterval sys evs sys' \<and> d = system_map alive sys')"
    by (rule world_map.path_map [OF over])
qed

subsection \<open>An example\<close>

definition http_events :: "sec_event list" where
  "http_events = [SWatch EnterRs, SWatch (OnAddIng (KIngress (demo_ingress net8 [''a'', ''b'']))),
     SWatch GetRs, SWatch WorkRs, SPass, SLookUp, SUpdate]"

definition starts :: "K8sClient \<times> 's \<Rightarrow> K8sClient \<times> 's" where
  "starts = (\<lambda>(k, s). (Run_client k, s))"

definition counting_start :: "(nat ibox, K8sClient \<times> (resourceKey \<Rightarrow> ObjectMeta option)) Controller" where
  "counting_start = NewController (NewKubernetesClient Some all_namespaces, one_object) \<lparr>recordRef = fmempty, grid = 1\<rparr>"

lemma http_example_played:
  "case Run_start (infoblox_ops counting_client) starts counting_start of None \<Rightarrow> False
   | Some c \<Rightarrow>
       (case sec_play ''infoblox'' (infoblox_ops counting_client) demo_api
          (demo_env Acked [demo_ingress net8 [''a'', ''b'']]) http_events \<lparr>sctlr = c, phase = Ready\<rparr> of
          None \<Rightarrow> False
        | Some sys \<Rightarrow> entry (ctlrStore (sctlr sys)) ''10.0.0.7'' ''a'' = Some ''A'' \<and>
            sapi sys web_key = Some (with_ip ''10.0.0.7'' (demo_meta ''web'' net8)) \<and> 1 < grid (iClient (sctlr sys)))"
  by code_simp

theorem http_refines_grid_witness:
  "\<exists>cl s c d. NewInfobloxClient (http_connector counting_server) ''k8s'' (Alive 0) = (Inr (cl, s), Alive 1) \<and>
     Run_start (infoblox_ops cl) starts (NewController (NewKubernetesClient Some all_namespaces, one_object) s) = Some c \<and>
     sec_path ''infoblox'' (infoblox_ops cl) demo_api 0 \<lparr>sctlr = c, phase = Ready\<rparr> http_events d \<and>
     sapi d web_key = Some (with_ip ''10.0.0.7'' (demo_meta ''web'' net8))"
proof -
  obtain c sys where c: "Run_start (infoblox_ops counting_client) starts counting_start = Some c"
    and p: "sec_play ''infoblox'' (infoblox_ops counting_client) demo_api
      (demo_env Acked [demo_ingress net8 [''a'', ''b'']]) http_events \<lparr>sctlr = c, phase = Ready\<rparr> = Some sys"
    and ip: "sapi sys web_key = Some (with_ip ''10.0.0.7'' (demo_meta ''web'' net8))"
    using http_example_played by (auto split: option.splits)
  note path = play_path [OF p sec_path.here, of 0, simplified]
  note over = http_refines_grid [OF counting_serves counting_created, of starts "(NewKubernetesClient Some all_namespaces, one_object)"
      "''infoblox''" demo_api 0 "\<lparr>sctlr = c, phase = Ready\<rparr>" http_events "system_map alive sys"]
  show ?thesis
    by (rule exI [of _ "over_http counting_server counting_client"], rule exI [of _ "alive \<lparr>recordRef = fmempty, grid = 1\<rparr>"],
        rule exI [of _ "ctlr_map alive c"], rule exI [of _ "system_map alive sys"])
      (use over path ip c in \<open>auto simp: counting_start_def system_map_updates\<close>)
qed

end
