(* ===== verification/Spec2Isabelle.thy ===== *)
theory Spec2Isabelle
  imports Prelude Store IP_Groups Manager_Client Controller Controller_Alloc Controller_Sweep
    One_A_Record Fresh_Addresses Strict_Client Controller_Pass Address_Ledger Allocation_Properties
    Controller_Run Net_IP Net_Prefix Object_Manager Infoblox Infoblox_Laws Infoblox_Properties
    Data_Properties Work_Queue Kube_Client Kube_Run Kube_Prune Kube_Properties Kube_Annotate
    Kube_Namespaces Infoblox_Pool Whole_System System_Properties Kube_Cache Kube_Complete
    Thread_Safe_Store Informer_Cache System_Sections Sections_Deliver Groups_Mutex Cluster_System
    Request_Builder Logging Start_Up World_Map Call_Bounds Removal_Calls Restart Work_Ends Json_Text Json_Laws
    Wapi_Json Wapi_Laws Connector Connector_Grid Http_Infoblox Connector_Panics World_Run Http_System
begin

text \<open>
  f5-ipam-ctlr watches ConfigMaps and Ingresses of a Kubernetes cluster, allocates an address in an
  IPAM system (Infoblox) for the host names they carry, keeps the DNS records of those hosts, and
  writes the address back to the resources as an annotation. This development models the program
  below src/pkg in HOL, translated from the Go source, and proves what makes it correct, together
  with the places where it is not.

  \<^bold>\<open>Parts and theories.\<close>

  Prelude: generic facts on lists and finite maps, the orders in which Go ranges over a map
  (\<open>enumerates\<close>, \<open>fair_range\<close>: a range loop visits every key once, in an order that is an argument
  of the model), and \<open>contains\<close>.

  Store (pkg/store/store.go): the in-memory record store, three maps indexed by address. \<open>entry\<close>,
  \<open>stored\<close> and \<open>stored_at\<close> read it; \<open>store_wf\<close> is its invariant.

  IP_Groups (pkg/orchestration/types.go, orchestration.go): the resources, grouped; the operations
  of \<open>IPGroup\<close> with their loops over slices and maps. \<open>hosts_of\<close> abstracts the groups to a partial
  map from group and resource to host lists, over which the operations are specified.

  Manager_Client (pkg/manager/manager.go): the IPAM interface as a record of functions on a state
  of unknown type, and the locale \<open>ipam_client\<close> with what the controller relies on.

  Controller, Controller_Run (pkg/controller/controller.go): \<open>processIPGroups\<close> in its two phases,
  allocation and sweep; \<open>refreshStore\<close>, \<open>writeIPHosts\<close> and the select loop as a step relation.
  Controller_Alloc, Controller_Sweep, Controller_Pass hold the lemmas of the phases and of a whole
  pass; Strict_Client wraps a client so that a refused A record ends the pass; Address_Ledger wraps
  one so that every reservation and release is logged; One_A_Record and Fresh_Addresses carry the
  invariant of a pass; Allocation_Properties and Data_Properties hold properties. Call_Bounds counts
  the calls of a pass in the log, and Removal_Calls says which removals are among them, with what a tick without
  groups does. In Controller_Pass, \<open>sure\<close> is the part of a client's behaviour in which every call succeeds: a run over it
  is a run over the client in which no reservation, A record or promotion failed. World_Map is the contract of a client that stands in the
  place of another: a pass over the one is the pass over the other, up to a map of their states; World_Run
  has the same for the steps of the whole system.

  Object_Manager (the vendored infoblox-go-client: objects.go, object_manager.go, connector.go), Net_IP
  and Net_Prefix (what the code uses of Go's net package), Infoblox (pkg/manager/infoblox.go): the
  Infoblox client over a connector whose answers are arbitrary. Infoblox_Laws interprets
  \<open>ipam_client\<close> on it; Infoblox_Properties has its properties, and Infoblox_Pool shows that it hands out
  each address once when the grid reserves as its API documents (\<open>grid_pool\<close>). Restart follows the lost references
  of a restarted process through its first pass.

  Work_Queue (the vendored client-go work queue): the queue between informers and workers; its
  locale states the queue over two sets.

  Kube_Client, Kube_Run (pkg/orchestration/kubernetes.go): the Kubernetes client: constructor,
  informer bookkeeping, event handlers, the two workers in the parts that other goroutines may
  come between, synchronisation, the write to the controller; and runs, in which these come in any
  order, the informer's listing of namespaces with its nil selector included. Kube_Prune treats the loop that drops hosts, Kube_Properties the client's properties,
  Kube_Namespaces the namespaces that appear and leave, Kube_Annotate \<open>AnnotateResources\<close> and its
  composition with the controller's \<open>writeIPHosts\<close>. Kube_Cache adds the caches of the informers: runs
  in which the caches change first, the handlers see the changes later, and the worker's read of a
  cache is a step before its action; Kube_Complete shows over them that no change is lost; these runs and those of Cluster_System are
  of a client without a namespace label, which has no events of namespaces.
  Thread_Safe_Store and Informer_Cache (the vendored client-go: thread_safe_store.go, shared_informer.go)
  model the caches themselves, the locale \<open>indexed_store\<close> what they promise, and show that they
  behave as Kube_Cache assumes.

  Request_Builder: the URLs and requests of the Infoblox client, with the escaping of Go's net/url.
  Json_Text and Json_Laws: what the library uses of Go's encoding/json, writing and reading; the reader has
  the length of the text as its fuel, which \<open>parse_json_fuel\<close> shows to be enough. Wapi_Json and Wapi_Laws
  (objects.go): the objects of the grid as JSON, with the library's own marshalling of attributes. Connector
  (connector.go): the requests, their answers and the four operations, over what HTTP answers. Connector_Grid says what
  a server does that serves a grid (\<open>serves\<close>) and shows that over it the connector is that grid; Http_Infoblox
  takes this to the methods of the client and, by World_Map, to a pass of the controller, Http_System to the
  runs of the whole system, and Connector_Panics shows where the connector ends the process.

  Whole_System: the client and the controller connected by the channel, with one transition
  relation over both; System_Properties has what holds in all its runs and the way of an Ingress
  from the work queue to its annotation. In Whole_System the controller handles a message in one step;
  System_Sections takes its pass, its look-ups and its updates of objects as steps of their own, which
  the client's may come between, and Sections_Deliver shows that these can make up the one step. In
  Groups_Mutex the client's wait for the controller is a state in which it has the mutex of the
  groups. Cluster_System puts the caches, the client and the finer steps of the controller together.
  Work_Ends bounds the steps the controller takes from one message to the next select.

  Logging (pkg/vlogger): levels, registered loggers, filtering, and how a fatal message ends the
  process. Start_Up (main.go): the flags with their defaults and checks, the credentials, and the
  building of the two clients, up to a state from which the runs of Whole_System go, and the stop
  of the client when a signal ends them; the connector is a function of the configuration there, and that of
  Connector is one.

  This theory composes the controller with the Infoblox client.

  \<^bold>\<open>Conventions.\<close> A Go function that may panic returns an option, and None is the panic; an error
  value is a string option (None: no error) or a boolean where the text is only logged. State is
  passed explicitly: the world of the IPAM client, the API server, the client record. Go maps are
  finite maps (\<open>fmap\<close>), sets are maps to units or sets, slices are lists; a loop over a slice
  that is changed in place (\<open>prune_loop\<close>) has the array as an argument of its own. Every range over a
  map takes the visiting order as an argument, and the theorems hold for every fair order.
  All loops of the program are structural recursions over what they visit, and only the reader of JSON texts has fuel: functions are
  total, and a result other than None is proved where the code returns (\<open>pass_total\<close>,
  \<open>infoblox_pass_total\<close>, \<open>panics_exactly\<close>). The operations of a connector have no result for a panic; that of the library
  goes into the state \<open>Crashed\<close> then, which it never leaves, and \<open>until_crash\<close> makes None of a result with that state, so that
  the theorems over HTTP (\<open>infoblox_pass_total\<close>, \<open>main_starts_system\<close>) exclude such panics, too.

  \<^bold>\<open>What the lemmas show.\<close> A pass over the groups stores exactly the listed hosts, asks for the removal of
  exactly the records of the others, keeps the address of every host that stays listed, gives the members of a named group one address, returns
  every address it reserved and did not use, never panics over Infoblox, and changes nothing when
  nothing changed; over Infoblox, too, every stored address stays reserved and has one A record. It makes
  no more calls than the groups and the store account for. Over HTTP it does what it does on the grid, because the
  objects come back from their JSON as they were.
  The Kubernetes client keeps its queues, workers, informers and groups consistent in every run,
  panics only in the listed cases, and each handler changes the groups as the Kubernetes event asks;
  when it has nothing left to do, the last message has every host that a cached resource asks for.
  In the whole system messages arrive in order and none is lost once sent, and every host that a
  cached resource asks for gets an address, as far as the calls of the IPAM system succeed. Addresses reach the annotations of exactly the
  resources they belong to, and no interleaving annotates an object with an address that its first
  host does not have. The error theorems state the defects found: a restart that blocks promotions
  and corrupts the store, a tick before the first message, a tick that leaves annotations behind,
  the pruning loop that skips hosts, the network change that leaves a resource in two groups, the
  lost and the premature message, the message offered while the controller needs the mutex, the
  crash after a host name annotation is removed, the namespace that leaves its hosts behind, the
  deleted resource that comes back, the attribute in the grid that ends the process.

  \<^bold>\<open>Not modelled.\<close> The flag library and its usage texts, and the delivery of signals; of vlogger
  what \<^verbatim>\<open>fmt.Sprintf\<close> makes of a format, which is an argument; the test utilities; what
  \<^verbatim>\<open>http.Client.Do\<close> answers and which URLs \<^verbatim>\<open>http.NewRequest\<close> accepts, which are parameters, and the settings
  of TLS and of the connections; the objects and calls of the Infoblox library that the client does not use; of
  encoding/json the text of errors, and numbers and strings beyond what the objects have; the reflectors and delta queues that feed the caches, the API server
  and \<^verbatim>\<open>labels.Parse\<close>, which are parameters; gob, whose result is part of the event, and which in
  the whole system gives back the groups that were sent; time, except that a timer may fire and a
  send may time out; data races, because each handler and each locked section is one step, as is
  the reading and writing back of one object; that \<^verbatim>\<open>getSpec\<close> reads the groups without their mutex
  is such a race. Strings are byte strings; \<^verbatim>\<open>strings.ToLower\<close> is modelled on ASCII.
\<close>

section \<open>The controller with the Infoblox client\<close>

text \<open>With any connector whose networks have CIDRs that parse.\<close>

lemma infoblox_pass_returns:
  assumes "fair_range gord" and "fair_range ord" and "nets_parse cl" and "store_wf st"
  shows "\<exists>st' s'. processIPGroups (infoblox_ops cl) gord ord groups st s = Some (st', s') \<and> store_wf st'"
  using pass_returns [OF infoblox_contract assms(1,2) infoblox_never_panics [OF assms(3)] assms(4)]
    pass_wf [OF infoblox_contract assms(1,2) _ assms(4)] by blast

text \<open>C21. Over HTTP, a pass of the controller with the Infoblox client never panics when the server serves a grid whose
  networks have CIDRs that parse, which means that each of its answers is an error or the JSON of objects
  of the kind that was asked for: neither the controller nor the client nor the connector ends the process (a result
  with a crashed connector counts as none), whatever else the grid answers, errors included; the pass returns, and the
  store it returns is well-formed. What an answer of another kind does is
  \<open>foreign_attribute_ends_process\<close>.\<close>

theorem infoblox_pass_total:
  assumes "serves w (conn cl)" and "nets_parse cl" and "fair_range gord" and "fair_range ord" and "store_wf st"
  shows "\<exists>st' s'. until_crash (processIPGroups (infoblox_ops (over_http w cl)) gord ord groups st (alive s)) =
      Some (st', alive s') \<and> store_wf st'"
  using infoblox_pass_returns [OF assms(3,4,2,5), of groups s] by (auto simp: pass_over_http [OF assms(1)])

lemma counting_nets_parse: "nets_parse counting_client"
proof -
  have "list_all (\<lambda>n. ParseCIDR (nwCidr n) \<noteq> None) [demo_net]" by code_simp
  then show ?thesis by (simp add: nets_parse_def counting_client_def counting_grid_def)
qed

theorem infoblox_pass_total_witness:
  "\<exists>st' s'. until_crash (processIPGroups (infoblox_ops (over_http counting_server counting_client)) ascending ascending
     demo_groups demo_store (alive \<lparr>recordRef = fmempty, grid = 1\<rparr>)) = Some (st', alive s') \<and> store_wf st'"
  by (rule infoblox_pass_total [OF _ counting_nets_parse fair_ascending fair_ascending demo_store_wf])
    (simp add: counting_client_def counting_serves)

end
